(* ===== verification/Prelude.thy ===== *)
theory Prelude
  imports Main "HOL-Library.Word"
begin

text \<open>
  Shared vocabulary of the development.

  \<^item> bytes, machine integers and the slice operations of Rust's standard library;
  \<^item> \<open>outcome\<close>: what a Rust function can do (return, fail with an error value, panic,
    or recurse without end), and the state-passing \<open>parser\<close> monad over the position
    \<open>pos: &mut usize\<close> that the byte-level decoders thread;
  \<^item> \<open>wp\<close>: the weakest precondition of a parser for a normal and an error postcondition,
    which includes the absence of panics and of unbounded recursion; it computes over the
    combinators, and the component parsers add their rules to the collection \<open>wp\<close>;
  \<^item> \<open>at\<close>: ``the bytes \<open>bs\<close> stand in \<open>d\<close> at position \<open>p\<close>'', in which the round-trip
    lemmas are stated;
  \<^item> \<open>utf8_valid\<close>: the check made by \<open>core::str::from_utf8\<close>.
\<close>

unbundle bit_operations_syntax

named_theorems wp \<open>weakest-precondition rules of the component parsers\<close>
named_theorems at_intro \<open>what a parser reads from bytes that stand at its position\<close>

section \<open>Bytes and machine integers\<close>

type_synonym byte = "8 word"
type_synonym bytes = "byte list"

text \<open>Rust's \<open>String\<close> and \<open>&str\<close> are UTF-8 byte sequences; a literal is its ASCII bytes.\<close>

definition ascii :: "string \<Rightarrow> bytes" where
  "ascii s = map of_char s"

text \<open>\<open>n as u8\<close> for \<open>n: usize\<close>.\<close>

abbreviation u8 :: "nat \<Rightarrow> byte" where
  "u8 n \<equiv> of_nat n"

text \<open>Arithmetic on \<open>usize\<close> (64 bits) in a release build: the sum modulo \<open>2\<^sup>6\<^sup>4\<close>.\<close>

definition usz :: "nat \<Rightarrow> nat" where
  "usz n = n mod 2 ^ 64"

lemma usz_id [simp]: "n < 2 ^ 64 \<Longrightarrow> usz n = n"
  by (simp add: usz_def)

lemma usz_less: "usz n < 2 ^ 64"
  by (simp add: usz_def)

text \<open>The two fields of a CBOR head byte: \<open>b >> 5\<close> and \<open>b & 0x1f\<close>.\<close>

definition major :: "byte \<Rightarrow> nat" where
  "major b = unat (drop_bit 5 b)"

definition addl :: "byte \<Rightarrow> nat" where
  "addl b = unat (b AND 0x1f)"

lemma major_eq: "major b = unat b div 32"
  by (simp add: major_def drop_bit_eq_div unat_div)

lemma addl_eq: "addl b = unat b mod 32"
proof -
  have "b AND 0x1f = take_bit 5 b"
    by (simp add: take_bit_eq_mask mask_eq_exp_minus_1)
  then have "b AND 0x1f = b mod 32"
    by (simp add: take_bit_eq_mod)
  then show ?thesis
    by (simp add: addl_def unat_mod)
qed

lemma unat_byte_less: "unat (b :: byte) < 256"
  using unsigned_less [of b] by simp

lemma major_less: "major b < 8"
  using unat_byte_less [of b] by (simp add: major_eq less_mult_imp_div_less)

lemma addl_less: "addl b < 32"
  by (simp add: addl_eq)

lemma byte_split: "unat b = 32 * major b + addl b"
  by (simp add: major_eq addl_eq)

lemma unat_u8: "unat (u8 n) = n mod 256"
  by (simp add: unat_of_nat)

text \<open>\<open>(major << 5) | v\<close>, the head byte every encoder of the program writes.\<close>

definition head_byte :: "nat \<Rightarrow> nat \<Rightarrow> byte" where
  "head_byte m v = (push_bit 5 (u8 m) OR u8 v)"

lemma head_byte_plus:
  assumes "v < 32"
  shows "head_byte m v = u8 (32 * m + v)"
proof -
  have v: "u8 v = take_bit 5 (u8 v)"
    using assms by (simp add: take_bit_of_nat take_bit_nat_eq_self)
  have "push_bit 5 (u8 m) AND u8 v = 0"
    by (subst v) (rule bit_eqI, auto simp: bit_simps)
  then have "push_bit 5 (u8 m) OR u8 v = push_bit 5 (u8 m) + u8 v"
    by (simp add: disjunctive_add_eq_or)
  then show ?thesis
    by (simp add: head_byte_def push_bit_eq_mult)
qed

lemma unat_head_byte: "m < 8 \<Longrightarrow> v < 32 \<Longrightarrow> unat (head_byte m v) = 32 * m + v"
  by (simp add: head_byte_plus unat_u8 del: of_nat_add of_nat_mult)

lemma major_head_byte [simp]: "m < 8 \<Longrightarrow> v < 32 \<Longrightarrow> major (head_byte m v) = m"
  by (simp add: major_eq unat_head_byte)

lemma addl_head_byte [simp]: "m < 8 \<Longrightarrow> v < 32 \<Longrightarrow> addl (head_byte m v) = v"
  by (simp add: addl_eq unat_head_byte)

lemma head_byte_major_addl: "head_byte (major b) (addl b) = b"
  by (simp add: head_byte_plus addl_less flip: byte_split)

section \<open>Slices\<close>

text \<open>\<open>data.get(a..b)\<close>; the panicking form \<open>data[a..b]\<close> is \<open>slice\<close> below.\<close>

definition get_range :: "'a list \<Rightarrow> nat \<Rightarrow> nat \<Rightarrow> 'a list option" where
  "get_range d a b = (if a \<le> b \<and> b \<le> length d then Some (take (b - a) (drop a d)) else None)"

lemma get_range_Some:
  "get_range d a b = Some s \<longleftrightarrow> a \<le> b \<and> b \<le> length d \<and> s = take (b - a) (drop a d)"
  by (auto simp: get_range_def)

lemma length_get_range: "get_range d a b = Some s \<Longrightarrow> length s = b - a"
  by (auto simp: get_range_Some)

section \<open>Outcomes and computations\<close>

text \<open>
  \<open>Err ()\<close> is Rust's \<open>None\<close> where the function returns an \<open>Option\<close>. \<open>Panic\<close> is an
  index, slice or arithmetic panic, which this firmware turns into a warm reboot.
  \<open>Diverge\<close> is a recursion that has not ended within its fuel. A computation carries a state;
  that of a parser is the position in the buffer.
\<close>

datatype ('e, 'a) outcome = Ret 'a | Err 'e | Panic | Diverge

type_synonym ('w, 'e, 'a) comp = "'w \<Rightarrow> ('e, 'a) outcome \<times> 'w"

type_synonym ('e, 'a) parser = "(nat, 'e, 'a) comp"

definition ret :: "'a \<Rightarrow> ('w, 'e, 'a) comp" where
  "ret x p = (Ret x, p)"

definition throw :: "'e \<Rightarrow> ('w, 'e, 'a) comp" where
  "throw e p = (Err e, p)"

definition panic :: "('w, 'e, 'a) comp" where
  "panic p = (Panic, p)"

definition diverge :: "('w, 'e, 'a) comp" where
  "diverge p = (Diverge, p)"

definition bind :: "('w, 'e, 'a) comp \<Rightarrow> ('a \<Rightarrow> ('w, 'e, 'b) comp) \<Rightarrow> ('w, 'e, 'b) comp" where
  "bind m f p = (case m p of (Ret x, q) \<Rightarrow> f x q | (Err e, q) \<Rightarrow> (Err e, q)
     | (Panic, q) \<Rightarrow> (Panic, q) | (Diverge, q) \<Rightarrow> (Diverge, q))"

text \<open>\<open>if !c { return Err(e) }\<close>.\<close>

definition guard :: "bool \<Rightarrow> 'e \<Rightarrow> ('w, 'e, unit) comp" where
  "guard c e = (if c then ret () else throw e)"

text \<open>\<open>r.ok_or(e)?\<close> and \<open>r.ok()\<close>: change the error value, or make it a value.\<close>

definition or_err :: "('w, 'e, 'a) comp \<Rightarrow> 'f \<Rightarrow> ('w, 'f, 'a) comp" where
  "or_err m e p = (case m p of (Ret x, q) \<Rightarrow> (Ret x, q) | (Err _, q) \<Rightarrow> (Err e, q)
     | (Panic, q) \<Rightarrow> (Panic, q) | (Diverge, q) \<Rightarrow> (Diverge, q))"

definition attempt :: "('w, 'e, 'a) comp \<Rightarrow> ('w, 'f, 'a option) comp" where
  "attempt m p = (case m p of (Ret x, q) \<Rightarrow> (Ret (Some x), q) | (Err _, q) \<Rightarrow> (Ret None, q)
     | (Panic, q) \<Rightarrow> (Panic, q) | (Diverge, q) \<Rightarrow> (Diverge, q))"

definition of_option :: "'e \<Rightarrow> 'a option \<Rightarrow> ('w, 'e, 'a) comp" where
  "of_option e x = (case x of Some y \<Rightarrow> ret y | None \<Rightarrow> throw e)"

text \<open>Reading and writing the position.\<close>

definition get_pos :: "('e, nat) parser" where
  "get_pos p = (Ret p, p)"

definition set_pos :: "nat \<Rightarrow> ('e, unit) parser" where
  "set_pos q p = (Ret (), q)"

text \<open>\<open>let b = *data.get(*pos)?; *pos += 1;\<close> and the same without the step.\<close>

definition next_byte :: "bytes \<Rightarrow> (unit, byte) parser" where
  "next_byte d p = (if p < length d then (Ret (d ! p), Suc p) else (Err (), p))"

definition peek_byte :: "bytes \<Rightarrow> (unit, byte) parser" where
  "peek_byte d p = (if p < length d then (Ret (d ! p), p) else (Err (), p))"

text \<open>\<open>let s = data.get(*pos..*pos + n)?; *pos += n;\<close>.\<close>

definition take_bytes :: "bytes \<Rightarrow> nat \<Rightarrow> (unit, bytes) parser" where
  "take_bytes d n p = (case get_range d p (p + n) of Some s \<Rightarrow> (Ret s, p + n) | None \<Rightarrow> (Err (), p))"

text \<open>\<open>&data[a..b]\<close>: a panic when out of range.\<close>

definition slice :: "bytes \<Rightarrow> nat \<Rightarrow> nat \<Rightarrow> ('e, bytes) parser" where
  "slice d a b = (case get_range d a b of Some s \<Rightarrow> ret s | None \<Rightarrow> panic)"

text \<open>
  \<open>for _ in 0..n { body }\<close>, a body that may leave by \<open>?\<close>, and a loop whose body may also
  return from the enclosing function (\<open>Stop\<close>).
\<close>

fun repeat :: "nat \<Rightarrow> ('s \<Rightarrow> ('w, 'e, 's) comp) \<Rightarrow> 's \<Rightarrow> ('w, 'e, 's) comp" where
  "repeat 0 body s = ret s"
| "repeat (Suc n) body s = bind (body s) (repeat n body)"

datatype ('s, 'r) flow = Next 's | Stop 'r

fun repeat_flow :: "nat \<Rightarrow> ('s \<Rightarrow> ('e, ('s, 'r) flow) parser) \<Rightarrow> 's \<Rightarrow> ('e, ('s, 'r) flow) parser" where
  "repeat_flow 0 body s = ret (Next s)"
| "repeat_flow (Suc n) body s = bind (body s) (\<lambda>f. case f of
     Next s' \<Rightarrow> repeat_flow n body s' | Stop r \<Rightarrow> ret (Stop r))"

text \<open>
  \<open>while c(pos) { body }\<close> with at most \<open>k\<close> iterations; a loop that has not ended by then is
  \<open>Diverge\<close>.
\<close>

fun while_flow :: "nat \<Rightarrow> (nat \<Rightarrow> bool) \<Rightarrow> ('s \<Rightarrow> ('e, ('s, 'r) flow) parser) \<Rightarrow> 's \<Rightarrow> ('e, ('s, 'r) flow) parser" where
  "while_flow 0 c body s = diverge"
| "while_flow (Suc k) c body s = bind get_pos (\<lambda>p.
     if c p then bind (body s) (\<lambda>f. case f of
       Next s' \<Rightarrow> while_flow k c body s' | Stop r \<Rightarrow> ret (Stop r))
     else ret (Next s))"

declare while_flow.simps [simp del]

text \<open>
  \<open>let x = match m { Some(x) => x, None => return r };\<close>, the code after such a loop, and
  the result of a call that keeps a position of its own.
\<close>

definition let_else :: "('w, 'e, 'a) comp \<Rightarrow> 'r \<Rightarrow> ('a \<Rightarrow> ('w, 'f, 'r) comp) \<Rightarrow> ('w, 'f, 'r) comp" where
  "let_else m r f = bind (attempt m) (\<lambda>x. case x of Some y \<Rightarrow> f y | None \<Rightarrow> ret r)"

definition end_loop :: "('w, 'e, ('s, 'r) flow) comp \<Rightarrow> ('s \<Rightarrow> ('w, 'e, 'r) comp) \<Rightarrow> ('w, 'e, 'r) comp" where
  "end_loop m k = bind m (\<lambda>f. case f of Next s \<Rightarrow> k s | Stop r \<Rightarrow> ret r)"

definition lift :: "('e, 'a) outcome \<Rightarrow> ('w, 'e, 'a) comp" where
  "lift x p = (x, p)"

text \<open>Evaluation on numeral counts.\<close>

lemma repeat_eval: "repeat n body s = (if n = 0 then ret s else bind (body s) (repeat (n - 1) body))"
  by (cases n) auto

lemma repeat_flow_eval:
  "repeat_flow n body s = (if n = 0 then ret (Next s) else bind (body s) (\<lambda>f. case f of
     Next s' \<Rightarrow> repeat_flow (n - 1) body s' | Stop r \<Rightarrow> ret (Stop r)))"
  by (cases n) auto

text \<open>Running a parser on a whole buffer from position 0, keeping only the result.\<close>

definition run :: "('e, 'a) parser \<Rightarrow> ('e, 'a) outcome" where
  "run m = fst (m 0)"

lemmas parser_defs = ret_def throw_def panic_def diverge_def bind_def guard_def or_err_def
  attempt_def of_option_def get_pos_def set_pos_def slice_def

lemma ret_apply [simp]: "ret x p = (Ret x, p)"
  and throw_apply [simp]: "throw e p = (Err e, p)"
  and panic_apply [simp]: "panic p = (Panic, p)"
  and diverge_apply [simp]: "diverge p = (Diverge, p)"
  by (simp_all add: parser_defs)

lemma get_pos_apply [simp]: "get_pos p = (Ret p, p)"
  and set_pos_apply [simp]: "set_pos q p = (Ret (), q)"
  by (simp_all add: parser_defs)

lemma guard_simps [simp]: "guard True e = ret ()" "guard False e = throw e"
  by (simp_all add: guard_def)

lemma of_option_simps [simp]: "of_option e (Some x) = ret x" "of_option e None = throw e"
  by (simp_all add: of_option_def)

lemma bind_ret [simp]: "bind (ret x) f = f x"
  and bind_throw [simp]: "bind (throw e) f = throw e"
  and bind_panic [simp]: "bind panic f = panic"
  and bind_diverge [simp]: "bind diverge f = diverge"
  by (auto simp: fun_eq_iff parser_defs)

lemma bind_assoc: "bind (bind m f) g = bind m (\<lambda>x. bind (f x) g)"
  by (auto simp: fun_eq_iff bind_def split: prod.splits outcome.splits)

lemma bind_step: "m p = (Ret x, q) \<Longrightarrow> bind m f p = f x q"
  by (simp add: bind_def)

lemma bind_Ret_iff:
  "bind m f p = (Ret y, r) \<longleftrightarrow> (\<exists>x q. m p = (Ret x, q) \<and> f x q = (Ret y, r))"
  by (auto simp: bind_def split: prod.splits outcome.splits)

lemma guard_Ret_iff: "guard c e p = (Ret u, q) \<longleftrightarrow> c \<and> q = p"
  by (auto simp: guard_def)

lemma or_err_Ret_iff: "or_err m e p = (Ret x, q) \<longleftrightarrow> m p = (Ret x, q)"
  by (auto simp: or_err_def split: prod.splits outcome.splits)

lemma attempt_Ret_iff:
  "attempt m p = (Ret y, q) \<longleftrightarrow>
     (case y of Some x \<Rightarrow> m p = (Ret x, q) | None \<Rightarrow> (\<exists>e. m p = (Err e, q)))"
  by (auto simp: attempt_def split: prod.splits outcome.splits option.splits)

lemma of_option_Ret_iff: "of_option e x p = (Ret y, q) \<longleftrightarrow> x = Some y \<and> q = p"
  by (auto simp: of_option_def split: option.splits)

lemma next_byte_Ret_iff: "next_byte d p = (Ret b, q) \<longleftrightarrow> p < length d \<and> b = d ! p \<and> q = Suc p"
  by (auto simp: next_byte_def)

lemma peek_byte_Ret_iff: "peek_byte d p = (Ret b, q) \<longleftrightarrow> p < length d \<and> b = d ! p \<and> q = p"
  by (auto simp: peek_byte_def)

lemma take_bytes_Ret_iff:
  "take_bytes d n p = (Ret s, q) \<longleftrightarrow> p + n \<le> length d \<and> s = take n (drop p d) \<and> q = p + n"
  by (auto simp: take_bytes_def get_range_def)

lemma slice_Ret_iff: "slice d a b p = (Ret s, q) \<longleftrightarrow> get_range d a b = Some s \<and> q = p"
  by (auto simp: slice_def split: option.splits)

text \<open>Inversion of a successful run, step by step.\<close>

lemmas Ret_iffs = bind_Ret_iff guard_Ret_iff or_err_Ret_iff attempt_Ret_iff of_option_Ret_iff
  next_byte_Ret_iff peek_byte_Ret_iff take_bytes_Ret_iff slice_Ret_iff

section \<open>Weakest preconditions\<close>

definition wp :: "('w, 'e, 'a) comp \<Rightarrow> ('a \<Rightarrow> 'w \<Rightarrow> bool) \<Rightarrow> ('e \<Rightarrow> 'w \<Rightarrow> bool) \<Rightarrow> 'w \<Rightarrow> bool" where
  "wp m Q E p = (case m p of (Ret x, q) \<Rightarrow> Q x q | (Err e, q) \<Rightarrow> E e q | _ \<Rightarrow> False)"

text \<open>No panic and no unbounded recursion.\<close>

definition safe :: "('w, 'e, 'a) comp \<Rightarrow> 'w \<Rightarrow> bool" where
  "safe m p \<longleftrightarrow> fst (m p) \<noteq> Panic \<and> fst (m p) \<noteq> Diverge"

lemma safe_wp: "safe m p \<longleftrightarrow> wp m (\<lambda>_ _. True) (\<lambda>_ _. True) p"
  by (auto simp: safe_def wp_def split: prod.splits outcome.splits)

lemma wp_ret [simp]: "wp (ret x) Q E p = Q x p"
  by (simp add: wp_def)

lemma wp_ret': "wp (ret x) Q E = Q x"
  by (rule ext) simp

lemma wp_throw [simp]: "wp (throw e) Q E p = E e p"
  by (simp add: wp_def)

lemma wp_panic [simp]: "\<not> wp panic Q E p" and wp_diverge [simp]: "\<not> wp diverge Q E p"
  by (simp_all add: wp_def)

lemma wp_guard [simp]: "wp (guard c e) Q E p = (if c then Q () p else E e p)"
  by (simp add: guard_def)

lemma wp_get_pos [simp]: "wp get_pos Q E p = Q p p"
  by (simp add: wp_def)

lemma wp_set_pos [simp]: "wp (set_pos q) Q E p = Q () q"
  by (simp add: wp_def)

lemma wp_bind [simp]: "wp (bind m f) Q E p = wp m (\<lambda>x. wp (f x) Q E) E p"
  by (auto simp: wp_def bind_def split: prod.splits outcome.splits)

lemma wp_or_err [simp]: "wp (or_err m e) Q E p = wp m Q (\<lambda>_. E e) p"
  by (auto simp: wp_def or_err_def split: prod.splits outcome.splits)

lemma wp_attempt [simp]: "wp (attempt m) Q E p = wp m (\<lambda>x. Q (Some x)) (\<lambda>_. Q None) p"
  by (auto simp: wp_def attempt_def split: prod.splits outcome.splits)

lemma wp_of_option [simp]:
  "wp (of_option e x) Q E p = (case x of Some y \<Rightarrow> Q y p | None \<Rightarrow> E e p)"
  by (auto simp: wp_def of_option_def split: option.splits)

lemma wp_next_byte [simp]:
  "wp (next_byte d) Q E p = (if p < length d then Q (d ! p) (Suc p) else E () p)"
  by (auto simp: wp_def next_byte_def)

lemma wp_peek_byte [simp]:
  "wp (peek_byte d) Q E p = (if p < length d then Q (d ! p) p else E () p)"
  by (auto simp: wp_def peek_byte_def)

lemma wp_take_bytes [simp]:
  "wp (take_bytes d n) Q E p =
     (if p + n \<le> length d then Q (take n (drop p d)) (p + n) else E () p)"
  by (auto simp: wp_def take_bytes_def get_range_def)

lemma wp_slice [simp]:
  "wp (slice d a b) Q E p = (a \<le> b \<and> b \<le> length d \<and> Q (take (b - a) (drop a d)) p)"
  by (auto simp: slice_def get_range_def)

lemma wp_if [simp]: "wp (if c then m else m') Q E p = (if c then wp m Q E p else wp m' Q E p)"
  by simp

lemma wp_conseq:
  assumes "wp m Q E p" and "\<And>x q. Q x q \<Longrightarrow> Q' x q" and "\<And>e q. E e q \<Longrightarrow> E' e q"
  shows "wp m Q' E' p"
  using assms by (auto simp: wp_def split: prod.splits outcome.splits)

lemma wp_Ret: "wp m Q E p \<Longrightarrow> m p = (Ret x, q) \<Longrightarrow> Q x q"
  by (simp add: wp_def)

lemma wp_conj:
  "wp m Q E p \<Longrightarrow> wp m Q' E' p \<Longrightarrow> wp m (\<lambda>x q. Q x q \<and> Q' x q) (\<lambda>e q. E e q \<and> E' e q) p"
  by (auto simp: wp_def split: prod.splits outcome.splits)

text \<open>The loop rules, with an invariant over the loop state and the position.\<close>

lemma wp_repeat:
  assumes "\<And>s p. I s p \<Longrightarrow> wp (body s) I E p" and "I s p"
  shows "wp (repeat n body s) I E p"
  using assms(2)
proof (induction n arbitrary: s p)
  case (Suc n)
  have "wp (body s) I E p" by (rule assms(1)) (rule Suc.prems)
  then have "wp (body s) (\<lambda>s'. wp (repeat n body s') I E) E p"
    by (rule wp_conseq) (auto intro: Suc.IH)
  then show ?case by simp
qed simp

lemma wp_repeat_flow:
  assumes "\<And>s p. I s p \<Longrightarrow>
      wp (body s) (\<lambda>f q. case f of Next s' \<Rightarrow> I s' q | Stop r \<Rightarrow> R r q) E p"
    and "I s p"
  shows "wp (repeat_flow n body s) (\<lambda>f q. case f of Next s' \<Rightarrow> I s' q | Stop r \<Rightarrow> R r q) E p"
  using assms(2)
proof (induction n arbitrary: s p)
  case (Suc n)
  let ?Q = "\<lambda>f q. case f of Next s' \<Rightarrow> I s' q | Stop r \<Rightarrow> R r q"
  have "wp (case f of Next s' \<Rightarrow> repeat_flow n body s' | Stop r \<Rightarrow> ret (Stop r)) ?Q E q" if "?Q f q" for f q
    using that by (cases f) (auto intro: Suc.IH)
  then show ?case
    by (simp add: wp_conseq [OF assms(1) [OF Suc.prems]])
qed simp

lemma wp_let_else [simp]: "wp (let_else m r f) Q E p = wp m (\<lambda>x. wp (f x) Q E) (\<lambda>_. Q r) p"
  by (simp add: let_else_def wp_ret')

lemma wp_end_loop:
  assumes "\<And>s p. I s p \<Longrightarrow>
      wp (body s) (\<lambda>f q. case f of Next s' \<Rightarrow> I s' q | Stop r \<Rightarrow> Q r q) E p"
    and "\<And>s q. I s q \<Longrightarrow> wp (k s) Q E q" and "I s p"
  shows "wp (end_loop (repeat_flow n body s) k) Q E p"
  unfolding end_loop_def wp_bind
  by (rule wp_conseq [OF wp_repeat_flow [where I = I and R = Q]])
    (use assms in \<open>auto split: flow.splits\<close>)

lemma wp_while:
  assumes "\<And>s p. I s p \<Longrightarrow> c p \<Longrightarrow>
      wp (body s) (\<lambda>f q. case f of Next s' \<Rightarrow> I s' q \<and> p < q | Stop r \<Rightarrow> Q r q) E p"
    and "\<And>s q. I s q \<Longrightarrow> \<not> c q \<Longrightarrow> wp (k s) Q E q"
    and "\<And>s p. I s p \<Longrightarrow> c p \<Longrightarrow> p < n" and "I s p" and "n < p + fuel" and "0 < fuel"
  shows "wp (end_loop (while_flow fuel c body s) k) Q E p"
proof -
  let ?Q = "\<lambda>f q. case f of Next s' \<Rightarrow> I s' q \<and> \<not> c q | Stop r \<Rightarrow> Q r q"
  have "wp (while_flow fuel c body s) ?Q E p"
    using assms(4-6)
  proof (induction fuel arbitrary: s p)
    case (Suc fuel)
    show ?case
    proof (cases "c p")
      case True
      have "wp (case f of Next s' \<Rightarrow> while_flow fuel c body s' | Stop r \<Rightarrow> ret (Stop r)) ?Q E q"
        if "case f of Next s' \<Rightarrow> I s' q \<and> p < q | Stop r \<Rightarrow> Q r q" for f q
      proof (cases f)
        case (Next s')
        then have "I s' q" "p < q" using that by auto
        moreover have "p < n" by (rule assms(3) [OF Suc.prems(1) True])
        ultimately show ?thesis
          using Suc.prems Suc.IH [of s' q] Next by auto
      qed (use that in auto)
      then show ?thesis
        using True by (simp add: while_flow.simps wp_conseq [OF assms(1) [OF Suc.prems(1) True]])
    qed (use Suc.prems in \<open>simp add: while_flow.simps\<close>)
  qed simp
  then show ?thesis
    unfolding end_loop_def wp_bind
    by (rule wp_conseq) (use assms(2) in \<open>auto split: flow.splits\<close>)
qed

text \<open>A recursive skipper \<open>m\<close> that moves forward from every position the fuel covers also does so one level up, alone and in a loop.\<close>

lemma wp_nested:
  assumes "\<And>p. n < p + k \<Longrightarrow> 0 < k \<Longrightarrow> wp m (\<lambda>_ q. p < q) (\<lambda>_ q. p \<le> q) p" and "n < p + Suc k" and "p < q" and "p < n"
  shows "wp m (\<lambda>_ r. p < r) (\<lambda>_ r. p \<le> r) q" and "wp (repeat c (\<lambda>_. m) ()) (\<lambda>_ r. p < r) (\<lambda>_ r. p \<le> r) q"
proof -
  have item: "wp m (\<lambda>_ r. p < r) (\<lambda>_ r. p \<le> r) q" if "p < q" for q
    by (rule wp_conseq [OF assms(1)]) (use assms that in auto)
  then show "wp m (\<lambda>_ r. p < r) (\<lambda>_ r. p \<le> r) q" using assms(3) .
  show "wp (repeat c (\<lambda>_. m) ()) (\<lambda>_ r. p < r) (\<lambda>_ r. p \<le> r) q"
    by (rule wp_repeat [where I = "\<lambda>_ r. p < r"]) (use assms(3) item in auto)
qed

text \<open>The same on outcomes: \<open>holds r Q E\<close> when \<open>r\<close> is a value in \<open>Q\<close> or an error in \<open>E\<close>.\<close>

definition holds :: "('e, 'a) outcome \<Rightarrow> ('a \<Rightarrow> bool) \<Rightarrow> ('e \<Rightarrow> bool) \<Rightarrow> bool" where
  "holds r Q E = (case r of Ret x \<Rightarrow> Q x | Err e \<Rightarrow> E e | _ \<Rightarrow> False)"

abbreviation total :: "('e, 'a) outcome \<Rightarrow> bool" where
  "total r \<equiv> holds r (\<lambda>_. True) (\<lambda>_. True)"

lemma holds_simps [simp]:
  "holds (Ret x) Q E = Q x" "holds (Err e) Q E = E e" "\<not> holds Panic Q E" "\<not> holds Diverge Q E"
  by (simp_all add: holds_def)

lemma total_iff: "total r \<longleftrightarrow> r \<noteq> Panic \<and> r \<noteq> Diverge"
  by (cases r) auto

lemma wp_lift [simp]: "wp (lift r) Q E p = holds r (\<lambda>x. Q x p) (\<lambda>e. E e p)"
  by (cases r) (simp_all add: wp_def lift_def)

lemma holds_run [simp]: "holds (run m) Q E = wp m (\<lambda>x _. Q x) (\<lambda>e _. E e) 0"
  by (auto simp: run_def wp_def holds_def split: prod.splits outcome.splits)

lemma holds_conseq:
  assumes "holds r Q E" and "\<And>x. r = Ret x \<Longrightarrow> Q x \<Longrightarrow> Q' x" and "\<And>e. r = Err e \<Longrightarrow> E e \<Longrightarrow> E' e"
  shows "holds r Q' E'"
  using assms by (cases r) auto

lemma holds_Ret: "holds r Q (\<lambda>_. False) \<Longrightarrow> \<exists>x. r = Ret x \<and> Q x"
  by (cases r) auto

lemma lift_Ret_iff: "lift r p = (Ret x, q) \<longleftrightarrow> r = Ret x \<and> q = p"
  by (auto simp: lift_def)

lemma let_else_Ret_iff:
  "let_else m r f p = (Ret y, q) \<longleftrightarrow>
     (\<exists>x p'. m p = (Ret x, p') \<and> f x p' = (Ret y, q)) \<or> (\<exists>e. m p = (Err e, q) \<and> y = r)"
  by (auto simp: let_else_def bind_def attempt_def split: prod.splits outcome.splits)

lemma end_loop_Ret_iff:
  "end_loop m k p = (Ret y, q) \<longleftrightarrow>
     (\<exists>s p'. m p = (Ret (Next s), p') \<and> k s p' = (Ret y, q)) \<or> m p = (Ret (Stop y), q)"
  by (auto simp: end_loop_def bind_def split: prod.splits outcome.splits flow.splits)

text \<open>Sequencing calls that keep no position: \<open>let x = r?; \<dots>\<close>.\<close>

definition obind :: "('e, 'a) outcome \<Rightarrow> ('a \<Rightarrow> ('e, 'b) outcome) \<Rightarrow> ('e, 'b) outcome" where
  "obind r f = (case r of Ret x \<Rightarrow> f x | Err e \<Rightarrow> Err e | Panic \<Rightarrow> Panic | Diverge \<Rightarrow> Diverge)"

lemma obind_simps [simp]:
  "obind (Ret x) f = f x" "obind (Err e) f = Err e" "obind Panic f = Panic" "obind Diverge f = Diverge"
  by (simp_all add: obind_def)

lemma holds_obind [simp]: "holds (obind r f) Q E = holds r (\<lambda>x. holds (f x) Q E) E"
  by (cases r) auto

lemma obind_Ret_iff: "obind r f = Ret y \<longleftrightarrow> (\<exists>x. r = Ret x \<and> f x = Ret y)"
  by (cases r) auto

text \<open>\<open>r.ok_or(e)\<close> and \<open>r.map_err(|_| e)\<close> on results.\<close>

definition ok_or :: "('f, 'a) outcome \<Rightarrow> 'e \<Rightarrow> ('e, 'a) outcome" where
  "ok_or r e = (case r of Ret x \<Rightarrow> Ret x | Err _ \<Rightarrow> Err e | Panic \<Rightarrow> Panic | Diverge \<Rightarrow> Diverge)"

lemma ok_or_simps [simp]: "ok_or (Ret x) e = Ret x" "ok_or (Err f) e = Err e" "ok_or Panic e = Panic" "ok_or Diverge e = Diverge"
  by (simp_all add: ok_or_def)

lemma holds_ok_or [simp]: "holds (ok_or r e) Q E = holds r Q (\<lambda>_. E e)"
  by (cases r) auto

lemma ok_or_Ret_iff: "ok_or r e = Ret x \<longleftrightarrow> r = Ret x"
  by (cases r) auto

text \<open>\<open>match r { Ok(x) => f, Err(e) => g }\<close>.\<close>

definition handle :: "('e, 'a) outcome \<Rightarrow> ('a \<Rightarrow> ('f, 'b) outcome) \<Rightarrow> ('e \<Rightarrow> ('f, 'b) outcome) \<Rightarrow> ('f, 'b) outcome" where
  "handle r f g = (case r of Ret x \<Rightarrow> f x | Err e \<Rightarrow> g e | Panic \<Rightarrow> Panic | Diverge \<Rightarrow> Diverge)"

lemma handle_simps [simp]:
  "handle (Ret x) f g = f x" "handle (Err e) f g = g e" "handle Panic f g = Panic" "handle Diverge f g = Diverge"
  by (simp_all add: handle_def)

lemma holds_handle [simp]: "holds (handle r f g) Q E = holds r (\<lambda>x. holds (f x) Q E) (\<lambda>e. holds (g e) Q E)"
  by (cases r) auto

lemma handle_Ret_iff: "handle r f g = Ret y \<longleftrightarrow> (\<exists>x. r = Ret x \<and> f x = Ret y) \<or> (\<exists>e. r = Err e \<and> g e = Ret y)"
  by (cases r) auto

lemma case_option_Ret_iff: "(case x of None \<Rightarrow> Err e | Some y \<Rightarrow> f y) = Ret z \<longleftrightarrow> (\<exists>y. x = Some y \<and> f y = Ret z)"
  by (cases x) auto

lemma if_Err_Ret_iff: "(if c then Err e else r) = Ret z \<longleftrightarrow> \<not> c \<and> r = Ret z"
  by simp

lemma run_Ret_iff: "run m = Ret x \<longleftrightarrow> (\<exists>q. m 0 = (Ret x, q))"
  by (auto simp: run_def) (metis prod.collapse)

lemmas Ret_iffs' = Ret_iffs lift_Ret_iff let_else_Ret_iff end_loop_Ret_iff run_Ret_iff

section \<open>Bytes at a position\<close>

definition at :: "bytes \<Rightarrow> nat \<Rightarrow> bytes \<Rightarrow> bool" where
  "at d p bs \<longleftrightarrow> p + length bs \<le> length d \<and> take (length bs) (drop p d) = bs"

lemma at_Nil [simp]: "at d p [] \<longleftrightarrow> p \<le> length d"
  by (simp add: at_def)

lemma at_Cons [simp]: "at d p (b # bs) \<longleftrightarrow> p < length d \<and> d ! p = b \<and> at d (Suc p) bs"
  by (auto simp: at_def take_Suc_conv_app_nth hd_drop_conv_nth drop_Suc tl_drop
      simp flip: Cons_nth_drop_Suc)

lemma at_append [simp]: "at d p (xs @ ys) \<longleftrightarrow> at d p xs \<and> at d (p + length xs) ys"
  by (auto simp: at_def take_add add.commute)

lemma at_bound: "at d p bs \<Longrightarrow> p + length bs \<le> length d"
  by (simp add: at_def)

lemma at_self: "at (xs @ bs @ ys) (length xs) bs"
  by (simp add: at_def)

lemma at_whole: "at d 0 d"
  by (simp add: at_def)

lemma at_take_bytes: "at d p bs \<Longrightarrow> take_bytes d (length bs) p = (Ret bs, p + length bs)"
  by (simp add: at_def take_bytes_def get_range_def)

lemma at_get_range: "at d p bs \<Longrightarrow> get_range d p (p + length bs) = Some bs"
  by (simp add: at_def get_range_def)

lemma at_less: "at d p bs \<Longrightarrow> bs \<noteq> [] \<Longrightarrow> p < length d"
  by (cases bs) auto

lemma at_next_byte: "at d p (b # bs) \<Longrightarrow> next_byte d p = (Ret b, Suc p)"
  by (simp add: next_byte_def)

text \<open>
  A loop over a sequence of encoded entries: when each iteration does \<open>step\<close> on the entry
  that stands at its position, the loop walks the entries.
\<close>

fun walk :: "('x \<Rightarrow> 's \<Rightarrow> ('e, ('s, 'r) flow) outcome) \<Rightarrow> 'x list \<Rightarrow> 's \<Rightarrow> ('e, ('s, 'r) flow) outcome" where
  "walk step [] s = Ret (Next s)"
| "walk step (x # xs) s = (case step x s of Ret (Next s') \<Rightarrow> walk step xs s' | r \<Rightarrow> r)"

lemma repeat_flow_walk:
  assumes "\<And>x p s. x \<in> set xs \<Longrightarrow> at d p (e x) \<Longrightarrow>
      fst (body s p) = step x s \<and> (\<forall>s'. step x s = Ret (Next s') \<longrightarrow> snd (body s p) = p + length (e x))"
    and "at d p (concat (map e xs))"
  shows "fst (repeat_flow (length xs) body s p) = walk step xs s \<and>
    (\<forall>s'. walk step xs s = Ret (Next s') \<longrightarrow>
      snd (repeat_flow (length xs) body s p) = p + length (concat (map e xs)))"
  using assms
proof (induction xs arbitrary: p s)
  case (Cons x xs)
  have body: "fst (body s p) = step x s"
      "\<forall>s'. step x s = Ret (Next s') \<longrightarrow> snd (body s p) = p + length (e x)"
    using Cons.prems(1) [of x p s] Cons.prems(2) by auto
  have "fst (repeat_flow (length xs) body s' (p + length (e x))) = walk step xs s' \<and>
    (\<forall>s''. walk step xs s' = Ret (Next s'') \<longrightarrow> snd (repeat_flow (length xs) body s' (p + length (e x)))
        = p + length (e x) + length (concat (map e xs)))" for s'
    by (rule Cons.IH) (use Cons.prems in auto)
  then show ?case
    using body by (cases "body s p") (auto simp: bind_def add.assoc split: outcome.splits flow.splits)
qed simp

lemma repeat_collect:
  assumes "\<And>x p acc. x \<in> set xs \<Longrightarrow> at d p (e x) \<Longrightarrow> body acc p = (Ret (acc @ [f x]), p + length (e x))"
    and "at d p (concat (map e xs))"
  shows "repeat (length xs) body acc p = (Ret (acc @ map f xs), p + length (concat (map e xs)))"
  using assms
proof (induction xs arbitrary: p acc)
  case (Cons x xs)
  have "body acc p = (Ret (acc @ [f x]), p + length (e x))"
    using Cons.prems by simp
  moreover have "repeat (length xs) body (acc @ [f x]) (p + length (e x)) =
      (Ret ((acc @ [f x]) @ map f xs), p + length (e x) + length (concat (map e xs)))"
    by (rule Cons.IH) (use Cons.prems in simp_all)
  ultimately show ?case by (simp add: bind_step add.assoc)
qed simp

text \<open>A \<open>repeat\<close> over the encodings of items is a fold over the items.\<close>

fun ofold :: "('x \<Rightarrow> 's \<Rightarrow> ('e, 's) outcome) \<Rightarrow> 'x list \<Rightarrow> 's \<Rightarrow> ('e, 's) outcome" where
  "ofold f [] s = Ret s"
| "ofold f (x # xs) s = obind (f x s) (ofold f xs)"

text \<open>\<open>reads m p n r\<close>: at \<open>p\<close> the parser gives \<open>r\<close>, and has moved by \<open>n\<close> when it succeeds.\<close>

definition reads :: "('e, 'a) parser \<Rightarrow> nat \<Rightarrow> nat \<Rightarrow> ('e, 'a) outcome \<Rightarrow> bool" where
  "reads m p n r \<longleftrightarrow> fst (m p) = r \<and> (\<forall>x. r = Ret x \<longrightarrow> snd (m p) = p + n)"

lemma reads_exact: "m p = (Ret x, p + n) \<Longrightarrow> reads m p n (Ret x)"
  by (simp add: reads_def)

lemma reads_or_err: "reads m p n r \<Longrightarrow> reads (or_err m e) p n (case r of Ret x \<Rightarrow> Ret x | Err _ \<Rightarrow> Err e | Panic \<Rightarrow> Panic | Diverge \<Rightarrow> Diverge)"
  by (cases "m p") (auto simp: reads_def or_err_def split: outcome.splits)

lemma reads_bind:
  assumes "reads m p n r" and "\<And>x. r = Ret x \<Longrightarrow> reads (f x) (p + n) k (g x)"
  shows "reads (bind m f) p (n + k) (obind r g)"
  using assms by (cases "m p") (auto simp: reads_def bind_def obind_def add.assoc split: outcome.splits)

lemma reads_map:
  assumes "reads m p n r"
  shows "reads (bind m (\<lambda>x. ret (f x))) p n (obind r (\<lambda>x. Ret (f x)))"
  using assms by (cases "m p") (auto simp: reads_def bind_def obind_def split: outcome.splits)

lemma repeat_fold:
  assumes "\<And>x p s. x \<in> set xs \<Longrightarrow> at d p (e x) \<Longrightarrow> reads (body s) p (length (e x)) (step x s)"
    and "at d p (concat (map e xs))"
  shows "reads (repeat (length xs) body s) p (length (concat (map e xs))) (ofold step xs s)"
  using assms
proof (induction xs arbitrary: p s)
  case (Cons x xs)
  have "reads (repeat (length xs) body s') (p + length (e x)) (length (concat (map e xs))) (ofold step xs s')" for s'
    by (rule Cons.IH) (use Cons.prems in auto)
  with Cons.prems show ?case
    by (simp add: reads_bind)
qed (simp add: reads_def)

lemma length_concat_ge: "(\<And>x. x \<in> set xs \<Longrightarrow> e x \<noteq> []) \<Longrightarrow> length xs \<le> length (concat (map e xs))"
proof (induction xs)
  case (Cons x xs)
  then have "0 < length (e x)" "length xs \<le> length (concat (map e xs))" by auto
  then show ?case by (simp add: Suc_le_eq add_strict_increasing)
qed simp

lemma while_flow_walk:
  assumes "\<And>x p s. x \<in> set xs \<Longrightarrow> at d p (e x) \<Longrightarrow>
      fst (body s p) = step x s \<and> (\<forall>s'. step x s = Ret (Next s') \<longrightarrow> snd (body s p) = p + length (e x))"
    and "at d p (concat (map e xs))" and "\<And>x. x \<in> set xs \<Longrightarrow> e x \<noteq> []"
    and "n = p + length (concat (map e xs))" and "length xs < k"
  shows "fst (while_flow k (\<lambda>q. q < n) body s p) = walk step xs s"
  using assms
proof (induction xs arbitrary: p s k)
  case Nil
  then show ?case by (cases k) (auto simp: while_flow.simps bind_def)
next
  case (Cons x xs)
  then obtain k' where k: "k = Suc k'" by (cases k) auto
  have body: "fst (body s p) = step x s"
      "\<forall>s'. step x s = Ret (Next s') \<longrightarrow> snd (body s p) = p + length (e x)"
    using Cons.prems(1) [of x p s] Cons.prems(2) by auto
  have "fst (while_flow k' (\<lambda>q. q < n) body s' (p + length (e x))) = walk step xs s'" for s'
    by (rule Cons.IH) (use Cons.prems k in auto)
  moreover have "p < n"
    using Cons.prems(3) [of x] Cons.prems(4) by simp
  ultimately show ?case
    using body k by (cases "body s p") (auto simp: while_flow.simps bind_def split: outcome.splits flow.splits)
qed

lemma fst_end_loop_ret: "fst (end_loop m (\<lambda>s. ret (g s)) p) = (case fst (m p) of Ret (Next s) \<Rightarrow> Ret (g s)
    | Ret (Stop r) \<Rightarrow> Ret r | Err e \<Rightarrow> Err e | Panic \<Rightarrow> Panic | Diverge \<Rightarrow> Diverge)"
  by (auto simp: end_loop_def bind_def split: prod.splits outcome.splits flow.splits)

lemma fst_end_loop_ret_id: "fst (end_loop m ret p) = (case fst (m p) of Ret (Next s) \<Rightarrow> Ret s
    | Ret (Stop r) \<Rightarrow> Ret r | Err e \<Rightarrow> Err e | Panic \<Rightarrow> Panic | Diverge \<Rightarrow> Diverge)"
  by (auto simp: end_loop_def bind_def split: prod.splits outcome.splits flow.splits)

lemma fst_end_loop_throw: "fst (end_loop m (\<lambda>_. throw e) p) = (case fst (m p) of Ret (Next _) \<Rightarrow> Err e
    | Ret (Stop r) \<Rightarrow> Ret r | Err e' \<Rightarrow> Err e' | Panic \<Rightarrow> Panic | Diverge \<Rightarrow> Diverge)"
  by (auto simp: end_loop_def bind_def split: prod.splits outcome.splits flow.splits)

lemma fst_end_loop_throw_unit: "fst (end_loop m throw p) = (case fst (m p) of Ret (Next x) \<Rightarrow> Err x
    | Ret (Stop r) \<Rightarrow> Ret r | Err e' \<Rightarrow> Err e' | Panic \<Rightarrow> Panic | Diverge \<Rightarrow> Diverge)"
  by (auto simp: end_loop_def bind_def split: prod.splits outcome.splits flow.splits)

lemma let_else_apply: "let_else m r f p = (case m p of (Ret x, q) \<Rightarrow> f x q | (Err _, q) \<Rightarrow> (Ret r, q)
     | (Panic, q) \<Rightarrow> (Panic, q) | (Diverge, q) \<Rightarrow> (Diverge, q))"
  by (auto simp: let_else_def bind_def attempt_def split: prod.splits outcome.splits)

lemmas loop_defs = run_def let_else_apply bind_def attempt_def fst_end_loop_ret fst_end_loop_ret_id
  fst_end_loop_throw fst_end_loop_throw_unit

section \<open>Local readers\<close>

text \<open>
  A reader that looks only at the bytes it moves over: where the same bytes stand in another buffer it does the same.
  Buffers fit the address space.
\<close>

definition local_reader :: "(bytes \<Rightarrow> ('e, 'a) parser) \<Rightarrow> bool" where
  "local_reader m \<longleftrightarrow> (\<forall>d p x q. m d p = (Ret x, q) \<longrightarrow> p \<le> length d \<longrightarrow> p \<le> q \<and> q \<le> length d \<and>
     (\<forall>d' p'. length d' < 2 ^ 63 \<longrightarrow> at d' p' (take (q - p) (drop p d)) \<longrightarrow> m d' p' = (Ret x, p' + (q - p))))"

named_theorems local_intro

lemma local_reader_apply:
  assumes "local_reader m" and "m d p = (Ret x, q)" and "p \<le> length d" and "length d' < 2 ^ 63"
    and "at d' p' (take (q - p) (drop p d))"
  shows "m d' p' = (Ret x, p' + (q - p))"
  using assms unfolding local_reader_def by blast

lemma local_reader_bounds: "local_reader m \<Longrightarrow> m d p = (Ret x, q) \<Longrightarrow> p \<le> length d \<Longrightarrow> p \<le> q \<and> q \<le> length d"
  unfolding local_reader_def by blast

lemma local_ret [local_intro]: "local_reader (\<lambda>d. ret x)"
  and local_throw [local_intro]: "local_reader (\<lambda>d. throw e)"
  and local_diverge [local_intro]: "local_reader (\<lambda>d. diverge)"
  and local_guard [local_intro]: "local_reader (\<lambda>d. guard c e)"
  by (simp_all add: local_reader_def guard_def)

lemma local_next_byte [local_intro]: "local_reader next_byte"
  unfolding local_reader_def
proof (intro allI impI)
  fix d p x q
  assume "next_byte d p = (Ret x, q)" and "p \<le> length d"
  then have h: "p < length d" "x = d ! p" "q = Suc p" by (simp_all add: next_byte_Ret_iff)
  then have "take (q - p) (drop p d) = [d ! p]" by (simp add: take_Suc_conv_app_nth)
  with h show "p \<le> q \<and> q \<le> length d \<and> (\<forall>d' p'. length d' < 2 ^ 63 \<longrightarrow> at d' p' (take (q - p) (drop p d)) \<longrightarrow> next_byte d' p' = (Ret x, p' + (q - p)))"
    by (simp add: next_byte_def)
qed

lemma local_take_bytes [local_intro]: "local_reader (\<lambda>d. take_bytes d n)"
  unfolding local_reader_def
proof (intro allI impI)
  fix d p x q
  assume "take_bytes d n p = (Ret x, q)" and "p \<le> length d"
  then have h: "p + n \<le> length d" "x = take n (drop p d)" "q = p + n" by (simp_all add: take_bytes_Ret_iff)
  moreover from h have "length (take n (drop p d)) = n" by simp
  ultimately show "p \<le> q \<and> q \<le> length d \<and> (\<forall>d' p'. length d' < 2 ^ 63 \<longrightarrow> at d' p' (take (q - p) (drop p d)) \<longrightarrow> take_bytes d' n p' = (Ret x, p' + (q - p)))"
    using at_take_bytes [of _ _ "take n (drop p d)"] by simp
qed

lemma take_drop_split:
  assumes "p \<le> q1" and "q1 \<le> q"
  shows "take (q - p) (drop p d) = take (q1 - p) (drop p d) @ take (q - q1) (drop q1 d)"
proof -
  have e: "q - p = (q1 - p) + (q - q1)" using assms by simp
  show ?thesis unfolding e take_add using assms by simp
qed

lemma local_bind [local_intro]:
  assumes "local_reader m" and "\<And>x. local_reader (\<lambda>d. f d x)"
  shows "local_reader (\<lambda>d. bind (m d) (f d))"
  unfolding local_reader_def
proof (intro allI impI)
  fix d p y q
  assume "bind (m d) (f d) p = (Ret y, q)" and p: "p \<le> length d"
  then obtain x q1 where m: "m d p = (Ret x, q1)" and f: "f d x q1 = (Ret y, q)" by (auto simp: bind_Ret_iff)
  note b = local_reader_bounds [OF assms(1) m p]
  note c = local_reader_bounds [OF assms(2) f b [THEN conjunct2]]
  have "bind (m d') (f d') p' = (Ret y, p' + (q - p))" if "length d' < 2 ^ 63" "at d' p' (take (q - p) (drop p d))" for d' p'
  proof -
    have len: "length (take (q1 - p) (drop p d)) = q1 - p" using b by auto
    from that(2) have a: "at d' p' (take (q1 - p) (drop p d))" "at d' (p' + (q1 - p)) (take (q - q1) (drop q1 d))"
      using b c len unfolding take_drop_split [OF b [THEN conjunct1] c [THEN conjunct1]] at_append by simp_all
    with local_reader_apply [OF assms(1) m p that(1) a(1)] local_reader_apply [OF assms(2) f b [THEN conjunct2] that(1) a(2)] b c
    show ?thesis by (simp add: bind_def)
  qed
  with b c show "p \<le> q \<and> q \<le> length d \<and>
      (\<forall>d' p'. length d' < 2 ^ 63 \<longrightarrow> at d' p' (take (q - p) (drop p d)) \<longrightarrow> bind (m d') (f d') p' = (Ret y, p' + (q - p)))" by auto
qed

lemma local_if [local_intro]: "local_reader m \<Longrightarrow> local_reader m' \<Longrightarrow> local_reader (\<lambda>d. if c then m d else m' d)"
  by (cases c) simp_all

lemma local_prod [local_intro]: "(\<And>a b. local_reader (\<lambda>d. f d a b)) \<Longrightarrow> local_reader (\<lambda>d. case x of (a, b) \<Rightarrow> f d a b)"
  by (cases x) simp

lemma local_repeat [local_intro]:
  assumes "\<And>s. local_reader (\<lambda>d. body d s)"
  shows "local_reader (\<lambda>d. repeat n (body d) s)"
proof (induction n arbitrary: s)
  case 0
  show ?case unfolding repeat.simps by (rule local_ret)
next
  case (Suc n)
  show ?case unfolding repeat.simps by (rule local_bind) (rule assms, rule Suc.IH)
qed

section \<open>State machines\<close>

text \<open>\<open>trace step start ms s\<close>: the messages \<open>ms\<close>, in this order, can take the machine from \<open>start\<close> to \<open>s\<close>.
  A step relation leaves open what the environment answers.\<close>

inductive trace :: "('m \<Rightarrow> 's \<Rightarrow> 's \<Rightarrow> bool) \<Rightarrow> 's \<Rightarrow> 'm list \<Rightarrow> 's \<Rightarrow> bool" for step start where
  trace_start: "trace step start [] start"
| trace_step: "trace step start ms s \<Longrightarrow> step m s s' \<Longrightarrow> trace step start (ms @ [m]) s'"

text \<open>The contract of a machine that keeps an invariant over its history and its state.\<close>

locale machine =
  fixes start :: 's and step :: "'m \<Rightarrow> 's \<Rightarrow> 's \<Rightarrow> bool" and inv :: "'m list \<Rightarrow> 's \<Rightarrow> bool"
  assumes inv_start: "inv [] start"
    and inv_step: "inv ms s \<Longrightarrow> step m s s' \<Longrightarrow> inv (ms @ [m]) s'"
begin

lemma inv_trace: "trace step start ms s \<Longrightarrow> inv ms s"
  by (induction rule: trace.induct) (auto intro: inv_start inv_step)

end

section \<open>UTF-8\<close>

text \<open>The well-formed byte sequences of the Unicode standard, as \<open>core::str::from_utf8\<close> accepts them.\<close>

definition in_range :: "nat \<Rightarrow> nat \<Rightarrow> byte \<Rightarrow> bool" where
  "in_range lo hi b \<longleftrightarrow> lo \<le> unat b \<and> unat b \<le> hi"

fun utf8_valid :: "bytes \<Rightarrow> bool" where
  "utf8_valid [] = True"
| "utf8_valid (a # bs) =
    (if in_range 0 0x7F a then utf8_valid bs
     else (case bs of
       [] \<Rightarrow> False
     | b # cs \<Rightarrow>
         (if in_range 0xC2 0xDF a then in_range 0x80 0xBF b \<and> utf8_valid cs
          else (case cs of
            [] \<Rightarrow> False
          | c # ds \<Rightarrow>
              (if in_range 0xE0 0xEF a then
                 in_range (if unat a = 0xE0 then 0xA0 else 0x80) (if unat a = 0xED then 0x9F else 0xBF) b
                 \<and> in_range 0x80 0xBF c \<and> utf8_valid ds
               else (case ds of
                 [] \<Rightarrow> False
               | e # es \<Rightarrow>
                   in_range 0xF0 0xF4 a
                   \<and> in_range (if unat a = 0xF0 then 0x90 else 0x80) (if unat a = 0xF4 then 0x8F else 0xBF) b
                   \<and> in_range 0x80 0xBF c \<and> in_range 0x80 0xBF e \<and> utf8_valid es))))))"

lemma utf8_valid_ascii_only: "\<forall>b\<in>set bs. unat b < 0x80 \<Longrightarrow> utf8_valid bs"
  by (induction bs) (auto simp: in_range_def)

definition from_utf8 :: "bytes \<Rightarrow> bytes option" where
  "from_utf8 bs = (if utf8_valid bs then Some bs else None)"

lemma from_utf8_Some: "from_utf8 bs = Some s \<longleftrightarrow> utf8_valid bs \<and> s = bs"
  by (auto simp: from_utf8_def)

lemma length_ascii [simp]: "length (ascii s) = length s"
  by (simp add: ascii_def)

text \<open>Numbers as \<open>format!("{}", n)\<close> prints them.\<close>

fun dec_nat :: "nat \<Rightarrow> bytes" where
  "dec_nat n = (if n < 10 then [u8 (48 + n)] else dec_nat (n div 10) @ [u8 (48 + n mod 10)])"

declare dec_nat.simps [simp del]

definition dec_int :: "int \<Rightarrow> bytes" where
  "dec_int i = (if i < 0 then 0x2d # dec_nat (nat (- i)) else dec_nat (nat i))"

lemma length_dec_nat: "length (dec_nat n) \<le> Suc n"
proof (induction n rule: dec_nat.induct)
  case (1 n)
  then show ?case
    by (subst dec_nat.simps) (auto intro: order_trans)
qed

text \<open>\<open>CString16::try_from\<close>: no NUL and no character beyond the Basic Multilingual Plane, which takes four bytes in UTF-8.\<close>

definition ucs2_string :: "bytes \<Rightarrow> bool" where
  "ucs2_string s \<longleftrightarrow> list_all (\<lambda>b. b \<noteq> 0 \<and> b < 0xF0) s"

end
