(* ===== verification/Cbor.thy ===== *)
theory Cbor
  imports Prelude
begin

text \<open>
  The CBOR data items the program exchanges, as a specification: \<open>enc\<close> is the shortest
  definite-length encoding of RFC 8949. The repository contains several independent
  byte-level decoders (\<open>cose.rs\<close>, \<open>dctpm.rs\<close>, \<open>di/protocol.rs\<close>, \<open>fdo.rs\<close>,
  \<open>rv_firmware/*.rs\<close>, \<open>tpm.rs\<close>); what each of them must do is stated once, as the
  locales \<open>arg_reader\<close> (the argument of a head byte) and \<open>item_skipper\<close> (skip one item),
  and each decoder's theory interprets them.
\<close>

section \<open>Big-endian numbers\<close>

fun be :: "nat \<Rightarrow> nat \<Rightarrow> bytes" where
  "be 0 n = []"
| "be (Suc k) n = u8 (n div 256 ^ k) # be k n"

definition be_val :: "bytes \<Rightarrow> nat" where
  "be_val bs = foldl (\<lambda>acc b. acc * 256 + unat b) 0 bs"

lemma length_be [simp]: "length (be k n) = k"
  by (induction k) auto

lemma be_eq_Nil [simp]: "be k n = [] \<longleftrightarrow> k = 0"
  by (cases k) auto

lemma last_be: "0 < k \<Longrightarrow> last (be k n) = u8 n"
proof (induction k)
  case (Suc k)
  then show ?case by (cases "k = 0") auto
qed simp

lemma be_numeral: "be (numeral k) n = u8 (n div 256 ^ pred_numeral k) # be (pred_numeral k) n"
  by (simp only: numeral_eq_Suc be.simps)

lemma be_1: "be 1 n = [u8 n]"
  and be_2: "be 2 n = [u8 (n div 256), u8 n]"
  and be_4: "be 4 n = [u8 (n div 16777216), u8 (n div 65536), u8 (n div 256), u8 n]"
  by (simp_all add: be_numeral)

lemma foldl_be:
  "foldl (\<lambda>acc b. acc * 256 + unat b) a bs = a * 256 ^ length bs + be_val bs"
proof (induction bs arbitrary: a)
  case (Cons b bs)
  have "be_val (b # bs) = unat b * 256 ^ length bs + be_val bs"
    using Cons.IH [of "unat b"] by (simp add: be_val_def)
  then show ?case
    using Cons.IH [of "a * 256 + unat b"] by (simp add: algebra_simps)
qed (simp add: be_val_def)

lemma be_val_Nil [simp]: "be_val [] = 0"
  by (simp add: be_val_def)

lemma be_val_Cons [simp]: "be_val (b # bs) = unat b * 256 ^ length bs + be_val bs"
  using foldl_be [of "unat b" bs] by (simp add: be_val_def)

lemma be_val_less: "be_val bs < 256 ^ length bs"
proof (induction bs)
  case (Cons b bs)
  have "unat b * 256 ^ length bs + be_val bs < (unat b + 1) * 256 ^ length bs"
    using Cons.IH by simp
  also have "\<dots> \<le> 256 * 256 ^ length bs"
    using unat_byte_less [of b] by (intro mult_right_mono) auto
  finally show ?case by simp
qed simp

lemma be_val_be: "be_val (be k n) = n mod 256 ^ k"
proof (induction k)
  case (Suc k)
  have "n mod 256 ^ Suc k = (n div 256 ^ k mod 256) * 256 ^ k + n mod 256 ^ k"
    by (metis mod_mult2_eq power_Suc2 mult.commute add.commute)
  with Suc show ?case by (simp add: unat_u8)
qed simp

lemma be_val_be_id: "n < 256 ^ k \<Longrightarrow> be_val (be k n) = n"
  by (simp add: be_val_be)

lemma be_inj: "be k m = be k n \<Longrightarrow> m < 256 ^ k \<Longrightarrow> n < 256 ^ k \<Longrightarrow> m = n"
  by (metis be_val_be_id)

lemma be_val_append: "be_val (xs @ ys) = be_val xs * 256 ^ length ys + be_val ys"
  by (induction xs) (simp_all add: algebra_simps power_add)

lemma be_val_zeros [simp]: "be_val (replicate k 0) = 0"
  by (induction k) auto

lemma be_val_strip: "be_val (dropWhile (\<lambda>b. b = 0) xs) = be_val xs"
  by (induction xs) auto

lemma be_val_drop: "be_val (drop k xs) = be_val xs mod 256 ^ (length xs - k)"
proof -
  have "be_val xs = be_val (take k xs) * 256 ^ length (drop k xs) + be_val (drop k xs)"
    by (metis append_take_drop_id be_val_append)
  then show ?thesis
    using be_val_less [of "drop k xs"] by (metis length_drop mod_less mod_mult_self3)
qed

lemma be_val_inj: "length xs = length ys \<Longrightarrow> be_val xs = be_val ys \<Longrightarrow> xs = ys"
proof (induction xs ys rule: list_induct2)
  case (Cons x xs y ys)
  let ?B = "256 ^ length xs :: nat"
  have "be_val xs < ?B" "be_val ys < ?B"
    using be_val_less [of xs] be_val_less [of ys] Cons.hyps by simp_all
  moreover have "unat x * ?B + be_val xs = unat y * ?B + be_val ys"
    using Cons by simp
  ultimately have "unat x = unat y" "be_val xs = be_val ys"
    by (metis div_mult_self3 div_less add.right_neutral power_not_zero zero_neq_numeral,
        metis mod_mult_self3 mod_less)
  with Cons.IH show ?case by (simp add: word_unat_eq_iff)
qed simp

lemma be_be_val: "be (length xs) (be_val xs) = xs"
  by (rule be_val_inj) (simp_all add: be_val_be_id be_val_less)

section \<open>Data items and their encoding\<close>

datatype cbor =
    Uint nat
  | Nint nat \<comment> \<open>the integer \<open>-1 - n\<close>\<close>
  | Bstr bytes
  | Tstr bytes
  | Arr "cbor list"
  | Dict "(cbor \<times> cbor) list"
  | Tag nat cbor
  | Simple nat

definition enc_head :: "nat \<Rightarrow> nat \<Rightarrow> bytes" where
  "enc_head m v =
     (if v < 24 then [head_byte m v]
      else if v < 2 ^ 8 then head_byte m 24 # be 1 v
      else if v < 2 ^ 16 then head_byte m 25 # be 2 v
      else if v < 2 ^ 32 then head_byte m 26 # be 4 v
      else head_byte m 27 # be 8 v)"

fun enc :: "cbor \<Rightarrow> bytes" where
  "enc (Uint n) = enc_head 0 n"
| "enc (Nint n) = enc_head 1 n"
| "enc (Bstr bs) = enc_head 2 (length bs) @ bs"
| "enc (Tstr bs) = enc_head 3 (length bs) @ bs"
| "enc (Arr xs) = enc_head 4 (length xs) @ concat (map enc xs)"
| "enc (Dict kvs) = enc_head 5 (length kvs) @ concat (map (\<lambda>(k, v). enc k @ enc v) kvs)"
| "enc (Tag n x) = enc_head 6 n @ enc x"
| "enc (Simple n) = enc_head 7 n"

text \<open>Items all of whose head arguments are below \<open>L\<close>, and the nesting depth.\<close>

fun fits :: "nat \<Rightarrow> cbor \<Rightarrow> bool" where
  "fits L (Uint n) = (n < L)"
| "fits L (Nint n) = (n < L)"
| "fits L (Bstr bs) = (length bs < L)"
| "fits L (Tstr bs) = (length bs < L)"
| "fits L (Arr xs) = (length xs < L \<and> (\<forall>x\<in>set xs. fits L x))"
| "fits L (Dict kvs) = (2 * length kvs < L \<and> (\<forall>kv\<in>set kvs. fits L (fst kv) \<and> fits L (snd kv)))"
| "fits L (Tag n x) = (n < L \<and> fits L x)"
| "fits L (Simple n) = (n < 24)"

lemma fits_mono: "fits l c \<Longrightarrow> l \<le> l' \<Longrightarrow> fits l' c"
  by (induction l c rule: fits.induct) auto

fun depth :: "cbor \<Rightarrow> nat" where
  "depth (Arr xs) = Suc (Max (insert 0 (depth ` set xs)))"
| "depth (Dict kvs) = Suc (Max (insert 0 ((\<lambda>kv. max (depth (fst kv)) (depth (snd kv))) ` set kvs)))"
| "depth (Tag n x) = Suc (depth x)"
| "depth _ = 1"

lemma depth_Arr: "x \<in> set xs \<Longrightarrow> depth x < depth (Arr xs)"
  by (simp add: less_Suc_eq_le)

lemma depth_Dict:
  assumes "kv \<in> set kvs"
  shows "depth (fst kv) < depth (Dict kvs)" "depth (snd kv) < depth (Dict kvs)"
proof -
  have "max (depth (fst kv)) (depth (snd kv)) \<le> Max (insert 0 ((\<lambda>kv. max (depth (fst kv)) (depth (snd kv))) ` set kvs))"
    using assms by (intro Max_ge) auto
  then show "depth (fst kv) < depth (Dict kvs)" "depth (snd kv) < depth (Dict kvs)"
    by (simp_all add: less_Suc_eq_le)
qed

lemma enc_head_nonempty [simp]: "enc_head m v \<noteq> []"
  by (simp add: enc_head_def)

lemma enc_nonempty [simp]: "enc c \<noteq> []"
  by (cases c) simp_all

lemma length_concat_member: "x \<in> set xs \<Longrightarrow> length (f x) \<le> length (concat (map f xs))"
  by (induction xs) auto

lemma depth_le: "depth c \<le> length (enc c)"
proof (induction c)
  case (Arr xs)
  have "depth x \<le> length (concat (map enc xs))" if "x \<in> set xs" for x
    using Arr [OF that] length_concat_member [OF that, of enc] by linarith
  then have "Max (insert 0 (depth ` set xs)) \<le> length (concat (map enc xs))"
    by simp
  moreover have "0 < length (enc_head 4 (length xs))" by simp
  ultimately show ?case unfolding enc.simps depth.simps length_append by linarith
next
  case (Dict kvs)
  let ?e = "concat (map (\<lambda>(k, v). enc k @ enc v) kvs)"
  have "max (depth (fst kv)) (depth (snd kv)) \<le> length ?e" if "kv \<in> set kvs" for kv
  proof -
    have "depth (fst kv) \<le> length (enc (fst kv))" "depth (snd kv) \<le> length (enc (snd kv))"
      using Dict(1,2) [OF that] by (cases kv; simp)+
    moreover have "length (enc (fst kv) @ enc (snd kv)) \<le> length ?e"
      using length_concat_member [OF that, of "\<lambda>(k, v). enc k @ enc v"] by (simp add: case_prod_beta)
    ultimately show ?thesis by simp
  qed
  then have "Max (insert 0 ((\<lambda>kv. max (depth (fst kv)) (depth (snd kv))) ` set kvs)) \<le> length ?e"
    by simp
  moreover have "0 < length (enc_head 5 (length kvs))" by simp
  ultimately show ?case unfolding enc.simps depth.simps length_append by linarith
next
  case (Tag n x)
  moreover have "0 < length (enc_head 6 n)" by simp
  ultimately show ?case unfolding enc.simps depth.simps length_append by linarith
qed (simp_all add: Suc_le_eq)

section \<open>Reading a head argument\<close>

text \<open>
  \<open>read_arg d a\<close> reads the argument of a head byte with additional information \<open>a\<close>;
  \<open>widths\<close> are the multi-byte forms an implementation supports.
\<close>

locale arg_reader =
  fixes read_arg :: "bytes \<Rightarrow> nat \<Rightarrow> ('e, nat) parser"
    and limit :: nat
  assumes read_small: "a < 24 \<Longrightarrow> read_arg d a = ret a"
    and read_1: "at d p [b] \<Longrightarrow> read_arg d 24 p = (Ret (unat b), p + 1)"
    and read_2: "at d p bs \<Longrightarrow> length bs = 2 \<Longrightarrow> read_arg d 25 p = (Ret (be_val bs), p + 2)"
    and read_4: "at d p bs \<Longrightarrow> length bs = 4 \<Longrightarrow> read_arg d 26 p = (Ret (be_val bs), p + 4)"
    and read_8: "at d p bs \<Longrightarrow> length bs = 8 \<Longrightarrow> 2 ^ 32 < limit \<Longrightarrow>
      read_arg d 27 p = (Ret (be_val bs), p + 8)"
    and limit: "limit = 2 ^ 32 \<or> limit = 2 ^ 64"
begin

text \<open>Every encoded head is read back: its major type and its argument.\<close>

lemma read_head:
  assumes "at d p (enc_head m v)" and "m < 8" and "v < limit"
  shows "p < length d \<and> major (d ! p) = m \<and>
    read_arg d (addl (d ! p)) (Suc p) = (Ret v, p + length (enc_head m v))"
proof -
  consider "v < 24" | "24 \<le> v" "v < 2 ^ 8" | "2 ^ 8 \<le> v" "v < 2 ^ 16" | "2 ^ 16 \<le> v" "v < 2 ^ 32"
    | "2 ^ 32 \<le> v" "v < 2 ^ 64"
    using assms(3) limit by fastforce
  then show ?thesis
  proof cases
    case 1
    with assms show ?thesis by (auto simp: enc_head_def read_small)
  next
    case 2
    with assms show ?thesis
      using read_1 [of d "Suc p" "u8 v"] by (auto simp: enc_head_def unat_u8)
  next
    case 3
    with assms have "at d (Suc p) (be 2 v)" by (auto simp: enc_head_def)
    with 3 assms show ?thesis
      using read_2 [of d "Suc p" "be 2 v"] by (auto simp: enc_head_def be_val_be_id)
  next
    case 4
    with assms have "at d (Suc p) (be 4 v)" by (auto simp: enc_head_def)
    with 4 assms show ?thesis
      using read_4 [of d "Suc p" "be 4 v"] by (auto simp: enc_head_def be_val_be_id)
  next
    case 5
    with assms have "at d (Suc p) (be 8 v)" by (auto simp: enc_head_def)
    with 5 assms show ?thesis
      using read_8 [of d "Suc p" "be 8 v"] by (auto simp: enc_head_def be_val_be_id)
  qed
qed

end

section \<open>Skipping an item\<close>

text \<open>
  A skipper advances the position over one item. \<open>skip k\<close> may recurse at most \<open>k\<close> deep.
  The laws say what it does once the head has been read; \<open>skip_exact\<close> then holds for every
  skipper of the program: it stops exactly behind the item that stands at its position.
\<close>

locale item_skipper = arg_reader read_arg limit
  for read_arg :: "bytes \<Rightarrow> nat \<Rightarrow> ('e, nat) parser" and limit :: nat +
  fixes skip :: "nat \<Rightarrow> bytes \<Rightarrow> ('e, unit) parser"
  assumes skip_int: "p < length d \<Longrightarrow> major (d ! p) < 2 \<Longrightarrow>
      read_arg d (addl (d ! p)) (Suc p) = (Ret v, q) \<Longrightarrow> skip (Suc k) d p = (Ret (), q)"
    and skip_str: "p < length d \<Longrightarrow> major (d ! p) = 2 \<or> major (d ! p) = 3 \<Longrightarrow>
      read_arg d (addl (d ! p)) (Suc p) = (Ret v, q) \<Longrightarrow> q + v \<le> length d \<Longrightarrow>
      length d < 2 ^ 63 \<Longrightarrow> skip (Suc k) d p = (Ret (), q + v)"
    and skip_arr: "p < length d \<Longrightarrow> major (d ! p) = 4 \<Longrightarrow>
      read_arg d (addl (d ! p)) (Suc p) = (Ret v, q) \<Longrightarrow>
      skip (Suc k) d p = repeat v (\<lambda>_. skip k d) () q"
    and skip_map: "p < length d \<Longrightarrow> major (d ! p) = 5 \<Longrightarrow>
      read_arg d (addl (d ! p)) (Suc p) = (Ret v, q) \<Longrightarrow> 2 * v < limit \<Longrightarrow>
      skip (Suc k) d p = repeat (2 * v) (\<lambda>_. skip k d) () q"
    and skip_tag: "p < length d \<Longrightarrow> major (d ! p) = 6 \<Longrightarrow>
      read_arg d (addl (d ! p)) (Suc p) = (Ret v, q) \<Longrightarrow> skip (Suc k) d p = skip k d q"
    and skip_simple: "p < length d \<Longrightarrow> major (d ! p) = 7 \<Longrightarrow> addl (d ! p) < 24 \<Longrightarrow>
      skip (Suc k) d p = (Ret (), Suc p)"
begin

lemma skip_items:
  assumes "\<And>c p. c \<in> set cs \<Longrightarrow> at d p (enc c) \<Longrightarrow> skip k d p = (Ret (), p + length (enc c))"
    and "at d p (concat (map enc cs))"
  shows "repeat (length cs) (\<lambda>_. skip k d) () p = (Ret (), p + length (concat (map enc cs)))"
  using assms
proof (induction cs arbitrary: p)
  case (Cons c cs)
  have "skip k d p = (Ret (), p + length (enc c))"
    using Cons.prems by simp
  moreover have "repeat (length cs) (\<lambda>_. skip k d) () (p + length (enc c)) =
      (Ret (), p + length (enc c) + length (concat (map enc cs)))"
    by (rule Cons.IH) (use Cons.prems in simp_all)
  ultimately show ?case by (simp add: bind_step add.assoc)
qed simp

theorem skip_exact:
  assumes "at d p (enc c)" and "fits limit c" and "depth c \<le> k" and "length d < 2 ^ 63"
  shows "skip k d p = (Ret (), p + length (enc c))"
  using assms(1-3)
proof (induction k arbitrary: c p)
  case 0
  then show ?case by (cases c) auto
next
  case (Suc k)
  have head: "p < length d \<and> major (d ! p) = m \<and>
      read_arg d (addl (d ! p)) (Suc p) = (Ret v, p + length (enc_head m v))"
    if "at d p (enc_head m v)" "m < 8" "v < limit" for m v
    using that by (rule read_head)
  have item: "skip k d p' = (Ret (), p' + length (enc c'))"
    if "at d p' (enc c')" "fits limit c'" "depth c' < Suc k" for c' p'
    using that by (intro Suc.IH) auto
  show ?case
  proof (cases c)
    case (Uint n)
    then show ?thesis using Suc.prems head [of 0 n] skip_int by auto
  next
    case (Nint n)
    then show ?thesis using Suc.prems head [of 1 n] skip_int by auto
  next
    case (Bstr bs)
    then show ?thesis
      using Suc.prems assms(4) head [of 2 "length bs"] skip_str at_bound [of d p "enc c"] by auto
  next
    case (Tstr bs)
    then show ?thesis
      using Suc.prems assms(4) head [of 3 "length bs"] skip_str at_bound [of d p "enc c"] by auto
  next
    case (Arr xs)
    let ?q = "p + length (enc_head 4 (length xs))"
    have "skip (Suc k) d p = repeat (length xs) (\<lambda>_. skip k d) () ?q"
      using Arr Suc.prems head [of 4 "length xs"] by (auto intro!: skip_arr)
    also have "\<dots> = (Ret (), ?q + length (concat (map enc xs)))"
      using Arr Suc.prems by (intro skip_items item) (auto dest: depth_Arr simp del: depth.simps)
    finally show ?thesis using Arr by simp
  next
    case (Dict kvs)
    let ?q = "p + length (enc_head 5 (length kvs))"
    let ?cs = "concat (map (\<lambda>(a, b). [a, b]) kvs)"
    have len: "length ?cs = 2 * length kvs"
      by (induction kvs) auto
    have cat: "concat (map enc ?cs) = concat (map (\<lambda>(a, b). enc a @ enc b) kvs)"
      by (induction kvs) auto
    have "skip (Suc k) d p = repeat (2 * length kvs) (\<lambda>_. skip k d) () ?q"
      using Dict Suc.prems head [of 5 "length kvs"] by (auto intro!: skip_map)
    also have "\<dots> = (Ret (), ?q + length (concat (map enc ?cs)))"
      unfolding len [symmetric] using Dict Suc.prems cat
      by (intro skip_items item) (auto dest: depth_Dict simp del: depth.simps)
    finally show ?thesis using Dict cat by simp
  next
    case (Tag n x)
    let ?q = "p + length (enc_head 6 n)"
    have "skip (Suc k) d p = skip k d ?q"
      using Tag Suc.prems head [of 6 n] by (auto intro!: skip_tag)
    also have "\<dots> = (Ret (), ?q + length (enc x))"
      using Tag Suc.prems by (intro item) auto
    finally show ?thesis using Tag by simp
  next
    case (Simple n)
    then show ?thesis using Suc.prems skip_simple [of p d k] by (auto simp: enc_head_def)
  qed
qed

end

end
