(* ===== verification/Cose_Cbor.thy ===== *)
theory Cose_Cbor
  imports Cbor
begin

text \<open>
  The slice-based CBOR helpers of \<open>src/src/cose.rs\<close> (lines 627 to 775), which the COSE,
  delegate, voucher, DCTPM and BMO components share. An argument is at most four bytes wide,
  so it is below \<open>2\<^sup>3\<^sup>2\<close> and the additions \<open>*pos + len\<close> cannot wrap on a 64-bit target
  (\<open>cbor_read_uint_arg_wp\<close> carries the bound).

  Shown here: the helpers neither panic nor recurse without end on any input, every success
  advances the position, and they satisfy the contracts \<open>arg_reader\<close> and \<open>item_skipper\<close>
  with limit \<open>2\<^sup>3\<^sup>2\<close>, from which the round trips follow.
\<close>

section \<open>Decoder\<close>

definition cbor_read_uint_arg :: "bytes \<Rightarrow> nat \<Rightarrow> (unit, nat) parser" where
  "cbor_read_uint_arg d additional =
     (if additional \<le> 23 then ret additional
      else if additional = 24 then bind (next_byte d) (\<lambda>v. ret (unat v))
      else if additional = 25 then bind (take_bytes d 2) (\<lambda>b. ret (be_val b))
      else if additional = 26 then bind (take_bytes d 4) (\<lambda>b. ret (be_val b))
      else throw ())"

definition cbor_read_uint_value :: "bytes \<Rightarrow> (unit, nat) parser" where
  "cbor_read_uint_value d =
     bind (next_byte d) (\<lambda>b.
     bind (guard (major b = 0) ()) (\<lambda>_.
     cbor_read_uint_arg d (addl b)))"

definition cbor_read_int_value :: "bytes \<Rightarrow> (unit, int) parser" where
  "cbor_read_int_value d =
     bind (next_byte d) (\<lambda>b.
     bind (cbor_read_uint_arg d (addl b)) (\<lambda>arg.
     if major b = 0 then ret (int arg)
     else if major b = 1 then ret (-1 - int arg)
     else throw ()))"

definition cbor_read_bstr :: "bytes \<Rightarrow> (unit, bytes) parser" where
  "cbor_read_bstr d =
     bind (next_byte d) (\<lambda>b.
     bind (guard (major b = 2) ()) (\<lambda>_.
     bind (cbor_read_uint_arg d (addl b)) (\<lambda>len.
     take_bytes d len)))"

text \<open>The same for a text string, which \<open>cose.rs\<close> writes out wherever it reads one.\<close>

definition cbor_read_tstr :: "bytes \<Rightarrow> (unit, bytes) parser" where
  "cbor_read_tstr d =
     bind (next_byte d) (\<lambda>b.
     bind (guard (major b = 3) ()) (\<lambda>_.
     bind (cbor_read_uint_arg d (addl b)) (\<lambda>len.
     bind (take_bytes d len) (\<lambda>s.
     of_option () (from_utf8 s)))))"

text \<open>\<open>cbor_skip\<close> with its recursion depth bounded by \<open>k\<close>, and at a bound that is always enough.\<close>

fun cbor_skip_fuel :: "nat \<Rightarrow> bytes \<Rightarrow> (unit, unit) parser" where
  "cbor_skip_fuel 0 d = diverge"
| "cbor_skip_fuel (Suc k) d =
     bind (next_byte d) (\<lambda>b.
     if major b = 0 \<or> major b = 1 then
       bind (cbor_read_uint_arg d (addl b)) (\<lambda>_. ret ())
     else if major b = 2 \<or> major b = 3 then
       bind (cbor_read_uint_arg d (addl b)) (\<lambda>len.
       bind get_pos (\<lambda>pos.
       bind (guard (pos + len \<le> length d) ()) (\<lambda>_.
       set_pos (pos + len))))
     else if major b = 4 then
       bind (cbor_read_uint_arg d (addl b)) (\<lambda>len.
       repeat len (\<lambda>_. cbor_skip_fuel k d) ())
     else if major b = 5 then
       bind (cbor_read_uint_arg d (addl b)) (\<lambda>len.
       repeat len (\<lambda>_. bind (cbor_skip_fuel k d) (\<lambda>_. cbor_skip_fuel k d)) ())
     else if major b = 6 then
       bind (cbor_read_uint_arg d (addl b)) (\<lambda>_. cbor_skip_fuel k d)
     else
       bind get_pos (\<lambda>pos. set_pos (pos +
         (if addl b = 24 then 1 else if addl b = 25 then 2
          else if addl b = 26 then 4 else if addl b = 27 then 8 else 0))))"

definition cbor_skip :: "bytes \<Rightarrow> (unit, unit) parser" where
  "cbor_skip d = cbor_skip_fuel (Suc (length d)) d"

section \<open>Encoder\<close>

text \<open>The encoders append to \<open>out\<close>; the model gives the bytes appended.\<close>

definition encode_head :: "nat \<Rightarrow> nat \<Rightarrow> bytes" where
  "encode_head m len =
     (if len < 24 then [head_byte m len]
      else if len < 256 then [head_byte m 24, u8 len]
      else if len < 65536 then [head_byte m 25, u8 (len div 2 ^ 8), u8 len]
      else [head_byte m 26, u8 (len div 2 ^ 24), u8 (len div 2 ^ 16), u8 (len div 2 ^ 8), u8 len])"

definition encode_bstr :: "bytes \<Rightarrow> bytes" where
  "encode_bstr data = encode_head 2 (length data) @ data"

definition encode_tstr :: "bytes \<Rightarrow> bytes" where
  "encode_tstr s = encode_head 3 (length s) @ s"

section \<open>No panics, progress, bounds\<close>

lemma be_val_bound: "length bs \<le> k \<Longrightarrow> be_val bs < 256 ^ k"
  using be_val_less [of bs] by (meson le_less_trans less_le_trans one_le_numeral power_increasing)

lemma cbor_read_uint_arg_wp [wp]:
  assumes "\<And>v q. p \<le> q \<Longrightarrow> q \<le> max p (length d) \<Longrightarrow> v < 2 ^ 32 \<Longrightarrow> Q v q" and "E () p"
  shows "wp (cbor_read_uint_arg d a) Q E p"
proof -
  have "unat (b :: byte) < 2 ^ 32" for b
    using unat_byte_less [of b] by simp
  moreover have "be_val (take n xs) < 2 ^ 32" if "n \<le> 4" for n xs
    using that be_val_bound [of "take n xs" 4] by simp
  ultimately show ?thesis
    using assms by (auto simp: cbor_read_uint_arg_def)
qed

lemma cbor_read_uint_value_wp [wp]:
  assumes "\<And>v q. p < q \<Longrightarrow> q \<le> length d \<Longrightarrow> v < 2 ^ 32 \<Longrightarrow> Q v q" and "\<And>q. p \<le> q \<Longrightarrow> E () q"
  shows "wp (cbor_read_uint_value d) Q E p"
  using assms by (auto simp: cbor_read_uint_value_def intro!: cbor_read_uint_arg_wp)

lemma cbor_read_int_value_wp [wp]:
  assumes "\<And>v q. p < q \<Longrightarrow> q \<le> length d \<Longrightarrow> - (2 ^ 32) \<le> v \<Longrightarrow> v < 2 ^ 32 \<Longrightarrow> Q v q" and "\<And>q. p \<le> q \<Longrightarrow> E () q"
  shows "wp (cbor_read_int_value d) Q E p"
  using assms by (auto simp: cbor_read_int_value_def intro!: cbor_read_uint_arg_wp)

lemma cbor_read_bstr_wp [wp]:
  assumes "\<And>s q. p < q \<Longrightarrow> q \<le> length d \<Longrightarrow> p + length s < q \<Longrightarrow> Q s q" and "\<And>q. p \<le> q \<Longrightarrow> E () q"
  shows "wp (cbor_read_bstr d) Q E p"
  using assms by (auto simp: cbor_read_bstr_def intro!: cbor_read_uint_arg_wp)

lemma cbor_read_tstr_wp [wp]:
  assumes "\<And>s q. p < q \<Longrightarrow> q \<le> length d \<Longrightarrow> utf8_valid s \<Longrightarrow> Q s q" and "\<And>q. p \<le> q \<Longrightarrow> E () q"
  shows "wp (cbor_read_tstr d) Q E p"
  using assms by (auto simp: cbor_read_tstr_def from_utf8_Some intro!: cbor_read_uint_arg_wp split: option.splits)

text \<open>Enough fuel for any input: each recursive call starts behind the head byte of its caller.\<close>

lemma cbor_skip_fuel_wp:
  assumes "length d < p + k" and "0 < k"
  shows "wp (cbor_skip_fuel k d) (\<lambda>_ q. p < q) (\<lambda>_ q. p \<le> q) p"
  using assms
proof (induction k arbitrary: p)
  case (Suc k)
  have item: "wp (cbor_skip_fuel k d) (\<lambda>_ r. p < r) (\<lambda>_ r. p \<le> r) q" if "p < q" "p < length d" for q
    by (rule wp_conseq [OF Suc.IH]) (use Suc.prems that in auto)
  have items: "wp (repeat n (\<lambda>_. cbor_skip_fuel k d) ()) (\<lambda>_ r. p < r) (\<lambda>_ r. p \<le> r) q"
    if "p < q" "p < length d" for n q
    by (rule wp_repeat [where I = "\<lambda>_ r. p < r"]) (use that item in auto)
  have pairs: "wp (repeat n (\<lambda>_. bind (cbor_skip_fuel k d) (\<lambda>_. cbor_skip_fuel k d)) ())
      (\<lambda>_ r. p < r) (\<lambda>_ r. p \<le> r) q"
    if "p < q" "p < length d" for n q
    by (rule wp_repeat [where I = "\<lambda>_ r. p < r"]) (use that item in \<open>auto intro!: wp_conseq [OF item]\<close>)
  show ?case
    by (auto intro!: cbor_read_uint_arg_wp item items pairs)
qed simp

lemma cbor_skip_wp [wp]:
  assumes "\<And>q. p < q \<Longrightarrow> Q () q" and "\<And>q. p \<le> q \<Longrightarrow> E () q"
  shows "wp (cbor_skip d) Q E p"
  unfolding cbor_skip_def by (rule wp_conseq [OF cbor_skip_fuel_wp]) (use assms in auto)

section \<open>Round trips\<close>

lemma repeat_twice: "repeat n (\<lambda>_. bind m (\<lambda>_. m)) () = repeat (2 * n) (\<lambda>_. m) ()"
proof (induction n)
  case (Suc n)
  have "repeat (Suc k) (\<lambda>_. m) = (\<lambda>_. bind m (repeat k (\<lambda>_. m)))" for k
    by (rule ext) simp
  moreover have "repeat n (\<lambda>_. bind m (\<lambda>_. m)) = repeat (2 * n) (\<lambda>_. m)"
    by (rule ext) (simp add: Suc)
  ultimately show ?case by (simp add: bind_assoc)
qed simp

interpretation cose: arg_reader cbor_read_uint_arg "2 ^ 32"
  by unfold_locales
    (auto simp: cbor_read_uint_arg_def bind_def at_next_byte take_bytes_def get_range_def at_def next_byte_def
      take_Suc_conv_app_nth hd_drop_conv_nth)

interpretation cose: item_skipper cbor_read_uint_arg "2 ^ 32" cbor_skip_fuel
  by unfold_locales (auto simp: bind_def next_byte_def repeat_twice)

lemma encode_head_enc: "len < 2 ^ 32 \<Longrightarrow> encode_head m len = enc_head m len"
  by (simp add: encode_head_def enc_head_def be_1 be_2 be_4)

lemma encode_bstr_enc: "length bs < 2 ^ 32 \<Longrightarrow> encode_bstr bs = enc (Bstr bs)"
  by (simp add: encode_bstr_def encode_head_enc)

lemma encode_tstr_enc: "length bs < 2 ^ 32 \<Longrightarrow> encode_tstr bs = enc (Tstr bs)"
  by (simp add: encode_tstr_def encode_head_enc)

lemma cbor_read_bstr_at [at_intro]:
  assumes "at d p (enc (Bstr bs))" and "length bs < 2 ^ 32"
  shows "cbor_read_bstr d p = (Ret bs, p + length (enc (Bstr bs)))"
  using assms cose.read_head [of d p 2 "length bs"]
  by (auto simp: cbor_read_bstr_def bind_def next_byte_def at_take_bytes add.assoc)

lemma cbor_read_uint_value_at [at_intro]:
  assumes "at d p (enc (Uint n))" and "n < 2 ^ 32"
  shows "cbor_read_uint_value d p = (Ret n, p + length (enc (Uint n)))"
  using assms cose.read_head [of d p 0 n]
  by (auto simp: cbor_read_uint_value_def bind_def next_byte_def)

lemma cbor_read_int_value_at [at_intro]:
  assumes "at d p (enc (Uint n))" and "n < 2 ^ 32"
  shows "cbor_read_int_value d p = (Ret (int n), p + length (enc (Uint n)))"
  using assms cose.read_head [of d p 0 n]
  by (auto simp: cbor_read_int_value_def bind_def next_byte_def)

lemma cbor_read_int_value_neg_at [at_intro]:
  assumes "at d p (enc (Nint n))" and "n < 2 ^ 32"
  shows "cbor_read_int_value d p = (Ret (-1 - int n), p + length (enc (Nint n)))"
  using assms cose.read_head [of d p 1 n]
  by (auto simp: cbor_read_int_value_def bind_def next_byte_def)

lemma cbor_skip_at [at_intro]:
  assumes "at d p (enc c)" and "fits (2 ^ 32) c" and "length d < 2 ^ 63"
  shows "cbor_skip d p = (Ret (), p + length (enc c))"
  unfolding cbor_skip_def
  by (rule cose.skip_exact) (use assms depth_le [of c] at_bound [OF assms(1)] in auto)

lemma cbor_head_at:
  assumes "at d p (enc_head m v)" and "m < 8" and "v < 2 ^ 32"
  shows "next_byte d p = (Ret (d ! p), Suc p)" and "peek_byte d p = (Ret (d ! p), p)"
    and "major (d ! p) = m"
    and "cbor_read_uint_arg d (addl (d ! p)) (Suc p) = (Ret v, p + length (enc_head m v))"
  using cose.read_head [OF assms] by (auto simp: next_byte_def peek_byte_def)

text \<open>The head byte of an item carries its major type, so a reader of another type refuses it.\<close>

fun kind :: "cbor \<Rightarrow> nat" where
  "kind (Uint _) = 0" | "kind (Nint _) = 1" | "kind (Bstr _) = 2" | "kind (Tstr _) = 3"
| "kind (Arr _) = 4" | "kind (Dict _) = 5" | "kind (Tag _ _) = 6" | "kind (Simple _) = 7"

lemma kind_at:
  assumes "at d p (enc c)" and "fits (2 ^ 32) c"
  shows "next_byte d p = (Ret (d ! p), Suc p)" and "peek_byte d p = (Ret (d ! p), p)"
    and "major (d ! p) = kind c"
proof -
  obtain v where v: "at d p (enc_head (kind c) v)" "v < 2 ^ 32"
    using assms by (cases c) fastforce+
  have "kind c < 8" by (cases c) auto
  from cbor_head_at [OF v(1) this v(2)]
  show "next_byte d p = (Ret (d ! p), Suc p)" and "peek_byte d p = (Ret (d ! p), p)"
    and "major (d ! p) = kind c"
    by auto
qed

lemma cbor_read_tstr_at:
  assumes "at d p (enc c)" and "fits (2 ^ 32) c"
  shows "fst (cbor_read_tstr d p) = (case c of Tstr s \<Rightarrow> if utf8_valid s then Ret s else Err () | _ \<Rightarrow> Err ())"
    and "c = Tstr s \<Longrightarrow> snd (cbor_read_tstr d p) = p + length (enc c)"
proof -
  note k = kind_at [OF assms]
  show "fst (cbor_read_tstr d p) = (case c of Tstr s \<Rightarrow> if utf8_valid s then Ret s else Err () | _ \<Rightarrow> Err ())"
    "c = Tstr s \<Longrightarrow> snd (cbor_read_tstr d p) = p + length (enc c)"
    using k assms cbor_head_at(4) [of d p 3] at_take_bytes
    by (auto simp: cbor_read_tstr_def bind_def from_utf8_def add.assoc split: cbor.splits)
qed

section \<open>Integer-keyed maps\<close>

text \<open>What the header lookups mean on a well-formed map whose keys are integers.\<close>

fun key_int :: "cbor \<Rightarrow> int option" where
  "key_int (Uint n) = Some (int n)"
| "key_int (Nint n) = Some (-1 - int n)"
| "key_int _ = None"

definition int_keys :: "(cbor \<times> cbor) list \<Rightarrow> bool" where
  "int_keys kvs \<longleftrightarrow> (\<forall>kv\<in>set kvs. key_int (fst kv) \<noteq> None)"

definition int_lookup :: "int \<Rightarrow> (cbor \<times> cbor) list \<Rightarrow> cbor option" where
  "int_lookup l kvs = map_of (map (\<lambda>(k, v). (key_int k, v)) kvs) (Some l)"

abbreviation enc_entry :: "cbor \<times> cbor \<Rightarrow> bytes" where
  "enc_entry \<equiv> \<lambda>(k, v). enc k @ enc v"

lemma int_keys_Cons: "int_keys (kv # kvs) \<longleftrightarrow> key_int (fst kv) \<noteq> None \<and> int_keys kvs"
  by (simp add: int_keys_def)

lemma int_lookup_Nil [simp]: "int_lookup l [] = None"
  and int_lookup_Cons [simp]:
    "int_lookup l (kv # kvs) = (if key_int (fst kv) = Some l then Some (snd kv) else int_lookup l kvs)"
  by (auto simp: int_lookup_def split: prod.splits)

lemma cbor_read_int_value_key:
  assumes "at d p (enc k)" and "fits (2 ^ 32) k" and "key_int k = Some n"
  shows "cbor_read_int_value d p = (Ret n, p + length (enc k))"
  using assms by (cases k) (auto simp: cbor_read_int_value_at [simplified] cbor_read_int_value_neg_at [simplified])

text \<open>The map head, and one entry with an integer key, as they are read from a buffer.\<close>

lemma dict_head_at:
  assumes "at d 0 (enc (Dict kvs))" and "fits (2 ^ 32) (Dict kvs)"
  shows "next_byte d 0 = (Ret (d ! 0), Suc 0)" and "d \<noteq> []" and "major (d ! 0) = 5"
    and "cbor_read_uint_arg d (addl (d ! 0)) (Suc 0) = (Ret (length kvs), length (enc_head 5 (length kvs)))"
    and "at d (length (enc_head 5 (length kvs))) (concat (map enc_entry kvs))"
  using cbor_head_at [of d 0 5 "length kvs"] assms by (auto simp: next_byte_def)

lemma int_entry_at:
  assumes "kv \<in> set kvs" and "at d p (enc_entry kv)" and "int_keys kvs" and "fits (2 ^ 32) (Dict kvs)"
    and "length d < 2 ^ 63"
  obtains n where "key_int (fst kv) = Some n"
    and "cbor_read_int_value d p = (Ret n, p + length (enc (fst kv)))"
    and "cbor_skip d (p + length (enc (fst kv))) = (Ret (), p + length (enc_entry kv))"
    and "at d (p + length (enc (fst kv))) (enc (snd kv))"
proof -
  obtain n where n: "key_int (fst kv) = Some n"
    using assms(1,3) by (auto simp: int_keys_def)
  have a: "at d p (enc (fst kv))" "at d (p + length (enc (fst kv))) (enc (snd kv))"
    using assms(2) by (simp_all add: case_prod_beta)
  have f: "fits (2 ^ 32) (fst kv)" "fits (2 ^ 32) (snd kv)"
    using assms(1,4) by auto
  show ?thesis
    using that n a cbor_read_int_value_key [OF a(1) f(1) n] cbor_skip_at [OF a(2) f(2) assms(5)]
    by (simp add: case_prod_beta add.assoc)
qed

section \<open>Properties\<close>

text \<open>\<open>cbor_skip\<close> is total on every input, nested or malformed: it never panics, its
  recursion ends, a success consumes at least one byte and no run moves the position back.\<close>

theorem cbor_skip_total:
  "safe (cbor_skip d) p \<and>
   (fst (cbor_skip d p) = Ret () \<longrightarrow> p < snd (cbor_skip d p)) \<and> p \<le> snd (cbor_skip d p)"
proof -
  have "wp (cbor_skip d) (\<lambda>_ q. p < q) (\<lambda>_ q. p \<le> q) p"
    by (rule cbor_skip_wp)
  then show ?thesis
    by (auto simp: safe_def wp_def split: prod.splits outcome.splits)
qed

theorem cbor_skip_total_witness:
  "safe (cbor_skip [0x82, 0x01, 0x41, 0xff]) 0 \<and> 0 < snd (cbor_skip [0x82, 0x01, 0x41, 0xff] 0)"
proof -
  have "fst (cbor_skip [0x82, 0x01, 0x41, 0xff] 0) = Ret ()"
    by code_simp
  then show ?thesis
    using cbor_skip_total [of "[0x82, 0x01, 0x41, 0xff]" 0] by blast
qed

text \<open>\<open>cbor_skip\<close> stops exactly behind the data item at its position, whatever precedes and
  follows it, for every item whose head arguments fit in four bytes.\<close>

theorem cbor_skip_exact:
  assumes "fits (2 ^ 32) c" and "length (xs @ enc c @ ys) < 2 ^ 63"
  shows "cbor_skip (xs @ enc c @ ys) (length xs) = (Ret (), length xs + length (enc c))"
  using assms by (intro cbor_skip_at at_self)

theorem cbor_skip_exact_witness:
  "cbor_skip ([0x00] @ enc (Arr [Uint 1000, Dict [(Tstr [0x61], Bstr [1, 2])]]) @ [0xf6]) (length [0 :: byte])
     = (Ret (), length [0 :: byte] + length (enc (Arr [Uint 1000, Dict [(Tstr [0x61], Bstr [1, 2])]])))"
  by (rule cbor_skip_exact) (simp_all add: enc_head_def be_numeral)

text \<open>What \<open>encode_bstr\<close> writes, \<open>cbor_read_bstr\<close> reads back, with the position behind it.\<close>

theorem bstr_roundtrip:
  assumes "length bs < 2 ^ 32"
  shows "cbor_read_bstr (xs @ encode_bstr bs @ ys) (length xs) = (Ret bs, length xs + length (encode_bstr bs))"
  unfolding encode_bstr_enc [OF assms] using assms by (intro cbor_read_bstr_at at_self)

theorem bstr_roundtrip_witness:
  "cbor_read_bstr ([7] @ encode_bstr [1, 2, 3] @ [9]) (length [7 :: byte])
     = (Ret [1, 2, 3], length [7 :: byte] + length (encode_bstr [1, 2, 3]))"
  by (rule bstr_roundtrip) simp

end
