(* ===== verification/Cose.thy ===== *)
theory Cose
  imports Cose_Cbor
begin

text \<open>
  \<open>src/src/cose.rs\<close>, lines 20 to 210 and 480 to 625: the COSE_Sign1 envelope, the
  Sig_structure that is signed, ES256 verification, and the lookups in the protected and
  unprotected header maps. (The BMO and meta-payload signer rules and the scope constraints
  of the same file use the delegate chains and stand in the theory \<open>Artifact\<close>.)

  The P-256 and SHA-256 implementations are third-party crates; they are the fields of the
  record \<open>crypto\<close>, an argument of every function that reaches them.
\<close>

section \<open>Third-party primitives\<close>

record crypto =
  ec_point :: "bytes \<Rightarrow> bytes option"             \<comment> \<open>\<open>EncodedPoint::from_bytes\<close>\<close>
  ec_key :: "bytes \<Rightarrow> bytes option"               \<comment> \<open>\<open>VerifyingKey::from_encoded_point\<close>\<close>
  ec_sig :: "bytes \<Rightarrow> bytes option"               \<comment> \<open>\<open>Signature::from_slice\<close>\<close>
  ec_verify :: "bytes \<Rightarrow> bytes \<Rightarrow> bytes \<Rightarrow> bool"  \<comment> \<open>\<open>vk.verify(msg, &sig).is_ok()\<close>\<close>
  sha256 :: "bytes \<Rightarrow> bytes"                      \<comment> \<open>\<open>Sha256::digest\<close>\<close>
  sha384 :: "bytes \<Rightarrow> bytes"                      \<comment> \<open>\<open>Sha384::digest\<close>\<close>
  hmac_sha256 :: "bytes \<Rightarrow> bytes \<Rightarrow> bytes"        \<comment> \<open>\<open>Hmac<Sha256>\<close>, key and message\<close>

section \<open>Constants and domain separation\<close>

definition COSE_ALG_ES256 :: int where "COSE_ALG_ES256 = -7"
definition COSE_LABEL_DELEGATE_KEY :: int where "COSE_LABEL_DELEGATE_KEY = 258"
definition COSE_LABEL_X5CHAIN :: int where "COSE_LABEL_X5CHAIN = 33"

text \<open>The domain separation tags, one constructor per constant \<open>AAD_TAG_*\<close>.\<close>

datatype aad_tag = OWNER_SIGN | PROVE_TO_RV | PROVE_DEVICE | PROVE_OV_HDR | SETUP_DEVICE | OV_ENTRY
  | BMO_PROVISION | META_PAYLOAD

fun aad_tag_str :: "aad_tag \<Rightarrow> bytes" where
  "aad_tag_str OWNER_SIGN = ascii ''FDO-TO0-OwnerSign-v1''"
| "aad_tag_str PROVE_TO_RV = ascii ''FDO-TO1-ProveToRV-v1''"
| "aad_tag_str PROVE_DEVICE = ascii ''FDO-TO2-ProveDevice-v1''"
| "aad_tag_str PROVE_OV_HDR = ascii ''FDO-TO2-ProveOVHdr-v1''"
| "aad_tag_str SETUP_DEVICE = ascii ''FDO-TO2-SetupDevice-v1''"
| "aad_tag_str OV_ENTRY = ascii ''FDO-OVEntry-v1''"
| "aad_tag_str BMO_PROVISION = ascii ''FDO-FSIM-BmoProvision-v1''"
| "aad_tag_str META_PAYLOAD = ascii ''FDO-FSIM-MetaPayload-v1''"

definition FDO_VERSION_101 :: nat where "FDO_VERSION_101 = 101"
definition FDO_VERSION_200 :: nat where "FDO_VERSION_200 = 200"

definition domain_aad :: "bytes \<Rightarrow> nat \<Rightarrow> bytes" where
  "domain_aad tag version = (if version < FDO_VERSION_200 then [] else 0x81 # encode_tstr tag)"

section \<open>Header maps\<close>

text \<open>\<open>n as i32\<close> for \<open>n: i64\<close>.\<close>

definition as_i32 :: "int \<Rightarrow> int" where
  "as_i32 n = sint (word_of_int n :: 32 word)"

definition parse_protected_alg :: "bytes \<Rightarrow> (unit, int) outcome" where
  "parse_protected_alg header =
     (if header = [] then Ret 0
      else run (
        let_else (next_byte header) 0 (\<lambda>b.
        if major b \<noteq> 5 then ret 0 else
        let_else (cbor_read_uint_arg header (addl b)) 0 (\<lambda>map_len.
        end_loop (repeat_flow map_len (\<lambda>_.
          bind (attempt (cbor_read_int_value header)) (\<lambda>key.
          if key = Some 1 then
            bind (attempt (cbor_read_int_value header)) (\<lambda>v.
            ret (Stop (as_i32 (case v of Some n \<Rightarrow> n | None \<Rightarrow> 0))))
          else let_else (cbor_skip header) (Stop 0) (\<lambda>_. ret (Next ())))) ())
        (\<lambda>_. ret 0)))))"

definition parse_protected_tstr :: "bytes \<Rightarrow> int \<Rightarrow> (unit, bytes) outcome" where
  "parse_protected_tstr header target_label =
     (if header = [] then Err ()
      else run (
        bind (next_byte header) (\<lambda>b.
        bind (guard (major b = 5) ()) (\<lambda>_.
        bind (cbor_read_uint_arg header (addl b)) (\<lambda>map_len.
        end_loop (repeat_flow map_len (\<lambda>_.
          bind (cbor_read_int_value header) (\<lambda>key.
          if key = target_label then
            bind (cbor_read_tstr header) (\<lambda>t. ret (Stop t))
          else bind (cbor_skip header) (\<lambda>_. ret (Next ())))) ())
        (\<lambda>_. throw ()))))))"

definition has_delegate_header :: "bytes \<Rightarrow> (unit, bool) outcome" where
  "has_delegate_header unprotected = run (
     let_else (next_byte unprotected) False (\<lambda>b.
     if major b \<noteq> 5 then ret False else
     let_else (cbor_read_uint_arg unprotected (addl b)) False (\<lambda>map_len.
     end_loop (repeat_flow map_len (\<lambda>_.
       bind (attempt (cbor_read_int_value unprotected)) (\<lambda>key.
       let_else (cbor_skip unprotected) (Stop False) (\<lambda>_.
       case key of
         Some k \<Rightarrow> if k = COSE_LABEL_DELEGATE_KEY \<or> k = COSE_LABEL_X5CHAIN
           then ret (Stop True) else ret (Next ())
       | None \<Rightarrow> ret (Stop False)))) ())
     (\<lambda>_. ret False))))"

section \<open>COSE_Sign1\<close>

record cose_sign1 =
  algorithm :: int
  protected_header :: bytes
  unprotected_header :: bytes
  payload :: bytes
  signature :: bytes

definition parse_cose_sign1 :: "bytes \<Rightarrow> (unit, cose_sign1) outcome" where
  "parse_cose_sign1 d = run (
     bind (peek_byte d) (\<lambda>b.
     bind (if major b = 6 then
         bind (next_byte d) (\<lambda>_.
         bind (cbor_read_uint_arg d (addl b)) (\<lambda>tag. guard (tag = 18) ()))
       else ret ()) (\<lambda>_.
     bind (next_byte d) (\<lambda>b.
     bind (guard (major b = 4) ()) (\<lambda>_.
     bind (cbor_read_uint_arg d (addl b)) (\<lambda>arr_len.
     bind (guard (arr_len = 4) ()) (\<lambda>_.
     bind (cbor_read_bstr d) (\<lambda>prot.
     bind (lift (parse_protected_alg prot)) (\<lambda>alg.
     bind get_pos (\<lambda>unprot_start.
     bind (cbor_skip d) (\<lambda>_.
     bind get_pos (\<lambda>pos.
     bind (of_option () (get_range d unprot_start pos)) (\<lambda>unprot.
     bind (peek_byte d) (\<lambda>b.
     bind (if b = 0xf6 then bind (next_byte d) (\<lambda>_. ret []) else cbor_read_bstr d) (\<lambda>pay.
     bind (cbor_read_bstr d) (\<lambda>sg.
     ret \<lparr>algorithm = alg, protected_header = prot, unprotected_header = unprot,
          payload = pay, signature = sg\<rparr>))))))))))))))))"

definition build_sig_structure :: "bytes \<Rightarrow> bytes \<Rightarrow> bytes \<Rightarrow> bytes" where
  "build_sig_structure protected external_aad pay =
     0x84 # 0x6a # ascii ''Signature1'' @ encode_bstr protected @ encode_bstr external_aad
       @ encode_bstr pay"

definition verify_es256 :: "crypto \<Rightarrow> bytes \<Rightarrow> bytes \<Rightarrow> bytes \<Rightarrow> bool" where
  "verify_es256 cr msg sg point =
     (if length sg \<noteq> 64 then False
      else case ec_point cr point of None \<Rightarrow> False
      | Some encoded \<Rightarrow>
        (case ec_key cr encoded of None \<Rightarrow> False
         | Some vk \<Rightarrow>
           (case ec_sig cr sg of None \<Rightarrow> False
            | Some s \<Rightarrow> ec_verify cr vk msg s)))"

definition verify_sign1 :: "crypto \<Rightarrow> cose_sign1 \<Rightarrow> bytes \<Rightarrow> bytes \<Rightarrow> bool" where
  "verify_sign1 cr s1 external_aad point =
     (if algorithm s1 \<noteq> COSE_ALG_ES256 then False
      else verify_es256 cr (build_sig_structure (protected_header s1) external_aad (payload s1))
             (signature s1) point)"

text \<open>Concrete functions in the place of the cryptographic parameters, for evaluation: a signature
  verifies under the key whose first coordinate byte is its last byte, and a digest is the message cut to
  the digest size.\<close>

definition toy_crypto :: crypto where
  "toy_crypto = \<lparr>ec_point = (\<lambda>p. if length p = 65 then Some p else None), ec_key = Some, ec_sig = Some,
     ec_verify = (\<lambda>k m s. last s = k ! 1), sha256 = (\<lambda>m. be 32 (be_val m)), sha384 = (\<lambda>m. be 48 (be_val m)),
     hmac_sha256 = (\<lambda>k m. be 32 (be_val (k @ m)))\<rparr>"

section \<open>No panics\<close>

lemma parse_protected_alg_holds [wp]: "holds (parse_protected_alg h) (\<lambda>_. True) (\<lambda>_. False)"
  by (auto simp: parse_protected_alg_def intro!: wp wp_end_loop [where I = "\<lambda>_ _. True"])

lemma parse_protected_tstr_holds [wp]: "holds (parse_protected_tstr h l) utf8_valid (\<lambda>_. True)"
  by (auto simp: parse_protected_tstr_def from_utf8_Some intro!: wp wp_end_loop [where I = "\<lambda>_ _. True"]
      split: option.splits)

lemma has_delegate_header_holds [wp]: "holds (has_delegate_header h) (\<lambda>_. True) (\<lambda>_. False)"
  by (auto simp: has_delegate_header_def intro!: wp wp_end_loop [where I = "\<lambda>_ _. True"] split: option.splits)

lemma parse_cose_sign1_holds [wp]: "total (parse_cose_sign1 d)"
  by (auto simp: parse_cose_sign1_def intro!: wp holds_conseq [OF parse_protected_alg_holds] split: option.splits)

section \<open>Round trips\<close>

lemma parse_sign1_raw_at:
  assumes "at d p (enc_head 4 4 @ enc (Bstr prot) @ ub @ enc (Bstr pay) @ enc (Bstr sg))"
    and "p = 0 \<or> at d 0 (enc_head 6 18) \<and> p = length (enc_head 6 18)"
    and "parse_protected_alg prot = Ret alg" and "length d < 2 ^ 32"
    and "\<And>q. at d q ub \<Longrightarrow> cbor_skip d q = (Ret (), q + length ub)"
  shows "parse_cose_sign1 d = Ret \<lparr>algorithm = alg, protected_header = prot, unprotected_header = ub,
          payload = pay, signature = sg\<rparr>"
proof -
  define p1 where "p1 = p + length (enc_head 4 4)"
  define p2 where "p2 = p1 + length (enc (Bstr prot))"
  define p3 where "p3 = p2 + length ub"
  define p4 where "p4 = p3 + length (enc (Bstr pay))"
  have a: "at d p (enc_head 4 4)" "at d p1 (enc (Bstr prot))" "at d p2 ub" "at d p3 (enc (Bstr pay))"
    "at d p4 (enc (Bstr sg))"
    using assms(1) by (simp_all add: p1_def p2_def p3_def p4_def add.assoc del: enc.simps)
  have len: "length prot < 2 ^ 32" "length pay < 2 ^ 32" "length sg < 2 ^ 32"
    using a(2,4,5) [THEN at_bound] assms(4) by auto
  have u: "cbor_skip d p2 = (Ret (), p3)" "get_range d p2 p3 = Some ub"
    using a(3) assms(5) unfolding p3_def by (simp_all add: at_get_range)
  have b: "cbor_read_bstr d p1 = (Ret prot, p2)" "cbor_read_bstr d p3 = (Ret pay, p4)"
      "cbor_read_bstr d p4 = (Ret sg, p4 + length (enc (Bstr sg)))"
    using a len by (simp_all only: cbor_read_bstr_at p2_def p4_def)
  have pay: "peek_byte d p3 = (Ret (d ! p3), p3)" "d ! p3 \<noteq> 0xf6"
    using cbor_head_at(2,3) [of d p3 2 "length pay"] a(4) len by (auto simp: major_eq)
  note h = cbor_head_at [OF a(1), simplified, folded p1_def]
  note steps = parse_cose_sign1_def run_def bind_def assms(3) lift_def h u b pay
  from assms(2) show ?thesis
  proof
    assume "p = 0"
    with h show ?thesis by (simp add: steps)
  next
    assume t: "at d 0 (enc_head 6 18) \<and> p = length (enc_head 6 18)"
    note ht = cbor_head_at [OF t [THEN conjunct1], simplified]
    from t show ?thesis by (simp add: steps ht flip: t [THEN conjunct2])
  qed
qed
lemma parse_sign1_at:
  assumes "at d p (enc_head 4 4 @ enc (Bstr prot) @ enc u @ enc (Bstr pay) @ enc (Bstr sg))"
    and "p = 0 \<or> at d 0 (enc_head 6 18) \<and> p = length (enc_head 6 18)"
    and "parse_protected_alg prot = Ret alg" and "fits (2 ^ 32) u" and "length d < 2 ^ 32"
  shows "parse_cose_sign1 d = Ret \<lparr>algorithm = alg, protected_header = prot, unprotected_header = enc u,
          payload = pay, signature = sg\<rparr>"
  using assms by (intro parse_sign1_raw_at cbor_skip_at) simp_all

section \<open>Header lookups\<close>

lemma has_delegate_header_at:
  assumes "at d 0 (enc (Dict kvs))" and "int_keys kvs" and "fits (2 ^ 32) (Dict kvs)" and "length d < 2 ^ 63"
  shows "has_delegate_header d =
     Ret (int_lookup COSE_LABEL_DELEGATE_KEY kvs \<noteq> None \<or> int_lookup COSE_LABEL_X5CHAIN kvs \<noteq> None)"
proof -
  note h = dict_head_at [OF assms(1,3)]
  let ?hit = "\<lambda>kv. key_int (fst kv) = Some COSE_LABEL_DELEGATE_KEY \<or> key_int (fst kv) = Some COSE_LABEL_X5CHAIN"
  let ?step = "\<lambda>kv _. Ret (if ?hit kv then Stop True else Next ())"
  have loop: "fst (repeat_flow (length kvs) (\<lambda>_.
       bind (attempt (cbor_read_int_value d)) (\<lambda>key.
       let_else (cbor_skip d) (Stop False) (\<lambda>_.
       case key of
         Some k \<Rightarrow> if k = COSE_LABEL_DELEGATE_KEY \<or> k = COSE_LABEL_X5CHAIN
           then ret (Stop True) else ret (Next ())
       | None \<Rightarrow> ret (Stop False)))) () (length (enc_head 5 (length kvs)))) = (walk ?step kvs () :: (unit, _) outcome)"
    by (rule repeat_flow_walk [where e = enc_entry, THEN conjunct1, OF _ h(5)])
      (erule int_entry_at [OF _ _ assms(2-4)], auto simp: loop_defs)
  have "walk ?step kvs () = (Ret (if int_lookup COSE_LABEL_DELEGATE_KEY kvs \<noteq> None \<or> int_lookup COSE_LABEL_X5CHAIN kvs \<noteq> None
       then Stop True else Next ()) :: (unit, _) outcome)"
    by (induction kvs) auto
  with loop h show ?thesis
    by (simp add: has_delegate_header_def loop_defs)
qed

lemma parse_protected_tstr_at:
  assumes "at d 0 (enc (Dict kvs))" and "int_keys kvs" and "fits (2 ^ 32) (Dict kvs)" and "length d < 2 ^ 63"
  shows "parse_protected_tstr d l =
     (case int_lookup l kvs of Some (Tstr s) \<Rightarrow> if utf8_valid s then Ret s else Err () | _ \<Rightarrow> Err ())"
proof -
  note h = dict_head_at [OF assms(1,3)]
  let ?step = "\<lambda>kv _. if key_int (fst kv) = Some l
     then (case snd kv of Tstr s \<Rightarrow> if utf8_valid s then Ret (Stop s) else Err () | _ \<Rightarrow> Err ())
     else Ret (Next ())"
  let ?body = "\<lambda>_ :: unit. bind (cbor_read_int_value d) (\<lambda>key.
          if key = l then
            bind (cbor_read_tstr d) (\<lambda>t. ret (Stop t))
          else bind (cbor_skip d) (\<lambda>_. ret (Next ())))"
  have loop: "fst (repeat_flow (length kvs) ?body () (length (enc_head 5 (length kvs)))) = walk ?step kvs ()"
  proof (rule repeat_flow_walk [where e = enc_entry, THEN conjunct1, OF _ h(5)])
    fix kv p s
    assume kv: "kv \<in> set kvs" "at d p (enc_entry kv)"
    show "fst (?body s p) = ?step kv s \<and> (\<forall>s'. ?step kv s = Ret (Next s') \<longrightarrow> snd (?body s p) = p + length (enc_entry kv))"
    proof (rule int_entry_at [OF kv assms(2-4)])
      fix n
      let ?q = "p + length (enc (fst kv))"
      assume n: "key_int (fst kv) = Some n"
        and rd: "cbor_read_int_value d p = (Ret n, ?q)"
        and sk: "cbor_skip d ?q = (Ret (), p + length (enc_entry kv))"
        and v: "at d ?q (enc (snd kv))"
      have f: "fits (2 ^ 32) (snd kv)" using kv assms(3) by auto
      show ?thesis
        using n rd sk cbor_read_tstr_at(1) [OF v f] by (cases "cbor_read_tstr d ?q") (auto simp: loop_defs split: cbor.splits)
    qed
  qed
  have "walk ?step kvs () = (case int_lookup l kvs of Some (Tstr s) \<Rightarrow> if utf8_valid s then Ret (Stop s) else Err () 
       | Some _ \<Rightarrow> Err () | None \<Rightarrow> Ret (Next ()))"
    by (induction kvs) (auto split: cbor.splits)
  with loop h show ?thesis
    by (auto simp: parse_protected_tstr_def loop_defs split: option.splits cbor.splits)
qed

lemma cbor_read_int_value_any:
  assumes "at d p (enc c)" and "fits (2 ^ 32) c"
  shows "fst (cbor_read_int_value d p) = (case key_int c of Some n \<Rightarrow> Ret n | None \<Rightarrow> Err ())"
proof (cases "key_int c")
  case None
  note k = kind_at [OF assms]
  have "kind c \<ge> 2" using None by (cases c) auto
  moreover have "wp (cbor_read_int_value d) (\<lambda>_ _. True) (\<lambda>_ _. True) p"
    by (rule cbor_read_int_value_wp) auto
  moreover have "fst (cbor_read_int_value d p) \<noteq> Ret n" for n
    using k \<open>kind c \<ge> 2\<close> by (auto simp: cbor_read_int_value_def bind_def split: prod.splits outcome.splits)
  ultimately show ?thesis
    using None by (auto simp: wp_def split: prod.splits outcome.splits)
next
  case (Some n)
  then show ?thesis using cbor_read_int_value_key [OF assms Some] by simp
qed

lemma parse_protected_alg_at:
  assumes "at d 0 (enc (Dict kvs))" and "int_keys kvs" and "fits (2 ^ 32) (Dict kvs)" and "length d < 2 ^ 63"
  shows "parse_protected_alg d = Ret (case int_lookup 1 kvs of None \<Rightarrow> 0
      | Some v \<Rightarrow> as_i32 (case key_int v of Some n \<Rightarrow> n | None \<Rightarrow> 0))"
proof -
  note h = dict_head_at [OF assms(1,3)]
  let ?step = "\<lambda>kv _. Ret (if key_int (fst kv) = Some 1
     then Stop (as_i32 (case key_int (snd kv) of Some n \<Rightarrow> n | None \<Rightarrow> 0)) else Next ()) :: (unit, _) outcome"
  let ?body = "\<lambda>_ :: unit. bind (attempt (cbor_read_int_value d)) (\<lambda>key.
          if key = Some 1 then
            bind (attempt (cbor_read_int_value d)) (\<lambda>v.
            ret (Stop (as_i32 (case v of Some n \<Rightarrow> n | None \<Rightarrow> 0))))
          else let_else (cbor_skip d) (Stop 0) (\<lambda>_. ret (Next ())))"
  have loop: "fst (repeat_flow (length kvs) ?body () (length (enc_head 5 (length kvs)))) = walk ?step kvs ()"
  proof (rule repeat_flow_walk [where e = enc_entry, THEN conjunct1, OF _ h(5)])
    fix kv p s
    assume kv: "kv \<in> set kvs" "at d p (enc_entry kv)"
    show "fst (?body s p) = ?step kv s \<and> (\<forall>s'. ?step kv s = Ret (Next s') \<longrightarrow> snd (?body s p) = p + length (enc_entry kv))"
    proof (rule int_entry_at [OF kv assms(2-4)])
      fix n
      let ?q = "p + length (enc (fst kv))"
      assume n: "key_int (fst kv) = Some n"
        and rd: "cbor_read_int_value d p = (Ret n, ?q)"
        and sk: "cbor_skip d ?q = (Ret (), p + length (enc_entry kv))"
        and v: "at d ?q (enc (snd kv))"
      have f: "fits (2 ^ 32) (snd kv)" using kv assms(3) by auto
      show ?thesis
        using n rd sk cbor_read_int_value_any [OF v f]
        by (cases "cbor_read_int_value d ?q") (auto simp: loop_defs split: option.splits)
    qed
  qed
  have "walk ?step kvs () = Ret (case int_lookup 1 kvs of None \<Rightarrow> Next ()
      | Some v \<Rightarrow> Stop (as_i32 (case key_int v of Some n \<Rightarrow> n | None \<Rightarrow> 0)))"
    by (induction kvs) auto
  with loop h show ?thesis
    by (auto simp: parse_protected_alg_def loop_defs split: option.splits)
qed

section \<open>The signed structure\<close>

lemma build_sig_structure_enc:
  assumes "length p < 2 ^ 32" "length a < 2 ^ 32" "length m < 2 ^ 32"
  shows "build_sig_structure p a m = enc (Arr [Tstr (ascii ''Signature1''), Bstr p, Bstr a, Bstr m])"
  using assms by (simp add: build_sig_structure_def encode_bstr_enc enc_head_def head_byte_plus)

lemma enc_bstr_append_inj:
  assumes "enc (Bstr x) @ xs = enc (Bstr y) @ ys" and "length x < 2 ^ 32" and "length y < 2 ^ 32"
  shows "x = y \<and> xs = ys"
proof -
  let ?d = "enc (Bstr x) @ xs"
  have "at ?d 0 (enc (Bstr x))" "at ?d 0 (enc (Bstr y))"
    using at_self [of "[]"] assms(1) by (metis append_Nil list.size(3))+
  then have "x = y"
    using cbor_read_bstr_at assms(2,3) by (metis Pair_inject outcome.inject(1))
  with assms(1) show ?thesis by simp
qed

lemma build_sig_structure_inj:
  assumes "build_sig_structure p a m = build_sig_structure p' a' m'"
    and "length p < 2 ^ 32" "length a < 2 ^ 32" "length m < 2 ^ 32"
    and "length p' < 2 ^ 32" "length a' < 2 ^ 32" "length m' < 2 ^ 32"
  shows "p = p' \<and> a = a' \<and> m = m'"
proof -
  have "enc (Bstr p) @ enc (Bstr a) @ enc (Bstr m) = enc (Bstr p') @ enc (Bstr a') @ enc (Bstr m')"
    using assms by (simp add: build_sig_structure_def encode_bstr_enc del: enc.simps)
  from enc_bstr_append_inj [OF this assms(2,5)] have 1: "p = p'"
    and "enc (Bstr a) @ enc (Bstr m) = enc (Bstr a') @ enc (Bstr m')" by auto
  from enc_bstr_append_inj [OF this(2) assms(3,6)] have 2: "a = a'"
    and "enc (Bstr m) @ [] = enc (Bstr m') @ []" by auto
  from enc_bstr_append_inj [OF this(2) assms(4,7)] 1 2 show ?thesis by simp
qed

lemma aad_tag_str_inj: "aad_tag_str t = aad_tag_str t' \<longleftrightarrow> t = t'"
  by (cases t; cases t'; simp add: ascii_def)

lemma length_aad_tag_str: "length (aad_tag_str t) < 32"
  by (cases t) simp_all

lemma domain_aad_inj:
  assumes "domain_aad (aad_tag_str t) v = domain_aad (aad_tag_str t') v'" and "200 \<le> v" and "200 \<le> v'"
  shows "t = t'"
proof -
  note defs = domain_aad_def FDO_VERSION_200_def encode_tstr_def encode_head_def
  have "length (aad_tag_str t) = length (aad_tag_str t')"
    using arg_cong [OF assms(1), of length] assms length_aad_tag_str [of t] length_aad_tag_str [of t']
    by (simp add: defs split: if_splits)
  then have "aad_tag_str t = aad_tag_str t'"
    using assms by (simp add: defs split: if_splits)
  then show ?thesis by (simp add: aad_tag_str_inj)
qed

lemma length_domain_aad: "length (domain_aad (aad_tag_str t) v) < 64"
  using length_aad_tag_str [of t] by (auto simp: domain_aad_def encode_tstr_def encode_head_def)

section \<open>Properties\<close>

text \<open>\<open>parse_cose_sign1\<close> returns a value or \<open>None\<close> on every input: no panic, no
  unbounded recursion.\<close>

theorem parse_cose_sign1_total: "total (parse_cose_sign1 d)"
  by (rule parse_cose_sign1_holds)

text \<open>C33: a COSE_Sign1 envelope, with or without tag 18, is read back field by field: the
  protected header and the payload are the exact contents on the wire, the unprotected header is
  its exact span, and the algorithm is the value of label 1 of the protected map.\<close>

theorem parse_cose_sign1_roundtrip:
  assumes "e = enc (Arr [Bstr (enc (Dict kvs)), u, Bstr pay, Bstr sg])"
    and "env = e \<or> env = enc_head 6 18 @ e"
    and "int_keys kvs" and "fits (2 ^ 32) (Dict kvs)" and "fits (2 ^ 32) u"
    and "length (env @ rest) < 2 ^ 32"
  shows "parse_cose_sign1 (env @ rest) = Ret \<lparr>
     algorithm = (case int_lookup 1 kvs of None \<Rightarrow> 0 | Some v \<Rightarrow> as_i32 (case key_int v of Some n \<Rightarrow> n | None \<Rightarrow> 0)),
     protected_header = enc (Dict kvs), unprotected_header = enc u, payload = pay, signature = sg\<rparr>"
proof -
  let ?d = "env @ rest"
  let ?p = "length env - length e"
  have e: "e = enc_head 4 4 @ enc (Bstr (enc (Dict kvs))) @ enc u @ enc (Bstr pay) @ enc (Bstr sg)"
    using assms(1) by (simp add: eval_nat_numeral)
  have "at ?d ?p e" "?p = 0 \<or> at ?d 0 (enc_head 6 18) \<and> ?p = length (enc_head 6 18)"
    using assms(2) at_self [of "[]" e rest] at_self [of "enc_head 6 18" e rest]
      at_self [of "[]" "enc_head 6 18" "e @ rest"] by auto
  moreover have "length (enc (Dict kvs)) < 2 ^ 63"
    using assms(2,6) e by auto
  ultimately show ?thesis
    using assms(5,6) parse_protected_alg_at [OF at_whole assms(3,4)]
    by (intro parse_sign1_at [where p = ?p]) (simp_all only: e)
qed

theorem parse_cose_sign1_roundtrip_witness:
  "parse_cose_sign1 ((enc_head 6 18 @ enc (Arr [Bstr (enc (Dict [(Uint 1, Nint 6)])), Dict [], Bstr [1, 2], Bstr [3]])) @ [])
     = Ret \<lparr>algorithm = -7, protected_header = enc (Dict [(Uint 1, Nint 6)]),
            unprotected_header = enc (Dict []), payload = [1, 2], signature = [3]\<rparr>"
  using parse_cose_sign1_roundtrip [of _ "[(Uint 1, Nint 6)]" "Dict []" "[1, 2]" "[3]"
      "enc_head 6 18 @ enc (Arr [Bstr (enc (Dict [(Uint 1, Nint 6)])), Dict [], Bstr [1, 2], Bstr [3]])" "[]"]
  by (simp add: int_keys_def enc_head_def as_i32_def)

text \<open>The signed bytes determine the protected header, the external AAD and the payload, so a
  signature cannot be moved to another header, domain or payload.\<close>

theorem sig_structure_injective:
  assumes "build_sig_structure p a m = build_sig_structure p' a' m'"
    and "\<forall>x\<in>{p, a, m, p', a', m'}. length x < 2 ^ 32"
  shows "p = p' \<and> a = a' \<and> m = m'"
  using assms by (intro build_sig_structure_inj) auto

theorem sig_structure_injective_witness:
  "build_sig_structure [1] [2] [3] = build_sig_structure [1] [2] [3] \<and> ([1] = [1 :: byte] \<and> [2] = [2 :: byte] \<and> [3] = [3 :: byte])"
  using sig_structure_injective [of "[1]" "[2]" "[3]" "[1]" "[2]" "[3]"] by simp

text \<open>C34: domain separation: at protocol version 2.0 and above two Sig_structures built for
  different contexts are different byte strings, whatever the headers and payloads.\<close>

theorem domain_separation:
  assumes "t \<noteq> t'" and "200 \<le> v" and "200 \<le> v'" and "\<forall>x\<in>{p, m, p', m'}. length x < 2 ^ 32"
  shows "build_sig_structure p (domain_aad (aad_tag_str t) v) m \<noteq>
    build_sig_structure p' (domain_aad (aad_tag_str t') v') m'"
proof
  assume "build_sig_structure p (domain_aad (aad_tag_str t) v) m =
    build_sig_structure p' (domain_aad (aad_tag_str t') v') m'"
  then have "domain_aad (aad_tag_str t) v = domain_aad (aad_tag_str t') v'"
    using build_sig_structure_inj [of p "domain_aad (aad_tag_str t) v" m p' "domain_aad (aad_tag_str t') v'" m']
      assms(4) length_domain_aad [of t v] length_domain_aad [of t' v'] by simp
  from domain_aad_inj [OF this assms(2,3)] assms(1) show False by simp
qed

theorem domain_separation_witness:
  "build_sig_structure [0xa0] (domain_aad (aad_tag_str PROVE_OV_HDR) 200) [1] \<noteq>
    build_sig_structure [0xa0] (domain_aad (aad_tag_str OV_ENTRY) 200) [1]"
  by (rule domain_separation) simp_all

end
