(* ===== verification/Fdo_Cbor.thy ===== *)
theory Fdo_Cbor
  imports Cose
begin

text \<open>
  The CBOR encoder and decoder of the FDO messages: \<open>CborEncoder\<close> and \<open>CborDecoder\<close> of
  \<open>src/src/fdo.rs\<close> (lines 314 to 728). Unlike the helpers of \<open>cose.rs\<close> this decoder accepts 8-byte
  arguments, so \<open>pos + len\<close> can exceed \<open>usize\<close>; in a release build the sum wraps, which the model
  writes out with \<open>usz\<close>. The texts of \<open>FdoError\<close> are not modelled.

  Shown: the decoder satisfies the contracts \<open>arg_reader\<close> and \<open>item_skipper\<close> with limit
  \<open>2\<^sup>6\<^sup>4\<close>; encoder and decoder are inverse below \<open>2\<^sup>1\<^sup>6\<close>; the inputs on which the unchecked
  sums panic or recurse without end.
\<close>

datatype fdo_error = HttpError | CborError | ProtocolError | CryptoError

section \<open>Encoder\<close>

text \<open>The common shape of the encoder's heads: \<open>lead\<close> is the major type in the upper three bits.\<close>

definition head16 :: "nat \<Rightarrow> nat \<Rightarrow> bytes" where
  "head16 m len =
     (if len < 24 then [head_byte m len]
      else if len < 256 then [head_byte m 24, u8 len]
      else [head_byte m 25, u8 (len div 2 ^ 8), u8 len])"

definition array :: "nat \<Rightarrow> bytes" where "array len = head16 4 len"
definition encode_map :: "nat \<Rightarrow> bytes" where "encode_map len = head16 5 len"
definition bytes_enc :: "bytes \<Rightarrow> bytes" where "bytes_enc d = head16 2 (length d) @ d"
definition text_enc :: "bytes \<Rightarrow> bytes" where "text_enc s = head16 3 (length s) @ s"

text \<open>\<open>val: u16\<close> and \<open>val: i8\<close>.\<close>

definition uint_enc :: "nat \<Rightarrow> bytes" where "uint_enc val = head16 0 val"

definition neg_int :: "int \<Rightarrow> bytes" where
  "neg_int val =
     (if val \<ge> 0 then [u8 (nat val)]
      else let a = nat (-1 - val) in
        if a < 24 then [head_byte 1 a] else [0x38, u8 a])"

definition null_enc :: bytes where "null_enc = [0xf6]"
definition bool_val :: "bool \<Rightarrow> bytes" where "bool_val val = [if val then 0xf5 else 0xf4]"

definition svc_info_kv_bool :: "bytes \<Rightarrow> bool \<Rightarrow> bytes" where
  "svc_info_kv_bool key val = array 2 @ text_enc key @ bytes_enc [if val then 0xf5 else 0xf4]"
definition svc_info_kv_uint :: "bytes \<Rightarrow> nat \<Rightarrow> bytes" where
  "svc_info_kv_uint key val = array 2 @ text_enc key @ bytes_enc (uint_enc val)"
definition svc_info_kv_text :: "bytes \<Rightarrow> bytes \<Rightarrow> bytes" where
  "svc_info_kv_text key val = array 2 @ text_enc key @ bytes_enc (text_enc val)"
definition svc_info_kv_bytes :: "bytes \<Rightarrow> bytes \<Rightarrow> bytes" where
  "svc_info_kv_bytes key cbor_bytes = array 2 @ text_enc key @ bytes_enc cbor_bytes"

section \<open>Decoder\<close>

definition read_byte :: "bytes \<Rightarrow> (fdo_error, byte) parser" where
  "read_byte d = or_err (next_byte d) CborError"

definition decode_additional :: "bytes \<Rightarrow> nat \<Rightarrow> (fdo_error, nat) parser" where
  "decode_additional d additional =
     (if additional \<le> 23 then ret additional
      else if additional = 24 then bind (read_byte d) (\<lambda>b. ret (unat b))
      else if additional = 25 then
        bind (read_byte d) (\<lambda>b1. bind (read_byte d) (\<lambda>b2. ret (unat b1 * 256 + unat b2)))
      else if additional = 26 then
        repeat 4 (\<lambda>val. bind (read_byte d) (\<lambda>b. ret (val * 256 + unat b))) 0
      else if additional = 27 then
        repeat 8 (\<lambda>val. bind (read_byte d) (\<lambda>b. ret (val * 256 + unat b))) 0
      else throw CborError)"

text \<open>Read a head byte of major type \<open>m\<close> and its argument.\<close>

definition read_major :: "nat \<Rightarrow> bytes \<Rightarrow> (fdo_error, nat) parser" where
  "read_major m d =
     bind (read_byte d) (\<lambda>initial.
     bind (guard (major initial = m) CborError) (\<lambda>_.
     decode_additional d (addl initial)))"

definition read_uint :: "bytes \<Rightarrow> (fdo_error, nat) parser" where "read_uint d = read_major 0 d"
definition read_tag :: "bytes \<Rightarrow> (fdo_error, nat) parser" where "read_tag d = read_major 6 d"
definition read_array_len :: "bytes \<Rightarrow> (fdo_error, nat) parser" where "read_array_len d = read_major 4 d"

definition read_int :: "bytes \<Rightarrow> (fdo_error, int) parser" where
  "read_int d =
     bind (read_byte d) (\<lambda>initial.
     if major initial = 0 then bind (decode_additional d (addl initial)) (\<lambda>v. ret (as_i32 (int v)))
     else if major initial = 1 then bind (decode_additional d (addl initial)) (\<lambda>v. ret (-1 - as_i32 (int v)))
     else throw CborError)"

text \<open>The length check and the slice of \<open>read_bytes\<close> and \<open>read_text\<close>, with the sum as computed.\<close>

definition take_checked :: "bytes \<Rightarrow> nat \<Rightarrow> (fdo_error, bytes) parser" where
  "take_checked d len =
     bind get_pos (\<lambda>pos.
     bind (guard (\<not> usz (pos + len) > length d) CborError) (\<lambda>_.
     slice d pos (usz (pos + len))))"

definition advance :: "nat \<Rightarrow> ('e, unit) parser" where
  "advance len = bind get_pos (\<lambda>pos. set_pos (usz (pos + len)))"

definition read_bytes :: "bytes \<Rightarrow> (fdo_error, bytes) parser" where
  "read_bytes d =
     bind (read_major 2 d) (\<lambda>len.
     bind (take_checked d len) (\<lambda>s.
     bind (advance len) (\<lambda>_. ret s)))"

definition read_text :: "bytes \<Rightarrow> (fdo_error, bytes) parser" where
  "read_text d =
     bind (read_major 3 d) (\<lambda>len.
     bind (take_checked d len) (\<lambda>s.
     bind (of_option CborError (from_utf8 s)) (\<lambda>t.
     bind (advance len) (\<lambda>_. ret t))))"

fun skip_value_fuel :: "nat \<Rightarrow> bytes \<Rightarrow> (fdo_error, unit) parser" where
  "skip_value_fuel 0 d = diverge"
| "skip_value_fuel (Suc k) d =
     bind (read_byte d) (\<lambda>b.
     if major b = 0 \<or> major b = 1 then
       bind (decode_additional d (addl b)) (\<lambda>_. ret ())
     else if major b = 2 \<or> major b = 3 then
       bind (decode_additional d (addl b)) (\<lambda>len. advance len)
     else if major b = 4 then
       bind (decode_additional d (addl b)) (\<lambda>len.
       repeat len (\<lambda>_. skip_value_fuel k d) ())
     else if major b = 5 then
       bind (decode_additional d (addl b)) (\<lambda>len.
       repeat len (\<lambda>_. bind (skip_value_fuel k d) (\<lambda>_. skip_value_fuel k d)) ())
     else if major b = 6 then
       bind (decode_additional d (addl b)) (\<lambda>_. skip_value_fuel k d)
     else if addl b = 25 then advance 2
     else if addl b = 26 then advance 4
     else if addl b = 27 then advance 8
     else ret ())"

definition skip_value :: "bytes \<Rightarrow> (fdo_error, unit) parser" where
  "skip_value d = skip_value_fuel (Suc (length d)) d"

definition read_map_len :: "bytes \<Rightarrow> (fdo_error, nat) parser" where
  "read_map_len d =
     bind (read_byte d) (\<lambda>initial.
     bind (guard (major initial = 5) CborError) (\<lambda>_.
     if addl initial < 24 then ret (addl initial)
     else if addl initial = 24 then bind (read_byte d) (\<lambda>b. ret (unat b))
     else if addl initial = 25 then
       bind (read_byte d) (\<lambda>b1. bind (read_byte d) (\<lambda>b2. ret (unat b1 * 256 + unat b2)))
     else throw CborError))"

definition read_u8 :: "bytes \<Rightarrow> (fdo_error, nat) parser" where
  "read_u8 d = bind (read_uint d) (\<lambda>v. ret (v mod 2 ^ 8))"
definition read_u16 :: "bytes \<Rightarrow> (fdo_error, nat) parser" where
  "read_u16 d = bind (read_uint d) (\<lambda>v. ret (v mod 2 ^ 16))"

definition peek_null :: "bytes \<Rightarrow> (fdo_error, bool) parser" where
  "peek_null d = bind get_pos (\<lambda>pos. ret (pos < length d \<and> d ! pos = 0xf6))"

definition read_null :: "bytes \<Rightarrow> (fdo_error, unit) parser" where
  "read_null d = bind (read_byte d) (\<lambda>b. guard (b = 0xf6) CborError)"

definition read_bool :: "bytes \<Rightarrow> (fdo_error, bool) parser" where
  "read_bool d = bind (read_byte d) (\<lambda>b.
     if b = 0xf4 then ret False else if b = 0xf5 then ret True else throw CborError)"

definition remaining_bytes :: "bytes \<Rightarrow> (fdo_error, bytes) parser" where
  "remaining_bytes d = bind get_pos (\<lambda>pos. slice d pos (length d))"

text \<open>\<open>Vec::with_capacity(len)\<close> for elements of \<open>elem\<close> bytes (24 for \<open>Vec<u8>\<close> and \<open>String\<close>): a capacity
  of more than \<open>isize::MAX\<close> bytes panics.\<close>

definition with_capacity :: "nat \<Rightarrow> nat \<Rightarrow> ('e, unit) parser" where
  "with_capacity elem len = (if len * elem > 2 ^ 63 - 1 then panic else ret ())"

section \<open>The contracts\<close>

lemma read_byte_apply: "read_byte d p = (if p < length d then (Ret (d ! p), Suc p) else (Err CborError, p))"
  by (simp add: read_byte_def or_err_def next_byte_def)

lemma read_byte_loop:
  assumes "p \<le> length d"
  shows "repeat n (\<lambda>val. bind (read_byte d) (\<lambda>b. ret (val * 256 + unat b))) v p =
    (if p + n \<le> length d then (Ret (v * 256 ^ n + be_val (take n (drop p d))), p + n) else (Err CborError, length d))"
  using assms
proof (induction n arbitrary: v p)
  case (Suc n)
  show ?case
  proof (cases "p < length d")
    case True
    then have "repeat (Suc n) (\<lambda>val. bind (read_byte d) (\<lambda>b. ret (val * 256 + unat b))) v p =
        repeat n (\<lambda>val. bind (read_byte d) (\<lambda>b. ret (val * 256 + unat b))) (v * 256 + unat (d ! p)) (Suc p)"
      by (simp add: bind_def read_byte_apply)
    moreover have "take (Suc n) (drop p d) = d ! p # take n (drop (Suc p) d)"
      using True by (simp flip: Cons_nth_drop_Suc)
    ultimately show ?thesis
      using Suc.IH [of "Suc p" "v * 256 + unat (d ! p)"] True
      by (auto simp: algebra_simps simp del: repeat.simps ret_apply)
  qed (use Suc.prems in \<open>simp add: bind_def read_byte_apply\<close>)
qed simp

lemma decode_additional_at:
  assumes "at d p bs" and "length bs = n" and "n \<in> {4, 8}"
  shows "repeat n (\<lambda>val. bind (read_byte d) (\<lambda>b. ret (val * 256 + unat b))) 0 p = (Ret (be_val bs), p + n)"
  using assms at_bound [OF assms(1)] by (auto simp: read_byte_loop at_def)

interpretation fdo: arg_reader decode_additional "2 ^ 64"
proof unfold_locales
  fix d p and bs :: bytes
  assume at: "at d p bs"
  show "decode_additional d 25 p = (Ret (be_val bs), p + 2)" if "length bs = 2"
    using at that by (auto simp: decode_additional_def bind_def read_byte_apply numeral_2_eq_2 length_Suc_conv)
  show "decode_additional d 26 p = (Ret (be_val bs), p + 4)" if "length bs = 4"
    using decode_additional_at [OF at that] by (simp add: decode_additional_def)
  show "decode_additional d 27 p = (Ret (be_val bs), p + 8)" if "length bs = 8"
    using decode_additional_at [OF at that] by (simp add: decode_additional_def)
qed (auto simp: decode_additional_def bind_def read_byte_apply)

interpretation fdo: item_skipper decode_additional "2 ^ 64" skip_value_fuel
  by unfold_locales (auto simp: bind_def read_byte_apply repeat_twice advance_def)

section \<open>Round trips\<close>

lemma head16_enc: "len < 2 ^ 16 \<Longrightarrow> head16 m len = enc_head m len"
  by (simp add: head16_def enc_head_def be_1 be_2)

lemma enc16:
  "n < 2 ^ 16 \<Longrightarrow> array n = enc_head 4 n"
  "n < 2 ^ 16 \<Longrightarrow> encode_map n = enc_head 5 n"
  "n < 2 ^ 16 \<Longrightarrow> uint_enc n = enc (Uint n)"
  "length bs < 2 ^ 16 \<Longrightarrow> bytes_enc bs = enc (Bstr bs)"
  "length bs < 2 ^ 16 \<Longrightarrow> text_enc bs = enc (Tstr bs)"
  by (simp_all add: array_def encode_map_def uint_enc_def bytes_enc_def text_enc_def head16_enc)

lemma read_major_at [at_intro]:
  assumes "at d p (enc_head m v)" and "m < 8" and "v < 2 ^ 64"
  shows "read_major m d p = (Ret v, p + length (enc_head m v))"
  using fdo.read_head [OF assms] by (simp add: read_major_def bind_def read_byte_apply)

lemma read_array_len_at [at_intro]: "at d p (enc_head 4 n) \<Longrightarrow> n < 2 ^ 64 \<Longrightarrow>
    read_array_len d p = (Ret n, p + length (enc_head 4 n))"
  by (simp add: read_array_len_def read_major_at)

lemma read_uint_at [at_intro]: "at d p (enc (Uint n)) \<Longrightarrow> n < 2 ^ 64 \<Longrightarrow>
    read_uint d p = (Ret n, p + length (enc (Uint n)))"
  by (simp add: read_uint_def read_major_at)

lemma read_bytes_at [at_intro]:
  assumes "at d p (enc (Bstr bs))" and "length d < 2 ^ 63"
  shows "read_bytes d p = (Ret bs, p + length (enc (Bstr bs)))"
proof -
  let ?q = "p + length (enc_head 2 (length bs))"
  have "at d ?q bs" "?q + length bs \<le> length d"
    using assms(1) at_bound [OF assms(1)] by simp_all
  then show ?thesis
    using assms read_major_at [of d p 2 "length bs"] at_get_range [of d ?q bs]
    by (simp add: read_bytes_def take_checked_def advance_def bind_def slice_def add.assoc)
qed

lemma read_text_at [at_intro]:
  assumes "at d p (enc (Tstr bs))" and "utf8_valid bs" and "length d < 2 ^ 63"
  shows "read_text d p = (Ret bs, p + length (enc (Tstr bs)))"
proof -
  let ?q = "p + length (enc_head 3 (length bs))"
  have "at d ?q bs" "?q + length bs \<le> length d"
    using assms(1) at_bound [OF assms(1)] by simp_all
  then show ?thesis
    using assms read_major_at [of d p 3 "length bs"] at_get_range [of d ?q bs]
    by (simp add: read_text_def take_checked_def advance_def bind_def slice_def from_utf8_def add.assoc)
qed

lemma skip_value_at [at_intro]:
  assumes "at d p (enc c)" and "fits (2 ^ 64) c" and "length d < 2 ^ 63"
  shows "skip_value d p = (Ret (), p + length (enc c))"
  unfolding skip_value_def
  by (rule fdo.skip_exact) (use assms depth_le [of c] at_bound [OF assms(1)] in auto)

lemma read_tag_at [at_intro]: "at d p (enc_head 6 n) \<Longrightarrow> n < 2 ^ 64 \<Longrightarrow>
    read_tag d p = (Ret n, p + length (enc_head 6 n))"
  by (simp add: read_tag_def read_major_at)

lemma read_int_at [at_intro]:
  "at d p (enc (Uint n)) \<Longrightarrow> n < 2 ^ 64 \<Longrightarrow> read_int d p = (Ret (as_i32 (int n)), p + length (enc (Uint n)))"
  "at d p (enc (Nint n)) \<Longrightarrow> n < 2 ^ 64 \<Longrightarrow> read_int d p = (Ret (-1 - as_i32 (int n)), p + length (enc (Nint n)))"
  using fdo.read_head [of d p 0 n] fdo.read_head [of d p 1 n] by (simp_all add: read_int_def bind_def read_byte_apply)

lemma as_i32_nat: "n < 2 ^ 31 \<Longrightarrow> as_i32 (int n) = int n"
  by (simp add: as_i32_def sint_uint unsigned_of_nat take_bit_nat_eq_self signed_take_bit_int_eq_self take_bit_int_eq_self)

lemma read_map_len_at [at_intro]:
  assumes "at d p (enc_head 5 n)" and "n < 2 ^ 16"
  shows "read_map_len d p = (Ret n, p + length (enc_head 5 n))"
proof -
  consider "n < 24" | "24 \<le> n" "n < 256" | "256 \<le> n" by linarith
  then show ?thesis
  proof cases
    case 3
    have "unat (u8 (n div 256)) * 256 + unat (u8 n) = n"
      using assms(2) by (simp add: unat_u8)
    with 3 assms show ?thesis
      by (simp add: enc_head_def be_2 read_map_len_def bind_def read_byte_apply)
  qed (use assms in \<open>simp_all add: enc_head_def be_1 read_map_len_def bind_def read_byte_apply unat_u8\<close>)
qed

text \<open>What the typed readers give on an arbitrary item: the value of that type, or an error.\<close>

fun item_uint :: "cbor \<Rightarrow> nat option" where "item_uint (Uint n) = Some n" | "item_uint _ = None"
fun item_bytes :: "cbor \<Rightarrow> bytes option" where "item_bytes (Bstr b) = Some b" | "item_bytes _ = None"
fun item_text :: "cbor \<Rightarrow> bytes option" where
  "item_text (Tstr t) = (if utf8_valid t then Some t else None)" | "item_text _ = None"
fun item_bool :: "cbor \<Rightarrow> bool option" where
  "item_bool (Simple n) = (if n = 20 then Some False else if n = 21 then Some True else None)" | "item_bool _ = None"
fun item_int :: "cbor \<Rightarrow> int option" where
  "item_int (Uint n) = Some (as_i32 (int n))" | "item_int (Nint n) = Some (-1 - as_i32 (int n))" | "item_int _ = None"

definition of_item :: "'a option \<Rightarrow> (unit, 'a) outcome" where
  "of_item x = (case x of Some y \<Rightarrow> Ret y | None \<Rightarrow> Err ())"

lemma kind_at64:
  assumes "at d p (enc c)" and "fits (2 ^ 64) c"
  shows "p < length d" and "major (d ! p) = kind c"
proof -
  obtain v where v: "at d p (enc_head (kind c) v)" "v < 2 ^ 64"
    using assms by (cases c) fastforce+
  have "kind c < 8" by (cases c) auto
  from fdo.read_head [OF v(1) this v(2)] show "p < length d" and "major (d ! p) = kind c"
    by auto
qed

lemma read_major_other:
  assumes "at d p (enc c)" and "fits (2 ^ 64) c" and "kind c \<noteq> m"
  shows "read_major m d p = (Err CborError, Suc p)"
  using kind_at64 [OF assms(1,2)] assms(3) by (simp add: read_major_def bind_def read_byte_apply)

lemma item_uint_at:
  assumes "at d p (enc c)" and "fits (2 ^ 64) c"
  shows "reads (or_err (read_uint d) ()) p (length (enc c)) (of_item (item_uint c))"
proof (cases "kind c = 0")
  case True
  then obtain n where "c = Uint n" by (cases c) auto
  with assms show ?thesis using read_uint_at [of d p n] by (simp add: reads_def or_err_def of_item_def)
next
  case False
  then have "item_uint c = None" by (cases c) auto
  with False show ?thesis using read_major_other [OF assms, of 0] by (simp add: reads_def or_err_def of_item_def read_uint_def)
qed

lemma item_bytes_at:
  assumes "at d p (enc c)" and "fits (2 ^ 64) c" and "length d < 2 ^ 63"
  shows "reads (or_err (read_bytes d) ()) p (length (enc c)) (of_item (item_bytes c))"
proof (cases "kind c = 2")
  case True
  then obtain b where "c = Bstr b" by (cases c) auto
  with assms show ?thesis using read_bytes_at [of d p b] by (simp add: reads_def or_err_def of_item_def)
next
  case False
  then have "item_bytes c = None" by (cases c) auto
  with False show ?thesis using read_major_other [OF assms(1,2), of 2]
    by (simp add: reads_def or_err_def of_item_def read_bytes_def bind_def)
qed

lemma item_text_at:
  assumes "at d p (enc c)" and "fits (2 ^ 64) c" and "length d < 2 ^ 63"
  shows "reads (or_err (read_text d) ()) p (length (enc c)) (of_item (item_text c))"
proof (cases "kind c = 3")
  case True
  then obtain t where c: "c = Tstr t" by (cases c) auto
  let ?q = "p + length (enc_head 3 (length t))"
  have "at d ?q t" "?q + length t \<le> length d"
    using assms(1) at_bound [OF assms(1)] c by simp_all
  then show ?thesis
    using assms c read_major_at [of d p 3 "length t"] at_get_range [of d ?q t]
    by (simp add: read_text_def take_checked_def advance_def bind_def slice_def from_utf8_def add.assoc reads_def or_err_def of_item_def)
next
  case False
  then have "item_text c = None" by (cases c) auto
  with False show ?thesis using read_major_other [OF assms(1,2), of 3]
    by (simp add: reads_def or_err_def of_item_def read_text_def bind_def)
qed

lemma item_bool_at:
  assumes "at d p (enc c)" and "fits (2 ^ 64) c"
  shows "reads (or_err (read_bool d) ()) p (length (enc c)) (of_item (item_bool c))"
proof (cases "kind c = 7")
  case True
  then obtain n where c: "c = Simple n" by (cases c) auto
  with assms have "p < length d" "d ! p = head_byte 7 n" "n < 24" by (simp_all add: enc_head_def)
  moreover have "head_byte 7 n = 0xf4 \<longleftrightarrow> n = 20" "head_byte 7 n = 0xf5 \<longleftrightarrow> n = 21"
    using \<open>n < 24\<close> by (simp_all add: head_byte_plus word_unat_eq_iff unat_u8 del: of_nat_add)
  ultimately show ?thesis using c
    by (simp add: reads_def or_err_def of_item_def read_bool_def bind_def read_byte_apply enc_head_def)
next
  case False
  then have "item_bool c = None" by (cases c) auto
  moreover from False have "d ! p \<noteq> 0xf4" "d ! p \<noteq> 0xf5"
    using kind_at64 [OF assms] by (auto simp: major_eq)
  ultimately show ?thesis using kind_at64(1) [OF assms]
    by (simp add: reads_def or_err_def of_item_def read_bool_def bind_def read_byte_apply)
qed

lemma item_int_at:
  assumes "at d p (enc c)" and "fits (2 ^ 64) c"
  shows "reads (or_err (read_int d) ()) p (length (enc c)) (of_item (item_int c))"
proof (cases "kind c = 0 \<or> kind c = 1")
  case True
  then obtain n where "c = Uint n \<or> c = Nint n" by (cases c) auto
  with assms show ?thesis using read_int_at [of d p n] by (auto simp: reads_def or_err_def of_item_def)
next
  case False
  then have "item_int c = None" by (cases c) auto
  with False show ?thesis using kind_at64 [OF assms]
    by (simp add: reads_def or_err_def of_item_def read_int_def bind_def read_byte_apply)
qed

lemma item_skip_at:
  assumes "at d p (enc c)" and "fits (2 ^ 64) c" and "length d < 2 ^ 63"
  shows "reads (or_err (skip_value d) ()) p (length (enc c)) (Ret ())"
  using skip_value_at [OF assms] by (simp add: reads_def or_err_def)

section \<open>Totality of the readers that do not advance by a declared length\<close>

lemma be_val_take_bound: "n \<le> k \<Longrightarrow> be_val (take n xs) < 256 ^ k"
  using be_val_bound [of "take n xs" k] by simp

lemma decode_additional_wp [wp]:
  assumes "\<And>v q. p \<le> q \<Longrightarrow> q \<le> length d \<Longrightarrow> v < 2 ^ 64 \<Longrightarrow> Q v q" and "\<And>q. p \<le> q \<Longrightarrow> q \<le> length d \<Longrightarrow> E CborError q"
    and "p \<le> length d"
  shows "wp (decode_additional d a) Q E p"
proof -
  have "unat (b :: byte) < 2 ^ 64" "unat b * 256 + unat c < 2 ^ 64" for b c :: byte
    using unat_byte_less [of b] unat_byte_less [of c] by simp_all
  with assms be_val_take_bound [of 4 8] be_val_take_bound [of 8 8] show ?thesis
    by (auto simp: decode_additional_def wp_def read_byte_apply bind_def read_byte_loop)
qed

lemma read_byte_wp [wp]:
  assumes "p < length d \<Longrightarrow> Q (d ! p) (Suc p)" and "E CborError p"
  shows "wp (read_byte d) Q E p"
  using assms by (simp add: read_byte_def)

lemma read_major_wp [wp]:
  assumes "\<And>v q. p < q \<Longrightarrow> q \<le> length d \<Longrightarrow> v < 2 ^ 64 \<Longrightarrow> Q v q" and "\<And>q. p \<le> q \<Longrightarrow> E CborError q"
  shows "wp (read_major m d) Q E p"
  using assms by (auto simp: read_major_def intro!: wp)

section \<open>Properties\<close>

text \<open>What the encoder writes for lengths and values below \<open>2\<^sup>1\<^sup>6\<close>, the decoder reads back.\<close>

theorem cbor_encoder_decoder_roundtrip:
  assumes "length bs < 2 ^ 16" and "n < 2 ^ 16" and "utf8_valid s" and "length s < 2 ^ 16" and "length (xs @ ys) < 2 ^ 62"
  shows "read_bytes (xs @ bytes_enc bs @ ys) (length xs) = (Ret bs, length xs + length (bytes_enc bs)) \<and>
    read_uint (xs @ uint_enc n @ ys) (length xs) = (Ret n, length xs + length (uint_enc n)) \<and>
    read_text (xs @ text_enc s @ ys) (length xs) = (Ret s, length xs + length (text_enc s)) \<and>
    read_array_len (xs @ array n @ ys) (length xs) = (Ret n, length xs + length (array n))"
proof (intro conjI)
  have head: "length (enc_head m v) \<le> 9" for m v
    by (simp add: enc_head_def)
  have len: "length (xs @ enc (Bstr bs) @ ys) < 2 ^ 63" "length (xs @ enc (Tstr s) @ ys) < 2 ^ 63"
    using assms(1,4,5) head [of 2 "length bs"] head [of 3 "length s"] by simp_all
  show "read_bytes (xs @ bytes_enc bs @ ys) (length xs) = (Ret bs, length xs + length (bytes_enc bs))"
    unfolding enc16(4) [OF assms(1)] using len by (intro read_bytes_at at_self)
  show "read_uint (xs @ uint_enc n @ ys) (length xs) = (Ret n, length xs + length (uint_enc n))"
    unfolding enc16(3) [OF assms(2)] using assms(2) by (intro read_uint_at at_self) simp
  show "read_text (xs @ text_enc s @ ys) (length xs) = (Ret s, length xs + length (text_enc s))"
    unfolding enc16(5) [OF assms(4)] using len assms(3) by (intro read_text_at at_self)
  show "read_array_len (xs @ array n @ ys) (length xs) = (Ret n, length xs + length (array n))"
    unfolding enc16(1) [OF assms(2)] using assms(2) by (intro read_array_len_at at_self) simp
qed

theorem cbor_encoder_decoder_roundtrip_witness:
  "read_bytes ([7] @ bytes_enc [1, 2] @ [8]) (length [7 :: byte]) = (Ret [1, 2], length [7 :: byte] + length (bytes_enc [1, 2]))"
  using cbor_encoder_decoder_roundtrip [of "[1, 2]" 300 "[]" "[7]" "[8]"] by simp

text \<open>A byte string of at least 65536 bytes is not read back: its length is cut to 16 bits, and the
  decoder returns a prefix of the data.\<close>

theorem bytes_enc_truncates:
  assumes "length bs = 2 ^ 16 + k" and "k < 2 ^ 16" and "256 \<le> k"
  shows "fst (read_bytes (bytes_enc bs) 0) = Ret (take k bs)"
proof -
  have "u8 (length bs div 2 ^ 8) = u8 (k div 2 ^ 8)" "u8 (length bs) = u8 k"
  proof -
    have "(k + 256 * 256) div 256 = 256 + k div 256" by (rule div_mult_self1) simp
    then have "length bs div 2 ^ 8 = 256 + k div 256" using assms(1) by (simp add: add.commute)
    then show "u8 (length bs div 2 ^ 8) = u8 (k div 2 ^ 8)" by (simp add: word_unat_eq_iff unat_u8 del: of_nat_add)
    have "(k + 256 * 256) mod 256 = k mod 256" by (rule mod_mult_self1)
    then have "length bs mod 256 = k mod 256" using assms(1) by (simp add: add.commute)
    then show "u8 (length bs) = u8 k" by (simp add: word_unat_eq_iff unat_u8 del: of_nat_add)
  qed
  then have "bytes_enc bs = enc (Bstr (take k bs)) @ drop k bs"
    using assms by (simp add: bytes_enc_def head16_def enc_head_def be_2)
  moreover have "length (bytes_enc bs) < 2 ^ 63"
    using assms by (simp add: bytes_enc_def head16_def)
  ultimately show ?thesis
    using read_bytes_at [of "bytes_enc bs" 0 "take k bs"] at_self [of "[]" "enc (Bstr (take k bs))" "drop k bs"] by simp
qed

theorem bytes_enc_truncates_witness:
  "fst (read_bytes (bytes_enc (replicate 65792 0)) 0) = Ret (take 256 (replicate 65792 0))"
  by (rule bytes_enc_truncates) simp_all

text \<open>The decoder can be made to panic by nine bytes: the declared length wraps the end of the
  slice below its start.\<close>

theorem read_bytes_wrap_panics:
  "fst (read_bytes [0x5b, 0xff, 0xff, 0xff, 0xff, 0xff, 0xff, 0xff, 0xff] 0) = Panic"
proof -
  let ?d = "[0x5b, 0xff, 0xff, 0xff, 0xff, 0xff, 0xff, 0xff, 0xff] :: bytes"
  have "read_major 2 ?d 0 = (Ret (2 ^ 64 - 1), 9)"
    by (simp add: read_major_def bind_def read_byte_apply decode_additional_def major_eq addl_eq read_byte_loop be_val_def)
  then show ?thesis
    by (simp add: read_bytes_def bind_def take_checked_def usz_def slice_def get_range_def)
qed

text \<open>Ten bytes send \<open>skip_value\<close> into a recursion without end: the first element of an array is a
  byte string whose length wraps the position to the start of the array, where the second element is
  then read.\<close>

definition loop_item :: bytes where
  "loop_item = [0x82, 0x5b, 0xff, 0xff, 0xff, 0xff, 0xff, 0xff, 0xff, 0xf6]"

theorem skip_value_diverges: "fst (skip_value_fuel k loop_item 0) = Diverge"
proof (induction k)
  case (Suc k)
  have arr: "read_byte loop_item 0 = (Ret 0x82, 1)" "decode_additional loop_item (addl 0x82) 1 = (Ret 2, 1)"
    by (simp_all add: loop_item_def read_byte_apply decode_additional_def addl_eq)
  have bstr: "skip_value_fuel (Suc j) loop_item 1 = (Ret (), 0)" for j
    by (simp add: loop_item_def bind_def read_byte_apply decode_additional_def major_eq addl_eq read_byte_loop be_val_def
        advance_def usz_def)
  have two: "repeat 2 f () p = bind (f ()) (repeat 1 f) p" for f :: "unit \<Rightarrow> (fdo_error, unit) parser" and p
    by (simp add: repeat_eval [of 2])
  have "skip_value_fuel (Suc k) loop_item 0 = bind (skip_value_fuel k loop_item) (repeat 1 (\<lambda>_. skip_value_fuel k loop_item)) 1"
    using arr two by (simp add: bind_def major_eq)
  also have "fst \<dots> = Diverge"
  proof (cases k)
    case (Suc j)
    with bstr [of j] Suc.IH show ?thesis
      by (cases "skip_value_fuel k loop_item 0") (simp add: bind_def)
  qed (simp add: bind_def)
  finally show ?case .
qed simp

end
