(* ===== verification/Fdo_Session.thy ===== *)
theory Fdo_Session
  imports Fdo_Cbor
begin

text \<open>
  The TO2 session of \<open>src/src/fdo.rs\<close>: key derivation (lines 42 to 139), the AES-GCM wrappers and
  COSE_Encrypt0 messages (143 to 290, 1518 to 1593) and the IV counter (1003 to 1008). AES-GCM is the
  parameter \<open>aead\<close>; what a round trip needs of it is \<open>aead_ok\<close>. \<open>HmacSha256\<close> accepts keys of every
  length, so the \<open>expect\<close> of \<open>fdo_kdf\<close> is not a branch.

  Shown: the derived key has the requested length and is a prefix of one HMAC block where the code uses
  it; the random field of a key exchange parameter is read back, without panics; encrypted messages
  round-trip; the IVs of a session are distinct for \<open>2\<^sup>6\<^sup>4\<close> messages, and no longer.
\<close>

record aead =
  gcm256_seal :: "bytes \<Rightarrow> bytes \<Rightarrow> bytes \<Rightarrow> bytes \<Rightarrow> bytes option"  \<comment> \<open>key, nonce, aad, plaintext\<close>
  gcm256_open :: "bytes \<Rightarrow> bytes \<Rightarrow> bytes \<Rightarrow> bytes \<Rightarrow> bytes option"  \<comment> \<open>key, nonce, aad, ciphertext and tag\<close>
  gcm128_seal :: "bytes \<Rightarrow> bytes \<Rightarrow> bytes \<Rightarrow> bytes \<Rightarrow> bytes option"
  gcm128_open :: "bytes \<Rightarrow> bytes \<Rightarrow> bytes \<Rightarrow> bytes \<Rightarrow> bytes option"

section \<open>Key derivation\<close>

definition kdf_input :: "nat \<Rightarrow> nat \<Rightarrow> bytes" where
  "kdf_input i key_bits = u8 i # ascii ''FIDO-KDF'' @ 0x00 # ascii ''AutomaticOnboardTunnel''
     @ [u8 (key_bits div 2 ^ 8), u8 (key_bits mod 2 ^ 8)]"

definition kdf_rounds :: "nat \<Rightarrow> nat" where
  "kdf_rounds key_bits = (let h = 32; n = key_bits div h in if key_bits mod h \<noteq> 0 then n + 1 else n)"

definition fdo_kdf :: "crypto \<Rightarrow> bytes \<Rightarrow> nat \<Rightarrow> bytes" where
  "fdo_kdf cr shared_secret key_bits =
     take (key_bits div 8)
       (concat (map (\<lambda>i. hmac_sha256 cr shared_secret (kdf_input i key_bits)) [1..<Suc (kdf_rounds key_bits)]))"

record to2_session_keys =
  sek :: bytes
  svk :: bytes

definition derive_session_keys :: "crypto \<Rightarrow> bytes \<Rightarrow> to2_session_keys" where
  "derive_session_keys cr shared_secret = \<lparr>sek = fdo_kdf cr shared_secret 256, svk = []\<rparr>"

definition build_ecdh_shse :: "bytes \<Rightarrow> bytes \<Rightarrow> bytes \<Rightarrow> bytes" where
  "build_ecdh_shse shx device_rand owner_rand = shx @ device_rand @ owner_rand"

text \<open>\<open>((d[p] as usize) << 8) | (d[p + 1] as usize)\<close>, with the index checks.\<close>

definition index16 :: "bytes \<Rightarrow> nat \<Rightarrow> (unit, nat) outcome" where
  "index16 d p = (if p + 1 < length d then Ret (unat (d ! p) * 256 + unat (d ! (p + 1))) else Panic)"

definition parse_kex_random :: "bytes \<Rightarrow> (unit, bytes) outcome" where
  "parse_kex_random kex_param =
     (if length kex_param < 6 then Err ()
      else obind (index16 kex_param 0) (\<lambda>x_len.
        let pos = 0 + (2 + x_len) in
        if length kex_param < pos + 2 then Err ()
        else obind (index16 kex_param pos) (\<lambda>y_len.
        let pos = pos + (2 + y_len) in
        if length kex_param < pos + 2 then Err ()
        else obind (index16 kex_param pos) (\<lambda>rand_len.
        let pos = pos + 2 in
        if length kex_param < pos + rand_len then Err ()
        else run (slice kex_param pos (pos + rand_len))))))"

section \<open>COSE_Encrypt0\<close>

definition build_cose_enc_structure :: "bytes \<Rightarrow> bytes \<Rightarrow> bytes" where
  "build_cose_enc_structure protected_headers external_aad =
     array 3 @ text_enc (ascii ''Encrypt0'') @ bytes_enc protected_headers @ bytes_enc external_aad"

definition build_a256gcm_protected_headers :: bytes where
  "build_a256gcm_protected_headers = encode_map 1 @ uint_enc 1 @ uint_enc 3"

definition aes256_gcm_encrypt :: "aead \<Rightarrow> bytes \<Rightarrow> bytes \<Rightarrow> bytes \<Rightarrow> bytes \<Rightarrow> (fdo_error, bytes) outcome" where
  "aes256_gcm_encrypt ae key nonce plaintext aad =
     (if length key \<noteq> 32 then Err CryptoError
      else if length nonce \<noteq> 12 then Err CryptoError
      else case gcm256_seal ae key nonce aad plaintext of Some buf \<Rightarrow> Ret buf | None \<Rightarrow> Err CryptoError)"

definition aes256_gcm_decrypt :: "aead \<Rightarrow> bytes \<Rightarrow> bytes \<Rightarrow> bytes \<Rightarrow> bytes \<Rightarrow> (fdo_error, bytes) outcome" where
  "aes256_gcm_decrypt ae key nonce ciphertext aad =
     (if length key \<noteq> 32 then Err CryptoError
      else if length nonce \<noteq> 12 then Err CryptoError
      else if length ciphertext < 16 then Err CryptoError
      else case gcm256_open ae key nonce aad ciphertext of Some buf \<Rightarrow> Ret buf | None \<Rightarrow> Err CryptoError)"

definition aes_gcm_encrypt :: "aead \<Rightarrow> bytes \<Rightarrow> bytes \<Rightarrow> bytes \<Rightarrow> bytes \<Rightarrow> (fdo_error, bytes) outcome" where
  "aes_gcm_encrypt ae key nonce plaintext aad =
     (if length key \<noteq> 16 then Err CryptoError
      else if length nonce \<noteq> 12 then Err CryptoError
      else case gcm128_seal ae key nonce aad plaintext of Some buf \<Rightarrow> Ret buf | None \<Rightarrow> Err CryptoError)"

definition aes_gcm_decrypt :: "aead \<Rightarrow> bytes \<Rightarrow> bytes \<Rightarrow> bytes \<Rightarrow> bytes \<Rightarrow> (fdo_error, bytes) outcome" where
  "aes_gcm_decrypt ae key nonce ciphertext aad =
     (if length key \<noteq> 16 then Err CryptoError
      else if length nonce \<noteq> 12 then Err CryptoError
      else if length ciphertext < 16 then Err CryptoError
      else case gcm128_open ae key nonce aad ciphertext of Some buf \<Rightarrow> Ret buf | None \<Rightarrow> Err CryptoError)"

definition cose_encrypt0_a256gcm :: "aead \<Rightarrow> bytes \<Rightarrow> bytes \<Rightarrow> bytes \<Rightarrow> (fdo_error, bytes) outcome" where
  "cose_encrypt0_a256gcm ae key nonce plaintext =
     (let protected_bytes = build_a256gcm_protected_headers;
          cose_aad = build_cose_enc_structure protected_bytes [] in
      obind (aes256_gcm_encrypt ae key nonce plaintext cose_aad) (\<lambda>ciphertext.
      Ret ((0xD0 OR 16) # array 3 @ bytes_enc protected_bytes @ encode_map 1 @ uint_enc 5 @ bytes_enc nonce
        @ bytes_enc ciphertext)))"

definition build_encrypted_message :: "bytes \<Rightarrow> bytes \<Rightarrow> bytes" where
  "build_encrypted_message nonce ciphertext =
     (let protected_bytes = encode_map 1 @ uint_enc 1 @ uint_enc 3 in
      (0xD0 OR 16) # array 3 @ bytes_enc protected_bytes @ encode_map 1 @ uint_enc 5 @ bytes_enc nonce
        @ bytes_enc ciphertext)"

definition parse_encrypted_message :: "bytes \<Rightarrow> (fdo_error, bytes \<times> bytes) outcome" where
  "parse_encrypted_message d = run (
     bind (guard (major (if d = [] then 0 else d ! 0) = 6) CborError) (\<lambda>_.
     bind (read_byte d) (\<lambda>tag_byte.
     bind (if addl tag_byte < 24 then ret (addl tag_byte) else read_uint d) (\<lambda>tag_num.
     bind (guard (tag_num = 16) CborError) (\<lambda>_.
     bind (read_array_len d) (\<lambda>arr_len.
     bind (guard (arr_len = 3) CborError) (\<lambda>_.
     bind (read_bytes d) (\<lambda>_.
     bind (read_map_len d) (\<lambda>map_len.
     bind (repeat map_len (\<lambda>nonce.
       bind (read_uint d) (\<lambda>key.
       if key = 5 then read_bytes d else bind (skip_value d) (\<lambda>_. ret nonce))) []) (\<lambda>nonce.
     bind (read_bytes d) (\<lambda>ciphertext.
     bind (guard (nonce \<noteq> []) CborError) (\<lambda>_.
     ret (nonce, ciphertext)))))))))))))"

definition cose_decrypt0_a256gcm :: "aead \<Rightarrow> bytes \<Rightarrow> bytes \<Rightarrow> (fdo_error, bytes) outcome" where
  "cose_decrypt0_a256gcm ae key d =
     obind (parse_encrypted_message d) (\<lambda>(nonce, ciphertext).
     let protected_bytes = build_a256gcm_protected_headers;
         cose_aad = build_cose_enc_structure protected_bytes [] in
     aes256_gcm_decrypt ae key nonce ciphertext cose_aad)"

section \<open>Session IVs\<close>

text \<open>The IV and the advanced counter, a \<open>u64\<close>.\<close>

definition next_session_iv :: "64 word \<Rightarrow> bytes \<times> 64 word" where
  "next_session_iv counter = (replicate 4 0 @ be 8 (unat counter), counter + 1)"

text \<open>The IVs of \<open>n\<close> consecutive messages.\<close>

fun session_ivs :: "nat \<Rightarrow> 64 word \<Rightarrow> bytes list" where
  "session_ivs 0 counter = []"
| "session_ivs (Suc n) counter = (let (iv, counter') = next_session_iv counter in iv # session_ivs n counter')"

section \<open>Properties of the key derivation\<close>

lemma length_concat_const: "(\<And>x. x \<in> set xs \<Longrightarrow> length (f x) = k) \<Longrightarrow> length (concat (map f xs)) = k * length xs"
  by (induction xs) auto

lemma kdf_rounds_enough: "L div 8 \<le> 32 * kdf_rounds L"
proof -
  have "L \<le> 32 * kdf_rounds L"
    using div_mult_mod_eq [of L 32] mod_less_divisor [of 32 L] by (auto simp: kdf_rounds_def Let_def)
  then show ?thesis by linarith
qed

lemma length_fdo_kdf:
  assumes "\<And>k m. length (hmac_sha256 cr k m) = 32"
  shows "length (fdo_kdf cr ss L) = L div 8"
  using kdf_rounds_enough [of L] by (simp add: fdo_kdf_def length_concat_const [where k = 32] assms del: upt_Suc)

text \<open>The key derivation returns exactly the requested number of bits, and for every size up to
  256 bits the key is a prefix of the first HMAC block: the later blocks the loop computes (it counts
  in units of 32 bits) never reach the key.\<close>

theorem fdo_kdf_prefix:
  assumes "\<And>k m. length (hmac_sha256 cr k m) = 32"
  shows "length (fdo_kdf cr ss L) = L div 8 \<and>
    (L \<le> 256 \<longrightarrow> fdo_kdf cr ss L = take (L div 8) (hmac_sha256 cr ss (kdf_input 1 L)))"
proof (intro conjI impI)
  show "length (fdo_kdf cr ss L) = L div 8"
    by (rule length_fdo_kdf) (rule assms)
  assume L: "L \<le> 256"
  show "fdo_kdf cr ss L = take (L div 8) (hmac_sha256 cr ss (kdf_input 1 L))"
  proof (cases "L div 8 = 0")
    case False
    then have "0 < kdf_rounds L"
      using kdf_rounds_enough [of L] by (cases "kdf_rounds L") auto
    then have "[1..<Suc (kdf_rounds L)] = 1 # [2..<Suc (kdf_rounds L)]"
      by (simp add: upt_conv_Cons numeral_2_eq_2 del: upt_Suc)
    moreover have "L div 8 \<le> 32" using L by simp
    ultimately show ?thesis
      by (simp add: fdo_kdf_def assms take_append del: upt_Suc)
  qed (simp add: fdo_kdf_def)
qed

theorem fdo_kdf_prefix_witness:
  "sek (derive_session_keys toy_crypto [1, 2, 3]) = take 32 (hmac_sha256 toy_crypto [1, 2, 3] (kdf_input 1 256))"
  using fdo_kdf_prefix [of toy_crypto "[1, 2, 3]" 256] by (simp add: derive_session_keys_def toy_crypto_def)


text \<open>The key exchange parameter: three fields, each after its length in two bytes.\<close>

definition kex_param :: "bytes \<Rightarrow> bytes \<Rightarrow> bytes \<Rightarrow> bytes" where
  "kex_param x y r = be 2 (length x) @ x @ be 2 (length y) @ y @ be 2 (length r) @ r"

lemma index16_at: "at d p (be 2 n) \<Longrightarrow> n < 2 ^ 16 \<Longrightarrow> index16 d p = Ret n"
  by (auto simp: index16_def be_2 unat_u8)

lemma index16_holds: "p + 1 < length d \<Longrightarrow> Q (unat (d ! p) * 256 + unat (d ! (p + 1))) \<Longrightarrow> holds (index16 d p) Q E"
  by (simp add: index16_def)

text \<open>\<open>parse_kex_random\<close> never panics, whatever the peer sends, and reads the random field of a
  well-formed parameter, trailing bytes or not.\<close>

theorem parse_kex_random_correct:
  "total (parse_kex_random d) \<and>
   (length x < 2 ^ 16 \<longrightarrow> length y < 2 ^ 16 \<longrightarrow> length r < 2 ^ 16 \<longrightarrow>
     parse_kex_random (kex_param x y r @ rest) = Ret r)"
proof (intro conjI impI)
  show "total (parse_kex_random d)"
    by (auto simp: parse_kex_random_def Let_def slice_def get_range_def index16_def split: option.splits)
  assume len: "length x < 2 ^ 16" "length y < 2 ^ 16" "length r < 2 ^ 16"
  let ?d = "kex_param x y r @ rest"
  have at: "at ?d 0 (kex_param x y r)"
    using at_self [of "[]" "kex_param x y r" rest] by simp
  note at' = at [unfolded kex_param_def at_append]
  have "index16 ?d 0 = Ret (length x)" "index16 ?d (2 + length x) = Ret (length y)"
    "index16 ?d (2 + length x + (2 + length y)) = Ret (length r)"
    using at' len by (auto intro!: index16_at simp: kex_param_def add.assoc)
  moreover have "get_range ?d (2 + length x + (2 + length y) + 2) (2 + length x + (2 + length y) + 2 + length r) = Some r"
    using at' by (intro at_get_range) (simp add: kex_param_def add.assoc)
  ultimately show "parse_kex_random ?d = Ret r"
    by (simp add: parse_kex_random_def Let_def slice_def run_def) (simp add: kex_param_def)
qed

theorem parse_kex_random_correct_witness:
  "parse_kex_random (kex_param [1, 2] [3] [4, 5, 6] @ [7]) = Ret [4, 5, 6]"
  using parse_kex_random_correct [of "[]" "[1, 2]" "[3]" "[4, 5, 6]" "[7]"] by simp

section \<open>Encrypted messages\<close>

lemma encrypt0_bytes:
  assumes "length nonce < 2 ^ 16" and "length ct < 2 ^ 16"
  shows "build_encrypted_message nonce ct =
    0xd0 # enc_head 4 3 @ enc (Bstr (enc (Dict [(Uint 1, Uint 3)]))) @ enc_head 5 1 @ enc (Uint 5) @ enc (Bstr nonce) @ enc (Bstr ct)"
proof -
  have "encode_map 1 @ uint_enc 1 @ uint_enc 3 = enc (Dict [(Uint 1, Uint 3)])" "length (enc (Dict [(Uint 1, Uint 3)])) < 2 ^ 16"
    by (simp_all add: enc16 enc_head_def)
  then have "bytes_enc (encode_map 1 @ uint_enc 1 @ uint_enc 3) = enc (Bstr (enc (Dict [(Uint 1, Uint 3)])))"
    by (simp only: enc16)
  then show ?thesis
    using assms by (simp add: build_encrypted_message_def Let_def enc16 del: enc.simps)
qed

lemma parse_encrypted_message_at:
  assumes "at d 0 (0xd0 # enc_head 4 3 @ enc (Bstr prot) @ enc_head 5 1 @ enc (Uint 5) @ enc (Bstr nonce) @ enc (Bstr ct))"
    and "nonce \<noteq> []" and "length d < 2 ^ 63"
  shows "parse_encrypted_message d = Ret (nonce, ct)"
proof -
  define p1 where "p1 = 1 + length (enc_head 4 3)"
  define p2 where "p2 = p1 + length (enc (Bstr prot))"
  define p3 where "p3 = p2 + length (enc_head 5 1)"
  define p4 where "p4 = p3 + length (enc (Uint 5))"
  define p5 where "p5 = p4 + length (enc (Bstr nonce))"
  have a: "at d 0 [0xd0]" "at d 1 (enc_head 4 3)" "at d p1 (enc (Bstr prot))" "at d p2 (enc_head 5 1)"
      "at d p3 (enc (Uint 5))" "at d p4 (enc (Bstr nonce))" "at d p5 (enc (Bstr ct))"
    using assms(1) at_bound [OF assms(1)] by (simp_all add: p1_def p2_def p3_def p4_def p5_def del: enc.simps)
  then have d: "d \<noteq> []" "d ! 0 = 0xd0" "read_byte d 0 = (Ret 0xd0, 1)"
    by (auto simp: read_byte_apply)
  have r: "read_array_len d 1 = (Ret 3, p1)" "read_bytes d p1 = (Ret prot, p2)" "read_map_len d p2 = (Ret 1, p3)"
      "read_uint d p3 = (Ret 5, p4)" "read_bytes d p4 = (Ret nonce, p5)"
    using a assms(3) by (simp_all add: p1_def p2_def p3_def p4_def p5_def read_array_len_at read_bytes_at read_map_len_at
        read_uint_at del: enc.simps One_nat_def)
  have "fst (read_bytes d p5) = Ret ct"
    using read_bytes_at [OF a(7) assms(3)] by simp
  then show ?thesis
    using d r assms(2) by (cases "read_bytes d p5") (simp add: parse_encrypted_message_def run_def bind_def major_eq addl_eq)
qed

lemma parse_build_encrypted_message:
  assumes "nonce \<noteq> []" and "length nonce < 2 ^ 16" and "length ct < 2 ^ 16"
  shows "parse_encrypted_message (build_encrypted_message nonce ct) = Ret (nonce, ct)"
proof -
  have "length (build_encrypted_message nonce ct) < 2 ^ 63"
    using assms(2,3) unfolding encrypt0_bytes [OF assms(2,3)] by (simp add: enc_head_def)
  then show ?thesis
    using at_whole [of "build_encrypted_message nonce ct"] assms
    by (intro parse_encrypted_message_at [where prot = "enc (Dict [(Uint 1, Uint 3)])"]) (simp_all add: encrypt0_bytes del: enc.simps)
qed

text \<open>What is relied on of AES-256-GCM: opening what was sealed gives the plaintext, and sealing adds the
  16-byte tag.\<close>

definition aead_ok :: "aead \<Rightarrow> bool" where
  "aead_ok ae \<longleftrightarrow> (\<forall>k n a m. \<exists>c. gcm256_seal ae k n a m = Some c \<and> length c = length m + 16 \<and> gcm256_open ae k n a c = Some m)"

text \<open>C36: a message sealed for the session is opened again: with a 32-byte key, a 12-byte IV and a plaintext
  whose ciphertext fits the 16-bit lengths of the encoder, \<open>cose_encrypt0_a256gcm\<close> succeeds and
  \<open>cose_decrypt0_a256gcm\<close> returns the plaintext.\<close>

theorem cose_encrypt0_roundtrip:
  assumes "aead_ok ae" and "length key = 32" and "length nonce = 12" and "length plaintext + 16 < 2 ^ 16"
  shows "obind (cose_encrypt0_a256gcm ae key nonce plaintext) (cose_decrypt0_a256gcm ae key) = Ret plaintext"
proof -
  let ?aad = "build_cose_enc_structure build_a256gcm_protected_headers []"
  obtain c where c: "gcm256_seal ae key nonce ?aad plaintext = Some c" "length c = length plaintext + 16"
      "gcm256_open ae key nonce ?aad c = Some plaintext"
    using assms(1) unfolding aead_ok_def by blast
  have "cose_encrypt0_a256gcm ae key nonce plaintext = Ret (build_encrypted_message nonce c)"
    using assms c by (simp add: cose_encrypt0_a256gcm_def aes256_gcm_encrypt_def build_encrypted_message_def
        build_a256gcm_protected_headers_def Let_def)
  moreover have "parse_encrypted_message (build_encrypted_message nonce c) = Ret (nonce, c)"
    using assms c by (intro parse_build_encrypted_message) auto
  ultimately show ?thesis
    using assms c by (simp add: cose_decrypt0_a256gcm_def aes256_gcm_decrypt_def Let_def)
qed

definition toy_aead :: aead where
  "toy_aead = \<lparr>gcm256_seal = (\<lambda>k n a m. Some (m @ replicate 16 0x99)), gcm256_open = (\<lambda>k n a c. Some (take (length c - 16) c)),
     gcm128_seal = (\<lambda>k n a m. Some (m @ replicate 16 0x98)), gcm128_open = (\<lambda>k n a c. Some (take (length c - 16) c))\<rparr>"

lemma toy_aead_ok: "aead_ok toy_aead"
  by (simp add: aead_ok_def toy_aead_def)

theorem cose_encrypt0_roundtrip_witness:
  "obind (cose_encrypt0_a256gcm toy_aead (replicate 32 1) (replicate 12 2) [3, 4]) (cose_decrypt0_a256gcm toy_aead (replicate 32 1))
    = Ret [3, 4]"
  using cose_encrypt0_roundtrip [OF toy_aead_ok] by simp

section \<open>Session IVs\<close>

lemma session_ivs_nth: "i < n \<Longrightarrow> session_ivs n c ! i = replicate 4 0 @ be 8 (unat (c + of_nat i))"
  by (induction n arbitrary: c i) (auto simp: next_session_iv_def nth_Cons algebra_simps split: nat.splits)

lemma length_session_ivs [simp]: "length (session_ivs n c) = n"
  by (induction n arbitrary: c) (simp_all add: next_session_iv_def)

lemma be8_inj: "be 8 (unat (a :: 64 word)) = be 8 (unat b) \<longleftrightarrow> a = b"
proof
  assume "be 8 (unat a) = be 8 (unat b)"
  then have "be_val (be 8 (unat a)) = be_val (be 8 (unat b))" by simp
  moreover have "unat a < 256 ^ 8" "unat b < 256 ^ 8"
    using unsigned_less [of a] unsigned_less [of b] by simp_all
  ultimately show "a = b"
    by (simp only: be_val_be_id word_unat_eq_iff)
qed simp

lemma session_ivs_distinct_below:
  assumes n: "n \<le> 2 ^ 64"
  shows "distinct (session_ivs n c)"
proof -
  have "i = j" if "i < n" "j < n" "session_ivs n c ! i = session_ivs n c ! j" for i j
  proof -
    have "(of_nat i :: 64 word) = of_nat j"
      using that by (simp add: session_ivs_nth be8_inj)
    moreover have "i < 2 ^ 64" "j < 2 ^ 64" using that n by linarith+
    ultimately show ?thesis
      by (simp add: word_unat_eq_iff unat_of_nat)
  qed
  then show ?thesis by (simp add: distinct_conv_nth) blast
qed

text \<open>No IV is used twice under one session key: the IVs of up to \<open>2\<^sup>6\<^sup>4\<close> consecutive messages are
  distinct 12-byte strings, from every starting value of the counter, and the bound is tight.\<close>

theorem session_ivs_distinct:
  "distinct (session_ivs n c) \<longleftrightarrow> n \<le> 2 ^ 64"
proof (rule iffI [OF _ session_ivs_distinct_below])
  assume d: "distinct (session_ivs n c)"
  show "n \<le> 2 ^ 64"
  proof (rule ccontr)
    assume "\<not> n \<le> 2 ^ 64"
    moreover have "(of_nat (2 ^ 64) :: 64 word) = 0"
      by (simp add: word_unat_eq_iff unat_of_nat del: of_nat_numeral)
    ultimately have "session_ivs n c ! 0 = session_ivs n c ! (2 ^ 64)" "0 < n" "2 ^ 64 < n"
      by (simp_all add: session_ivs_nth del: of_nat_numeral of_nat_power)
    with d show False
      by (subst (asm) nth_eq_iff_index_eq) auto
  qed
qed

end
