(* ===== verification/Der.thy ===== *)
theory Der
  imports Cbor
begin

text \<open>
  The ASN.1 DER readers of \<open>src/src/delegate.rs\<close> (lines 575 to 780): length fields of at most
  four bytes, tag-length-value elements, and the conversion of an ECDSA signature from
  \<open>SEQUENCE { INTEGER r, INTEGER s }\<close> to the fixed-width form.

  Shown: the readers are total and advance, they invert the DER encoding \<open>tlv\<close>, and the
  conversion preserves the two numbers of the signature.
\<close>

section \<open>Readers\<close>

text \<open>\<open>let tag = *data.get(*pos)?; if tag != t { return None; } *pos += 1;\<close>\<close>

definition expect_tag :: "bytes \<Rightarrow> byte \<Rightarrow> (unit, unit) parser" where
  "expect_tag d t =
     bind (peek_byte d) (\<lambda>tag.
     bind (guard (tag = t) ()) (\<lambda>_.
     bind (next_byte d) (\<lambda>_. ret ())))"

definition read_der_length :: "bytes \<Rightarrow> (unit, nat) parser" where
  "read_der_length d =
     bind (next_byte d) (\<lambda>b.
     if b < 0x80 then ret (unat b)
     else
       let num_bytes = unat (b AND 0x7F) in
       if num_bytes > 4 \<or> num_bytes = 0 then throw ()
       else repeat num_bytes (\<lambda>len. bind (next_byte d) (\<lambda>x. ret (len * 256 + unat x))) 0)"

definition read_sequence_header :: "bytes \<Rightarrow> (unit, nat \<times> nat) parser" where
  "read_sequence_header d =
     bind (expect_tag d 0x30) (\<lambda>_.
     bind (read_der_length d) (\<lambda>len.
     bind get_pos (\<lambda>content_start.
     let content_end = content_start + len in
     bind (guard (content_end \<le> length d) ()) (\<lambda>_.
     ret (content_start, content_end)))))"

definition skip_der_element :: "bytes \<Rightarrow> (unit, unit) parser" where
  "skip_der_element d =
     bind (next_byte d) (\<lambda>_.
     bind (read_der_length d) (\<lambda>len.
     bind get_pos (\<lambda>pos.
     bind (guard (pos + len \<le> length d) ()) (\<lambda>_.
     set_pos (pos + len)))))"

definition read_bit_string :: "bytes \<Rightarrow> (unit, bytes) parser" where
  "read_bit_string d =
     bind (expect_tag d 0x03) (\<lambda>_.
     bind (read_der_length d) (\<lambda>len.
     bind (guard (len \<noteq> 0) ()) (\<lambda>_.
     bind (next_byte d) (\<lambda>_.
     take_bytes d (len - 1)))))"

definition read_octet_string :: "bytes \<Rightarrow> (unit, bytes) parser" where
  "read_octet_string d =
     bind (expect_tag d 0x04) (\<lambda>_. bind (read_der_length d) (take_bytes d))"

definition read_oid :: "bytes \<Rightarrow> (unit, bytes) parser" where
  "read_oid d =
     bind (expect_tag d 0x06) (\<lambda>_. bind (read_der_length d) (take_bytes d))"

definition read_der_integer :: "bytes \<Rightarrow> (unit, bytes) parser" where
  "read_der_integer d =
     bind (expect_tag d 0x02) (\<lambda>_. bind (read_der_length d) (take_bytes d))"

definition read_alg_identifier_oid :: "bytes \<Rightarrow> (unit, bytes) parser" where
  "read_alg_identifier_oid d =
     bind (read_sequence_header d) (\<lambda>(_, seq_end).
     bind (read_oid d) (\<lambda>oid.
     bind (set_pos seq_end) (\<lambda>_. ret oid)))"

section \<open>ECDSA signatures\<close>

text \<open>
  \<open>copy_integer_to_fixed src dst\<close> fills a zeroed \<open>dst\<close> of \<open>target_len\<close> bytes; the model gives
  its new contents. \<open>src[i..]\<close> at the first nonzero byte is \<open>dropWhile\<close>.
\<close>

definition copy_integer_to_fixed :: "bytes \<Rightarrow> nat \<Rightarrow> bytes" where
  "copy_integer_to_fixed src target_len =
     (let trimmed = (if \<exists>b\<in>set src. b \<noteq> 0 then dropWhile (\<lambda>b. b = 0) src else [0]) in
      if length trimmed > target_len then drop (length trimmed - target_len) trimmed
      else replicate (target_len - length trimmed) 0 @ trimmed)"

definition ecdsa_der_to_rs :: "bytes \<Rightarrow> (unit, bytes) outcome" where
  "ecdsa_der_to_rs der_sig = run (
     bind (peek_byte der_sig) (\<lambda>tag.
     bind (guard (tag = 0x30) ()) (\<lambda>_.
     bind (next_byte der_sig) (\<lambda>_.
     bind (read_der_length der_sig) (\<lambda>_.
     bind (read_der_integer der_sig) (\<lambda>r_bytes.
     bind (read_der_integer der_sig) (\<lambda>s_bytes.
     ret (copy_integer_to_fixed r_bytes 32 @ copy_integer_to_fixed s_bytes 32))))))))"

section \<open>Totality and progress\<close>

lemma expect_tag_wp [wp]:
  assumes "p < length d \<Longrightarrow> d ! p = t \<Longrightarrow> Q () (Suc p)" and "E () p"
  shows "wp (expect_tag d t) Q E p"
  using assms by (simp add: expect_tag_def)

lemma der_length_loop:
  assumes "p \<le> length d"
  shows "repeat n (\<lambda>len. bind (next_byte d) (\<lambda>x. ret (len * 256 + unat x))) v p =
    (if p + n \<le> length d then (Ret (v * 256 ^ n + be_val (take n (drop p d))), p + n) else (Err (), length d))"
  using assms
proof (induction n arbitrary: v p)
  case (Suc n)
  show ?case
  proof (cases "p < length d")
    case True
    then have "repeat (Suc n) (\<lambda>len. bind (next_byte d) (\<lambda>x. ret (len * 256 + unat x))) v p =
        repeat n (\<lambda>len. bind (next_byte d) (\<lambda>x. ret (len * 256 + unat x))) (v * 256 + unat (d ! p)) (Suc p)"
      by (simp add: bind_def next_byte_def)
    moreover have "take (Suc n) (drop p d) = d ! p # take n (drop (Suc p) d)"
      using True by (simp flip: Cons_nth_drop_Suc)
    ultimately show ?thesis
      using Suc.IH [of "Suc p" "v * 256 + unat (d ! p)"] True
      by (auto simp: algebra_simps simp del: repeat.simps ret_apply)
  qed (use Suc.prems in \<open>simp add: bind_def next_byte_def\<close>)
qed simp

lemma read_der_length_wp [wp]:
  assumes "\<And>v q. p < q \<Longrightarrow> q \<le> length d \<Longrightarrow> v < 2 ^ 32 \<Longrightarrow> Q v q" and "\<And>q. p \<le> q \<Longrightarrow> E () q"
  shows "wp (read_der_length d) Q E p"
proof (cases "p < length d")
  case True
  have "be_val (take n xs) < 2 ^ 32" if "n \<le> 4" for n xs
  proof -
    have "be_val (take n xs) < 256 ^ length (take n xs)" by (rule be_val_less)
    also have "\<dots> \<le> 256 ^ 4" using that by (intro power_increasing) auto
    finally show ?thesis by simp
  qed
  moreover have "unat b < 2 ^ 32" if "b < 0x80" for b :: byte
    using unat_byte_less [of b] by simp
  ultimately show ?thesis
    using assms True
    by (auto simp: read_der_length_def Let_def wp_def [of "repeat _ _ _"] der_length_loop)
qed (use assms in \<open>simp add: read_der_length_def\<close>)

lemma read_sequence_header_wp [wp]:
  assumes "\<And>a b q. p < a \<Longrightarrow> q = a \<Longrightarrow> a \<le> b \<Longrightarrow> b \<le> length d \<Longrightarrow> Q (a, b) q" and "\<And>q. p \<le> q \<Longrightarrow> E () q"
  shows "wp (read_sequence_header d) Q E p"
  using assms by (auto simp: read_sequence_header_def Let_def intro!: wp)

lemma skip_der_element_wp [wp]:
  assumes "\<And>q. p < q \<Longrightarrow> q \<le> length d \<Longrightarrow> Q () q" and "\<And>q. p \<le> q \<Longrightarrow> E () q"
  shows "wp (skip_der_element d) Q E p"
  using assms by (auto simp: skip_der_element_def intro!: wp)

lemma read_bit_string_wp [wp]:
  assumes "\<And>s q. p < q \<Longrightarrow> q \<le> length d \<Longrightarrow> Q s q" and "\<And>q. p \<le> q \<Longrightarrow> E () q"
  shows "wp (read_bit_string d) Q E p"
  using assms by (auto simp: read_bit_string_def intro!: wp)

lemma read_octet_string_wp [wp]:
  assumes "\<And>s q. p < q \<Longrightarrow> q \<le> length d \<Longrightarrow> Q s q" and "\<And>q. p \<le> q \<Longrightarrow> E () q"
  shows "wp (read_octet_string d) Q E p"
  using assms by (auto simp: read_octet_string_def intro!: wp)

lemma read_oid_wp [wp]:
  assumes "\<And>s q. p < q \<Longrightarrow> q \<le> length d \<Longrightarrow> Q s q" and "\<And>q. p \<le> q \<Longrightarrow> E () q"
  shows "wp (read_oid d) Q E p"
  using assms by (auto simp: read_oid_def intro!: wp)

lemma read_der_integer_wp [wp]:
  assumes "\<And>s q. p < q \<Longrightarrow> q \<le> length d \<Longrightarrow> Q s q" and "\<And>q. p \<le> q \<Longrightarrow> E () q"
  shows "wp (read_der_integer d) Q E p"
  using assms by (auto simp: read_der_integer_def intro!: wp)

lemma read_alg_identifier_oid_wp [wp]:
  assumes "\<And>s q. p < q \<Longrightarrow> q \<le> length d \<Longrightarrow> Q s q" and "\<And>q. p \<le> q \<Longrightarrow> E () q"
  shows "wp (read_alg_identifier_oid d) Q E p"
  using assms by (auto simp: read_alg_identifier_oid_def intro!: wp)

section \<open>The DER encoding\<close>

definition der_len :: "nat \<Rightarrow> bytes" where
  "der_len n = (if n < 0x80 then be 1 n else if n < 2 ^ 8 then 0x81 # be 1 n
     else if n < 2 ^ 16 then 0x82 # be 2 n else if n < 2 ^ 24 then 0x83 # be 3 n else 0x84 # be 4 n)"

definition tlv :: "byte \<Rightarrow> bytes \<Rightarrow> bytes" where
  "tlv t c = t # der_len (length c) @ c"

lemma read_der_length_at:
  assumes "at d p (der_len n)" and "n < 2 ^ 32"
  shows "read_der_length d p = (Ret n, p + length (der_len n))"
proof -
  have long: "read_der_length d p = (Ret n, p + Suc k)"
    if "at d p (b # be k n)" "n < 256 ^ k" "unat (b AND 0x7F) = k" "\<not> b < 0x80" "k \<noteq> 0" "k \<le> 4" for b k
  proof -
    have "next_byte d p = (Ret b, Suc p)" "Suc p + k \<le> length d" "take k (drop (Suc p) d) = be k n"
      using that(1) by (auto simp: next_byte_def at_def [of d "Suc p"])
    with that show ?thesis
      by (simp add: read_der_length_def Let_def bind_def der_length_loop be_val_be_id)
  qed
  consider "n < 0x80" | "\<not> n < 0x80" "n < 2 ^ 8" | "\<not> n < 2 ^ 8" "n < 2 ^ 16"
    | "\<not> n < 2 ^ 16" "n < 2 ^ 24" | "\<not> n < 2 ^ 24"
    by linarith
  then show ?thesis
  proof cases
    case 1
    then have "next_byte d p = (Ret (u8 n), Suc p)" "u8 n < 0x80"
      using assms by (auto simp: der_len_def next_byte_def word_less_nat_alt unat_u8)
    with 1 show ?thesis
      by (simp add: read_der_length_def bind_def der_len_def unat_u8)
  next
    case 2
    then show ?thesis using assms long [of "0x81" 1] by (simp add: der_len_def)
  next
    case 3
    then show ?thesis using assms long [of "0x82" 2] by (simp add: der_len_def)
  next
    case 4
    then show ?thesis using assms long [of "0x83" 3] by (simp add: der_len_def)
  next
    case 5
    then show ?thesis using assms long [of "0x84" 4] by (simp add: der_len_def)
  qed
qed

lemma expect_tag_at: "at d p (t # bs) \<Longrightarrow> expect_tag d t p = (Ret (), Suc p)"
  by (simp add: expect_tag_def bind_def peek_byte_def next_byte_def)

lemma tlv_at:
  assumes "at d p (tlv t c)" and "length c < 2 ^ 32"
  shows "expect_tag d t p = (Ret (), Suc p)" and "next_byte d p = (Ret t, Suc p)"
    and "read_der_length d (Suc p) = (Ret (length c), p + length (tlv t c) - length c)"
    and "at d (p + length (tlv t c) - length c) c"
    and "p + length (tlv t c) \<le> length d"
  using assms read_der_length_at [of d "Suc p" "length c"] at_bound [OF assms(1)]
  by (auto simp: tlv_def expect_tag_at at_next_byte next_byte_def)

lemma read_content_at:
  assumes "at d p (tlv t c)" and "length c < 2 ^ 32"
  shows "bind (expect_tag d t) (\<lambda>_. bind (read_der_length d) (take_bytes d)) p = (Ret c, p + length (tlv t c))"
  using tlv_at [OF assms] at_take_bytes [of d "p + length (tlv t c) - length c" c]
  by (simp add: bind_def tlv_def)

lemmas read_octet_string_at = read_content_at [where t = "0x04", folded read_octet_string_def]
lemmas read_oid_at = read_content_at [where t = "0x06", folded read_oid_def]
lemmas read_der_integer_at = read_content_at [where t = "0x02", folded read_der_integer_def]

lemma read_sequence_header_at:
  assumes "at d p (tlv 0x30 c)" and "length c < 2 ^ 32"
  shows "read_sequence_header d p =
    (Ret (p + length (tlv 0x30 c) - length c, p + length (tlv 0x30 c)), p + length (tlv 0x30 c) - length c)"
  using tlv_at [OF assms] by (simp add: read_sequence_header_def bind_def tlv_def)

lemma skip_der_element_at:
  assumes "at d p (tlv t c)" and "length c < 2 ^ 32"
  shows "skip_der_element d p = (Ret (), p + length (tlv t c))"
  using tlv_at [OF assms] by (simp add: skip_der_element_def bind_def tlv_def)

lemma read_bit_string_at:
  assumes "at d p (tlv 0x03 (u # c))" and "Suc (length c) < 2 ^ 32"
  shows "read_bit_string d p = (Ret c, p + length (tlv 0x03 (u # c)))"
  using tlv_at [OF assms(1)] assms(2)
    at_take_bytes [of d "Suc (p + length (tlv 0x03 (u # c)) - length (u # c))" c]
  by (simp add: read_bit_string_def bind_def tlv_def next_byte_def)

lemma copy_integer_to_fixed_be: "copy_integer_to_fixed src n = be n (be_val src)"
proof (rule be_val_inj)
  let ?t = "if \<exists>b\<in>set src. b \<noteq> 0 then dropWhile (\<lambda>b. b = 0) src else [0]"
  have "be_val src = 0" if "\<not> (\<exists>b\<in>set src. b \<noteq> 0)"
    using that by (induction src) auto
  then have "be_val ?t = be_val src"
    by (simp add: be_val_strip)
  moreover have "be_val ?t < 256 ^ n" if "\<not> length ?t > n"
    using be_val_less [of ?t] that by (meson le_less_trans less_le_trans linorder_not_less one_le_numeral power_increasing)
  ultimately show "be_val (copy_integer_to_fixed src n) = be_val (be n (be_val src))"
    unfolding copy_integer_to_fixed_def Let_def
    by (cases "length ?t > n") (simp_all add: be_val_drop be_val_append be_val_be del: drop_drop)
qed (auto simp: copy_integer_to_fixed_def Let_def)

lemma ecdsa_der_to_rs_at:
  assumes "d = tlv 0x30 (tlv 0x02 r @ tlv 0x02 s)" and "length d < 2 ^ 32"
  shows "ecdsa_der_to_rs d = Ret (be 32 (be_val r) @ be 32 (be_val s))"
proof -
  let ?c = "tlv 0x02 r @ tlv 0x02 s"
  define p where "p = length (tlv 0x30 ?c) - length ?c"
  have len: "length r < 2 ^ 32" "length s < 2 ^ 32" "length ?c < 2 ^ 32"
    using assms by (auto simp: tlv_def)
  have d: "at d 0 (tlv 0x30 ?c)" using assms(1) at_whole by simp
  note hd = tlv_at [OF d len(3)]
  have "at d p (tlv 0x02 r)" "at d (p + length (tlv 0x02 r)) (tlv 0x02 s)"
    using hd(4) by (simp_all add: p_def)
  note ints = read_der_integer_at [OF this(1) len(1)] read_der_integer_at [OF this(2) len(2)]
  have "peek_byte d 0 = (Ret 0x30, 0)"
    using d by (simp add: peek_byte_def tlv_def)
  then show ?thesis
    using hd(2,3) ints by (simp add: ecdsa_der_to_rs_def run_def bind_def copy_integer_to_fixed_be p_def)
qed

lemma ecdsa_der_to_rs_holds [wp]: "holds (ecdsa_der_to_rs d) (\<lambda>rs. length rs = 64) (\<lambda>_. True)"
  by (auto simp: ecdsa_der_to_rs_def copy_integer_to_fixed_be intro!: wp)

section \<open>Properties\<close>

text \<open>\<open>ecdsa_der_to_rs\<close> preserves the signature: whatever padding the two DER INTEGERs carry,
  the output is the 32-byte big-endian forms of their values (modulo \<open>2\<^sup>2\<^sup>5\<^sup>6\<close>).\<close>

theorem ecdsa_der_to_rs_correct:
  assumes "length (tlv 0x30 (tlv 0x02 r @ tlv 0x02 s)) < 2 ^ 32"
  shows "ecdsa_der_to_rs (tlv 0x30 (tlv 0x02 r @ tlv 0x02 s)) = Ret (be 32 (be_val r) @ be 32 (be_val s))"
  using assms by (rule ecdsa_der_to_rs_at [OF refl])

theorem ecdsa_der_to_rs_correct_witness:
  "ecdsa_der_to_rs (tlv 0x30 (tlv 0x02 [0, 0x81, 2] @ tlv 0x02 [7])) = Ret (be 32 0x8102 @ be 32 7)"
  using ecdsa_der_to_rs_correct [of "[0, 0x81, 2]" "[7]"] by (simp add: tlv_def der_len_def)

end
