(* ===== verification/X509.thy ===== *)
theory X509
  imports Der
begin

text \<open>
  The X.509 certificate parser of \<open>src/src/delegate.rs\<close>: \<open>parse_x509_cert\<close> (lines 315 to 465),
  \<open>parse_basic_constraints\<close>, \<open>check_eku_oids\<close> and \<open>parse_spki_p256_point\<close>. The loops over
  extensions and over extended key usages are \<open>while\<close> loops driven by unauthenticated input;
  they run here with \<open>length data + 1\<close> iterations at most, and \<open>parse_x509_cert_holds\<close> shows
  that this is always enough.
\<close>

section \<open>Constants\<close>

definition OID_PERMIT :: "byte \<Rightarrow> bytes" where
  "OID_PERMIT n = [0x2B, 0x06, 0x01, 0x04, 0x01, 0x82, 0xE5, 0x1C, 0x03, 0x01, n]"

definition OID_PERMIT_REDIRECT :: bytes where "OID_PERMIT_REDIRECT = OID_PERMIT 0x01"
definition OID_PERMIT_ONBOARD_NEWCRED :: bytes where "OID_PERMIT_ONBOARD_NEWCRED = OID_PERMIT 0x02"
definition OID_PERMIT_ONBOARD_REUSECRED :: bytes where "OID_PERMIT_ONBOARD_REUSECRED = OID_PERMIT 0x03"
definition OID_PERMIT_ONBOARD_FDODISABLE :: bytes where "OID_PERMIT_ONBOARD_FDODISABLE = OID_PERMIT 0x04"
definition OID_PERMIT_PROVISION :: bytes where "OID_PERMIT_PROVISION = OID_PERMIT 0x07"
definition OID_EXT_KEY_USAGE :: bytes where "OID_EXT_KEY_USAGE = [0x55, 0x1D, 0x25]"
definition OID_BASIC_CONSTRAINTS :: bytes where "OID_BASIC_CONSTRAINTS = [0x55, 0x1D, 0x13]"
definition OID_EC_PUBLIC_KEY :: bytes where
  "OID_EC_PUBLIC_KEY = [0x2A, 0x86, 0x48, 0xCE, 0x3D, 0x02, 0x01]"
definition OID_PRIME256V1 :: bytes where
  "OID_PRIME256V1 = [0x2A, 0x86, 0x48, 0xCE, 0x3D, 0x03, 0x01, 0x07]"
definition OID_ECDSA_WITH_SHA256 :: bytes where
  "OID_ECDSA_WITH_SHA256 = [0x2A, 0x86, 0x48, 0xCE, 0x3D, 0x04, 0x03, 0x02]"

section \<open>Certificate fields\<close>

record eku_flags =
  redirect :: bool
  onboard :: bool
  reuse_cred :: bool
  provision :: bool

definition no_eku :: eku_flags where
  "no_eku = \<lparr>redirect = False, onboard = False, reuse_cred = False, provision = False\<rparr>"

record parsed_cert =
  tbs_raw :: bytes
  public_key_point :: bytes
  signature_rs :: bytes
  has_permit_redirect :: bool
  has_permit_provision :: bool
  has_permit_onboard :: bool
  has_permit_reuse_cred :: bool
  is_ca :: bool
  path_len :: "nat option"

definition add_eku_oid :: "bytes \<Rightarrow> eku_flags \<Rightarrow> eku_flags" where
  "add_eku_oid oid flags =
     (if oid = OID_PERMIT_PROVISION then flags\<lparr>provision := True\<rparr>
      else if oid = OID_PERMIT_REDIRECT then flags\<lparr>redirect := True\<rparr>
      else if oid = OID_PERMIT_ONBOARD_NEWCRED then flags\<lparr>onboard := True\<rparr>
      else if oid = OID_PERMIT_ONBOARD_REUSECRED then flags\<lparr>reuse_cred := True, onboard := True\<rparr>
      else if oid = OID_PERMIT_ONBOARD_FDODISABLE then flags\<lparr>onboard := True\<rparr>
      else flags)"

definition check_eku_oids :: "bytes \<Rightarrow> (unit, eku_flags) outcome" where
  "check_eku_oids d = run (
     let_else (read_sequence_header d) no_eku (\<lambda>(_, seq_end).
     end_loop (while_flow (length d + 2) (\<lambda>pos. pos < seq_end) (\<lambda>flags.
       bind (attempt (read_oid d)) (\<lambda>r. case r of
         None \<Rightarrow> let_else (skip_der_element d) (Stop flags) (\<lambda>_. ret (Next flags))
       | Some oid \<Rightarrow> ret (Next (add_eku_oid oid flags)))) no_eku)
     ret))"

definition parse_basic_constraints :: "bytes \<Rightarrow> (unit, bool \<times> nat option) outcome" where
  "parse_basic_constraints d = run (
     let_else (read_sequence_header d) (False, None) (\<lambda>(_, seq_end).
     bind get_pos (\<lambda>pos.
     end_loop
       (if pos < seq_end \<and> pos < length d \<and> d ! pos = 0x01 then
          bind (next_byte d) (\<lambda>_.
          let_else (read_der_length d) (Stop (False, None)) (\<lambda>len.
          if len \<noteq> 1 then ret (Stop (False, None))
          else
            bind get_pos (\<lambda>q.
            bind (set_pos (q + 1)) (\<lambda>_.
            ret (Next (q < length d \<and> d ! q \<noteq> 0))))))
        else ret (Next False))
     (\<lambda>ca.
     bind get_pos (\<lambda>pos.
     if pos < seq_end \<and> pos < length d \<and> d ! pos = 0x02 then
       bind (attempt (read_der_integer d)) (\<lambda>r. ret (ca, (case r of
         Some int_bytes \<Rightarrow>
           if length int_bytes \<le> 2 \<and> int_bytes \<noteq> [] \<and> hd int_bytes AND 0x80 = 0
           then Some (be_val int_bytes) else None
       | None \<Rightarrow> None)))
     else ret (ca, None))))))"

definition parse_spki_p256_point :: "bytes \<Rightarrow> (unit, bytes) outcome" where
  "parse_spki_p256_point spki = run (
     bind (read_sequence_header spki) (\<lambda>(_, spki_end).
     bind (read_sequence_header spki) (\<lambda>(_, alg_end).
     bind (read_oid spki) (\<lambda>alg_oid.
     bind (guard (alg_oid = OID_EC_PUBLIC_KEY) ()) (\<lambda>_.
     bind (read_oid spki) (\<lambda>curve_oid.
     bind (guard (curve_oid = OID_PRIME256V1) ()) (\<lambda>_.
     bind get_pos (\<lambda>pos.
     bind (guard (pos \<le> alg_end) ()) (\<lambda>_.
     bind (set_pos alg_end) (\<lambda>_.
     bind (read_bit_string spki) (\<lambda>bits.
     bind get_pos (\<lambda>pos.
     bind (guard (pos \<le> spki_end) ()) (\<lambda>_.
     bind (guard (length bits = 65 \<and> bits ! 0 = 0x04) ()) (\<lambda>_.
     ret bits))))))))))))))"

section \<open>The certificate\<close>

text \<open>
  The extension state is \<open>(eku, is_ca, path_len)\<close>; \<open>parse_extensions\<close> is the inner \<open>while\<close> loop
  over the entries, \<open>parse_tbs_tail\<close> the outer one over the optional trailing fields.
\<close>

type_synonym ext_state = "eku_flags \<times> bool \<times> nat option"

definition parse_extension_value :: "bytes \<Rightarrow> bytes \<Rightarrow> ext_state \<Rightarrow> (unit, ext_state) parser" where
  "parse_extension_value der oid st = (case st of (eku, ca, plen) \<Rightarrow>
     if oid = OID_EXT_KEY_USAGE \<or> oid = OID_BASIC_CONSTRAINTS then
       bind get_pos (\<lambda>ext_pos.
       bind (if ext_pos < length der \<and> der ! ext_pos = 0x01 then skip_der_element der else ret ()) (\<lambda>_.
       bind (read_octet_string der) (\<lambda>wrapper.
       if oid = OID_EXT_KEY_USAGE then
         bind (lift (check_eku_oids wrapper)) (\<lambda>eku'. ret (eku', ca, plen))
       else
         bind (lift (parse_basic_constraints wrapper)) (\<lambda>(ca', plen'). ret (eku, ca', plen')))))
     else ret st)"

definition parse_extensions :: "bytes \<Rightarrow> nat \<Rightarrow> ext_state \<Rightarrow> (unit, ext_state) parser" where
  "parse_extensions der ext_wrapper_end st =
     end_loop (while_flow (length der + 2) (\<lambda>ext_pos. ext_pos < ext_wrapper_end) (\<lambda>st.
       let_else (read_sequence_header der) (Stop st) (\<lambda>(_, ext_end).
       bind (attempt (read_oid der)) (\<lambda>r.
       bind (case r of Some oid \<Rightarrow> parse_extension_value der oid st | None \<Rightarrow> ret st) (\<lambda>st'.
       bind (set_pos ext_end) (\<lambda>_.
       ret (Next st')))))) st)
     ret"

definition parse_tbs_tail :: "bytes \<Rightarrow> nat \<Rightarrow> (unit, ext_state) parser" where
  "parse_tbs_tail der tbs_end =
     end_loop (while_flow (length der + 2) (\<lambda>tbs_pos. tbs_pos < tbs_end) (\<lambda>st.
       bind (peek_byte der) (\<lambda>tag.
       if tag = 0xA3 then
         bind (next_byte der) (\<lambda>_.
         bind (read_der_length der) (\<lambda>ext_wrapper_len.
         bind get_pos (\<lambda>tbs_pos.
         bind (read_sequence_header der) (\<lambda>_.
         bind (parse_extensions der (tbs_pos + ext_wrapper_len) st) (\<lambda>st'.
         ret (Stop st'))))))
       else if tag = 0xA1 \<or> tag = 0xA2 then
         bind (skip_der_element der) (\<lambda>_. ret (Next st))
       else ret (Stop st))) (no_eku, False, None))
     ret"

definition parse_x509_cert :: "bytes \<Rightarrow> (unit, parsed_cert) outcome" where
  "parse_x509_cert der = run (
     bind (read_sequence_header der) (\<lambda>(_, outer_end).
     bind (guard (outer_end \<le> length der) ()) (\<lambda>_.
     bind get_pos (\<lambda>tbs_start.
     bind (read_sequence_header der) (\<lambda>(_, tbs_end).
     bind (of_option () (get_range der tbs_start tbs_end)) (\<lambda>tbs.
     bind (set_pos tbs_end) (\<lambda>_.
     bind (read_alg_identifier_oid der) (\<lambda>outer_sig_alg.
     bind (guard (outer_sig_alg = OID_ECDSA_WITH_SHA256) ()) (\<lambda>_.
     bind (read_bit_string der) (\<lambda>sig_raw.
     bind (lift (ecdsa_der_to_rs sig_raw)) (\<lambda>rs.
     bind (set_pos tbs_start) (\<lambda>_.
     bind (read_sequence_header der) (\<lambda>_.
     bind get_pos (\<lambda>tbs_pos.
     bind (if tbs_pos < length der \<and> der ! tbs_pos = 0xA0 then skip_der_element der else ret ()) (\<lambda>_.
     bind (skip_der_element der) (\<lambda>_.
     bind (read_alg_identifier_oid der) (\<lambda>inner_sig_alg.
     bind (guard (inner_sig_alg = outer_sig_alg) ()) (\<lambda>_.
     bind (skip_der_element der) (\<lambda>_.
     bind (skip_der_element der) (\<lambda>_.
     bind (skip_der_element der) (\<lambda>_.
     bind get_pos (\<lambda>spki_start.
     bind (read_sequence_header der) (\<lambda>(_, spki_end).
     bind (of_option () (get_range der spki_start spki_end)) (\<lambda>spki_data.
     bind (lift (parse_spki_p256_point spki_data)) (\<lambda>point.
     bind (set_pos spki_end) (\<lambda>_.
     bind (parse_tbs_tail der (length tbs + tbs_start)) (\<lambda>(eku, ca, plen).
     ret \<lparr>tbs_raw = tbs, public_key_point = point, signature_rs = rs,
          has_permit_redirect = redirect eku, has_permit_provision = provision eku,
          has_permit_onboard = onboard eku, has_permit_reuse_cred = reuse_cred eku,
          is_ca = ca, path_len = plen\<rparr>)))))))))))))))))))))))))))"

section \<open>Totality\<close>

lemma check_eku_oids_holds [wp]: "holds (check_eku_oids d) (\<lambda>_. True) (\<lambda>_. False)"
  unfolding check_eku_oids_def
  by (auto intro!: wp wp_while [where I = "\<lambda>_ _. True" and n = "length d"] split: option.splits)

lemma parse_basic_constraints_holds [wp]: "holds (parse_basic_constraints d) (\<lambda>_. True) (\<lambda>_. False)"
  unfolding parse_basic_constraints_def end_loop_def
  by (auto intro!: wp)

lemma parse_spki_p256_point_holds [wp]:
  "holds (parse_spki_p256_point d) (\<lambda>pt. length pt = 65 \<and> pt ! 0 = 0x04) (\<lambda>_. True)"
  unfolding parse_spki_p256_point_def by (auto intro!: wp)

lemma parse_extension_value_wp [wp]:
  assumes "\<And>st q. p \<le> q \<Longrightarrow> Q st q" and "\<And>q. p \<le> q \<Longrightarrow> E () q"
  shows "wp (parse_extension_value d oid st) Q E p"
  unfolding parse_extension_value_def using assms
  by (auto intro!: wp holds_conseq [OF check_eku_oids_holds] holds_conseq [OF parse_basic_constraints_holds] split: prod.splits)

lemma parse_extensions_wp [wp]:
  assumes "\<And>st q. Q st q" and "\<And>q. E () q" and "p \<le> length d"
  shows "wp (parse_extensions d w st) Q E p"
  unfolding parse_extensions_def using assms
  by (intro wp_while [where I = "\<lambda>_ q. q \<le> length d" and n = "Suc (length d)"])
    (auto intro!: wp split: option.splits)

lemma parse_tbs_tail_wp [wp]:
  assumes "\<And>st q. Q st q" and "\<And>q. E () q" and "p \<le> length d"
  shows "wp (parse_tbs_tail d e) Q E p"
  unfolding parse_tbs_tail_def using assms
  by (intro wp_while [where I = "\<lambda>_ q. q \<le> length d" and n = "Suc (length d)"])
    (auto intro!: wp split: option.splits)

lemma parse_x509_cert_holds [wp]:
  "holds (parse_x509_cert d)
     (\<lambda>c. length (public_key_point c) = 65 \<and> length (signature_rs c) = 64) (\<lambda>_. True)"
  unfolding parse_x509_cert_def
  by (auto intro!: wp holds_conseq [OF ecdsa_der_to_rs_holds] holds_conseq [OF parse_spki_p256_point_holds]
      split: option.splits)

section \<open>The certificate encoding\<close>

text \<open>
  A certificate as DER, from its parts: optional version, serial number, algorithm parameters,
  issuer, validity, subject, public key point, extensions \<open>(oid, critical, value)\<close> and the two
  INTEGERs of the signature.
\<close>

definition alg_id :: "bytes \<Rightarrow> bytes \<Rightarrow> bytes" where
  "alg_id oid params = tlv 0x30 (tlv 0x06 oid @ params)"

definition spki_der :: "bytes \<Rightarrow> bytes" where
  "spki_der pt = tlv 0x30 (alg_id OID_EC_PUBLIC_KEY (tlv 0x06 OID_PRIME256V1) @ tlv 0x03 (0 # pt))"

lemma tlv_nonempty [simp]: "tlv t c \<noteq> []"
  by (simp add: tlv_def)

lemma length_tlv_ge: "length c < length (tlv t c)"
  by (simp add: tlv_def)

lemma read_alg_identifier_oid_at:
  assumes "at d p (alg_id oid params)" and "length d < 2 ^ 32"
  shows "read_alg_identifier_oid d p = (Ret oid, p + length (alg_id oid params))"
proof -
  let ?c = "tlv 0x06 oid @ params"
  let ?q = "p + length (tlv 0x30 ?c) - length ?c"
  have at: "at d p (tlv 0x30 ?c)" using assms(1) by (simp add: alg_id_def)
  have len: "length ?c < 2 ^ 32" "length oid < 2 ^ 32"
    using at_bound [OF at] assms(2) length_tlv_ge [of ?c "0x30"] length_tlv_ge [of oid "0x06"] by auto
  have "at d ?q (tlv 0x06 oid)"
    using tlv_at(4) [OF at len(1)] by simp
  with read_sequence_header_at [OF at len(1)] len(2) show ?thesis
    by (simp add: read_alg_identifier_oid_def bind_def read_oid_at alg_id_def)
qed

lemma parse_spki_at:
  assumes "length pt = 65" and "pt ! 0 = 0x04"
  shows "parse_spki_p256_point (spki_der pt) = Ret pt"
proof -
  define d where "d = spki_der pt"
  let ?a = "tlv 0x06 OID_EC_PUBLIC_KEY @ tlv 0x06 OID_PRIME256V1"
  let ?c = "tlv 0x30 ?a @ tlv 0x03 (0 # pt)"
  note defs = tlv_def der_len_def OID_EC_PUBLIC_KEY_def OID_PRIME256V1_def be_1
  have d: "d = tlv 0x30 ?c" by (simp add: d_def spki_der_def alg_id_def)
  have l1: "length (tlv 0x30 ?c) = length ?c + 2" "length ?c = 89" "length (tlv 0x30 ?a) = length ?a + 2" "length ?a = 19"
     "length (tlv 0x03 (0 # pt)) = 68" "length (tlv 0x06 OID_EC_PUBLIC_KEY) = 9" "length (tlv 0x06 OID_PRIME256V1) = 10"
     "length OID_EC_PUBLIC_KEY = 7" "length OID_PRIME256V1 = 8"
    using assms by (simp_all add: defs)
  have "at d 0 (tlv 0x30 ?c)" by (simp add: d at_whole)
  note 1 = this tlv_at(4) [OF this]
  have a: "at d 2 (tlv 0x30 ?a)" "at d 23 (tlv 0x03 (0 # pt))"
    using 1(2) l1 by (simp_all add: l1)
  have b: "at d 4 (tlv 0x06 OID_EC_PUBLIC_KEY)" "at d 13 (tlv 0x06 OID_PRIME256V1)"
    using tlv_at(4) [OF a(1)] l1 by (simp_all add: l1)
  have "read_sequence_header d 0 = (Ret (2, 91), 2)"
    using read_sequence_header_at [OF 1(1)] l1 by simp
  moreover have "read_sequence_header d 2 = (Ret (4, 23), 4)"
    using read_sequence_header_at [OF a(1)] l1 by simp
  moreover have "read_oid d 4 = (Ret OID_EC_PUBLIC_KEY, 13)" "read_oid d 13 = (Ret OID_PRIME256V1, 23)"
    using read_oid_at [OF b(1)] read_oid_at [OF b(2)] l1 by simp_all
  moreover have "read_bit_string d 23 = (Ret pt, 91)"
    using read_bit_string_at [OF a(2)] assms l1 by simp
  ultimately show ?thesis
    using assms by (simp add: parse_spki_p256_point_def run_def bind_def flip: d_def)
qed

text \<open>Extended key usage: a SEQUENCE OF OIDs gives the flags of its members.\<close>

lemma walk_Next: "walk (\<lambda>x s. Ret (Next (f x s))) xs s = Ret (Next (fold f xs s))"
  by (induction xs arbitrary: s) auto

lemma check_eku_oids_at:
  assumes "d = tlv 0x30 (concat (map (tlv 0x06) oids))" and "length d < 2 ^ 32"
  shows "check_eku_oids d = Ret (fold add_eku_oid oids no_eku)"
proof -
  let ?c = "concat (map (tlv 0x06) oids)"
  have d: "at d 0 (tlv 0x30 ?c)" using assms(1) at_whole by simp
  have len: "length ?c < 2 ^ 32" using assms length_tlv_ge [of ?c "0x30"] by simp
  let ?p = "length (tlv 0x30 ?c) - length ?c"
  have hd: "read_sequence_header d 0 = (Ret (?p, length (tlv 0x30 ?c)), ?p)"
    using read_sequence_header_at [OF d len] by simp
  have c: "at d ?p ?c" using tlv_at(4) [OF d len] by simp
  have "length oids \<le> length ?c"
    by (induction oids) (auto simp: tlv_def)
  then have k: "length oids < length d + 2"
    using assms(1) length_tlv_ge [of ?c "0x30"] by simp
  have n: "length (tlv 0x30 ?c) = ?p + length ?c"
    using length_tlv_ge [of ?c "0x30"] by simp
  let ?body = "\<lambda>flags. bind (attempt (read_oid d)) (\<lambda>r. case r of
         None \<Rightarrow> let_else (skip_der_element d) (Stop flags) (\<lambda>_. ret (Next flags))
       | Some oid \<Rightarrow> ret (Next (add_eku_oid oid flags)))"
  have step: "fst (?body s p) = Ret (Next (add_eku_oid x s)) \<and>
      (\<forall>s'. Ret (Next (add_eku_oid x s)) = (Ret (Next s') :: (unit, (eku_flags, eku_flags) flow) outcome)
        \<longrightarrow> snd (?body s p) = p + length (tlv 0x06 x))"
    if "x \<in> set oids" "at d p (tlv 0x06 x)" for x p s
  proof -
    have "length x < 2 ^ 32"
      using at_bound [OF that(2)] assms(2) length_tlv_ge [of x "0x06"] by simp
    from read_oid_at [OF that(2) this] show ?thesis by (simp add: loop_defs)
  qed
  have "fst (while_flow (length d + 2) (\<lambda>q. q < length (tlv 0x30 ?c)) ?body no_eku ?p) =
      (walk (\<lambda>x s. Ret (Next (add_eku_oid x s))) oids no_eku :: (unit, (eku_flags, eku_flags) flow) outcome)"
    by (rule while_flow_walk [where e = "tlv 0x06", OF _ c _ n k]) (use step in simp_all)
  with hd show ?thesis
    by (simp add: check_eku_oids_def loop_defs walk_Next)
qed

lemma fold_add_eku_oid:
  "redirect (fold add_eku_oid oids f) \<longleftrightarrow> redirect f \<or> OID_PERMIT_REDIRECT \<in> set oids"
  "provision (fold add_eku_oid oids f) \<longleftrightarrow> provision f \<or> OID_PERMIT_PROVISION \<in> set oids"
  "reuse_cred (fold add_eku_oid oids f) \<longleftrightarrow> reuse_cred f \<or> OID_PERMIT_ONBOARD_REUSECRED \<in> set oids"
  "onboard (fold add_eku_oid oids f) \<longleftrightarrow> onboard f \<or> OID_PERMIT_ONBOARD_NEWCRED \<in> set oids
     \<or> OID_PERMIT_ONBOARD_REUSECRED \<in> set oids \<or> OID_PERMIT_ONBOARD_FDODISABLE \<in> set oids"
proof -
  have distinct: "distinct [OID_PERMIT_REDIRECT, OID_PERMIT_PROVISION, OID_PERMIT_ONBOARD_REUSECRED,
      OID_PERMIT_ONBOARD_NEWCRED, OID_PERMIT_ONBOARD_FDODISABLE]"
    by (simp add: OID_PERMIT_def OID_PERMIT_REDIRECT_def OID_PERMIT_PROVISION_def OID_PERMIT_ONBOARD_REUSECRED_def
        OID_PERMIT_ONBOARD_NEWCRED_def OID_PERMIT_ONBOARD_FDODISABLE_def)
  show "redirect (fold add_eku_oid oids f) \<longleftrightarrow> redirect f \<or> OID_PERMIT_REDIRECT \<in> set oids"
    "provision (fold add_eku_oid oids f) \<longleftrightarrow> provision f \<or> OID_PERMIT_PROVISION \<in> set oids"
    "reuse_cred (fold add_eku_oid oids f) \<longleftrightarrow> reuse_cred f \<or> OID_PERMIT_ONBOARD_REUSECRED \<in> set oids"
    "onboard (fold add_eku_oid oids f) \<longleftrightarrow> onboard f \<or> OID_PERMIT_ONBOARD_NEWCRED \<in> set oids
       \<or> OID_PERMIT_ONBOARD_REUSECRED \<in> set oids \<or> OID_PERMIT_ONBOARD_FDODISABLE \<in> set oids"
    using distinct by (induction oids arbitrary: f) (auto simp: add_eku_oid_def)
qed
text \<open>Basic constraints, the extension list and the whole certificate.\<close>

definition bc_der :: "bool \<Rightarrow> nat option \<Rightarrow> bytes" where
  "bc_der ca plen = tlv 0x30 ((if ca then tlv 0x01 [0xff] else []) @
     (case plen of None \<Rightarrow> [] | Some n \<Rightarrow> tlv 0x02 [u8 n]))"

lemma parse_basic_constraints_at:
  assumes "\<forall>n. plen = Some n \<longrightarrow> n < 0x80"
  shows "parse_basic_constraints (bc_der ca plen) = Ret (ca, plen)"
proof -
  note defs = parse_basic_constraints_def bc_der_def tlv_def der_len_def be_1 run_def let_else_apply bind_def
    read_sequence_header_def expect_tag_def peek_byte_def next_byte_def read_der_length_def end_loop_def
    read_der_integer_def take_bytes_def get_range_def attempt_def
  show ?thesis
  proof (cases plen)
    case None
    then show ?thesis by (cases ca) (simp_all add: defs)
  next
    case (Some n)
    then have "u8 n = take_bit 7 (u8 n)"
      using assms by (simp add: take_bit_of_nat take_bit_nat_eq_self)
    then have "u8 n AND 2 ^ 7 = 0"
      by (metis (no_types) bit_eqI bit_and_iff bit_exp_iff bit_take_bit_iff bit_0_eq bot_apply bot_bool_def less_irrefl)
    then show ?thesis
      using Some assms by (cases ca) (simp_all add: defs unat_u8)
  qed
qed

type_synonym ext = "bytes \<times> bool \<times> bytes"

definition ext_der :: "ext \<Rightarrow> bytes" where
  "ext_der x = (case x of (oid, crit, val) \<Rightarrow>
     tlv 0x30 (tlv 0x06 oid @ (if crit then tlv 0x01 [0xff] else []) @ tlv 0x04 val))"

definition ext_step :: "ext \<Rightarrow> ext_state \<Rightarrow> (unit, (ext_state, ext_state) flow) outcome" where
  "ext_step x st = (case x of (oid, crit, val) \<Rightarrow> (case st of (eku, ca, plen) \<Rightarrow>
     if oid = OID_EXT_KEY_USAGE then obind (check_eku_oids val) (\<lambda>eku'. Ret (Next (eku', ca, plen)))
     else if oid = OID_BASIC_CONSTRAINTS then
       obind (parse_basic_constraints val) (\<lambda>(ca', plen'). Ret (Next (eku, ca', plen')))
     else Ret (Next st)))"

lemma parse_extension_at:
  fixes d st x p
  defines "body \<equiv> let_else (read_sequence_header d) (Stop st) (\<lambda>(_, ext_end).
       bind (attempt (read_oid d)) (\<lambda>r.
       bind (case r of Some oid \<Rightarrow> parse_extension_value d oid st | None \<Rightarrow> ret st) (\<lambda>st'.
       bind (set_pos ext_end) (\<lambda>_.
       ret (Next st')))))"
  assumes "at d p (ext_der x)" and "length d < 2 ^ 32"
  shows "fst (body p) = ext_step x st \<and> (\<forall>s'. ext_step x st = Ret (Next s') \<longrightarrow> snd (body p) = p + length (ext_der x))"
proof -
  obtain oid crit val where x: "x = (oid, crit, val)" by (cases x)
  obtain eku ca plen where st: "st = (eku, ca, plen)" by (cases st)
  let ?crit = "if crit then tlv 0x01 [0xff] else []"
  let ?c = "tlv 0x06 oid @ ?crit @ tlv 0x04 val"
  have at: "at d p (tlv 0x30 ?c)" using assms(2) x by (simp add: ext_der_def)
  have len: "length ?c < 2 ^ 32" "length oid < 2 ^ 32" "length val < 2 ^ 32"
    using at_bound [OF at] assms(3) length_tlv_ge [of ?c "0x30"] length_tlv_ge [of oid "0x06"] length_tlv_ge [of val "0x04"]
    by auto
  define p1 where "p1 = p + length (tlv 0x30 ?c) - length ?c"
  define p2 where "p2 = p1 + length (tlv 0x06 oid)"
  define p3 where "p3 = p2 + length ?crit"
  have a: "at d p1 (tlv 0x06 oid)" "at d p2 ?crit" "at d p3 (tlv 0x04 val)"
    using tlv_at(4) [OF at len(1)] by (simp_all add: p1_def p2_def p3_def)
  have hd: "read_sequence_header d p = (Ret (p1, p + length (ext_der x)), p1)"
    using read_sequence_header_at [OF at len(1)] x by (simp add: p1_def ext_der_def)
  have oid: "read_oid d p1 = (Ret oid, p2)"
    using read_oid_at [OF a(1) len(2)] by (simp add: p2_def)
  have oct: "read_octet_string d p3 = (Ret val, p3 + length (tlv 0x04 val))"
    using read_octet_string_at [OF a(3) len(3)] by simp
  have crit: "(if p2 < length d \<and> d ! p2 = 0x01 then skip_der_element d else ret ()) p2 = (Ret (), p3)"
  proof (cases crit)
    case True
    then show ?thesis
      using a(2) skip_der_element_at [of d p2 "0x01" "[0xff]"] by (simp add: p3_def) (simp add: tlv_def)
  next
    case False
    then show ?thesis using a(3) by (simp add: p3_def tlv_def)
  qed
  have eku: "\<exists>e. check_eku_oids val = Ret e" and bc: "\<exists>c. parse_basic_constraints val = Ret c"
    using holds_Ret [OF check_eku_oids_holds] holds_Ret [OF parse_basic_constraints_holds] by blast+
  then show ?thesis
    using hd oid oct crit
    by (auto simp: body_def ext_step_def x st parse_extension_value_def loop_defs lift_def)
qed

definition exts_der :: "ext list option \<Rightarrow> bytes" where
  "exts_der exts = (case exts of None \<Rightarrow> [] | Some xs \<Rightarrow> tlv 0xA3 (tlv 0x30 (concat (map ext_der xs))))"

definition exts_result :: "ext list \<Rightarrow> (unit, ext_state) outcome" where
  "exts_result xs = (case walk ext_step xs (no_eku, False, None) of
     Ret (Next st) \<Rightarrow> Ret st | Ret (Stop st) \<Rightarrow> Ret st | Err e \<Rightarrow> Err e | Panic \<Rightarrow> Panic | Diverge \<Rightarrow> Diverge)"

lemma ext_der_nonempty [simp]: "ext_der x \<noteq> []"
  by (simp add: ext_der_def split: prod.splits)

lemma parse_extensions_at:
  assumes "at d p (concat (map ext_der xs))" and "w = p + length (concat (map ext_der xs))" and "length d < 2 ^ 32"
  shows "fst (parse_extensions d w (no_eku, False, None) p) = exts_result xs"
proof -
  have "length xs \<le> length (concat (map ext_der xs))"
    by (rule length_concat_ge) simp
  then have "length xs < length d + 2"
    using at_bound [OF assms(1)] by simp
  from while_flow_walk [where e = ext_der, OF parse_extension_at [OF _ assms(3)] assms(1) _ assms(2) this]
  show ?thesis
    unfolding parse_extensions_def exts_result_def fst_end_loop_ret_id by simp
qed

lemma parse_tbs_tail_at:
  assumes "at d p (exts_der exts)" and "e = p + length (exts_der exts)" and "length d < 2 ^ 32"
  shows "fst (parse_tbs_tail d e p) = exts_result (case exts of None \<Rightarrow> [] | Some xs \<Rightarrow> xs)"
proof (cases exts)
  case None
  then show ?thesis
    using assms by (simp add: parse_tbs_tail_def exts_result_def exts_der_def while_flow.simps loop_defs)
next
  case (Some xs)
  let ?c = "tlv 0x30 (concat (map ext_der xs))"
  have at: "at d p (tlv 0xA3 ?c)" using assms Some by (simp add: exts_der_def)
  have len: "length ?c < 2 ^ 32" "length (concat (map ext_der xs)) < 2 ^ 32"
    using at_bound [OF at] assms(3) length_tlv_ge [of ?c "0xA3"] length_tlv_ge [of "concat (map ext_der xs)" "0x30"] by auto
  define p1 where "p1 = p + length (tlv 0xA3 ?c) - length ?c"
  define p2 where "p2 = p1 + length ?c - length (concat (map ext_der xs))"
  note hd = tlv_at [OF at len(1), folded p1_def]
  have sq: "read_sequence_header d p1 = (Ret (p2, p1 + length ?c), p2)"
    using read_sequence_header_at [OF hd(4) len(2)] by (simp add: p2_def)
  have cat: "at d p2 (concat (map ext_der xs))"
    using tlv_at(4) [OF hd(4) len(2)] by (simp add: p2_def)
  have w: "p1 + length ?c = p2 + length (concat (map ext_der xs))"
    using length_tlv_ge [of "concat (map ext_der xs)" "0x30"] by (simp add: p2_def)
  note exts = parse_extensions_at [OF cat w assms(3)]
  have "peek_byte d p = (Ret 0xA3, p)" "p < e"
    using at assms(2) Some by (auto simp: peek_byte_def tlv_def exts_der_def)
  with hd(2,3) sq exts Some show ?thesis
    by (cases "parse_extensions d (p1 + length ?c) (no_eku, False, None) p2")
      (auto simp: parse_tbs_tail_def while_flow.simps loop_defs split: outcome.splits)
qed

text \<open>A certificate, and what the parser extracts from it.\<close>

record cert_parts =
  c_version :: "bytes option"
  c_serial :: bytes
  c_params :: bytes
  c_issuer :: bytes
  c_validity :: bytes
  c_subject :: bytes
  c_point :: bytes
  c_exts :: "ext list option"
  c_r :: bytes
  c_s :: bytes

definition tbs_der :: "cert_parts \<Rightarrow> bytes" where
  "tbs_der c = tlv 0x30 ((case c_version c of None \<Rightarrow> [] | Some v \<Rightarrow> tlv 0xA0 v) @ tlv 0x02 (c_serial c)
     @ alg_id OID_ECDSA_WITH_SHA256 (c_params c) @ tlv 0x30 (c_issuer c) @ tlv 0x30 (c_validity c)
     @ tlv 0x30 (c_subject c) @ spki_der (c_point c) @ exts_der (c_exts c))"

definition cert_der :: "cert_parts \<Rightarrow> bytes" where
  "cert_der c = tlv 0x30 (tbs_der c @ alg_id OID_ECDSA_WITH_SHA256 (c_params c)
     @ tlv 0x03 (0 # tlv 0x30 (tlv 0x02 (c_r c) @ tlv 0x02 (c_s c))))"

lemma tlv_short: "at d p (tlv t x) \<Longrightarrow> length d < 2 ^ 32 \<Longrightarrow> length x < 2 ^ 32"
  using at_bound [of d p "tlv t x"] length_tlv_ge [of x t] by simp

lemma tlv_hd: "at d p (tlv t x) \<Longrightarrow> p < length d \<and> d ! p = t"
  by (simp add: tlv_def)

abbreviation es256_alg :: "cert_parts \<Rightarrow> bytes" where
  "es256_alg c \<equiv> alg_id OID_ECDSA_WITH_SHA256 (c_params c)"

abbreviation sig_der :: "cert_parts \<Rightarrow> bytes" where
  "sig_der c \<equiv> tlv 0x30 (tlv 0x02 (c_r c) @ tlv 0x02 (c_s c))"

lemma cert_outer_at:
  assumes "at d 0 (cert_der c)" and "length d < 2 ^ 32"
  obtains t0 t1 t2 n where "read_sequence_header d 0 = (Ret (t0, n), t0)" and "n \<le> length d"
    and "t1 = t0 + length (tbs_der c)" and "at d t0 (tbs_der c)"
    and "read_alg_identifier_oid d t1 = (Ret OID_ECDSA_WITH_SHA256, t2)"
    and "read_bit_string d t2 = (Ret (sig_der c), t2 + length (tlv 0x03 (0 # sig_der c)))"
    and "ecdsa_der_to_rs (sig_der c) = Ret (be 32 (be_val (c_r c)) @ be 32 (be_val (c_s c)))"
proof -
  let ?outer = "tbs_der c @ es256_alg c @ tlv 0x03 (0 # sig_der c)"
  have at: "at d 0 (tlv 0x30 ?outer)" using assms(1) by (simp add: cert_der_def)
  define t0 where "t0 = length (tlv 0x30 ?outer) - length ?outer"
  define t1 where "t1 = t0 + length (tbs_der c)"
  define t2 where "t2 = t1 + length (es256_alg c)"
  note short = tlv_short [OF _ assms(2)]
  have outer: "at d t0 (tbs_der c)" "at d t1 (es256_alg c)" "at d t2 (tlv 0x03 (0 # sig_der c))"
    using tlv_at(4) [OF at short [OF at]] by (simp_all add: t0_def t1_def t2_def)
  have "read_sequence_header d 0 = (Ret (t0, length (tlv 0x30 ?outer)), t0)"
    using read_sequence_header_at [OF at short [OF at]] by (simp add: t0_def)
  moreover have "read_alg_identifier_oid d t1 = (Ret OID_ECDSA_WITH_SHA256, t2)"
    using read_alg_identifier_oid_at [OF outer(2) assms(2)] by (simp add: t2_def)
  moreover have "read_bit_string d t2 = (Ret (sig_der c), t2 + length (tlv 0x03 (0 # sig_der c)))"
    using read_bit_string_at [OF outer(3)] short [OF outer(3)] by simp
  moreover have "ecdsa_der_to_rs (sig_der c) = Ret (be 32 (be_val (c_r c)) @ be 32 (be_val (c_s c)))"
    using short [OF outer(3)] by (intro ecdsa_der_to_rs_at) auto
  moreover have "length (tlv 0x30 ?outer) \<le> length d"
    using at_bound [OF at] by simp
  ultimately show thesis
    using that outer(1) t1_def by metis
qed

lemma tbs_inner_at:
  assumes "at d t0 (tbs_der c)" and "length d < 2 ^ 32"
  obtains q0 q1 q2 q3 q4 q5 q6 q7 a where "read_sequence_header d t0 = (Ret (q0, t0 + length (tbs_der c)), q0)"
    and "(if q0 < length d \<and> d ! q0 = 0xA0 then skip_der_element d else ret ()) q0 = (Ret (), q1)"
    and "skip_der_element d q1 = (Ret (), q2)"
    and "read_alg_identifier_oid d q2 = (Ret OID_ECDSA_WITH_SHA256, q3)"
    and "skip_der_element d q3 = (Ret (), q4)" and "skip_der_element d q4 = (Ret (), q5)"
    and "skip_der_element d q5 = (Ret (), q6)"
    and "read_sequence_header d q6 = (Ret (a, q7), a)"
    and "get_range d q6 q7 = Some (spki_der (c_point c))"
    and "at d q7 (exts_der (c_exts c))" and "t0 + length (tbs_der c) = q7 + length (exts_der (c_exts c))"
proof -
  let ?ver = "case c_version c of None \<Rightarrow> [] | Some v \<Rightarrow> tlv 0xA0 v"
  let ?tbs = "?ver @ tlv 0x02 (c_serial c) @ es256_alg c @ tlv 0x30 (c_issuer c) @ tlv 0x30 (c_validity c)
     @ tlv 0x30 (c_subject c) @ spki_der (c_point c) @ exts_der (c_exts c)"
  have tbs: "tbs_der c = tlv 0x30 ?tbs" and at: "at d t0 (tlv 0x30 ?tbs)"
    using assms(1) by (simp_all add: tbs_der_def)
  define q0 where "q0 = t0 + length (tlv 0x30 ?tbs) - length ?tbs"
  define q1 where "q1 = q0 + length ?ver"
  define q2 where "q2 = q1 + length (tlv 0x02 (c_serial c))"
  define q3 where "q3 = q2 + length (es256_alg c)"
  define q4 where "q4 = q3 + length (tlv 0x30 (c_issuer c))"
  define q5 where "q5 = q4 + length (tlv 0x30 (c_validity c))"
  define q6 where "q6 = q5 + length (tlv 0x30 (c_subject c))"
  define q7 where "q7 = q6 + length (spki_der (c_point c))"
  note short = tlv_short [OF _ assms(2)] and sum = q1_def q2_def q3_def q4_def q5_def q6_def q7_def
  have inner: "at d q0 ?ver" "at d q1 (tlv 0x02 (c_serial c))" "at d q2 (es256_alg c)" "at d q3 (tlv 0x30 (c_issuer c))"
    "at d q4 (tlv 0x30 (c_validity c))" "at d q5 (tlv 0x30 (c_subject c))" "at d q6 (spki_der (c_point c))"
    "at d q7 (exts_der (c_exts c))"
    using tlv_at(4) [OF at short [OF at], folded q0_def] by (simp_all add: sum add.assoc)
  have skip: "skip_der_element d q = (Ret (), q + length (tlv t x))" if "at d q (tlv t x)" for q t x
    using skip_der_element_at [OF that short [OF that]] .
  have ver: "(if q0 < length d \<and> d ! q0 = 0xA0 then skip_der_element d else ret ()) q0 = (Ret (), q1)"
    using inner(1,2) by (cases "c_version c") (auto simp: q1_def skip dest: tlv_hd)
  obtain s where s: "spki_der (c_point c) = tlv 0x30 s" by (simp add: spki_der_def)
  have spki: "at d q6 (tlv 0x30 s)" using inner(7) s by simp
  have q7: "q6 + length (tlv 0x30 s) = q7" by (simp add: q7_def s)
  have "t0 + length (tlv 0x30 ?tbs) = q7 + length (exts_der (c_exts c))"
    using length_tlv_ge [of ?tbs "0x30"] by (simp add: q0_def sum)
  then show thesis
    using that [of q0 q1 q2 q3 q4 q5 q6 "q6 + length (tlv 0x30 s) - length s" q7]
      read_sequence_header_at [OF at short [OF at], folded q0_def] ver
      skip [OF inner(2)] skip [OF inner(4)] skip [OF inner(5)] skip [OF inner(6)] inner(8)
      read_alg_identifier_oid_at [OF inner(3) assms(2)] read_sequence_header_at [OF spki short [OF spki]]
      at_get_range [OF inner(7)]
    by (simp add: tbs s q7 flip: sum)
qed

lemma parse_x509_cert_at:
  assumes "d = cert_der c @ rest" and "length d < 2 ^ 32" and "length (c_point c) = 65" and "c_point c ! 0 = 0x04"
    and "exts_result (case c_exts c of None \<Rightarrow> [] | Some xs \<Rightarrow> xs) = Ret (eku, ca, plen)"
  shows "parse_x509_cert d = Ret \<lparr>tbs_raw = tbs_der c, public_key_point = c_point c,
     signature_rs = be 32 (be_val (c_r c)) @ be 32 (be_val (c_s c)),
     has_permit_redirect = redirect eku, has_permit_provision = provision eku,
     has_permit_onboard = onboard eku, has_permit_reuse_cred = reuse_cred eku, is_ca = ca, path_len = plen\<rparr>"
proof -
  have "at d 0 (cert_der c)"
    using at_self [of "[]" "cert_der c" rest] assms(1) by simp
  then obtain t0 t1 t2 n where outer: "read_sequence_header d 0 = (Ret (t0, n), t0)" "n \<le> length d"
    "t1 = t0 + length (tbs_der c)" "at d t0 (tbs_der c)"
    "read_alg_identifier_oid d t1 = (Ret OID_ECDSA_WITH_SHA256, t2)"
    "read_bit_string d t2 = (Ret (sig_der c), t2 + length (tlv 0x03 (0 # sig_der c)))"
    "ecdsa_der_to_rs (sig_der c) = Ret (be 32 (be_val (c_r c)) @ be 32 (be_val (c_s c)))"
    using assms(2) by (rule cert_outer_at)
  obtain q0 q1 q2 q3 q4 q5 q6 q7 a where inner: "read_sequence_header d t0 = (Ret (q0, t0 + length (tbs_der c)), q0)"
    "(if q0 < length d \<and> d ! q0 = 0xA0 then skip_der_element d else ret ()) q0 = (Ret (), q1)"
    "skip_der_element d q1 = (Ret (), q2)"
    "read_alg_identifier_oid d q2 = (Ret OID_ECDSA_WITH_SHA256, q3)"
    "skip_der_element d q3 = (Ret (), q4)" "skip_der_element d q4 = (Ret (), q5)"
    "skip_der_element d q5 = (Ret (), q6)"
    "read_sequence_header d q6 = (Ret (a, q7), a)"
    "get_range d q6 q7 = Some (spki_der (c_point c))"
    "at d q7 (exts_der (c_exts c))" "t0 + length (tbs_der c) = q7 + length (exts_der (c_exts c))"
    using outer(4) assms(2) by (rule tbs_inner_at)
  have "fst (parse_tbs_tail d (length (tbs_der c) + t0) q7) = Ret (eku, ca, plen)"
    using parse_tbs_tail_at [OF inner(10,11) assms(2)] assms(5) by (simp add: add.commute)
  with outer inner(1-9) at_get_range [OF outer(4)] parse_spki_at [OF assms(3,4)] show ?thesis
    by (cases "parse_tbs_tail d (length (tbs_der c) + t0) q7")
      (auto simp add: parse_x509_cert_def run_def bind_def lift_def)
qed

lemma length_ext_val:
  assumes "c_exts c = Some xs" and "(oid, cr, val) \<in> set xs"
  shows "length val \<le> length (cert_der c)"
proof -
  let ?e = "concat (map ext_der xs)" and ?i = "tlv 0x06 oid @ (if cr then tlv 0x01 [0xff] else []) @ tlv 0x04 val"
  have "length val < length (tlv 0x04 val)" by (rule length_tlv_ge)
  also have "\<dots> \<le> length ?i" by simp
  also have "\<dots> < length (tlv 0x30 ?i)" by (rule length_tlv_ge)
  also have "\<dots> \<le> length ?e"
    using length_concat_member [OF assms(2), of ext_der] by (simp add: ext_der_def)
  also have "\<dots> < length (tlv 0x30 ?e)" by (rule length_tlv_ge)
  also have "\<dots> < length (tlv 0xA3 (tlv 0x30 ?e))" by (rule length_tlv_ge)
  also have "\<dots> = length (exts_der (c_exts c))" using assms(1) by (simp add: exts_der_def)
  also have "\<dots> \<le> length (tbs_der c)"
    unfolding tbs_der_def by (rule order_trans [OF _ less_imp_le [OF length_tlv_ge]]) simp
  also have "\<dots> \<le> length (cert_der c)"
    unfolding cert_der_def by (rule order_trans [OF _ less_imp_le [OF length_tlv_ge]]) simp
  finally show ?thesis by simp
qed

lemma parse_std_cert:
  assumes "c_exts c = Some [(OID_BASIC_CONSTRAINTS, cr, bc_der ca plen),
      (OID_EXT_KEY_USAGE, cr', tlv 0x30 (concat (map (tlv 0x06) oids)))]"
    and "\<forall>n. plen = Some n \<longrightarrow> n < 0x80" and "length (c_point c) = 65" and "c_point c ! 0 = 0x04"
    and "length (cert_der c @ rest) < 2 ^ 32"
  shows "parse_x509_cert (cert_der c @ rest) = Ret \<lparr>tbs_raw = tbs_der c, public_key_point = c_point c,
     signature_rs = be 32 (be_val (c_r c)) @ be 32 (be_val (c_s c)),
     has_permit_redirect = (OID_PERMIT_REDIRECT \<in> set oids),
     has_permit_provision = (OID_PERMIT_PROVISION \<in> set oids),
     has_permit_onboard = (\<exists>x\<in>{OID_PERMIT_ONBOARD_NEWCRED, OID_PERMIT_ONBOARD_REUSECRED,
        OID_PERMIT_ONBOARD_FDODISABLE}. x \<in> set oids),
     has_permit_reuse_cred = (OID_PERMIT_ONBOARD_REUSECRED \<in> set oids), is_ca = ca, path_len = plen\<rparr>"
proof -
  let ?eku = "tlv 0x30 (concat (map (tlv 0x06) oids))"
  have "length ?eku \<le> length (cert_der c @ rest)"
    using length_ext_val [OF assms(1), of OID_EXT_KEY_USAGE cr' ?eku] by simp
  then have "check_eku_oids ?eku = Ret (fold add_eku_oid oids no_eku)"
    using assms(5) by (intro check_eku_oids_at) auto
  moreover have "OID_BASIC_CONSTRAINTS \<noteq> OID_EXT_KEY_USAGE"
    by (simp add: OID_BASIC_CONSTRAINTS_def OID_EXT_KEY_USAGE_def)
  ultimately have "exts_result (case c_exts c of None \<Rightarrow> [] | Some xs \<Rightarrow> xs) =
      Ret (fold add_eku_oid oids no_eku, ca, plen)"
    using assms(1) parse_basic_constraints_at [OF assms(2)] by (simp add: exts_result_def ext_step_def)
  from parse_x509_cert_at [OF refl assms(5,3,4) this] show ?thesis
    by (simp add: fold_add_eku_oid) (auto simp: no_eku_def)
qed

definition sample_cert :: cert_parts where
  "sample_cert = \<lparr>c_version = Some (tlv 0x02 [2]), c_serial = [1], c_params = [], c_issuer = [],
     c_validity = [], c_subject = [], c_point = 0x04 # replicate 64 0x11,
     c_exts = Some [(OID_BASIC_CONSTRAINTS, True, bc_der True (Some 1)),
       (OID_EXT_KEY_USAGE, False, tlv 0x30 (concat (map (tlv 0x06) [OID_PERMIT_PROVISION])))],
     c_r = [0x22], c_s = [0x33]\<rparr>"

lemma length_sample_cert: "length (cert_der sample_cert) < 256"
  by code_simp

section \<open>Properties\<close>

text \<open>\<open>parse_x509_cert\<close> is total on attacker-controlled bytes: every \<open>while\<close> loop over
  extensions, key usages and unique identifiers ends, no slice panics, and what it accepts has a
  65-byte key and a 64-byte signature.\<close>

theorem parse_x509_cert_total:
  "holds (parse_x509_cert d)
     (\<lambda>c. length (public_key_point c) = 65 \<and> length (signature_rs c) = 64) (\<lambda>_. True)"
  by (rule parse_x509_cert_holds)



end
