(* ===== verification/Delegate.thy ===== *)
theory Delegate
  imports Cose X509
begin

text \<open>
  \<open>src/src/delegate.rs\<close>: validation of a delegate certificate chain against the Owner key
  (\<open>verify_delegate_chain\<close>), of the internal links of an X5CHAIN (\<open>verify_x5chain_internal\<close>),
  and the extraction of the chains from a COSE unprotected header (labels 258 and 33).

  The promise of the component is the relation \<open>delegated\<close>: a key speaks for the Owner with a set
  of permissions when a sequence of certificates leads to it, each signed by a key that speaks for
  the Owner and belongs to a CA, and each passing on only permissions it has itself.
  \<open>verify_delegate_chain_iff\<close> characterises the code exactly, \<open>verify_delegate_chain_delegated\<close>
  shows that it implements the promise.
\<close>

section \<open>Chain validation\<close>

definition MAX_DELEGATE_CHAIN_LEN :: nat where "MAX_DELEGATE_CHAIN_LEN = 8"

record delegate_chain_result =
  leaf_key_point :: bytes
  has_redirect :: bool
  has_provision :: bool
  has_onboard :: bool
  has_reuse_cred :: bool

text \<open>The loop that parses every certificate, and stops at the first that does not parse.\<close>

fun parse_certs :: "bytes list \<Rightarrow> (unit, parsed_cert list) outcome" where
  "parse_certs [] = Ret []"
| "parse_certs (der # ders) =
     obind (parse_x509_cert der) (\<lambda>c. obind (parse_certs ders) (\<lambda>cs. Ret (c # cs)))"

text \<open>The body of the link loops, for the certificate \<open>i\<close> and its issuer \<open>i + 1\<close>.\<close>

definition check_link :: "crypto \<Rightarrow> parsed_cert list \<Rightarrow> nat \<Rightarrow> bool" where
  "check_link cr parsed i =
     (let issuer = parsed ! (i + 1) in
      if \<not> is_ca issuer then False
      else if (case path_len issuer of Some max_intermediates \<Rightarrow> i > max_intermediates | None \<Rightarrow> False)
      then False
      else verify_es256 cr (tbs_raw (parsed ! i)) (signature_rs (parsed ! i)) (public_key_point issuer))"

text \<open>\<open>for i in (0..n).rev()\<close> and \<open>for i in a..b\<close>, leaving at the first bad link.\<close>

fun links_rev :: "crypto \<Rightarrow> parsed_cert list \<Rightarrow> nat \<Rightarrow> bool" where
  "links_rev cr parsed 0 = True"
| "links_rev cr parsed (Suc i) = (if check_link cr parsed i then links_rev cr parsed i else False)"

fun links_up :: "crypto \<Rightarrow> parsed_cert list \<Rightarrow> nat \<Rightarrow> nat \<Rightarrow> bool" where
  "links_up cr parsed i 0 = True"
| "links_up cr parsed i (Suc n) = (if check_link cr parsed i then links_up cr parsed (Suc i) n else False)"

definition verify_delegate_chain :: "crypto \<Rightarrow> bytes list \<Rightarrow> bytes \<Rightarrow> (unit, delegate_chain_result) outcome" where
  "verify_delegate_chain cr cert_ders owner_key_point =
     (if cert_ders = [] then Err ()
      else if length cert_ders > MAX_DELEGATE_CHAIN_LEN then Err ()
      else obind (parse_certs cert_ders) (\<lambda>parsed.
        let root_idx = length parsed - 1 in
        if \<not> verify_es256 cr (tbs_raw (parsed ! root_idx)) (signature_rs (parsed ! root_idx)) owner_key_point
        then Err ()
        else if length parsed > 1 \<and> \<not> links_rev cr parsed root_idx then Err ()
        else Ret \<lparr>leaf_key_point = public_key_point (parsed ! 0),
          has_redirect = foldl (\<lambda>a c. a \<and> has_permit_redirect c) True parsed,
          has_provision = foldl (\<lambda>a c. a \<and> has_permit_provision c) True parsed,
          has_onboard = foldl (\<lambda>a c. a \<and> has_permit_onboard c) True parsed,
          has_reuse_cred = foldl (\<lambda>a c. a \<and> has_permit_reuse_cred c) True parsed\<rparr>))"

definition verify_x5chain_internal :: "crypto \<Rightarrow> bytes list \<Rightarrow> (unit, bytes) outcome" where
  "verify_x5chain_internal cr cert_ders =
     (if cert_ders = [] then Err ()
      else if length cert_ders > MAX_DELEGATE_CHAIN_LEN then Err ()
      else obind (parse_certs cert_ders) (\<lambda>parsed.
        if \<not> links_up cr parsed 0 (length parsed - 1) then Err ()
        else Ret (public_key_point (parsed ! 0))))"

section \<open>Chains in the unprotected header\<close>

text \<open>\<open>for i in 0..cert_count { certs.push(cbor_read_bstr(data, pos)?.to_vec()) }\<close>\<close>

definition read_certs :: "bytes \<Rightarrow> nat \<Rightarrow> (unit, bytes list) parser" where
  "read_certs d n = repeat n (\<lambda>certs. bind (cbor_read_bstr d) (\<lambda>der. ret (certs @ [der]))) []"

definition parse_x5chain_value :: "bytes \<Rightarrow> (unit, bytes list) parser" where
  "parse_x5chain_value d =
     bind (next_byte d) (\<lambda>b.
     if major b = 4 then
       bind (cbor_read_uint_arg d (addl b)) (\<lambda>cert_count. read_certs d cert_count)
     else if major b = 2 then
       bind (cbor_read_uint_arg d (addl b)) (\<lambda>len.
       bind (take_bytes d len) (\<lambda>der. ret [der]))
     else throw ())"

definition parse_fdo_public_key_x5chain :: "bytes \<Rightarrow> (unit, bytes list) parser" where
  "parse_fdo_public_key_x5chain d =
     bind (next_byte d) (\<lambda>b.
     bind (guard (major b = 4) ()) (\<lambda>_.
     bind (cbor_read_uint_arg d (addl b)) (\<lambda>arr_len.
     bind (guard (\<not> arr_len < 3) ()) (\<lambda>_.
     bind (cbor_read_int_value d) (\<lambda>pk_type.
     bind (cbor_read_int_value d) (\<lambda>pk_enc.
     bind (guard (pk_enc = 2) ()) (\<lambda>_.
     parse_x5chain_value d)))))))"

text \<open>Both extractors walk the header map for one label.\<close>

definition find_label :: "bytes \<Rightarrow> int \<Rightarrow> (unit, 'a) parser \<Rightarrow> (unit, 'a) outcome" where
  "find_label unprotected label parse = run (
     bind (next_byte unprotected) (\<lambda>b.
     bind (guard (major b = 5) ()) (\<lambda>_.
     bind (cbor_read_uint_arg unprotected (addl b)) (\<lambda>map_len.
     end_loop (repeat_flow map_len (\<lambda>_.
       bind (cbor_read_int_value unprotected) (\<lambda>key.
       if key = label then bind parse (\<lambda>r. ret (Stop r))
       else bind (cbor_skip unprotected) (\<lambda>_. ret (Next ())))) ())
     (\<lambda>_. throw ())))))"

definition extract_delegate_chain_from_unprotected :: "bytes \<Rightarrow> (unit, bytes list) outcome" where
  "extract_delegate_chain_from_unprotected unprotected =
     find_label unprotected COSE_LABEL_DELEGATE_KEY (parse_fdo_public_key_x5chain unprotected)"

definition extract_x5chain_from_unprotected :: "bytes \<Rightarrow> (unit, bytes list) outcome" where
  "extract_x5chain_from_unprotected unprotected =
     find_label unprotected COSE_LABEL_X5CHAIN (parse_x5chain_value unprotected)"

section \<open>Totality\<close>

lemma parse_certs_holds [wp]: "holds (parse_certs ders) (\<lambda>cs. length cs = length ders) (\<lambda>_. True)"
  by (induction ders) (auto intro!: holds_conseq [OF parse_x509_cert_holds] elim!: holds_conseq)

lemma verify_delegate_chain_holds [wp]: "total (verify_delegate_chain cr ders owner)"
  by (auto simp: verify_delegate_chain_def Let_def intro!: holds_conseq [OF parse_certs_holds])

lemma verify_x5chain_internal_holds [wp]: "total (verify_x5chain_internal cr ders)"
  by (auto simp: verify_x5chain_internal_def intro!: holds_conseq [OF parse_certs_holds])

lemma read_certs_wp [wp]:
  assumes "\<And>cs q. p \<le> q \<Longrightarrow> Q cs q" and "\<And>q. p \<le> q \<Longrightarrow> E () q"
  shows "wp (read_certs d n) Q E p"
  unfolding read_certs_def
  by (rule wp_conseq [OF wp_repeat [where I = "\<lambda>_ q. p \<le> q" and E = "\<lambda>_ q. p \<le> q"]])
    (use assms in \<open>auto intro!: wp\<close>)

lemma parse_x5chain_value_wp [wp]:
  assumes "\<And>cs q. p < q \<Longrightarrow> Q cs q" and "\<And>q. p \<le> q \<Longrightarrow> E () q"
  shows "wp (parse_x5chain_value d) Q E p"
  using assms by (auto simp: parse_x5chain_value_def intro!: wp)

lemma parse_fdo_public_key_x5chain_wp [wp]:
  assumes "\<And>cs q. p < q \<Longrightarrow> Q cs q" and "\<And>q. p \<le> q \<Longrightarrow> E () q"
  shows "wp (parse_fdo_public_key_x5chain d) Q E p"
  using assms by (auto simp: parse_fdo_public_key_x5chain_def intro!: wp)

lemma find_label_holds:
  assumes "\<And>p. wp parse (\<lambda>_ _. True) (\<lambda>_ _. True) p"
  shows "total (find_label d l parse)"
  unfolding find_label_def
  by (auto intro!: wp wp_end_loop [where I = "\<lambda>_ _. True"] wp_conseq [OF assms])

lemma extract_holds [wp]:
  "total (extract_delegate_chain_from_unprotected d)" "total (extract_x5chain_from_unprotected d)"
  unfolding extract_delegate_chain_from_unprotected_def extract_x5chain_from_unprotected_def
  by (auto intro!: find_label_holds wp)

section \<open>What the chain checks mean\<close>

definition link_ok :: "crypto \<Rightarrow> parsed_cert list \<Rightarrow> nat \<Rightarrow> bool" where
  "link_ok cr cs i \<longleftrightarrow> is_ca (cs ! Suc i) \<and> (\<forall>m. path_len (cs ! Suc i) = Some m \<longrightarrow> i \<le> m) \<and>
     verify_es256 cr (tbs_raw (cs ! i)) (signature_rs (cs ! i)) (public_key_point (cs ! Suc i))"

lemma check_link_ok: "check_link cr cs i \<longleftrightarrow> link_ok cr cs i"
  by (auto simp: check_link_def link_ok_def Let_def split: option.splits)

lemma links_rev_iff: "links_rev cr cs n \<longleftrightarrow> (\<forall>i<n. link_ok cr cs i)"
  by (induction n) (auto simp: check_link_ok less_Suc_eq)

lemma links_up_iff: "links_up cr cs i n \<longleftrightarrow> (\<forall>j<n. link_ok cr cs (i + j))"
proof (induction n arbitrary: i)
  case (Suc n)
  have "(\<forall>j<Suc n. link_ok cr cs (i + j)) \<longleftrightarrow> link_ok cr cs i \<and> (\<forall>j<n. link_ok cr cs (Suc i + j))"
    by (auto simp: less_Suc_eq_0_disj)
  with Suc show ?case by (simp add: check_link_ok)
qed simp

lemma foldl_conj: "foldl (\<lambda>a c. a \<and> f c) b cs \<longleftrightarrow> b \<and> (\<forall>c\<in>set cs. f c)"
  by (induction cs arbitrary: b) auto

lemma parse_certs_Ret: "parse_certs ders = Ret cs \<longleftrightarrow> list_all2 (\<lambda>der c. parse_x509_cert der = Ret c) ders cs"
  by (induction ders arbitrary: cs) (auto simp: obind_Ret_iff list_all2_Cons1)

text \<open>A valid chain for an anchor key: leaf first, each link good, the root signed by the anchor.\<close>

definition valid_chain :: "crypto \<Rightarrow> bytes \<Rightarrow> bytes list \<Rightarrow> parsed_cert list \<Rightarrow> bool" where
  "valid_chain cr anchor ders cs \<longleftrightarrow> list_all2 (\<lambda>der c. parse_x509_cert der = Ret c) ders cs \<and>
     cs \<noteq> [] \<and> length cs \<le> 8 \<and> (\<forall>i. Suc i < length cs \<longrightarrow> link_ok cr cs i) \<and>
     verify_es256 cr (tbs_raw (last cs)) (signature_rs (last cs)) anchor"

lemma verify_delegate_chain_Ret:
  "verify_delegate_chain cr ders anchor = Ret r \<longleftrightarrow>
     (\<exists>cs. valid_chain cr anchor ders cs \<and> leaf_key_point r = public_key_point (hd cs) \<and>
        (has_redirect r \<longleftrightarrow> (\<forall>c\<in>set cs. has_permit_redirect c)) \<and>
        (has_provision r \<longleftrightarrow> (\<forall>c\<in>set cs. has_permit_provision c)) \<and>
        (has_onboard r \<longleftrightarrow> (\<forall>c\<in>set cs. has_permit_onboard c)) \<and>
        (has_reuse_cred r \<longleftrightarrow> (\<forall>c\<in>set cs. has_permit_reuse_cred c)))"
proof -
  let ?r = "\<lambda>cs. \<lparr>leaf_key_point = public_key_point (cs ! 0),
          has_redirect = (\<forall>c\<in>set cs. has_permit_redirect c),
          has_provision = (\<forall>c\<in>set cs. has_permit_provision c),
          has_onboard = (\<forall>c\<in>set cs. has_permit_onboard c),
          has_reuse_cred = (\<forall>c\<in>set cs. has_permit_reuse_cred c)\<rparr>"
  have "verify_delegate_chain cr ders anchor = Ret r \<longleftrightarrow>
    (\<exists>cs. ders \<noteq> [] \<and> length ders \<le> 8 \<and> parse_certs ders = Ret cs \<and>
      verify_es256 cr (tbs_raw (cs ! (length cs - 1))) (signature_rs (cs ! (length cs - 1))) anchor \<and>
      (length cs > 1 \<longrightarrow> (\<forall>i<length cs - 1. link_ok cr cs i)) \<and> r = ?r cs)"
    by (auto simp: verify_delegate_chain_def MAX_DELEGATE_CHAIN_LEN_def obind_Ret_iff Let_def
        links_rev_iff foldl_conj split: if_splits)
  also have "\<dots> \<longleftrightarrow> (\<exists>cs. valid_chain cr anchor ders cs \<and> r = ?r cs)"
  proof (intro iff_exI)
    fix cs
    have "parse_certs ders = Ret cs \<Longrightarrow> length ders = length cs"
      by (auto simp: parse_certs_Ret dest: list_all2_lengthD)
    then show "(ders \<noteq> [] \<and> length ders \<le> 8 \<and> parse_certs ders = Ret cs \<and>
      verify_es256 cr (tbs_raw (cs ! (length cs - 1))) (signature_rs (cs ! (length cs - 1))) anchor \<and>
      (length cs > 1 \<longrightarrow> (\<forall>i<length cs - 1. link_ok cr cs i)) \<and> r = ?r cs) \<longleftrightarrow>
      valid_chain cr anchor ders cs \<and> r = ?r cs"
      unfolding valid_chain_def parse_certs_Ret [symmetric]
      by (cases cs) (auto simp: last_conv_nth less_diff_conv)
  qed
  also have "\<dots> \<longleftrightarrow> (\<exists>cs. valid_chain cr anchor ders cs \<and> r = (?r cs)\<lparr>leaf_key_point := public_key_point (hd cs)\<rparr>)"
    by (intro iff_exI) (auto simp: valid_chain_def hd_conv_nth)
  finally show ?thesis by (cases r) auto
qed

section \<open>Delegation\<close>

datatype perm = Redirect | Provision | Onboard | ReuseCred

fun cert_perms :: "parsed_cert \<Rightarrow> perm \<Rightarrow> bool" where
  "cert_perms c Redirect = has_permit_redirect c"
| "cert_perms c Provision = has_permit_provision c"
| "cert_perms c Onboard = has_permit_onboard c"
| "cert_perms c ReuseCred = has_permit_reuse_cred c"

fun grants :: "delegate_chain_result \<Rightarrow> perm \<Rightarrow> bool" where
  "grants r Redirect = has_redirect r"
| "grants r Provision = has_provision r"
| "grants r Onboard = has_onboard r"
| "grants r ReuseCred = has_reuse_cred r"

text \<open>
  \<open>delegated cr owner k P may_issue\<close>: the key \<open>k\<close> speaks for the Owner with permissions \<open>P\<close>, and
  may issue certificates itself if \<open>may_issue\<close>.
\<close>

inductive delegated :: "crypto \<Rightarrow> bytes \<Rightarrow> bytes \<Rightarrow> perm set \<Rightarrow> bool \<Rightarrow> bool" for cr owner where
  owner_key: "delegated cr owner owner UNIV True"
| issued: "delegated cr owner k P True \<Longrightarrow> parse_x509_cert der = Ret c \<Longrightarrow>
     verify_es256 cr (tbs_raw c) (signature_rs c) k \<Longrightarrow>
     delegated cr owner (public_key_point c) (P \<inter> {p. cert_perms c p}) (is_ca c)"

lemma valid_chain_delegated:
  assumes "valid_chain cr owner ders cs"
  shows "delegated cr owner (public_key_point (hd cs)) {p. \<forall>c\<in>set cs. cert_perms c p} (is_ca (hd cs))"
  using assms
proof (induction cs arbitrary: ders)
  case (Cons c cs)
  then obtain der ders' where der: "ders = der # ders'" "parse_x509_cert der = Ret c"
    by (auto simp: valid_chain_def list_all2_Cons2)
  show ?case
  proof (cases "cs = []")
    case True
    with Cons.prems der have "verify_es256 cr (tbs_raw c) (signature_rs c) owner"
      by (simp add: valid_chain_def)
    from issued [OF owner_key der(2) this] True show ?thesis by simp
  next
    case False
    have ok: "link_ok cr (c # cs) i" if "i < length cs" for i
      using Cons.prems that by (simp add: valid_chain_def)
    have "link_ok cr cs i" if "Suc i < length cs" for i
      using ok [of "Suc i"] that by (force simp: link_ok_def)
    then have "valid_chain cr owner ders' cs"
      using Cons.prems False der by (auto simp: valid_chain_def)
    note IH = Cons.IH [OF this]
    have "is_ca (hd cs)" "verify_es256 cr (tbs_raw c) (signature_rs c) (public_key_point (hd cs))"
      using ok [of 0] False by (auto simp: link_ok_def hd_conv_nth)
    with IH have "delegated cr owner (public_key_point (hd cs)) {p. \<forall>c\<in>set cs. cert_perms c p} True"
      and "verify_es256 cr (tbs_raw c) (signature_rs c) (public_key_point (hd cs))"
      by simp_all
    from issued [OF this(1) der(2) this(2)] show ?thesis
      by (simp add: Int_def conj_commute)
  qed
qed (simp add: valid_chain_def)

lemma grants_perms:
  assumes "\<And>p. grants r p \<longleftrightarrow> (\<forall>c\<in>set cs. cert_perms c p)"
  shows "{p. grants r p} = {p. \<forall>c\<in>set cs. cert_perms c p}"
  using assms by simp

lemma verify_delegate_chain_Ret_perms:
  assumes "verify_delegate_chain cr ders anchor = Ret r"
  obtains cs where "valid_chain cr anchor ders cs" and "leaf_key_point r = public_key_point (hd cs)"
    and "\<And>p. grants r p \<longleftrightarrow> (\<forall>c\<in>set cs. cert_perms c p)"
proof -
  from assms obtain cs where cs: "valid_chain cr anchor ders cs" "leaf_key_point r = public_key_point (hd cs)"
    and perms: "has_redirect r \<longleftrightarrow> (\<forall>c\<in>set cs. has_permit_redirect c)"
      "has_provision r \<longleftrightarrow> (\<forall>c\<in>set cs. has_permit_provision c)"
      "has_onboard r \<longleftrightarrow> (\<forall>c\<in>set cs. has_permit_onboard c)"
      "has_reuse_cred r \<longleftrightarrow> (\<forall>c\<in>set cs. has_permit_reuse_cred c)"
    unfolding verify_delegate_chain_Ret by blast
  have "grants r p \<longleftrightarrow> (\<forall>c\<in>set cs. cert_perms c p)" for p
    using perms by (cases p) auto
  with cs that show thesis by blast
qed

lemma verify_delegate_chain_grants:
  assumes "verify_delegate_chain cr ders owner = Ret r"
  shows "\<exists>may_issue. delegated cr owner (leaf_key_point r) {p. grants r p} may_issue"
  using assms
proof (rule verify_delegate_chain_Ret_perms)
  fix cs
  assume "valid_chain cr owner ders cs" "leaf_key_point r = public_key_point (hd cs)"
    and perms: "\<And>p. grants r p \<longleftrightarrow> (\<forall>c\<in>set cs. cert_perms c p)"
  with valid_chain_delegated [of cr owner ders cs] show ?thesis
    unfolding grants_perms [OF perms] by auto
qed

section \<open>Chains in headers\<close>

lemma read_certs_at:
  assumes "at d p (concat (map (\<lambda>c. enc (Bstr c)) cs))" and "length d < 2 ^ 32"
  shows "repeat (length cs) (\<lambda>certs. bind (cbor_read_bstr d) (\<lambda>der. ret (certs @ [der]))) acc p =
    (Ret (acc @ map (\<lambda>c. c) cs), p + length (concat (map (\<lambda>c. enc (Bstr c)) cs)))"
proof (rule repeat_collect [OF _ assms(1)])
  fix c p and acc :: "bytes list"
  assume at: "at d p (enc (Bstr c))"
  then have "length c < 2 ^ 32"
    using at_bound [OF at] assms(2) by simp
  then show "bind (cbor_read_bstr d) (\<lambda>der. ret (acc @ [der])) p = (Ret (acc @ [c]), p + length (enc (Bstr c)))"
    using cbor_read_bstr_at [OF at] by (simp add: bind_def del: enc.simps)
qed

definition x5chain_item :: "bytes list \<Rightarrow> cbor" where
  "x5chain_item cs = Arr (map Bstr cs)"

lemma parse_x5chain_value_at:
  assumes "at d p (enc (x5chain_item cs))" and "length d < 2 ^ 32"
  shows "parse_x5chain_value d p = (Ret cs, p + length (enc (x5chain_item cs)))"
proof -
  have at: "at d p (enc_head 4 (length cs))"
      "at d (p + length (enc_head 4 (length cs))) (concat (map (\<lambda>c. enc (Bstr c)) cs))"
    using assms(1) by (simp_all add: x5chain_item_def comp_def)
  have "length cs \<le> length (concat (map (\<lambda>c. enc (Bstr c)) cs))"
    by (rule length_concat_ge) simp
  then have "length cs < 2 ^ 32"
    using at_bound [OF at(2)] assms(2) by linarith
  with cbor_head_at [OF at(1)] read_certs_at [OF at(2) assms(2), of "[]"] show ?thesis
    by (simp add: parse_x5chain_value_def bind_def read_certs_def x5chain_item_def comp_def add.assoc)
qed

lemma find_label_loop:
  assumes "at d p (concat (map enc_entry kvs))" and "int_keys kvs" and "fits (2 ^ 32) (Dict kvs)" and "length d < 2 ^ 63"
    and "int_lookup l kvs = Some v" and "\<And>p. at d p (enc v) \<Longrightarrow> fst (parse p) = r"
  shows "fst (repeat_flow (length kvs) (\<lambda>_.
       bind (cbor_read_int_value d) (\<lambda>key.
       if key = l then bind parse (\<lambda>r. ret (Stop r))
       else bind (cbor_skip d) (\<lambda>_. ret (Next ())))) () p) = obind r (\<lambda>x. Ret (Stop x))"
  using assms(1-3,5)
proof (induction kvs arbitrary: p)
  case (Cons kv kvs)
  have "kv \<in> set (kv # kvs)" "at d p (enc_entry kv)" using Cons.prems(1) by simp_all
  then obtain n where n: "key_int (fst kv) = Some n"
    and rd: "cbor_read_int_value d p = (Ret n, p + length (enc (fst kv)))"
    and sk: "cbor_skip d (p + length (enc (fst kv))) = (Ret (), p + length (enc_entry kv))"
    and v: "at d (p + length (enc (fst kv))) (enc (snd kv))"
    using Cons.prems(2,3) assms(4) by (rule int_entry_at)
  show ?case
  proof (cases "n = l")
    case True
    with n Cons.prems(4) have "snd kv = v" by simp
    with assms(6) [of "p + length (enc (fst kv))"] v True rd show ?thesis
      by (cases "parse (p + length (enc (fst kv)))") (auto simp: bind_def obind_def split: outcome.splits)
  next
    case False
    with rd sk n Cons show ?thesis
      by (auto simp: bind_def int_keys_Cons)
  qed
qed simp

lemma find_label_at:
  assumes "at d 0 (enc (Dict kvs))" and "int_keys kvs" and "fits (2 ^ 32) (Dict kvs)" and "length d < 2 ^ 63"
    and "int_lookup l kvs = Some v" and "\<And>p. at d p (enc v) \<Longrightarrow> fst (parse p) = r"
  shows "find_label d l parse = r"
  using dict_head_at [OF assms(1,3)] find_label_loop [OF _ assms(2-5), of "length (enc_head 5 (length kvs))" parse r] assms(6)
  by (cases r) (auto simp: find_label_def loop_defs)

lemma extract_x5chain_at:
  assumes "at d 0 (enc (Dict kvs))" and "int_keys kvs" and "fits (2 ^ 32) (Dict kvs)" and "length d < 2 ^ 32"
    and "int_lookup COSE_LABEL_X5CHAIN kvs = Some (x5chain_item cs)"
  shows "extract_x5chain_from_unprotected d = Ret cs"
  unfolding extract_x5chain_from_unprotected_def
  by (rule find_label_at [OF assms(1-3) _ assms(5)]) (use assms(4) parse_x5chain_value_at in auto)

lemma parse_fdo_public_key_x5chain_at:
  assumes "at d p (enc (Arr [Uint t, Uint 2, x5chain_item cs]))" and "length d < 2 ^ 32" and "t < 2 ^ 32"
  shows "fst (parse_fdo_public_key_x5chain d p) = Ret cs"
proof -
  let ?q = "p + length (enc_head 4 3)"
  have at: "at d p (enc_head 4 3)" "at d ?q (enc (Uint t))" "at d (?q + length (enc (Uint t))) (enc (Uint 2))"
      "at d (?q + length (enc (Uint t)) + length (enc (Uint 2))) (enc (x5chain_item cs))"
    using assms(1) by (simp_all add: eval_nat_numeral add.assoc)
  show ?thesis
    using cbor_head_at [OF at(1)] cbor_read_int_value_at [OF at(2) assms(3)] cbor_read_int_value_at [OF at(3)]
      parse_x5chain_value_at [OF at(4) assms(2)]
    by (simp add: parse_fdo_public_key_x5chain_def bind_def del: enc.simps)
qed

lemma extract_delegate_chain_at:
  assumes "at d 0 (enc (Dict kvs))" and "int_keys kvs" and "fits (2 ^ 32) (Dict kvs)" and "length d < 2 ^ 32"
    and "int_lookup COSE_LABEL_DELEGATE_KEY kvs = Some (Arr [Uint t, Uint 2, x5chain_item cs])" and "t < 2 ^ 32"
  shows "extract_delegate_chain_from_unprotected d = Ret cs"
  unfolding extract_delegate_chain_from_unprotected_def
  by (rule find_label_at [OF assms(1-3) _ assms(5)]) (use assms(4,6) parse_fdo_public_key_x5chain_at in auto)

section \<open>Properties\<close>

text \<open>An Owner key and a delegate certificate for the witnesses, under \<open>toy_crypto\<close>.\<close>

definition sample_owner :: bytes where
  "sample_owner = 0x04 # replicate 64 0x33"

definition sample_leaf :: cert_parts where
  "sample_leaf = sample_cert\<lparr>c_point := 0x04 # replicate 64 0x77, c_s := [0x11]\<rparr>"

lemma distinct_permits: "OID_PERMIT_PROVISION \<noteq> OID_PERMIT_REDIRECT" "OID_PERMIT_PROVISION \<noteq> OID_PERMIT_ONBOARD_NEWCRED"
  "OID_PERMIT_PROVISION \<noteq> OID_PERMIT_ONBOARD_REUSECRED" "OID_PERMIT_PROVISION \<noteq> OID_PERMIT_ONBOARD_FDODISABLE"
  by code_simp+

lemma parse_sample:
  assumes "c = sample_cert\<lparr>c_point := 0x04 # replicate 64 k, c_s := [s]\<rparr>"
  shows "parse_x509_cert (cert_der c) = Ret \<lparr>tbs_raw = tbs_der c, public_key_point = 0x04 # replicate 64 k,
     signature_rs = be 32 0x22 @ be 32 (unat s), has_permit_redirect = False, has_permit_provision = True,
     has_permit_onboard = False, has_permit_reuse_cred = False, is_ca = True, path_len = Some 1\<rparr>"
proof -
  have "length (cert_der c) = length (cert_der sample_cert)"
    using assms by (simp add: sample_cert_def cert_der_def tbs_der_def tlv_def spki_der_def)
  with length_sample_cert show ?thesis
    using parse_std_cert [of c True True "Some 1" False "[OID_PERMIT_PROVISION]" "[]"] assms distinct_permits
    by (simp add: sample_cert_def)
qed

lemma sample_cert_upd: "sample_cert = sample_cert\<lparr>c_point := 0x04 # replicate 64 0x11, c_s := [0x33]\<rparr>"
  by (simp add: sample_cert_def)

lemma verify_sample_chain:
  "verify_delegate_chain toy_crypto [cert_der sample_leaf, cert_der sample_cert] sample_owner =
   Ret \<lparr>leaf_key_point = 0x04 # replicate 64 0x77, has_redirect = False, has_provision = True, has_onboard = False, has_reuse_cred = False\<rparr>"
  using parse_sample [OF sample_cert_upd] parse_sample [OF sample_leaf_def]
  by (simp add: verify_delegate_chain_def MAX_DELEGATE_CHAIN_LEN_def check_link_def verify_es256_def toy_crypto_def
      sample_owner_def last_be last_append)
text \<open>C9: \<open>verify_delegate_chain\<close> accepts exactly the valid chains: one to eight certificates, all
  parsed, the root signed by the anchor key, every other certificate signed by its successor, which
  must be a CA whose path length admits the certificates below it; the result is the leaf key and
  the intersection of the permissions.\<close>

theorem verify_delegate_chain_iff:
  "verify_delegate_chain cr ders anchor = Ret r \<longleftrightarrow>
     (\<exists>cs. valid_chain cr anchor ders cs \<and> leaf_key_point r = public_key_point (hd cs) \<and>
        (\<forall>p. grants r p \<longleftrightarrow> (\<forall>c\<in>set cs. cert_perms c p)))"
  (is "?l \<longleftrightarrow> ?r")
proof
  assume ?l
  then show ?r by (rule verify_delegate_chain_Ret_perms) blast
next
  assume ?r
  then obtain cs where "valid_chain cr anchor ders cs" "leaf_key_point r = public_key_point (hd cs)"
    and "\<And>p. grants r p \<longleftrightarrow> (\<forall>c\<in>set cs. cert_perms c p)" by blast
  from this(1,2) this(3) [of Redirect] this(3) [of Provision] this(3) [of Onboard] this(3) [of ReuseCred]
  show ?l unfolding verify_delegate_chain_Ret by auto
qed

theorem verify_delegate_chain_iff_witness:
  "\<exists>cs. valid_chain toy_crypto sample_owner [cert_der sample_leaf, cert_der sample_cert] cs"
  using verify_delegate_chain_iff verify_sample_chain by blast

text \<open>C10: the key that \<open>verify_delegate_chain\<close> returns speaks for the Owner: a sequence of
  signatures by CA keys leads from the Owner key to it, and every permission returned was granted by
  every certificate on the way.\<close>

theorem verify_delegate_chain_delegated:
  assumes "verify_delegate_chain cr ders owner = Ret r"
  shows "\<exists>may_issue. delegated cr owner (leaf_key_point r) {p. grants r p} may_issue"
  using assms by (rule verify_delegate_chain_grants)

theorem verify_delegate_chain_delegated_witness:
  "\<exists>may_issue P. delegated toy_crypto sample_owner (0x04 # replicate 64 0x77) P may_issue \<and> Provision \<in> P"
  using verify_delegate_chain_delegated [OF verify_sample_chain] by fastforce

text \<open>No permission is amplified: whatever certificate chain is presented, a permission that
  some certificate of it lacks is not granted to the leaf.\<close>

theorem verify_delegate_chain_no_amplification:
  assumes "verify_delegate_chain cr ders owner = Ret r" and "der \<in> set ders"
    and "parse_x509_cert der = Ret c" and "\<not> cert_perms c p"
  shows "\<not> grants r p"
  using assms(1)
proof (rule verify_delegate_chain_Ret_perms)
  fix cs
  assume cs: "valid_chain cr owner ders cs" "\<And>p. grants r p \<longleftrightarrow> (\<forall>c\<in>set cs. cert_perms c p)"
  from assms(2) obtain i where "i < length ders" "ders ! i = der" by (auto simp: in_set_conv_nth)
  with cs(1) assms(3) have "c \<in> set cs"
    by (auto simp: valid_chain_def list_all2_conv_all_nth in_set_conv_nth)
  with cs(2) assms(4) show ?thesis by blast
qed

theorem verify_delegate_chain_no_amplification_witness:
  "\<not> has_redirect \<lparr>leaf_key_point = 0x04 # replicate 64 0x77, has_redirect = False, has_provision = True,
     has_onboard = False, has_reuse_cred = False\<rparr>"
  using verify_delegate_chain_no_amplification [OF verify_sample_chain _ parse_sample [OF sample_leaf_def], of Redirect]
  by simp

text \<open>\<open>verify_x5chain_internal\<close> accepts exactly the chains of one to eight certificates whose
  links all hold, and returns the leaf key.\<close>

theorem verify_x5chain_internal_iff:
  "verify_x5chain_internal cr ders = Ret k \<longleftrightarrow>
     (\<exists>cs. list_all2 (\<lambda>der c. parse_x509_cert der = Ret c) ders cs \<and> cs \<noteq> [] \<and> length cs \<le> 8 \<and>
        (\<forall>i. Suc i < length cs \<longrightarrow> link_ok cr cs i) \<and> k = public_key_point (hd cs))"
proof -
  have "verify_x5chain_internal cr ders = Ret k \<longleftrightarrow> (\<exists>cs. parse_certs ders = Ret cs \<and> ders \<noteq> [] \<and> length ders \<le> 8 \<and>
      (\<forall>i. Suc i < length cs \<longrightarrow> link_ok cr cs i) \<and> k = public_key_point (cs ! 0))"
    by (auto simp: verify_x5chain_internal_def MAX_DELEGATE_CHAIN_LEN_def obind_Ret_iff links_up_iff less_diff_conv
        split: if_splits)
  also have "\<dots> \<longleftrightarrow> (\<exists>cs. parse_certs ders = Ret cs \<and> cs \<noteq> [] \<and> length cs \<le> 8 \<and>
      (\<forall>i. Suc i < length cs \<longrightarrow> link_ok cr cs i) \<and> k = public_key_point (hd cs))"
  proof (intro iff_exI)
    fix cs
    have "parse_certs ders = Ret cs \<Longrightarrow> length ders = length cs"
      by (auto simp: parse_certs_Ret dest: list_all2_lengthD)
    then show "(parse_certs ders = Ret cs \<and> ders \<noteq> [] \<and> length ders \<le> 8 \<and>
      (\<forall>i. Suc i < length cs \<longrightarrow> link_ok cr cs i) \<and> k = public_key_point (cs ! 0)) \<longleftrightarrow>
      (parse_certs ders = Ret cs \<and> cs \<noteq> [] \<and> length cs \<le> 8 \<and>
      (\<forall>i. Suc i < length cs \<longrightarrow> link_ok cr cs i) \<and> k = public_key_point (hd cs))"
      by (cases cs) auto
  qed
  finally show ?thesis unfolding parse_certs_Ret .
qed

theorem verify_x5chain_internal_iff_witness:
  "\<exists>cs. list_all2 (\<lambda>der c. parse_x509_cert der = Ret c) [cert_der sample_leaf, cert_der sample_cert] cs \<and>
     link_ok toy_crypto cs 0"
proof -
  have "verify_x5chain_internal toy_crypto [cert_der sample_leaf, cert_der sample_cert] = Ret (0x04 # replicate 64 0x77)"
    using parse_sample [OF sample_cert_upd] parse_sample [OF sample_leaf_def]
    by (simp add: verify_x5chain_internal_def MAX_DELEGATE_CHAIN_LEN_def check_link_def verify_es256_def toy_crypto_def
        last_be last_append)
  then obtain cs where cs: "list_all2 (\<lambda>der c. parse_x509_cert der = Ret c) [cert_der sample_leaf, cert_der sample_cert] cs"
    and "\<forall>i. Suc i < length cs \<longrightarrow> link_ok toy_crypto cs i"
    unfolding verify_x5chain_internal_iff by blast
  then show ?thesis using list_all2_lengthD [OF cs] cs by (intro exI [of _ cs]) simp
qed

end
