(* ===== verification/Voucher.thy ===== *)
theory Voucher
  imports Delegate
begin

text \<open>
  \<open>src/src/voucher.rs\<close>: the Ownership Voucher. \<open>verify_voucher\<close> checks that the header is for this
  device (GUID and TPM HMAC) and walks the entries: each must be signed by the key of its
  predecessor, name the header by \<open>hashHdrInfo\<close> and its predecessor by \<open>hashPrevEntry\<close>; the key of
  the last entry is the Owner key. The TPM is the parameter \<open>tpm_hmac\<close> (handle and message to a MAC,
  or nothing when the TPM fails); SHA-256 and P-256 are fields of \<open>crypto\<close>.

  The contract is the inductive relation \<open>owner_chain\<close>; \<open>verify_voucher_iff\<close> shows that the code
  decides it, and \<open>voucher_entries_determined\<close> that no two accepted entry lists share their last
  entry, so entries cannot be dropped, replaced or reordered below it.
\<close>

section \<open>Constants and errors\<close>

definition HASH_ALG_SHA256 :: int where "HASH_ALG_SHA256 = -16"
definition PK_TYPE_SECP256R1 :: int where "PK_TYPE_SECP256R1 = 10"
definition PK_TYPE_SECP384R1 :: int where "PK_TYPE_SECP384R1 = 11"
definition PK_ENC_CRYPTO :: int where "PK_ENC_CRYPTO = 0"
definition PK_ENC_X509 :: int where "PK_ENC_X509 = 1"
definition PK_ENC_X5CHAIN :: int where "PK_ENC_X5CHAIN = 2"
definition PK_ENC_COSEKEY :: int where "PK_ENC_COSEKEY = 3"

datatype voucher_error =
    HeaderParse string
  | GuidMismatch
  | HmacUnavailable
  | HmacMismatch
  | EntryParse nat
  | EntrySignatureInvalid nat
  | PrevHashMismatch nat
  | HeaderHashMismatch nat
  | UnsupportedKey string
  | UnsupportedHash int
  | DelegateNotSupported

record ov_header_info =
  protver :: nat
  ov_guid :: bytes
  device_info :: bytes
  mfg_key_point :: bytes

record ov_entry_payload =
  hash_prev_alg :: int
  hash_prev :: bytes
  hash_hdr_alg :: int
  hash_hdr :: bytes
  pub_key_point :: bytes

section \<open>Public keys\<close>

definition spki_p256_point :: "bytes \<Rightarrow> (voucher_error, bytes) outcome" where
  "spki_p256_point der = run (or_err (lift (parse_spki_p256_point der))
     (UnsupportedKey ''not a valid P-256 SubjectPublicKeyInfo''))"

definition x5chain_certs :: "bytes \<Rightarrow> (voucher_error, bytes list) outcome" where
  "x5chain_certs cbor = run (
     bind (or_err (next_byte cbor) (UnsupportedKey ''X5CHAIN empty'')) (\<lambda>b.
     if major b \<noteq> 4 then
       if major b = 2 then
         bind (set_pos 0) (\<lambda>_.
         bind (or_err (cbor_read_bstr cbor) (UnsupportedKey ''X5CHAIN bare bstr unreadable'')) (\<lambda>der.
         ret [der]))
       else throw (UnsupportedKey ''X5CHAIN pkBody is not array or bstr'')
     else
       bind (or_err (cbor_read_uint_arg cbor (addl b)) (UnsupportedKey ''X5CHAIN bad array header'')) (\<lambda>arr_len.
       bind (guard (arr_len \<noteq> 0) (UnsupportedKey ''X5CHAIN empty certificate array'')) (\<lambda>_.
       bind (guard (\<not> arr_len > MAX_DELEGATE_CHAIN_LEN) (UnsupportedKey ''X5CHAIN too long'')) (\<lambda>_.
       repeat arr_len (\<lambda>certs.
         bind (or_err (cbor_read_bstr cbor) (UnsupportedKey ''X5CHAIN cert is not a bstr'')) (\<lambda>der.
         ret (certs @ [der]))) [])))))"

text \<open>The position of the caller is left where it was; the map is read from a slice of its own.\<close>

definition cose_key_p256_point :: "bytes \<Rightarrow> (voucher_error, bytes) parser" where
  "cose_key_p256_point d =
     bind get_pos (\<lambda>pos.
     bind (slice d pos (length d)) (\<lambda>body. lift (run (
       bind (or_err (next_byte body) (UnsupportedKey ''empty COSE_Key'')) (\<lambda>b.
       bind (guard (major b = 5) (UnsupportedKey ''COSE_Key is not a map'')) (\<lambda>_.
       bind (or_err (cbor_read_uint_arg body (addl b)) (UnsupportedKey ''bad COSE_Key map header'')) (\<lambda>map_len.
       bind (repeat map_len (\<lambda>(x, y).
         bind (or_err (cbor_read_int_value body) (UnsupportedKey ''bad COSE_Key label'')) (\<lambda>key.
         if key = -2 then bind (attempt (cbor_read_bstr body)) (\<lambda>x'. ret (x', y))
         else if key = -3 then bind (attempt (cbor_read_bstr body)) (\<lambda>y'. ret (x, y'))
         else bind (or_err (cbor_skip body) (UnsupportedKey ''bad COSE_Key value'')) (\<lambda>_. ret (x, y))))
         (None, None)) (\<lambda>(x, y).
       case (x, y) of
         (Some x', Some y') \<Rightarrow>
           if length x' = 32 \<and> length y' = 32 then ret (0x04 # x' @ y')
           else throw (UnsupportedKey ''COSE_Key missing 32-byte x/y'')
       | _ \<Rightarrow> throw (UnsupportedKey ''COSE_Key missing 32-byte x/y'')))))))))"

definition parse_fdo_public_key :: "crypto \<Rightarrow> bytes \<Rightarrow> (voucher_error, bytes) outcome" where
  "parse_fdo_public_key cr d = run (
     bind (or_err (next_byte d) (UnsupportedKey ''empty PublicKey'')) (\<lambda>b.
     bind (guard (major b = 4) (UnsupportedKey ''PublicKey is not an array'')) (\<lambda>_.
     bind (or_err (cbor_read_uint_arg d (addl b)) (UnsupportedKey ''bad PublicKey array header'')) (\<lambda>arr_len.
     bind (guard (\<not> arr_len < 3) (UnsupportedKey ''PublicKey array too short'')) (\<lambda>_.
     bind (or_err (cbor_read_int_value d) (UnsupportedKey ''bad pkType'')) (\<lambda>pk_type.
     bind (or_err (cbor_read_int_value d) (UnsupportedKey ''bad pkEnc'')) (\<lambda>pk_enc.
     bind (guard (pk_type \<noteq> PK_TYPE_SECP384R1) (UnsupportedKey ''SECP384R1 not implemented'')) (\<lambda>_.
     bind (guard (pk_type = PK_TYPE_SECP256R1) (UnsupportedKey ''non-EC pkType'')) (\<lambda>_.
     if pk_enc = PK_ENC_X509 then
       bind (or_err (cbor_read_bstr d) (UnsupportedKey ''pkBody is not a bstr'')) (\<lambda>der.
       lift (spki_p256_point der))
     else if pk_enc = PK_ENC_COSEKEY then cose_key_p256_point d
     else if pk_enc = PK_ENC_X5CHAIN then
       bind get_pos (\<lambda>pos.
       bind (slice d pos (length d)) (\<lambda>rest.
       bind (lift (x5chain_certs rest)) (\<lambda>chain.
       or_err (lift (verify_x5chain_internal cr chain)) (UnsupportedKey ''X5CHAIN validation failed''))))
     else if pk_enc = PK_ENC_CRYPTO then throw (UnsupportedKey ''Crypto encoding'')
     else throw (UnsupportedKey ''unknown pkEnc''))))))))))"

section \<open>Header and entries\<close>

definition decode_tstr :: "bytes \<Rightarrow> (unit, bytes) outcome" where
  "decode_tstr d = run (
     bind (next_byte d) (\<lambda>b.
     bind (guard (major b = 3) ()) (\<lambda>_.
     bind (cbor_read_uint_arg d (addl b)) (\<lambda>len.
     bind (take_bytes d len) (\<lambda>s.
     of_option () (from_utf8 s))))))"

definition parse_ov_header :: "crypto \<Rightarrow> bytes \<Rightarrow> (voucher_error, ov_header_info) outcome" where
  "parse_ov_header cr d = run (
     bind (or_err (next_byte d) (HeaderParse ''empty OVHeader'')) (\<lambda>b.
     bind (guard (major b = 4) (HeaderParse ''OVHeader is not an array'')) (\<lambda>_.
     bind (or_err (cbor_read_uint_arg d (addl b)) (HeaderParse ''bad OVHeader array header'')) (\<lambda>arr_len.
     bind (guard (\<not> arr_len < 5) (HeaderParse ''OVHeader array too short'')) (\<lambda>_.
     bind (or_err (cbor_read_uint_value d) (HeaderParse ''bad OVHProtVer'')) (\<lambda>pv.
     bind (or_err (cbor_read_bstr d) (HeaderParse ''bad OVGuid'')) (\<lambda>guid_bytes.
     bind (guard (length guid_bytes = 16) (HeaderParse ''OVGuid is not 16 bytes'')) (\<lambda>_.
     bind (or_err (cbor_skip d) (HeaderParse ''bad OVRVInfo'')) (\<lambda>_.
     bind get_pos (\<lambda>di_start.
     bind (or_err (cbor_skip d) (HeaderParse ''bad OVDeviceInfo'')) (\<lambda>_.
     bind get_pos (\<lambda>pos.
     bind (or_err (lift (decode_tstr (case get_range d di_start pos of Some s \<Rightarrow> s | None \<Rightarrow> [])))
       (HeaderParse ''OVDeviceInfo is not a tstr'')) (\<lambda>di.
     bind get_pos (\<lambda>pk_start.
     bind (or_err (cbor_skip d) (HeaderParse ''bad OVPubKey'')) (\<lambda>_.
     bind get_pos (\<lambda>pos.
     bind (of_option (HeaderParse ''OVPubKey span out of range'') (get_range d pk_start pos)) (\<lambda>pk_slice.
     bind (lift (parse_fdo_public_key cr pk_slice)) (\<lambda>mfg.
     ret \<lparr>protver = pv mod 2 ^ 16, ov_guid = guid_bytes, device_info = di, mfg_key_point = mfg\<rparr>))))))))))))))))))"

definition read_hash :: "bytes \<Rightarrow> (unit, int \<times> bytes) parser" where
  "read_hash d =
     bind (next_byte d) (\<lambda>b.
     bind (guard (major b = 4) ()) (\<lambda>_.
     bind (cbor_read_uint_arg d (addl b)) (\<lambda>n.
     bind (guard (\<not> n < 2) ()) (\<lambda>_.
     bind (cbor_read_int_value d) (\<lambda>alg.
     bind (cbor_read_bstr d) (\<lambda>val.
     bind (repeat (n - 2) (\<lambda>_. cbor_skip d) ()) (\<lambda>_.
     ret (alg, val))))))))"

definition parse_ov_entry_payload :: "crypto \<Rightarrow> bytes \<Rightarrow> (unit, ov_entry_payload) outcome" where
  "parse_ov_entry_payload cr d = run (
     bind (next_byte d) (\<lambda>b.
     bind (guard (major b = 4) ()) (\<lambda>_.
     bind (cbor_read_uint_arg d (addl b)) (\<lambda>arr_len.
     bind (guard (\<not> arr_len < 4) ()) (\<lambda>_.
     bind (read_hash d) (\<lambda>(hp_alg, hp).
     bind (read_hash d) (\<lambda>(hh_alg, hh).
     bind (cbor_skip d) (\<lambda>_.
     bind get_pos (\<lambda>pk_start.
     bind (cbor_skip d) (\<lambda>_.
     bind get_pos (\<lambda>pos.
     bind (of_option () (get_range d pk_start pos)) (\<lambda>pk.
     bind (or_err (lift (parse_fdo_public_key cr pk)) ()) (\<lambda>point.
     ret \<lparr>hash_prev_alg = hp_alg, hash_prev = hp, hash_hdr_alg = hh_alg, hash_hdr = hh,
          pub_key_point = point\<rparr>)))))))))))))"

section \<open>Verification\<close>

text \<open>The loop over the entries, from entry \<open>i\<close> on, with the running hash and key.\<close>

fun verify_entries ::
    "crypto \<Rightarrow> bytes \<Rightarrow> bytes \<Rightarrow> nat \<Rightarrow> bytes \<Rightarrow> bytes \<Rightarrow> bytes list \<Rightarrow> (voucher_error, bytes) outcome" where
  "verify_entries cr aad header_info_hash i prev_hash prev_key [] = Ret prev_key"
| "verify_entries cr aad header_info_hash i prev_hash prev_key (entry_bytes # entries) =
     obind (ok_or (parse_cose_sign1 entry_bytes) (EntryParse i)) (\<lambda>s1.
     obind (ok_or (has_delegate_header (unprotected_header s1)) DelegateNotSupported) (\<lambda>deleg.
     if deleg then Err DelegateNotSupported
     else if \<not> verify_sign1 cr s1 aad prev_key then Err (EntrySignatureInvalid i)
     else obind (ok_or (parse_ov_entry_payload cr (payload s1)) (EntryParse i)) (\<lambda>pl.
     if hash_prev_alg pl \<noteq> HASH_ALG_SHA256 \<or> hash_hdr_alg pl \<noteq> HASH_ALG_SHA256 then
       Err (UnsupportedHash (if hash_prev_alg pl \<noteq> HASH_ALG_SHA256 then hash_prev_alg pl else hash_hdr_alg pl))
     else if hash_hdr pl \<noteq> header_info_hash then Err (HeaderHashMismatch i)
     else if hash_prev pl \<noteq> prev_hash then Err (PrevHashMismatch i)
     else verify_entries cr aad header_info_hash (Suc i) (sha256 cr entry_bytes) (pub_key_point pl) entries)))"

definition verify_voucher ::
    "crypto \<Rightarrow> (nat \<Rightarrow> bytes \<Rightarrow> bytes option) \<Rightarrow> bytes \<Rightarrow> bytes \<Rightarrow> bytes \<Rightarrow> nat \<Rightarrow> bytes \<Rightarrow> bytes list \<Rightarrow>
      (voucher_error, bytes) outcome" where
  "verify_voucher cr tpm_hmac ov_header_cbor hmac_raw_cbor hmac_value hmac_key_handle device_guid entries =
     obind (parse_ov_header cr ov_header_cbor) (\<lambda>header.
     if ov_guid header \<noteq> device_guid then Err GuidMismatch
     else case tpm_hmac hmac_key_handle ov_header_cbor of
       None \<Rightarrow> Err HmacUnavailable
     | Some computed \<Rightarrow>
       if computed \<noteq> hmac_value then Err HmacMismatch
       else if entries = [] then Ret (mfg_key_point header)
       else
         let aad = domain_aad (aad_tag_str OV_ENTRY) (protver header);
             header_info_hash = sha256 cr (ov_guid header @ device_info header);
             prev_hash = sha256 cr (ov_header_cbor @ hmac_raw_cbor) in
         verify_entries cr aad header_info_hash 0 prev_hash (mfg_key_point header) entries)"

section \<open>Totality\<close>

lemma spki_p256_point_holds [wp]: "holds (spki_p256_point d) (\<lambda>pt. length pt = 65) (\<lambda>_. True)"
  by (auto simp: spki_p256_point_def intro!: holds_conseq [OF parse_spki_p256_point_holds])

lemma x5chain_certs_holds [wp]: "total (x5chain_certs d)"
  by (auto simp: x5chain_certs_def intro!: wp wp_conseq [OF wp_repeat [where I = "\<lambda>_ _. True" and E = "\<lambda>_ _. True"]])

lemma cose_key_p256_point_wp [wp]:
  assumes "p \<le> length d" and "\<And>pt. length pt = 65 \<Longrightarrow> Q pt p" and "\<And>e. E e p"
  shows "wp (cose_key_p256_point d) Q E p"
  unfolding cose_key_p256_point_def using assms
  by (auto intro!: wp wp_conseq [OF wp_repeat [where I = "\<lambda>_ _. True" and E = "\<lambda>_ _. True"]] split: option.splits)

lemma parse_fdo_public_key_holds [wp]: "total (parse_fdo_public_key cr d)"
  unfolding parse_fdo_public_key_def
  by (auto intro!: wp holds_conseq [OF spki_p256_point_holds] holds_conseq [OF x5chain_certs_holds]
      holds_conseq [OF verify_x5chain_internal_holds])

lemma decode_tstr_holds [wp]: "total (decode_tstr d)"
  by (auto simp: decode_tstr_def intro!: wp split: option.splits)

lemma parse_ov_header_holds [wp]: "holds (parse_ov_header cr d) (\<lambda>h. length (ov_guid h) = 16) (\<lambda>_. True)"
  unfolding parse_ov_header_def
  by (auto intro!: wp holds_conseq [OF decode_tstr_holds] holds_conseq [OF parse_fdo_public_key_holds] split: option.splits)

lemma read_hash_wp [wp]:
  assumes "\<And>x q. p < q \<Longrightarrow> Q x q" and "\<And>q. p \<le> q \<Longrightarrow> E () q"
  shows "wp (read_hash d) Q E p"
  unfolding read_hash_def using assms
  by (auto intro!: wp wp_conseq [OF wp_repeat [where I = "\<lambda>_ q. p < q" and E = "\<lambda>_ q. p \<le> q"]])

lemma parse_ov_entry_payload_holds [wp]: "total (parse_ov_entry_payload cr d)"
  unfolding parse_ov_entry_payload_def
  by (auto intro!: wp holds_conseq [OF parse_fdo_public_key_holds] split: option.splits)

lemma verify_entries_holds [wp]: "total (verify_entries cr aad hh i h k es)"
proof (induction es arbitrary: i h k)
  case (Cons e es)
  then show ?case
    by (auto intro!: holds_conseq [OF parse_cose_sign1_holds] holds_conseq [OF has_delegate_header_holds]
        holds_conseq [OF parse_ov_entry_payload_holds])
qed simp

lemma verify_voucher_holds [wp]: "total (verify_voucher cr tpm hdr hr hv kh g es)"
  by (auto simp: verify_voucher_def Let_def intro!: holds_conseq [OF parse_ov_header_holds] wp split: option.splits)

section \<open>The contract\<close>

text \<open>
  \<open>owner_chain cr aad hh h k es k'\<close>: from the key \<open>k\<close> and the hash \<open>h\<close> of what precedes, the entries
  \<open>es\<close> pass ownership to the key \<open>k'\<close>.
\<close>

inductive owner_chain :: "crypto \<Rightarrow> bytes \<Rightarrow> bytes \<Rightarrow> bytes \<Rightarrow> bytes \<Rightarrow> bytes list \<Rightarrow> bytes \<Rightarrow> bool"
  for cr aad hh where
  owner: "owner_chain cr aad hh h k [] k"
| transfer: "parse_cose_sign1 e = Ret s1 \<Longrightarrow> has_delegate_header (unprotected_header s1) = Ret False \<Longrightarrow>
     verify_sign1 cr s1 aad k \<Longrightarrow> parse_ov_entry_payload cr (payload s1) = Ret pl \<Longrightarrow>
     hash_prev_alg pl = HASH_ALG_SHA256 \<Longrightarrow> hash_hdr_alg pl = HASH_ALG_SHA256 \<Longrightarrow>
     hash_hdr pl = hh \<Longrightarrow> hash_prev pl = h \<Longrightarrow>
     owner_chain cr aad hh (sha256 cr e) (pub_key_point pl) es k' \<Longrightarrow>
     owner_chain cr aad hh h k (e # es) k'"

inductive_cases owner_chain_NilE: "owner_chain cr aad hh h k [] k'"
inductive_cases owner_chain_ConsE: "owner_chain cr aad hh h k (e # es) k'"

lemma verify_entries_iff: "verify_entries cr aad hh i h k es = Ret k' \<longleftrightarrow> owner_chain cr aad hh h k es k'"
proof (induction es arbitrary: i h k)
  case Nil
  then show ?case by (auto intro: owner_chain.owner elim: owner_chain_NilE)
next
  case (Cons e es)
  show ?case
  proof
    assume "verify_entries cr aad hh i h k (e # es) = Ret k'"
    then show "owner_chain cr aad hh h k (e # es) k'"
      by (auto simp: obind_Ret_iff ok_or_Ret_iff Cons.IH split: if_splits intro: transfer)
  next
    assume "owner_chain cr aad hh h k (e # es) k'"
    then show "verify_entries cr aad hh i h k (e # es) = Ret k'"
      by (elim owner_chain_ConsE) (auto simp: ok_or_def Cons.IH)
  qed
qed

section \<open>Vouchers as they are written\<close>

definition key_item :: "bytes \<Rightarrow> cbor" where
  "key_item pt = Arr [Uint 10, Uint 1, Bstr (spki_der pt)]"

definition hash_item :: "bytes \<Rightarrow> cbor" where
  "hash_item h = Arr [Nint 15, Bstr h]"

definition header_item :: "nat \<Rightarrow> bytes \<Rightarrow> cbor \<Rightarrow> bytes \<Rightarrow> bytes \<Rightarrow> cbor \<Rightarrow> cbor" where
  "header_item pv guid rv di pt cch = Arr [Uint pv, Bstr guid, rv, Tstr di, key_item pt, cch]"

definition entry_item :: "bytes \<Rightarrow> bytes \<Rightarrow> cbor \<Rightarrow> bytes \<Rightarrow> cbor" where
  "entry_item hp hh extra pt = Arr [hash_item hp, hash_item hh, extra, key_item pt]"

lemma length_spki: "length pt = 65 \<Longrightarrow> length (spki_der pt) = 91"
  by (simp add: spki_der_def alg_id_def tlv_def der_len_def OID_EC_PUBLIC_KEY_def OID_PRIME256V1_def)

lemma parse_fdo_public_key_at:
  assumes "length pt = 65" and "pt ! 0 = 0x04"
  shows "parse_fdo_public_key cr (enc (key_item pt)) = Ret pt"
proof -
  define d where "d = enc (key_item pt)"
  define p1 where "p1 = length (enc_head 4 3)"
  define p2 where "p2 = p1 + length (enc (Uint 10))"
  define p3 where "p3 = p2 + length (enc (Uint 1))"
  have "at d 0 (enc_head 4 3 @ enc (Uint 10) @ enc (Uint 1) @ enc (Bstr (spki_der pt)))"
    using at_whole [of d] by (simp add: d_def key_item_def eval_nat_numeral del: at_append)
  then have a: "at d 0 (enc_head 4 3)" "at d p1 (enc (Uint 10))" "at d p2 (enc (Uint 1))" "at d p3 (enc (Bstr (spki_der pt)))"
    by (simp_all add: p1_def p2_def p3_def del: enc.simps)
  show ?thesis
    using cbor_head_at [OF a(1)] cbor_read_int_value_at [OF a(2)] cbor_read_int_value_at [OF a(3)]
      cbor_read_bstr_at [OF a(4)] parse_spki_at [OF assms] length_spki [OF assms(1)]
    by (simp add: parse_fdo_public_key_def run_def bind_def or_err_def lift_def spki_p256_point_def PK_TYPE_SECP384R1_def
        PK_TYPE_SECP256R1_def PK_ENC_X509_def del: enc.simps One_nat_def flip: d_def p1_def p2_def p3_def)
qed

lemma fits_key_item: "length pt = 65 \<Longrightarrow> fits (2 ^ 32) (key_item pt)"
  by (simp add: key_item_def length_spki)

lemma read_hash_at:
  assumes "at d p (enc (hash_item h))" and "length h < 2 ^ 32"
  shows "read_hash d p = (Ret (-16, h), p + length (enc (hash_item h)))"
proof -
  define p1 where "p1 = p + length (enc_head 4 2)"
  define p2 where "p2 = p1 + length (enc (Nint 15))"
  have e: "enc (hash_item h) = enc_head 4 2 @ enc (Nint 15) @ enc (Bstr h)"
    by (simp add: hash_item_def eval_nat_numeral)
  have a: "at d p (enc_head 4 2)" "at d p1 (enc (Nint 15))" "at d p2 (enc (Bstr h))"
    using assms(1) unfolding e by (simp_all add: p1_def p2_def del: enc.simps)
  show ?thesis
    using cbor_head_at [OF a(1)] cbor_read_int_value_neg_at [OF a(2)] cbor_read_bstr_at [OF a(3) assms(2)]
    by (simp add: read_hash_def bind_def e p1_def p2_def add.assoc del: enc.simps)
qed

lemma decode_tstr_at: "length s < 2 ^ 32 \<Longrightarrow> utf8_valid s \<Longrightarrow> decode_tstr (enc (Tstr s)) = Ret s"
  using cbor_read_tstr_at(1) [OF at_whole, of "Tstr s"] by (simp add: decode_tstr_def cbor_read_tstr_def run_def)

lemma parse_ov_header_at:
  assumes "d = enc (header_item pv guid rv di pt cch)" and "length d < 2 ^ 32" and "pv < 2 ^ 16"
    and "length guid = 16" and "utf8_valid di" and "fits (2 ^ 32) rv" and "length pt = 65" and "pt ! 0 = 0x04"
  shows "parse_ov_header cr d = Ret \<lparr>protver = pv, ov_guid = guid, device_info = di, mfg_key_point = pt\<rparr>"
proof -
  define p1 where "p1 = length (enc_head 4 6)"
  define p2 where "p2 = p1 + length (enc (Uint pv))"
  define p3 where "p3 = p2 + length (enc (Bstr guid))"
  define p4 where "p4 = p3 + length (enc rv)"
  define p5 where "p5 = p4 + length (enc (Tstr di))"
  have "d = enc_head 4 6 @ enc (Uint pv) @ enc (Bstr guid) @ enc rv @ enc (Tstr di) @ enc (key_item pt) @ enc cch"
    using assms(1) by (simp add: header_item_def eval_nat_numeral)
  then have "at d 0 (enc_head 4 6 @ enc (Uint pv) @ enc (Bstr guid) @ enc rv @ enc (Tstr di) @ enc (key_item pt) @ enc cch)"
    by (simp add: at_whole del: at_append)
  then have a: "at d 0 (enc_head 4 6)" "at d p1 (enc (Uint pv))" "at d p2 (enc (Bstr guid))" "at d p3 (enc rv)"
      "at d p4 (enc (Tstr di))" "at d p5 (enc (key_item pt))"
    by (simp_all add: p1_def p2_def p3_def p4_def p5_def add.assoc del: enc.simps)
  have di: "length di < 2 ^ 32" using at_bound [OF a(5)] assms(2) by simp
  have "cbor_skip d p3 = (Ret (), p4)" "cbor_skip d p4 = (Ret (), p5)"
      "cbor_skip d p5 = (Ret (), p5 + length (enc (key_item pt)))"
    using cbor_skip_at [OF a(4) assms(6)] cbor_skip_at [OF a(5)] cbor_skip_at [OF a(6) fits_key_item [OF assms(7)]] assms(2) di
    by (simp_all add: p4_def p5_def)
  moreover have "cbor_read_uint_value d p1 = (Ret pv, p2)" "cbor_read_bstr d p2 = (Ret guid, p3)"
    using cbor_read_uint_value_at [OF a(2)] cbor_read_bstr_at [OF a(3)] assms(3,4) by (simp_all add: p2_def p3_def)
  moreover have "get_range d p4 p5 = Some (enc (Tstr di))"
      "get_range d p5 (p5 + length (enc (key_item pt))) = Some (enc (key_item pt))"
    using at_get_range [OF a(5)] at_get_range [OF a(6)] by (simp_all add: p5_def)
  ultimately show ?thesis
    using cbor_head_at [OF a(1)] decode_tstr_at [OF di assms(5)] parse_fdo_public_key_at [OF assms(7,8)] assms(3,4)
    by (simp add: parse_ov_header_def run_def bind_def or_err_def lift_def p1_def del: enc.simps)
qed

lemma parse_ov_entry_payload_at:
  assumes "d = enc (entry_item hp hh extra pt)" and "length d < 2 ^ 32" and "fits (2 ^ 32) extra"
    and "length pt = 65" and "pt ! 0 = 0x04"
  shows "parse_ov_entry_payload cr d = Ret \<lparr>hash_prev_alg = HASH_ALG_SHA256, hash_prev = hp,
     hash_hdr_alg = HASH_ALG_SHA256, hash_hdr = hh, pub_key_point = pt\<rparr>"
proof -
  define p1 where "p1 = length (enc_head 4 4)"
  define p2 where "p2 = p1 + length (enc (hash_item hp))"
  define p3 where "p3 = p2 + length (enc (hash_item hh))"
  define p4 where "p4 = p3 + length (enc extra)"
  have "d = enc_head 4 4 @ enc (hash_item hp) @ enc (hash_item hh) @ enc extra @ enc (key_item pt)"
    using assms(1) by (simp add: entry_item_def eval_nat_numeral)
  then have "at d 0 (enc_head 4 4 @ enc (hash_item hp) @ enc (hash_item hh) @ enc extra @ enc (key_item pt))"
    by (simp add: at_whole del: at_append)
  then have a: "at d 0 (enc_head 4 4)" "at d p1 (enc (hash_item hp))" "at d p2 (enc (hash_item hh))" "at d p3 (enc extra)"
      "at d p4 (enc (key_item pt))"
    by (simp_all add: p1_def p2_def p3_def p4_def add.assoc del: enc.simps)
  have "length hp < 2 ^ 32" "length hh < 2 ^ 32"
    using at_bound [OF a(2)] at_bound [OF a(3)] assms(2) by (auto simp: hash_item_def)
  then have "read_hash d p1 = (Ret (-16, hp), p2)" "read_hash d p2 = (Ret (-16, hh), p3)"
    using read_hash_at [OF a(2)] read_hash_at [OF a(3)] by (simp_all add: p2_def p3_def)
  moreover have "cbor_skip d p3 = (Ret (), p4)" "cbor_skip d p4 = (Ret (), p4 + length (enc (key_item pt)))"
    using cbor_skip_at [OF a(4) assms(3)] cbor_skip_at [OF a(5) fits_key_item [OF assms(4)]] assms(2) by (simp_all add: p4_def)
  ultimately show ?thesis
    using cbor_head_at [OF a(1)] at_get_range [OF a(5)] parse_fdo_public_key_at [OF assms(4,5)]
    by (simp add: parse_ov_entry_payload_def run_def bind_def or_err_def lift_def p1_def HASH_ALG_SHA256_def del: enc.simps)
qed

definition es256_header :: bytes where
  "es256_header = enc (Dict [(Uint 1, Nint 6)])"

definition signed_entry :: "bytes \<Rightarrow> bytes \<Rightarrow> bytes \<Rightarrow> bytes \<Rightarrow> bytes" where
  "signed_entry hp hh pt sg = enc_head 6 18 @ enc_head 4 4 @ enc (Bstr es256_header) @ enc (Dict [])
     @ enc (Bstr (enc (entry_item hp hh (Simple 22) pt))) @ enc (Bstr sg)"

lemma owner_chain_signed_entry:
  assumes "length (signed_entry hp hh pt sg) < 2 ^ 32" and "length pt = 65" and "pt ! 0 = 0x04"
    and "verify_es256 cr (build_sig_structure es256_header aad (enc (entry_item hp hh (Simple 22) pt))) sg k"
    and "owner_chain cr aad hh (sha256 cr (signed_entry hp hh pt sg)) pt es k'"
  shows "owner_chain cr aad hh hp k (signed_entry hp hh pt sg # es) k'"
proof -
  let ?e = "signed_entry hp hh pt sg" and ?pl = "enc (entry_item hp hh (Simple 22) pt)"
  let ?r = "enc_head 4 4 @ enc (Bstr es256_header) @ enc (Dict []) @ enc (Bstr ?pl) @ enc (Bstr sg)"
  have "at ?e (length (enc_head 6 18)) ?r" "at ?e 0 (enc_head 6 18)"
    using at_self [of "enc_head 6 18" ?r "[]"] at_self [of "[]" "enc_head 6 18" ?r] by (auto simp: signed_entry_def)
  moreover have "parse_protected_alg es256_header = Ret (-7)"
    by code_simp
  ultimately have s1: "parse_cose_sign1 ?e = Ret \<lparr>algorithm = -7, protected_header = es256_header,
      unprotected_header = enc (Dict []), payload = ?pl, signature = sg\<rparr>"
    using assms(1) by (intro parse_sign1_at) auto
  have nd: "has_delegate_header (enc (Dict [])) = Ret False"
    by code_simp
  have "length ?pl < 2 ^ 32"
    using assms(1) by (simp add: signed_entry_def)
  from parse_ov_entry_payload_at [OF refl this _ assms(2,3)]
  have pl: "parse_ov_entry_payload cr ?pl = Ret \<lparr>hash_prev_alg = HASH_ALG_SHA256, hash_prev = hp,
     hash_hdr_alg = HASH_ALG_SHA256, hash_hdr = hh, pub_key_point = pt\<rparr>"
    by simp
  show ?thesis
    by (rule transfer [where pl = "\<lparr>hash_prev_alg = HASH_ALG_SHA256, hash_prev = hp,
       hash_hdr_alg = HASH_ALG_SHA256, hash_hdr = hh, pub_key_point = pt\<rparr>", OF s1]) (use nd pl assms(4,5) in \<open>simp_all add: verify_sign1_def COSE_ALG_ES256_def\<close>)
qed

text \<open>What the hash chain pins down: the predecessor of every entry.\<close>

definition entry_prev :: "crypto \<Rightarrow> bytes \<Rightarrow> bytes \<Rightarrow> bool" where
  "entry_prev cr e h \<longleftrightarrow> (\<exists>s1 pl. parse_cose_sign1 e = Ret s1 \<and>
     parse_ov_entry_payload cr (payload s1) = Ret pl \<and> hash_prev pl = h)"

lemma entry_prev_unique: "entry_prev cr e h \<Longrightarrow> entry_prev cr e h' \<Longrightarrow> h = h'"
  by (auto simp: entry_prev_def)

fun hash_linked :: "crypto \<Rightarrow> bytes list \<Rightarrow> bool" where
  "hash_linked cr (a # b # xs) \<longleftrightarrow> entry_prev cr b (sha256 cr a) \<and> hash_linked cr (b # xs)"
| "hash_linked cr xs \<longleftrightarrow> True"

lemma owner_chain_linked:
  assumes "owner_chain cr aad hh h k es k'" and "h = sha256 cr b"
  shows "hash_linked cr (b # es)"
  using assms
proof (induction h k es k' arbitrary: b rule: owner_chain.induct)
  case (transfer e s1 k pl h es k')
  then show ?case by (auto simp: entry_prev_def)
qed simp

lemma hash_linked_append: "hash_linked cr (xs @ [a, b]) \<longleftrightarrow> hash_linked cr (xs @ [a]) \<and> entry_prev cr b (sha256 cr a)"
  by (induction xs rule: hash_linked.induct) (auto simp: neq_Nil_conv)

lemma hash_linked_unique:
  assumes "hash_linked cr xs" and "hash_linked cr ys" and "xs \<noteq> []" and "ys \<noteq> []"
    and "hd xs = b" and "hd ys = b" and "last xs = last ys"
    and "inj_on (sha256 cr) (set (xs @ ys))" and "\<And>h. \<not> entry_prev cr b h"
  shows "xs = ys"
  using assms(1-8)
proof (induction xs arbitrary: ys rule: rev_induct)
  case (snoc x xs)
  obtain ys' where ys: "ys = ys' @ [x]"
    using snoc.prems(4,7) by (cases ys rule: rev_cases) auto
  have prev: "\<exists>h. entry_prev cr x h" if "hash_linked cr (zs @ [x])" "zs \<noteq> []" for zs
    using that by (cases zs rule: rev_cases) (auto simp: hash_linked_append)
  show ?case
  proof (cases xs rule: rev_cases)
    case Nil
    then have "x = b" using snoc.prems(5) by simp
    with prev [of ys'] snoc.prems(2) ys assms(9) have "ys' = []" by auto
    with Nil ys show ?thesis by simp
  next
    case (snoc zs a)
    from prev [of xs] \<open>hash_linked cr (xs @ [x])\<close> this have "x \<noteq> b" using assms(9) by auto
    then obtain zs' a' where ys': "ys' = zs' @ [a']"
      using \<open>hd ys = b\<close> ys by (cases ys' rule: rev_cases) auto
    have "hash_linked cr (zs @ [a])" "entry_prev cr x (sha256 cr a)" "hash_linked cr (zs' @ [a'])" "entry_prev cr x (sha256 cr a')"
      using \<open>hash_linked cr (xs @ [x])\<close> \<open>hash_linked cr ys\<close> snoc ys ys' by (simp_all add: hash_linked_append)
    moreover from this have "sha256 cr a = sha256 cr a'"
      by (blast intro: entry_prev_unique)
    then have "a = a'"
      by (rule inj_onD [OF \<open>inj_on (sha256 cr) (set ((xs @ [x]) @ ys))\<close>]) (simp_all add: snoc ys ys')
    moreover have "hd (zs @ [a]) = b"
      using \<open>hd (xs @ [x]) = b\<close> snoc by (cases zs) simp_all
    moreover have "hd (zs' @ [a']) = b"
      using \<open>hd ys = b\<close> ys ys' by (cases zs') simp_all
    ultimately have "xs = ys'"
      using snoc ys ys' \<open>inj_on (sha256 cr) (set ((xs @ [x]) @ ys))\<close>
      by (intro snoc.IH) (auto elim: inj_on_subset)
    with ys show ?thesis by simp
  qed
qed simp

text \<open>The header is not mistaken for an entry: it is an array of at least five elements.\<close>

lemma cbor_read_uint_arg_append:
  assumes "cbor_read_uint_arg d a p = (Ret v, q)"
  shows "cbor_read_uint_arg (d @ e) a p = (Ret v, q)"
  using assms by (auto simp: cbor_read_uint_arg_def Ret_iffs nth_append split: if_splits)

lemma header_not_entry:
  assumes "parse_ov_header cr d = Ret h"
  shows "parse_cose_sign1 (d @ e) \<noteq> Ret s"
proof -
  from assms obtain q n where d: "0 < length d" "major (d ! 0) = 4" "cbor_read_uint_arg d (addl (d ! 0)) (Suc 0) = (Ret n, q)"
    and n: "\<not> n < 5"
    unfolding parse_ov_header_def by (auto simp: Ret_iffs' next_byte_Ret_iff)
  have "next_byte (d @ e) 0 = (Ret (d ! 0), Suc 0)" "peek_byte (d @ e) 0 = (Ret (d ! 0), 0)"
    using d(1) by (simp_all add: next_byte_def peek_byte_def nth_append)
  with d(2) n cbor_read_uint_arg_append [OF d(3), of e] show ?thesis
    by (simp add: parse_cose_sign1_def run_def bind_def)
qed

section \<open>Properties\<close>

lemma verify_voucher_Ret:
  "verify_voucher cr tpm hdr hraw hval kh guid es = Ret k \<longleftrightarrow>
     (\<exists>h. parse_ov_header cr hdr = Ret h \<and> ov_guid h = guid \<and> tpm kh hdr = Some hval \<and>
        owner_chain cr (domain_aad (aad_tag_str OV_ENTRY) (protver h)) (sha256 cr (ov_guid h @ device_info h))
          (sha256 cr (hdr @ hraw)) (mfg_key_point h) es k)"
  by (cases "tpm kh hdr"; cases "es = []")
    (auto simp: verify_voucher_def Let_def obind_Ret_iff verify_entries_iff split: if_splits
      intro: owner_chain.owner elim: owner_chain_NilE)

text \<open>C1: \<open>verify_voucher\<close> returns a key exactly when the header parses, carries this device's GUID and
  the MAC that the TPM computes over it, and the entries form an ownership chain from the manufacturer
  key to that key: every entry signed by the previous key in the voucher domain, bound to this header
  and to its predecessor.\<close>

theorem verify_voucher_iff:
  "verify_voucher cr tpm hdr hraw hval kh guid es = Ret k \<longleftrightarrow>
     (\<exists>h. parse_ov_header cr hdr = Ret h \<and> ov_guid h = guid \<and> tpm kh hdr = Some hval \<and>
        owner_chain cr (domain_aad (aad_tag_str OV_ENTRY) (protver h)) (sha256 cr (ov_guid h @ device_info h))
          (sha256 cr (hdr @ hraw)) (mfg_key_point h) es k)"
  by (rule verify_voucher_Ret)

text \<open>C32: \<open>verify_voucher\<close> is total: whatever the header and entries, it returns a key or an error.\<close>

theorem verify_voucher_total: "total (verify_voucher cr tpm hdr hraw hval kh guid es)"
  by (rule verify_voucher_holds)

text \<open>C8: the last entry determines all the others: two accepted entry lists of one voucher that end in
  the same entry are equal, unless SHA-256 collides on the header or the entries. So entries cannot be
  dropped, replaced, inserted or reordered below the entry that names the Owner.\<close>

theorem voucher_entries_determined:
  assumes "verify_voucher cr tpm hdr hraw hval kh guid es = Ret k"
    and "verify_voucher cr tpm hdr hraw hval kh guid es' = Ret k'"
    and "es \<noteq> []" and "es' \<noteq> []" and "last es = last es'"
    and "inj_on (sha256 cr) ({hdr @ hraw} \<union> set es \<union> set es')"
  shows "es = es'"
proof -
  let ?b = "hdr @ hraw"
  obtain h where h: "parse_ov_header cr hdr = Ret h"
    using assms(1) unfolding verify_voucher_Ret by blast
  have "hash_linked cr (?b # es)" "hash_linked cr (?b # es')"
    using assms(1,2) owner_chain_linked unfolding verify_voucher_Ret by blast+
  moreover have "\<not> entry_prev cr ?b x" for x
    using header_not_entry [OF h] by (auto simp: entry_prev_def)
  moreover have "set ((?b # es) @ (?b # es')) = {?b} \<union> set es \<union> set es'"
    by auto
  ultimately have "?b # es = ?b # es'"
    using assms(3-6) by (intro hash_linked_unique [where b = ?b]) (simp_all only:, simp_all)
  then show ?thesis by simp
qed

text \<open>A voucher for the witnesses: one entry, from the key of \<open>sample_owner\<close> to another key.\<close>

definition sample_guid :: bytes where "sample_guid = replicate 16 0x5a"
definition sample_header :: bytes where
  "sample_header = enc (header_item 200 sample_guid (Arr []) (ascii ''dev'') sample_owner (Simple 22))"
definition sample_new_owner :: bytes where "sample_new_owner = 0x04 # replicate 64 0x44"
definition sample_hmac :: bytes where "sample_hmac = [1, 2, 3]"
definition sample_entry :: bytes where
  "sample_entry = signed_entry (sha256 toy_crypto (sample_header @ sample_hmac))
     (sha256 toy_crypto (sample_guid @ ascii ''dev'')) sample_new_owner (replicate 64 0x33)"

lemma parse_sample_header:
  "parse_ov_header toy_crypto sample_header = Ret \<lparr>protver = 200, ov_guid = sample_guid, device_info = ascii ''dev'', mfg_key_point = sample_owner\<rparr>"
proof (rule parse_ov_header_at [OF sample_header_def])
  show "length sample_header < 2 ^ 32"
    by (simp add: sample_header_def header_item_def key_item_def length_spki sample_owner_def sample_guid_def enc_head_def)
  show "utf8_valid (ascii ''dev'')"
    by (rule utf8_valid_ascii_only) (simp add: ascii_def)
qed (simp_all add: sample_guid_def sample_owner_def)

lemma verify_sample_voucher:
  "verify_voucher toy_crypto (\<lambda>_ _. Some [9]) sample_header sample_hmac [9] 0 sample_guid [sample_entry] = Ret sample_new_owner"
proof -
  have "length (signed_entry hp hh sample_new_owner (replicate 64 0x33)) < 2 ^ 32" if "length hp = 32" "length hh = 32" for hp hh
    using that by (simp add: signed_entry_def entry_item_def hash_item_def key_item_def length_spki sample_new_owner_def
        es256_header_def enc_head_def)
  then have "length sample_entry < 2 ^ 32"
    unfolding sample_entry_def by (simp add: toy_crypto_def)
  then show ?thesis
    unfolding verify_voucher_Ret sample_entry_def
    using parse_sample_header owner_chain_signed_entry [OF _ _ _ _ owner_chain.owner]
    by (auto simp: sample_new_owner_def verify_es256_def toy_crypto_def sample_owner_def intro!: owner_chain_signed_entry owner_chain.owner)
qed

lemma last_be_val: "m \<noteq> [] \<Longrightarrow> 0 < k \<Longrightarrow> last (be k (be_val m)) = last m"
proof (induction m rule: rev_induct)
  case (snoc b m)
  have "u8 (be_val (m @ [b])) = b"
    by (rule word_unat_eq_iff [THEN iffD2]) (simp add: be_val_append unat_u8 unat_byte_less del: of_nat_add of_nat_mult)
  with snoc.prems show ?case by (simp add: last_be)
qed simp

theorem voucher_entries_determined_witness:
  "verify_voucher toy_crypto (\<lambda>_ _. Some [9]) sample_header sample_hmac [9] 0 sample_guid [sample_entry] = Ret sample_new_owner
     \<and> [sample_entry] = [sample_entry]"
proof -
  have "last (sample_header @ sample_hmac) \<noteq> last sample_entry"
    by (simp add: sample_hmac_def sample_entry_def signed_entry_def)
  then have "sha256 toy_crypto (sample_header @ sample_hmac) \<noteq> sha256 toy_crypto sample_entry"
    using last_be_val [of "sample_header @ sample_hmac" 32] last_be_val [of sample_entry 32]
    by (auto simp: toy_crypto_def sample_hmac_def sample_entry_def signed_entry_def)
  then have "inj_on (sha256 toy_crypto) ({sample_header @ sample_hmac} \<union> set [sample_entry] \<union> set [sample_entry])"
    by auto
  with voucher_entries_determined [OF verify_sample_voucher verify_sample_voucher] verify_sample_voucher
  show ?thesis by simp
qed

end
