(* ===== verification/Fdo_Msg.thy ===== *)
theory Fdo_Msg
  imports Fdo_Session Voucher
begin

text \<open>
  The messages of TO1 and TO2: the builders and parsers of \<open>src/src/fdo.rs\<close>, lines 730 to 1780 (and
  \<open>check_fdo_error\<close>, 2559). The TPM signature is a parameter. Parsers run on the decoder of
  \<open>Fdo_Cbor\<close> and inherit its panics; a further one is a slice that ends at an unchecked position
  (\<open>span\<close>).

  Shown: what the parsers read from well-formed messages; the decision of \<open>check_setup_device20\<close>; the two
  implementations of the Sig_structure agree; the device's proof messages parse and carry what was signed;
  and that \<open>extract_cose_payload\<close> and \<open>parse_cose_sign1\<close> can disagree on the payload of one message.
\<close>

section \<open>Helpers\<close>

text \<open>\<open>data[start..dec.pos]\<close>.\<close>

definition span :: "bytes \<Rightarrow> nat \<Rightarrow> (fdo_error, bytes) parser" where
  "span d start = bind get_pos (\<lambda>pos. slice d start pos)"

text \<open>A 16-byte array filled from the first 16 bytes when there are as many, and left zero otherwise.\<close>

definition nonce16 :: "bytes \<Rightarrow> bytes" where
  "nonce16 bs = (if length bs \<ge> 16 then take 16 bs else replicate 16 0)"

text \<open>\<open>v as i8\<close> for \<open>v: i32\<close>.\<close>

definition as_i8 :: "int \<Rightarrow> int" where
  "as_i8 v = sint (word_of_int v :: 8 word)"

definition MSG_ERROR :: nat where "MSG_ERROR = 255"
definition FDO_PROTOCOL_VERSION :: nat where "FDO_PROTOCOL_VERSION = 200"
definition CAPB0_SUP_FDO20 :: byte where "CAPB0_SUP_FDO20 = push_bit 2 1"
definition HASH_TYPE_SHA256 :: int where "HASH_TYPE_SHA256 = -16"
definition KEX_SUITE_20 :: bytes where "KEX_SUITE_20 = ascii ''ECDH256''"

section \<open>TO1\<close>

record to1_hello_rv_ack =
  nonce4 :: bytes
  rv_capability_flags :: bytes

definition parse_to1_hello_rv_ack :: "bytes \<Rightarrow> (fdo_error, to1_hello_rv_ack) outcome" where
  "parse_to1_hello_rv_ack d = run (
     bind (read_array_len d) (\<lambda>arr_len.
     bind (guard (arr_len = 3) CborError) (\<lambda>_.
     bind (read_bytes d) (\<lambda>flags.
     bind (skip_value d) (\<lambda>_.
     bind (read_bytes d) (\<lambda>nonce_bytes.
     bind (guard (length nonce_bytes = 16) CborError) (\<lambda>_.
     ret \<lparr>nonce4 = nonce_bytes, rv_capability_flags = flags\<rparr>)))))))"

record to1_rv_redirect =
  to1d_cose :: bytes

definition parse_to1_rv_redirect :: "bytes \<Rightarrow> (fdo_error, to1_rv_redirect) outcome" where
  "parse_to1_rv_redirect d = run (
     bind (read_array_len d) (\<lambda>n.
     bind (guard (n = 3) CborError) (\<lambda>_.
     bind (read_uint d) (\<lambda>num.
     bind (read_uint d) (\<lambda>idx.
     bind (read_array_len d) (\<lambda>len.
     bind (guard (\<not> (idx \<noteq> 0 \<or> len = 0 \<or> num < len)) CborError) (\<lambda>_.
     bind get_pos (\<lambda>start.
     bind (skip_value d) (\<lambda>_.
     bind (span d start) (\<lambda>s.
     ret \<lparr>to1d_cose = s\<rparr>))))))))))"

definition read_cert_chain_or_null :: "bytes \<Rightarrow> (fdo_error, bytes list option) parser" where
  "read_cert_chain_or_null d =
     bind (peek_null d) (\<lambda>isnull.
     if isnull then bind (read_null d) (\<lambda>_. ret None)
     else
       bind (read_array_len d) (\<lambda>len.
       bind (guard (len \<noteq> 0) CborError) (\<lambda>_.
       bind (with_capacity 24 len) (\<lambda>_.
       bind (repeat len (\<lambda>certs. bind (read_bytes d) (\<lambda>c. ret (certs @ [c]))) []) (\<lambda>certs.
       ret (Some certs))))))"

definition to1d_delegate_chain :: "bytes \<Rightarrow> (fdo_error, bytes list option) outcome" where
  "to1d_delegate_chain d = run (
     bind (read_array_len d) (\<lambda>len.
     if len = 2 then ret None
     else if len = 3 then
       bind (skip_value d) (\<lambda>_.
       bind (skip_value d) (\<lambda>_.
       bind (read_bytes d) (\<lambda>wrapped.
       lift (run (read_cert_chain_or_null wrapped)))))
     else throw CborError))"

text \<open>The EAT of ProveToRV, and the message around it. \<open>tpm_sign\<close> is \<open>tpm_sign_with_persistent\<close>: the handle
  and the digest to a signature, or nothing.\<close>

definition to1_eat :: "bytes \<Rightarrow> bytes \<Rightarrow> bytes" where
  "to1_eat guid nonce = 0xa2 # uint_enc 256 @ bytes_enc (0x01 # guid) @ uint_enc 10 @ bytes_enc nonce"

definition build_to1_prove_to_rv ::
    "crypto \<Rightarrow> (nat \<Rightarrow> bytes \<Rightarrow> bytes option) \<Rightarrow> bytes \<Rightarrow> bytes \<Rightarrow> nat \<Rightarrow> (fdo_error, bytes) outcome" where
  "build_to1_prove_to_rv cr tpm_sign guid nonce device_key_handle =
     (let prot_bytes = 0xa1 # 0x01 # neg_int (-7);
          pay = to1_eat guid nonce;
          external_aad = domain_aad (aad_tag_str PROVE_TO_RV) FDO_PROTOCOL_VERSION;
          sig_structure = build_sig_structure prot_bytes external_aad pay;
          sig_hash = sha256 cr sig_structure in
      case tpm_sign device_key_handle sig_hash of
        Some sg \<Rightarrow>
          if length sg = 64 then
            Ret (0xd2 # array 4 @ bytes_enc prot_bytes @ 0xa0 # bytes_enc pay @ bytes_enc sg)
          else Err CryptoError
      | None \<Rightarrow> Err CryptoError)"

definition build_to1_hello_rv :: "bytes \<Rightarrow> bytes" where
  "build_to1_hello_rv guid = array 3 @ bytes_enc [CAPB0_SUP_FDO20] @ array 0 @ bytes_enc guid"

section \<open>TO2: hello\<close>

definition build_to2_hello_device_probe :: "bytes \<Rightarrow> bytes \<Rightarrow> bytes" where
  "build_to2_hello_device_probe guid sugar =
     array 6 @ bytes_enc [CAPB0_SUP_FDO20] @ array 0 @ bytes_enc guid @ uint_enc 65535
       @ array 1 @ neg_int (-16) @ bytes_enc sugar"

record to2_hello_device_ack =
  capability_flags :: bytes
  nonce_to2_prove_dv :: bytes
  kex_suite :: int
  cipher_suite :: int
  max_owner_msg_size :: nat
  hash_prev_type :: int
  ack_hash_prev :: bytes

definition verify_hash_prev :: "crypto \<Rightarrow> int \<Rightarrow> bytes \<Rightarrow> bytes \<Rightarrow> (fdo_error, unit) outcome" where
  "verify_hash_prev cr hash_type hash_value probe =
     (if hash_type \<noteq> HASH_TYPE_SHA256 then Err ProtocolError
      else if hash_value \<noteq> sha256 cr probe then Err ProtocolError
      else Ret ())"

definition supports_fdo20 :: "to2_hello_device_ack \<Rightarrow> bool" where
  "supports_fdo20 ack \<longleftrightarrow>
     capability_flags ack \<noteq> [] \<and> capability_flags ack ! 0 AND CAPB0_SUP_FDO20 \<noteq> 0"

definition verify_nonce_echo :: "bytes \<Rightarrow> bytes \<Rightarrow> (fdo_error, unit) outcome" where
  "verify_nonce_echo expected received = (if expected \<noteq> received then Err ProtocolError else Ret ())"

definition select_kex_suite20 :: "bytes list \<Rightarrow> (fdo_error, bytes) outcome" where
  "select_kex_suite20 offered = (if KEX_SUITE_20 \<in> set offered then Ret KEX_SUITE_20 else Err CborError)"

definition parse_to2_hello_device_ack_v11 :: "bytes \<Rightarrow> (fdo_error, to2_hello_device_ack) parser" where
  "parse_to2_hello_device_ack_v11 d =
     bind (read_bytes d) (\<lambda>nonce_bytes.
     bind (guard (length nonce_bytes = 16) CborError) (\<lambda>_.
     bind (skip_value d) (\<lambda>_.
     bind (read_uint d) (\<lambda>sz.
     bind (read_int d) (\<lambda>cs.
     bind (skip_value d) (\<lambda>_.
     ret \<lparr>capability_flags = [0x01], nonce_to2_prove_dv = nonce_bytes, kex_suite = 1, cipher_suite = as_i8 cs,
       max_owner_msg_size = sz mod 2 ^ 16, hash_prev_type = 0, ack_hash_prev = []\<rparr>))))))"

definition parse_to2_hello_device_ack_v20 :: "bytes \<Rightarrow> (fdo_error, to2_hello_device_ack) parser" where
  "parse_to2_hello_device_ack_v20 d =
     bind (read_bytes d) (\<lambda>flags.
     bind (skip_value d) (\<lambda>_.
     bind (skip_value d) (\<lambda>_.
     bind (read_uint d) (\<lambda>sz.
     bind (read_array_len d) (\<lambda>kex_len.
     bind (repeat kex_len (\<lambda>offered. bind (read_text d) (\<lambda>t. ret (offered @ [t]))) []) (\<lambda>offered.
     bind (lift (select_kex_suite20 offered)) (\<lambda>_.
     bind (read_array_len d) (\<lambda>cipher_len.
     bind (if cipher_len > 0 then bind (read_int d) (\<lambda>v. ret (as_i8 v)) else ret 0) (\<lambda>cs.
     bind (repeat (cipher_len - 1) (\<lambda>_. skip_value d) ()) (\<lambda>_.
     bind (read_bytes d) (\<lambda>nonce_bytes.
     bind (read_array_len d) (\<lambda>hash_arr_len.
     bind (read_int d) (\<lambda>ht.
     bind (if hash_arr_len > 1 then read_bytes d else ret []) (\<lambda>hp.
     ret \<lparr>capability_flags = flags, nonce_to2_prove_dv = nonce16 nonce_bytes, kex_suite = 1, cipher_suite = cs,
       max_owner_msg_size = sz mod 2 ^ 16, hash_prev_type = ht, ack_hash_prev = hp\<rparr>))))))))))))))"

definition parse_to2_hello_device_ack :: "bytes \<Rightarrow> (fdo_error, to2_hello_device_ack) outcome" where
  "parse_to2_hello_device_ack d = run (
     bind (read_array_len d) (\<lambda>arr_len.
     if arr_len = 5 then
       bind get_pos (\<lambda>pos.
       let first_byte = if pos < length d then d ! pos else 0 in
       if major first_byte = 0 \<or> major first_byte = 3 then
         bind (read_uint d) (\<lambda>_.
         bind (read_uint d) (\<lambda>_.
         bind (read_text d) (\<lambda>_.
         throw CborError)))
       else parse_to2_hello_device_ack_v11 d)
     else
       bind (guard (arr_len = 8) CborError) (\<lambda>_.
       parse_to2_hello_device_ack_v20 d)))"

section \<open>TO2: proofs\<close>

record to2_prove_ov_hdr20_payload =
  ov_header :: bytes
  num_ov_entries :: nat
  hmac :: bytes
  hmac_raw :: bytes
  nonce_to2_prove_ov :: bytes
  xb_key_exchange :: bytes
  ov_max_owner_msg_size :: nat
  owner_pub_key_raw :: bytes
  delegate_chain :: "bytes list option"

definition extract_cose_payload :: "bytes \<Rightarrow> (fdo_error, bytes) outcome" where
  "extract_cose_payload d = run (
     bind get_pos (\<lambda>pos.
     bind (if pos < length d \<and> major (d ! pos) = 6
           then bind (read_tag d) (\<lambda>tag. guard (tag = 18) CborError) else ret ()) (\<lambda>_.
     bind (read_array_len d) (\<lambda>arr_len.
     bind (guard (arr_len = 4) CborError) (\<lambda>_.
     bind (skip_value d) (\<lambda>_.
     bind (skip_value d) (\<lambda>_.
     read_bytes d)))))))"

definition parse_prove_ov_hdr_payload :: "bytes \<Rightarrow> (fdo_error, to2_prove_ov_hdr20_payload) outcome" where
  "parse_prove_ov_hdr_payload d = run (
     bind (read_array_len d) (\<lambda>arr_len.
     bind (guard (arr_len = 8) CborError) (\<lambda>_.
     bind (read_bytes d) (\<lambda>ovh.
     bind (read_uint d) (\<lambda>n.
     bind get_pos (\<lambda>hmac_start.
     bind (read_array_len d) (\<lambda>hmac_len.
     bind (read_int d) (\<lambda>_.
     bind (if hmac_len > 1 then read_bytes d else ret []) (\<lambda>hm.
     bind (repeat (hmac_len - 2) (\<lambda>_. skip_value d) ()) (\<lambda>_.
     bind get_pos (\<lambda>pos.
     let hraw = (case get_range d hmac_start pos of Some s \<Rightarrow> s | None \<Rightarrow> []) in
     bind (read_bytes d) (\<lambda>nonce_bytes.
     bind (read_bytes d) (\<lambda>xb.
     bind (read_uint d) (\<lambda>sz.
     bind get_pos (\<lambda>owner_start.
     bind (skip_value d) (\<lambda>_.
     bind (span d owner_start) (\<lambda>owner_raw.
     bind (read_cert_chain_or_null d) (\<lambda>chain.
     ret \<lparr>ov_header = ovh, num_ov_entries = n mod 2 ^ 8, hmac = hm, hmac_raw = hraw,
       nonce_to2_prove_ov = nonce16 nonce_bytes, xb_key_exchange = xb, ov_max_owner_msg_size = sz mod 2 ^ 16,
       owner_pub_key_raw = owner_raw, delegate_chain = chain\<rparr>))))))))))))))))))"

definition build_to2_prove_device_eat :: "bytes \<Rightarrow> bytes \<Rightarrow> bytes \<Rightarrow> bytes" where
  "build_to2_prove_device_eat guid nonce fdo_payload =
     encode_map 3 @ uint_enc 10 @ bytes_enc nonce @ uint_enc 256 @ bytes_enc (0x01 # guid)
       @ [0x39, 0x01, 0x00] @ fdo_payload"

datatype setup_disposition = Resale bytes | CredReuse

definition check_setup_device20 ::
    "crypto \<Rightarrow> bytes \<Rightarrow> bytes \<Rightarrow> bytes \<Rightarrow> (fdo_error, setup_disposition) outcome" where
  "check_setup_device20 cr data setup_nonce peer_point =
     obind (ok_or (parse_cose_sign1 data) CborError) (\<lambda>s1.
     let aad = domain_aad (aad_tag_str SETUP_DEVICE) FDO_PROTOCOL_VERSION; d = payload s1 in run (
     bind (read_array_len d) (\<lambda>n.
     bind (guard (n = 3) CborError) (\<lambda>_.
     bind (read_uint d) (\<lambda>disposition.
     if disposition = 1 then
       bind (peek_null d) (\<lambda>isnull.
       bind (if isnull then ret True else bind (read_array_len d) (\<lambda>m. ret (m \<noteq> 4))) (\<lambda>bad.
       bind (guard (\<not> bad) ProtocolError) (\<lambda>_.
       bind (skip_value d) (\<lambda>_.
       bind (read_bytes d) (\<lambda>guid_bytes.
       bind (read_bytes d) (\<lambda>nonce.
       bind get_pos (\<lambda>owner2_start.
       bind (skip_value d) (\<lambda>_.
       bind (span d owner2_start) (\<lambda>key_bytes.
       bind (or_err (lift (parse_fdo_public_key cr key_bytes)) CryptoError) (\<lambda>owner2_point.
       bind (guard (verify_sign1 cr s1 aad owner2_point) CryptoError) (\<lambda>_.
       bind (guard (nonce = setup_nonce) ProtocolError) (\<lambda>_.
       bind (guard (length guid_bytes = 16) CborError) (\<lambda>_.
       ret (Resale guid_bytes))))))))))))))
     else if disposition = 2 then
       bind (peek_null d) (\<lambda>isnull.
       bind (guard isnull ProtocolError) (\<lambda>_.
       bind (guard (verify_sign1 cr s1 aad peer_point) CryptoError) (\<lambda>_.
       ret CredReuse)))
     else throw ProtocolError)))))"

definition build_to2_prove_device_from_parts :: "bytes \<Rightarrow> bytes \<Rightarrow> bytes \<Rightarrow> bytes" where
  "build_to2_prove_device_from_parts protected pay sg =
     0xd2 # array 4 @ bytes_enc protected @ 0xa0 # bytes_enc pay @ bytes_enc sg"

definition build_cose_sig_structure :: "bytes \<Rightarrow> bytes \<Rightarrow> bytes \<Rightarrow> bytes" where
  "build_cose_sig_structure protected external_aad pay =
     array 4 @ text_enc (ascii ''Signature1'') @ bytes_enc protected @ bytes_enc external_aad @ bytes_enc pay"

definition build_prove_device_aad :: bytes where
  "build_prove_device_aad = array 1 @ text_enc (ascii ''FDO-TO2-ProveDevice-v1'')"

definition build_cose_protected_header :: bytes where
  "build_cose_protected_header = 0xa1 # uint_enc 1 @ neg_int (-7)"

definition build_to2_prove_device_payload :: "bytes \<Rightarrow> int \<Rightarrow> bytes \<Rightarrow> bytes \<Rightarrow> bytes \<Rightarrow> bytes" where
  "build_to2_prove_device_payload suite cipher xa_public_key nonce hash_prev2 =
     array 5 @ text_enc suite @ [word_of_int cipher] @ bytes_enc xa_public_key @ bytes_enc nonce
       @ array 2 @ neg_int (-16) @ bytes_enc hash_prev2"

definition build_to2_get_ov_next_entry :: "byte \<Rightarrow> bytes" where
  "build_to2_get_ov_next_entry entry_num = array 1 @ [entry_num]"

section \<open>TO2: service info\<close>

definition build_device_svc_info_rdy :: "nat option \<Rightarrow> bytes \<Rightarrow> bytes" where
  "build_device_svc_info_rdy max_sz nonce =
     array 3 @ null_enc @ (case max_sz of Some sz \<Rightarrow> uint_enc sz | None \<Rightarrow> null_enc) @ bytes_enc nonce"

definition build_devmod_service_info :: bytes where
  "build_devmod_service_info =
     array 11
     @ svc_info_kv_bool (ascii ''devmod:active'') True
     @ svc_info_kv_uint (ascii ''devmod:nummodules'') 1
     @ svc_info_kv_bytes (ascii ''devmod:modules'') (array 3 @ uint_enc 0 @ uint_enc 1 @ text_enc (ascii ''fdo.bmo''))
     @ svc_info_kv_text (ascii ''devmod:os'') (ascii ''UEFI'')
     @ svc_info_kv_text (ascii ''devmod:arch'') (ascii ''x86_64'')
     @ svc_info_kv_text (ascii ''devmod:version'') (ascii ''1.0'')
     @ svc_info_kv_text (ascii ''devmod:device'') (ascii ''FDO-UEFI-Client'')
     @ svc_info_kv_text (ascii ''devmod:sep'') [0x5c]
     @ svc_info_kv_text (ascii ''devmod:bin'') (ascii ''efi'')
     @ svc_info_kv_bool (ascii ''fdo.bmo:active'') True
     @ svc_info_kv_bytes (ascii ''fdo.bmo:supported-types'') (array 1 @ text_enc (ascii ''application/x-uefi-image''))"

definition build_device_svc_info :: "bool \<Rightarrow> bytes \<Rightarrow> bytes" where
  "build_device_svc_info is_more service_info =
     array 3 @ null_enc @ bool_val is_more @ (if service_info = [] then array 0 else service_info)"

record owner_svc_info =
  is_done :: bool
  is_more :: bool
  service_info :: bytes

definition parse_owner_svc_info :: "bytes \<Rightarrow> (fdo_error, owner_svc_info) outcome" where
  "parse_owner_svc_info d =
     (if length d = 1 \<and> d ! 0 = 0xf6 then Ret \<lparr>is_done = True, is_more = False, service_info = []\<rparr>
      else run (
        bind (read_array_len d) (\<lambda>arr_len.
        bind (guard (arr_len = 3) CborError) (\<lambda>_.
        bind (read_bool d) (\<lambda>more.
        bind (read_bool d) (\<lambda>is_dn.
        bind (remaining_bytes d) (\<lambda>rest.
        ret \<lparr>is_done = is_dn, is_more = more, service_info = rest\<rparr>)))))))"

definition parse_service_info_array :: "bytes \<Rightarrow> (fdo_error, (bytes \<times> bytes) list) outcome" where
  "parse_service_info_array d =
     (if d = [] then Ret []
      else run (
        bind (read_array_len d) (\<lambda>arr_len.
        repeat arr_len (\<lambda>entries.
          bind (read_array_len d) (\<lambda>entry_len.
          if entry_len \<noteq> 2 then bind (skip_value d) (\<lambda>_. ret entries)
          else
            bind (read_text d) (\<lambda>key.
            bind (read_bytes d) (\<lambda>val.
            ret (entries @ [(key, val)]))))) [])))"

definition build_to2_done :: "bytes \<Rightarrow> bytes" where
  "build_to2_done nonce = array 2 @ bytes_enc nonce @ null_enc"

definition parse_to2_done_ack :: "bytes \<Rightarrow> (fdo_error, bytes) outcome" where
  "parse_to2_done_ack d = run (
     bind (read_array_len d) (\<lambda>arr_len.
     bind (guard (arr_len = 1) CborError) (\<lambda>_.
     bind (read_bytes d) (\<lambda>nonce_bytes.
     bind (guard (length nonce_bytes = 16) CborError) (\<lambda>_.
     ret nonce_bytes)))))"

text \<open>\<open>unwrap_or\<close> keeps reading after an unreadable field; only the texts depend on what was read.\<close>

definition check_fdo_error :: "nat option \<Rightarrow> bytes \<Rightarrow> (fdo_error, unit) outcome" where
  "check_fdo_error message_type body =
     (if message_type \<noteq> Some MSG_ERROR then Ret ()
      else run (
        bind (attempt (read_array_len body)) (\<lambda>n.
        bind (case n of
            Some k \<Rightarrow>
              if k \<ge> 3 then
                bind (attempt (read_uint body)) (\<lambda>_.
                bind (attempt (read_uint body)) (\<lambda>_.
                bind (attempt (read_text body)) (\<lambda>_. ret ())))
              else ret ()
          | None \<Rightarrow> ret ()) (\<lambda>_.
        throw ProtocolError))))"

section \<open>Messages signed by the device\<close>

lemma sig_structures_agree:
  assumes "length p < 2 ^ 16" and "length a < 2 ^ 16" and "length m < 2 ^ 16"
  shows "build_cose_sig_structure p a m = build_sig_structure p a m"
  using assms by (simp add: build_cose_sig_structure_def build_sig_structure_def encode_bstr_enc enc16)
    (simp add: enc_head_def head_byte_plus)

lemma prove_device_aad_eq: "build_prove_device_aad = domain_aad (aad_tag_str PROVE_DEVICE) FDO_PROTOCOL_VERSION"
  by code_simp

lemma cose_protected_header_eq: "build_cose_protected_header = es256_header"
  by code_simp

lemma es256_header_alg: "parse_protected_alg es256_header = Ret (-7)"
  by code_simp

lemma length_es256_header [simp]: "length es256_header = 3"
  by code_simp

text \<open>A COSE_Sign1 message as the device writes it, read by the parser of \<open>cose.rs\<close>.\<close>

lemma parse_device_sign1:
  assumes "length pay < 2 ^ 16" and "length sg < 2 ^ 16"
  shows "parse_cose_sign1 (build_to2_prove_device_from_parts es256_header pay sg) =
    Ret \<lparr>algorithm = -7, protected_header = es256_header, unprotected_header = enc (Dict []), payload = pay, signature = sg\<rparr>"
proof -
  let ?r = "enc_head 4 4 @ enc (Bstr es256_header) @ enc (Dict []) @ enc (Bstr pay) @ enc (Bstr sg)"
  let ?d = "enc_head 6 18 @ ?r"
  have tag: "enc_head 6 18 = [0xd2]" "enc (Dict []) = [0xa0]" by code_simp+
  have d: "build_to2_prove_device_from_parts es256_header pay sg = ?d"
    using assms by (simp add: build_to2_prove_device_from_parts_def tag enc16 del: enc.simps)
  have "length ?d < 2 ^ 32"
    using assms by (simp add: enc_head_def)
  moreover have "at ?d (length (enc_head 6 18)) ?r" "at ?d 0 (enc_head 6 18)"
    using at_self [of "enc_head 6 18" ?r "[]"] at_self [of "[]" "enc_head 6 18" ?r] by simp_all
  ultimately show ?thesis
    unfolding d by (intro parse_sign1_at es256_header_alg) auto
qed

text \<open>The device's proof in TO2 is what an owner verifies: the message built from the parts parses to
  them, and its signature verifies under a key exactly when it is a signature of the bytes the device
  hashed, the Sig_structure with the domain of ProveDevice.\<close>

theorem prove_device_verifies:
  assumes "length pay < 2 ^ 16" and "length sg < 2 ^ 16"
  shows "\<exists>s1. parse_cose_sign1 (build_to2_prove_device_from_parts build_cose_protected_header pay sg) = Ret s1 \<and>
    payload s1 = pay \<and>
    (\<forall>pk. verify_sign1 cr s1 (domain_aad (aad_tag_str PROVE_DEVICE) FDO_PROTOCOL_VERSION) pk \<longleftrightarrow>
       verify_es256 cr (build_cose_sig_structure build_cose_protected_header build_prove_device_aad pay) sg pk)"
proof -
  have "length (domain_aad (aad_tag_str PROVE_DEVICE) FDO_PROTOCOL_VERSION) < 2 ^ 16"
    using length_domain_aad [of PROVE_DEVICE FDO_PROTOCOL_VERSION] by simp
  then show ?thesis
    using parse_device_sign1 [OF assms] assms
    by (simp add: cose_protected_header_eq prove_device_aad_eq sig_structures_agree verify_sign1_def COSE_ALG_ES256_def)
qed

theorem prove_device_verifies_witness:
  "\<exists>s1. parse_cose_sign1 (build_to2_prove_device_from_parts build_cose_protected_header [1, 2, 3] (replicate 64 7)) = Ret s1 \<and>
    payload s1 = [1, 2, 3]"
  using prove_device_verifies [of "[1, 2, 3]" "replicate 64 7" toy_crypto] by auto

text \<open>ProveToRV: with a TPM that signs, the message parses to the EAT with the GUID and the nonce of the
  server, under the domain of TO1; its signature is the TPM's over the digest of the bytes a verifier
  rebuilds. Without a 64-byte signature there is no message.\<close>

theorem prove_to_rv_correct:
  assumes "length guid = 16" and "length nonce = 16"
  defines "sig_bytes \<equiv> build_sig_structure es256_header (domain_aad (aad_tag_str PROVE_TO_RV) 200) (to1_eat guid nonce)"
  shows "case tpm_sign h (sha256 cr sig_bytes) of
      Some sg \<Rightarrow> if length sg = 64
        then (\<exists>msg s1. build_to1_prove_to_rv cr tpm_sign guid nonce h = Ret msg \<and> parse_cose_sign1 msg = Ret s1 \<and>
          signature s1 = sg \<and> payload s1 = enc (Dict [(Uint 256, Bstr (0x01 # guid)), (Uint 10, Bstr nonce)]) \<and>
          (\<forall>pk. verify_sign1 cr s1 (domain_aad (aad_tag_str PROVE_TO_RV) 200) pk \<longleftrightarrow> verify_es256 cr sig_bytes sg pk))
        else build_to1_prove_to_rv cr tpm_sign guid nonce h = Err CryptoError
    | None \<Rightarrow> build_to1_prove_to_rv cr tpm_sign guid nonce h = Err CryptoError"
proof -
  have hdr: "0xa1 # 0x01 # neg_int (-7) = es256_header" by code_simp
  have eat: "to1_eat guid nonce = enc (Dict [(Uint 256, Bstr (0x01 # guid)), (Uint 10, Bstr nonce)])"
    using assms(1,2) by (simp add: to1_eat_def enc16 enc_head_def head_byte_plus)
  then have len: "length (to1_eat guid nonce) < 2 ^ 16"
    using assms(1,2) by (simp add: enc_head_def)
  have msg: "build_to1_prove_to_rv cr tpm_sign guid nonce h =
    (case tpm_sign h (sha256 cr sig_bytes) of
       Some sg \<Rightarrow> if length sg = 64 then Ret (build_to2_prove_device_from_parts es256_header (to1_eat guid nonce) sg) else Err CryptoError
     | None \<Rightarrow> Err CryptoError)"
    unfolding build_to1_prove_to_rv_def hdr Let_def sig_bytes_def
    by (simp add: FDO_PROTOCOL_VERSION_def build_to2_prove_device_from_parts_def split: option.split)
  show ?thesis
    using parse_device_sign1 [OF len] eat
    by (auto simp: msg verify_sign1_def COSE_ALG_ES256_def sig_bytes_def split: option.splits)
qed

theorem prove_to_rv_correct_witness:
  "\<exists>msg s1. build_to1_prove_to_rv toy_crypto (\<lambda>_ _. Some (replicate 64 7)) (replicate 16 1) (replicate 16 2) 5 = Ret msg \<and>
    parse_cose_sign1 msg = Ret s1 \<and> signature s1 = replicate 64 7"
  using prove_to_rv_correct [of "replicate 16 1" "replicate 16 2" toy_crypto "\<lambda>_ _. Some (replicate 64 7)" 5] by auto

section \<open>Two readers of one message\<close>

text \<open>
  The unprotected header is the map \<open>{1: [simple(0), bstr P']}\<close> with the simple value in its two-byte form:
  \<open>cbor_skip\<close> passes over both bytes, \<open>skip_value\<close> over the first only.
\<close>

definition split_header :: "bytes \<Rightarrow> bytes" where
  "split_header p' = [0xa1, 0x01, 0x82, 0xf8, 0x00] @ enc (Bstr p')"

definition split_message :: "bytes \<Rightarrow> bytes \<Rightarrow> bytes \<Rightarrow> bytes \<Rightarrow> bytes" where
  "split_message prot pay p' sg =
     enc_head 6 18 @ enc_head 4 4 @ enc (Bstr prot) @ split_header p' @ enc (Bstr pay) @ enc (Bstr sg)"

lemma cbor_skip_split_header:
  assumes "at d q (split_header p')" and "length d < 2 ^ 32"
  shows "cbor_skip d q = (Ret (), q + length (split_header p'))"
proof -
  have b: "q + 5 < length d" "d ! q = 0xa1" "d ! (q + 1) = 0x01" "d ! (q + 2) = 0x82" "d ! (q + 3) = 0xf8"
      and p': "at d (q + 5) (enc (Bstr p'))"
    using assms(1) at_bound [OF assms(1)] by (auto simp: split_header_def enc_head_def eval_nat_numeral split: if_splits)
  have arg: "cbor_read_uint_arg d (Suc 0) r = (Ret 1, r)" "cbor_read_uint_arg d 2 r = (Ret 2, r)" for r
    by (simp_all add: cbor_read_uint_arg_def)
  obtain k where k: "length d = Suc (Suc k)" using b(1) by (cases "length d"; cases "length d - 1") auto
  have s: "cbor_skip_fuel (Suc k) d (q + 5) = (Ret (), q + 5 + length (enc (Bstr p')))"
    by (rule cose.skip_exact [OF p']) (use assms(2) at_bound [OF p'] in auto)
  have two: "repeat 2 f () p = bind (f ()) (repeat 1 f) p" for f :: "unit \<Rightarrow> (unit, unit) parser" and p
    by (simp add: repeat_eval [of 2])
  have key: "cbor_skip_fuel (Suc j) d (Suc q) = (Ret (), Suc (Suc q))" for j
    using b by (simp add: bind_def next_byte_def major_eq addl_eq arg)
  have simple: "cbor_skip_fuel (Suc j) d (Suc (Suc (Suc q))) = (Ret (), q + 5)" for j
    using b by (simp add: numeral_3_eq_3 bind_def next_byte_def major_eq addl_eq)
  have arr: "cbor_skip_fuel (Suc (Suc k)) d (Suc (Suc q)) = (Ret (), q + 5 + length (enc (Bstr p')))"
    using b by (simp add: bind_def next_byte_def major_eq addl_eq arg two simple s del: cbor_skip_fuel.simps(2) enc.simps
        add: cbor_skip_fuel.simps(2) [of "Suc k"])
  have "cbor_skip_fuel (Suc (Suc (Suc k))) d q = (Ret (), q + 5 + length (enc (Bstr p')))"
    using b by (simp add: bind_def next_byte_def major_eq addl_eq arg key arr del: cbor_skip_fuel.simps(2) enc.simps
        add: cbor_skip_fuel.simps(2) [of "Suc (Suc k)"])
  then show ?thesis
    by (simp add: cbor_skip_def k split_header_def)
qed

lemma skip_value_split_header:
  assumes "at d q (split_header p')"
  shows "skip_value d q = (Ret (), q + 5)"
proof -
  have b: "q + 5 < length d" "d ! q = 0xa1" "d ! (q + 1) = 0x01" "d ! (q + 2) = 0x82" "d ! (q + 3) = 0xf8" "d ! (q + 4) = 0x00"
    using assms(1) at_bound [OF assms(1)] by (auto simp: split_header_def enc_head_def eval_nat_numeral split: if_splits)
  obtain k where k: "length d = Suc (Suc k)" using b(1) by (cases "length d"; cases "length d - 1") auto
  have two: "repeat 2 f () p = bind (f ()) (repeat 1 f) p" for f :: "unit \<Rightarrow> (fdo_error, unit) parser" and p
    by (simp add: repeat_eval [of 2])
  have arg: "decode_additional d (Suc 0) r = (Ret 1, r)" "decode_additional d 2 r = (Ret 2, r)" "decode_additional d 0 r = (Ret 0, r)" for r
    by (simp_all add: decode_additional_def)
  have item: "skip_value_fuel (Suc j) d (Suc q) = (Ret (), Suc (Suc q))" "skip_value_fuel (Suc j) d (Suc (Suc (Suc q))) = (Ret (), q + 4)"
      "skip_value_fuel (Suc j) d (q + 4) = (Ret (), q + 5)" for j
    using b by (simp_all add: numeral_3_eq_3 bind_def read_byte_apply major_eq addl_eq arg)
  have arr: "skip_value_fuel (Suc (Suc k)) d (Suc (Suc q)) = (Ret (), q + 5)"
    using b by (simp add: bind_def read_byte_apply major_eq addl_eq arg two item del: skip_value_fuel.simps(2)
        add: skip_value_fuel.simps(2) [of "Suc k"])
  have "skip_value_fuel (Suc (Suc (Suc k))) d q = (Ret (), q + 5)"
    using b by (simp add: bind_def read_byte_apply major_eq addl_eq arg item arr del: skip_value_fuel.simps(2)
        add: skip_value_fuel.simps(2) [of "Suc (Suc k)"])
  then show ?thesis
    by (simp add: skip_value_def k)
qed

text \<open>What \<open>extract_cose_payload\<close> reads, for an unprotected header \<open>ub\<close> of which \<open>skip_value\<close> takes \<open>k\<close> bytes.\<close>

lemma extract_cose_payload_at:
  assumes "d = enc_head 6 18 @ enc_head 4 4 @ enc (Bstr prot) @ ub @ rest" and "length d < 2 ^ 63"
    and "\<And>q. at d q ub \<Longrightarrow> skip_value d q = (Ret (), q + k)"
  shows "extract_cose_payload d = fst (read_bytes d (length (enc_head 6 18 @ enc_head 4 4 @ enc (Bstr prot)) + k))"
proof -
  define p1 where "p1 = length (enc_head 6 18)"
  define p2 where "p2 = p1 + length (enc_head 4 4)"
  define p3 where "p3 = p2 + length (enc (Bstr prot))"
  have a: "at d 0 (enc_head 6 18)" "at d p1 (enc_head 4 4)" "at d p2 (enc (Bstr prot))" "at d p3 ub"
    using at_whole [of d] unfolding assms(1) p1_def p2_def p3_def by (simp_all add: add.assoc del: enc.simps)
  have h: "0 < length d" "major (d ! 0) = 6"
    using a(1) assms(1) by (simp_all add: enc_head_def)
  have prot: "fits (2 ^ 64) (Bstr prot)"
    using at_bound [OF a(3)] assms(2) by simp
  have r: "read_tag d 0 = (Ret 18, p1)" "read_array_len d p1 = (Ret 4, p2)" "skip_value d p2 = (Ret (), p3)" "skip_value d p3 = (Ret (), p3 + k)"
    using a assms(2,3) skip_value_at [OF a(3) prot assms(2)] by (simp_all add: read_tag_at read_array_len_at p1_def p2_def p3_def del: enc.simps)
  show ?thesis
    using h r by (simp add: extract_cose_payload_def run_def bind_def p3_def p2_def p1_def add.assoc del: enc.simps)
qed

lemma split_message_reads:
  assumes "length (prot @ pay @ p' @ sg) < 2 ^ 31" and "parse_protected_alg prot = Ret alg"
  shows "\<exists>ub. parse_cose_sign1 (split_message prot pay p' sg) = Ret \<lparr>algorithm = alg, protected_header = prot,
        unprotected_header = ub, payload = pay, signature = sg\<rparr> \<and>
      extract_cose_payload (split_message prot pay p' sg) = Ret p'"
proof -
  let ?d = "split_message prot pay p' sg"
  let ?r = "enc_head 4 4 @ enc (Bstr prot) @ split_header p' @ enc (Bstr pay) @ enc (Bstr sg)"
  have head: "length (enc_head m v) \<le> 9" for m v
    by (simp add: enc_head_def)
  have len: "length ?d < 2 ^ 32"
    using assms(1) head [of 6 18] head [of 4 4] head [of 2 "length prot"] head [of 2 "length pay"] head [of 2 "length sg"]
      head [of 2 "length p'"] by (simp add: split_message_def split_header_def)
  have at: "at ?d (length (enc_head 6 18)) ?r" "at ?d 0 (enc_head 6 18)"
    using at_self [of "enc_head 6 18" ?r "[]"] at_self [of "[]" "enc_head 6 18" ?r] by (simp_all add: split_message_def)
  have "parse_cose_sign1 ?d = Ret \<lparr>algorithm = alg, protected_header = prot,
      unprotected_header = split_header p', payload = pay, signature = sg\<rparr>"
    by (rule parse_sign1_raw_at [OF at(1)]) (use at(2) assms(2) len cbor_skip_split_header in auto)
  moreover have "extract_cose_payload ?d = Ret p'"
  proof -
    have "at ?d (length (enc_head 6 18 @ enc_head 4 4 @ enc (Bstr prot)) + 5) (enc (Bstr p'))"
      using at_self [of "enc_head 6 18 @ enc_head 4 4 @ enc (Bstr prot) @ [0xa1, 0x01, 0x82, 0xf8, 0x00]" "enc (Bstr p')" "enc (Bstr pay) @ enc (Bstr sg)"]
      by (simp add: split_message_def split_header_def eval_nat_numeral del: at_append)
    from read_bytes_at [OF this] len show ?thesis
      using extract_cose_payload_at [of ?d prot "split_header p'" "enc (Bstr pay) @ enc (Bstr sg)" 5] skip_value_split_header
      by (simp add: split_message_def)
  qed
  ultimately show ?thesis by blast
qed

lemma canonical_payload:
  assumes "fits (2 ^ 32) u" and "parse_protected_alg prot = Ret alg"
    and "d = enc_head 6 18 @ enc_head 4 4 @ enc (Bstr prot) @ enc u @ enc (Bstr pay) @ enc (Bstr sg)" and "length d < 2 ^ 32"
  shows "parse_cose_sign1 d = Ret \<lparr>algorithm = alg, protected_header = prot, unprotected_header = enc u, payload = pay, signature = sg\<rparr>"
    and "extract_cose_payload d = Ret pay"
proof -
  let ?r = "enc_head 4 4 @ enc (Bstr prot) @ enc u @ enc (Bstr pay) @ enc (Bstr sg)"
  have at: "at d (length (enc_head 6 18)) ?r" "at d 0 (enc_head 6 18)"
    using at_self [of "enc_head 6 18" ?r "[]"] at_self [of "[]" "enc_head 6 18" ?r] by (simp_all add: assms(3))
  have "at d (length (enc_head 6 18 @ enc_head 4 4 @ enc (Bstr prot)) + length (enc u)) (enc (Bstr pay))"
    using at_self [of "enc_head 6 18 @ enc_head 4 4 @ enc (Bstr prot) @ enc u" "enc (Bstr pay)" "enc (Bstr sg)"]
    by (simp add: assms(3) add.assoc)
  moreover have "fits (2 ^ 64) u"
    using assms(1) by (rule fits_mono) simp
  ultimately show "extract_cose_payload d = Ret pay"
    using extract_cose_payload_at [OF assms(3), of "length (enc u)"] read_bytes_at assms(4) by (simp add: skip_value_at)
  show "parse_cose_sign1 d = Ret \<lparr>algorithm = alg, protected_header = prot, unprotected_header = enc u, payload = pay, signature = sg\<rparr>"
    using parse_sign1_at [OF at(1) _ assms(2,1,4)] at(2) by simp
qed

text \<open>On messages whose unprotected header is canonical CBOR the two readers agree, so the split above needs a
  header that the encoders of the protocol do not produce.\<close>

theorem payload_agreement:
  assumes "fits (2 ^ 32) u" and "parse_protected_alg prot = Ret alg"
    and "d = enc_head 6 18 @ enc_head 4 4 @ enc (Bstr prot) @ enc u @ enc (Bstr pay) @ enc (Bstr sg)" and "length d < 2 ^ 32"
  shows "\<exists>s1. parse_cose_sign1 d = Ret s1 \<and> extract_cose_payload d = Ret (payload s1)"
  using canonical_payload [OF assms] by simp

theorem payload_agreement_witness:
  "\<exists>s1. parse_cose_sign1 (enc_head 6 18 @ enc_head 4 4 @ enc (Bstr es256_header) @ enc (Dict []) @ enc (Bstr [1]) @ enc (Bstr [2])) = Ret s1 \<and>
     extract_cose_payload (enc_head 6 18 @ enc_head 4 4 @ enc (Bstr es256_header) @ enc (Dict []) @ enc (Bstr [1]) @ enc (Bstr [2])) = Ret (payload s1)"
  by (rule payload_agreement [OF _ es256_header_alg refl]) (simp_all add: enc_head_def)

section \<open>SetupDevice\<close>

text \<open>The payload of a resale message.\<close>

definition resale_item :: "cbor \<Rightarrow> bytes \<Rightarrow> bytes \<Rightarrow> bytes \<Rightarrow> cbor \<Rightarrow> cbor" where
  "resale_item rv g n pt x = Arr [Uint 1, Arr [rv, Bstr g, Bstr n, key_item pt], x]"

lemma peek_null_at: 
  assumes "at d p (enc_head m v)" and "m < 7"
  shows "peek_null d p = (Ret False, p)"
proof -
  have "head_byte m a \<noteq> 0xf6" if "a < 32" for a
    using major_head_byte [of m a] assms(2) that by (auto simp: major_eq)
  with assms show ?thesis
    by (auto simp: peek_null_def bind_def enc_head_def split: if_splits)
qed

lemma setup_payload_at:
  assumes "d = enc (resale_item rv g n pt x)" and "length d < 2 ^ 32" and "fits (2 ^ 32) rv"
  obtains q0 q1 q2 q3 q4 q5 q6 where "read_array_len d 0 = (Ret 3, q0)" "read_uint d q0 = (Ret 1, q1)" 
    "peek_null d q1 = (Ret False, q1)" "read_array_len d q1 = (Ret 4, q2)" "skip_value d q2 = (Ret (), q3)"
    "read_bytes d q3 = (Ret g, q4)" "read_bytes d q4 = (Ret n, q5)" "skip_value d q5 = (Ret (), q6)"
    "get_range d q5 q6 = Some (enc (key_item pt))"
proof -
  define q0 where "q0 = length (enc_head 4 3)"
  define q1 where "q1 = q0 + length (enc (Uint 1))"
  define q2 where "q2 = q1 + length (enc_head 4 4)"
  define q3 where "q3 = q2 + length (enc rv)"
  define q4 where "q4 = q3 + length (enc (Bstr g))"
  define q5 where "q5 = q4 + length (enc (Bstr n))"
  define q6 where "q6 = q5 + length (enc (key_item pt))"
  have d: "d = enc_head 4 3 @ enc (Uint 1) @ enc_head 4 4 @ enc rv @ enc (Bstr g) @ enc (Bstr n) @ enc (key_item pt) @ enc x"
    using assms(1) by (simp add: resale_item_def eval_nat_numeral)
  have a: "at d 0 (enc_head 4 3)" "at d q0 (enc (Uint 1))" "at d q1 (enc_head 4 4)" "at d q2 (enc rv)" "at d q3 (enc (Bstr g))"
      "at d q4 (enc (Bstr n))" "at d q5 (enc (key_item pt))"
    using at_whole [of d] unfolding d q0_def q1_def q2_def q3_def q4_def q5_def by (simp_all add: add.assoc del: enc.simps)
  have key: "fits (2 ^ 64) (key_item pt)" 
    using at_bound [OF a(7)] assms(2) by (simp add: key_item_def)
  have len: "length d < 2 ^ 63" using assms(2) by simp
  show thesis
    by (rule that [of q0 q1 q2 q3 q4 q5 q6])
      (use a key len fits_mono [OF assms(3), of "2 ^ 64"] at_get_range [OF a(7)] in
        \<open>simp_all add: q0_def q1_def q2_def q3_def q4_def q5_def q6_def read_array_len_at read_uint_at read_bytes_at skip_value_at peek_null_at
           del: enc.simps\<close>)
qed

lemma setup_device20_resale_aux:
  assumes "parse_cose_sign1 data = Ret s1" and "payload s1 = enc (resale_item rv g n pt x)"
    and "length (payload s1) < 2 ^ 32" and "fits (2 ^ 32) rv" and "length pt = 65" and "pt ! 0 = 0x04"
  shows "check_setup_device20 cr data setup_nonce peer =
    (if \<not> verify_sign1 cr s1 (domain_aad (aad_tag_str SETUP_DEVICE) FDO_PROTOCOL_VERSION) pt then Err CryptoError
     else if n \<noteq> setup_nonce then Err ProtocolError
     else if length g \<noteq> 16 then Err CborError
     else Ret (Resale g))"
  by (rule setup_payload_at [OF assms(2-4)])
    (simp add: check_setup_device20_def assms(1) ok_or_def Let_def run_def bind_def span_def slice_def or_err_def lift_def
      parse_fdo_public_key_at [OF assms(5,6)] guard_def)

lemma setup_sample:
  "check_setup_device20 toy_crypto (build_to2_prove_device_from_parts es256_header
      (enc (resale_item (Simple 22) (replicate 16 1) (replicate 16 2) sample_owner (Simple 22))) (replicate 64 0x33))
      (replicate 16 2) [] = Ret (Resale (replicate 16 1))"
proof -
  let ?pay = "enc (resale_item (Simple 22) (replicate 16 1) (replicate 16 2) sample_owner (Simple 22))"
  let ?s1 = "\<lparr>algorithm = -7, protected_header = es256_header, unprotected_header = enc (Dict []), payload = ?pay,
    signature = replicate 64 0x33\<rparr>"
  have len: "length ?pay < 2 ^ 16"
    by (simp add: resale_item_def key_item_def length_spki sample_owner_def enc_head_def)
  show ?thesis
    using setup_device20_resale_aux [OF parse_device_sign1 [OF len, of "replicate 64 0x33"], of "Simple 22" "replicate 16 1" "replicate 16 2"
        sample_owner "Simple 22" toy_crypto "replicate 16 2" "[]"] len
    by (simp add: sample_owner_def verify_sign1_def COSE_ALG_ES256_def verify_es256_def toy_crypto_def last_conv_nth)
qed

text \<open>C7: a SetupDevice message is acted on only with a signature over it in the SetupDevice domain: a
  resale by the key that the signed payload itself names as the next owner, behind the new 16-byte GUID and the
  nonce of this session; a credential reuse by the key that proved the voucher. This holds for every input.\<close>

theorem setup_device20_authenticated:
  assumes "check_setup_device20 cr data setup_nonce peer = Ret disp"
  shows "\<exists>s1 pt. parse_cose_sign1 data = Ret s1 \<and>
    verify_sign1 cr s1 (domain_aad (aad_tag_str SETUP_DEVICE) FDO_PROTOCOL_VERSION) pt \<and>
    (case disp of
       CredReuse \<Rightarrow> pt = peer
     | Resale g \<Rightarrow> length g = 16 \<and>
        (\<exists>p q i j k. read_bytes (payload s1) p = (Ret g, q) \<and> read_bytes (payload s1) q = (Ret setup_nonce, i) \<and>
           get_range (payload s1) i j = Some k \<and> parse_fdo_public_key cr k = Ret pt))"
  using assms
  by (auto simp: check_setup_device20_def obind_Ret_iff ok_or_Ret_iff Let_def Ret_iffs' span_def get_range_Some
      split: if_splits) blast

theorem setup_device20_authenticated_witness:
  "\<exists>s1 pt. parse_cose_sign1 (build_to2_prove_device_from_parts es256_header
      (enc (resale_item (Simple 22) (replicate 16 1) (replicate 16 2) sample_owner (Simple 22))) (replicate 64 0x33)) = Ret s1 \<and>
    verify_sign1 toy_crypto s1 (domain_aad (aad_tag_str SETUP_DEVICE) FDO_PROTOCOL_VERSION) pt"
  using setup_device20_authenticated [OF setup_sample] by blast

text \<open>The decision on a resale message, check by check: the signature of the next owner, the nonce, the
  size of the GUID, in this order; the rendezvous information and the last element are not looked at.\<close>

theorem setup_device20_resale:
  assumes "parse_cose_sign1 data = Ret s1" and "payload s1 = enc (resale_item rv g n pt x)"
    and "length (payload s1) < 2 ^ 32" and "fits (2 ^ 32) rv" and "length pt = 65" and "pt ! 0 = 0x04"
  shows "check_setup_device20 cr data setup_nonce peer =
    (if \<not> verify_sign1 cr s1 (domain_aad (aad_tag_str SETUP_DEVICE) FDO_PROTOCOL_VERSION) pt then Err CryptoError
     else if n \<noteq> setup_nonce then Err ProtocolError
     else if length g \<noteq> 16 then Err CborError
     else Ret (Resale g))"
  by (rule setup_device20_resale_aux [OF assms])

theorem setup_device20_resale_witness:
  "check_setup_device20 toy_crypto (build_to2_prove_device_from_parts es256_header
      (enc (resale_item (Simple 22) (replicate 16 1) (replicate 16 2) sample_owner (Simple 22))) (replicate 64 0x33))
      (replicate 16 2) [] = Ret (Resale (replicate 16 1))"
proof -
  let ?pay = "enc (resale_item (Simple 22) (replicate 16 1) (replicate 16 2) sample_owner (Simple 22))"
  let ?s1 = "\<lparr>algorithm = -7, protected_header = es256_header, unprotected_header = enc (Dict []), payload = ?pay,
    signature = replicate 64 0x33\<rparr>"
  have len: "length ?pay < 2 ^ 16"
    by (simp add: resale_item_def key_item_def length_spki sample_owner_def enc_head_def)
  show ?thesis
    using setup_device20_resale [OF parse_device_sign1 [OF len, of "replicate 64 0x33"], of "Simple 22" "replicate 16 1" "replicate 16 2"
        sample_owner "Simple 22" toy_crypto "replicate 16 2" "[]"] len
    by (simp add: sample_owner_def verify_sign1_def COSE_ALG_ES256_def verify_es256_def toy_crypto_def last_conv_nth)
qed

section \<open>Service info\<close>

lemma enc_pair: "enc (Arr [x, y]) = enc_head 4 2 @ enc x @ enc y"
  by (simp add: eval_nat_numeral)

lemma read_service_entries_at:
  assumes "at d p (concat (map (\<lambda>(k, v). enc (Arr [Tstr k, Bstr v])) kvs))" and "\<forall>(k, v)\<in>set kvs. utf8_valid k" and "length d < 2 ^ 63"
  shows "repeat (length kvs) (\<lambda>entries.
          bind (read_array_len d) (\<lambda>entry_len.
          if entry_len \<noteq> 2 then bind (skip_value d) (\<lambda>_. ret entries)
          else
            bind (read_text d) (\<lambda>key.
            bind (read_bytes d) (\<lambda>val.
            ret (entries @ [(key, val)]))))) acc p
    = (Ret (acc @ map (\<lambda>x. x) kvs), p + length (concat (map (\<lambda>(k, v). enc (Arr [Tstr k, Bstr v])) kvs)))"
proof (rule repeat_collect [OF _ assms(1)])
  fix x p and acc :: "(bytes \<times> bytes) list"
  assume x: "x \<in> set kvs" and at: "at d p (case x of (k, v) \<Rightarrow> enc (Arr [Tstr k, Bstr v]))"
  obtain k v where kv: "x = (k, v)" by (cases x)
  have e: "enc (Arr [Tstr k, Bstr v]) = enc_head 4 2 @ enc (Tstr k) @ enc (Bstr v)"
    by (rule enc_pair)
  define q1 where "q1 = p + length (enc_head 4 2)"
  define q2 where "q2 = q1 + length (enc (Tstr k))"
  have a: "at d p (enc_head 4 2)" "at d q1 (enc (Tstr k))" "at d q2 (enc (Bstr v))"
    using at unfolding kv q1_def q2_def by (simp_all add: e del: enc.simps)
  have r: "read_array_len d p = (Ret 2, q1)" "read_text d q1 = (Ret k, q2)" "read_bytes d q2 = (Ret v, q2 + length (enc (Bstr v)))"
    using a assms(2,3) x by (auto simp: kv q1_def q2_def read_array_len_at read_text_at read_bytes_at simp del: enc.simps)
  show "bind (read_array_len d) (\<lambda>entry_len.
          if entry_len \<noteq> 2 then bind (skip_value d) (\<lambda>_. ret acc)
          else
            bind (read_text d) (\<lambda>key.
            bind (read_bytes d) (\<lambda>val.
            ret (acc @ [(key, val)])))) p = (Ret (acc @ [x]), p + length (case x of (k, v) \<Rightarrow> enc (Arr [Tstr k, Bstr v])))"
    using r by (simp add: bind_def kv e q1_def q2_def del: enc.simps)
qed

lemma service_info_roundtrip_aux:
  assumes "\<forall>(k, v)\<in>set kvs. utf8_valid k" and "d = enc (Arr (map (\<lambda>(k, v). Arr [Tstr k, Bstr v]) kvs))" and "length d < 2 ^ 63"
  shows "parse_service_info_array d = Ret kvs"
proof -
  let ?e = "\<lambda>(k, v). enc (Arr [Tstr k, Bstr v])"
  have d: "d = enc_head 4 (length kvs) @ concat (map ?e kvs)"
    unfolding assms(2) by (simp add: comp_def split_def)
  have ne: "d \<noteq> []"
    by (simp add: d enc_head_def)
  have "length kvs \<le> length (concat (map ?e kvs))"
    by (rule length_concat_ge) (auto simp: enc_head_def)
  then have len: "length kvs < 2 ^ 64"
    using assms(3) unfolding d by simp
  have "at d 0 (enc_head 4 (length kvs))" "at d (length (enc_head 4 (length kvs))) (concat (map ?e kvs))"
    using at_self [of "[]" "enc_head 4 (length kvs)"] at_self [of "enc_head 4 (length kvs)" "concat (map ?e kvs)" "[]"] by (simp_all add: d)
  from read_array_len_at [OF this(1) len] read_service_entries_at [OF this(2) assms(1,3), of "[]"] ne show ?thesis
    by (simp add: parse_service_info_array_def run_def bind_def)
qed

text \<open>The service info array of an Owner is read back entry by entry, in order.\<close>

theorem service_info_roundtrip:
  assumes "\<forall>(k, v)\<in>set kvs. utf8_valid k" and "d = enc (Arr (map (\<lambda>(k, v). Arr [Tstr k, Bstr v]) kvs))" and "length d < 2 ^ 63"
  shows "parse_service_info_array d = Ret kvs"
  by (rule service_info_roundtrip_aux [OF assms])

theorem service_info_roundtrip_witness:
  "parse_service_info_array (enc (Arr [Arr [Tstr (ascii ''a:b''), Bstr [1, 2]], Arr [Tstr (ascii ''c:d''), Bstr []]]))
    = Ret [(ascii ''a:b'', [1, 2]), (ascii ''c:d'', [])]"
proof -
  have "utf8_valid (ascii ''a:b'')" "utf8_valid (ascii ''c:d'')" by code_simp+
  then show ?thesis
    using service_info_roundtrip [of "[(ascii ''a:b'', [1, 2]), (ascii ''c:d'', [])]"] by (simp add: enc_head_def)
qed


text \<open>The service info the device sends is a well-formed array of the eleven announced pairs.\<close>

lemma svc_info_kv_enc:
  assumes "length k < 2 ^ 16"
  shows "length v < 2 ^ 16 \<Longrightarrow> svc_info_kv_bytes k v = enc (Arr [Tstr k, Bstr v])"
    and "length t < 2 ^ 15 \<Longrightarrow> svc_info_kv_text k t = enc (Arr [Tstr k, Bstr (text_enc t)])"
    and "n < 2 ^ 16 \<Longrightarrow> svc_info_kv_uint k n = enc (Arr [Tstr k, Bstr (uint_enc n)])"
    and "svc_info_kv_bool k b = enc (Arr [Tstr k, Bstr (bool_val b)])"
proof -
  have "length (text_enc t) < 2 ^ 16" if "length t < 2 ^ 15" using that by (simp add: text_enc_def head16_def)
  moreover have "length (uint_enc n) < 2 ^ 16" by (simp add: uint_enc_def head16_def)
  ultimately show
    "length v < 2 ^ 16 \<Longrightarrow> svc_info_kv_bytes k v = enc (Arr [Tstr k, Bstr v])"
    "length t < 2 ^ 15 \<Longrightarrow> svc_info_kv_text k t = enc (Arr [Tstr k, Bstr (text_enc t)])"
    "n < 2 ^ 16 \<Longrightarrow> svc_info_kv_uint k n = enc (Arr [Tstr k, Bstr (uint_enc n)])"
    "svc_info_kv_bool k b = enc (Arr [Tstr k, Bstr (bool_val b)])"
    using assms by (simp_all add: svc_info_kv_bytes_def svc_info_kv_text_def svc_info_kv_uint_def svc_info_kv_bool_def bool_val_def
        enc16(1,4,5) enc_pair del: enc.simps)
qed

definition devmod_pairs :: "(bytes \<times> bytes) list" where
  "devmod_pairs = map (\<lambda>(k, v). (ascii k, v))
     [(''devmod:active'', bool_val True), (''devmod:nummodules'', uint_enc 1),
      (''devmod:modules'', array 3 @ uint_enc 0 @ uint_enc 1 @ text_enc (ascii ''fdo.bmo'')),
      (''devmod:os'', text_enc (ascii ''UEFI'')), (''devmod:arch'', text_enc (ascii ''x86_64'')),
      (''devmod:version'', text_enc (ascii ''1.0'')), (''devmod:device'', text_enc (ascii ''FDO-UEFI-Client'')),
      (''devmod:sep'', text_enc [0x5c]), (''devmod:bin'', text_enc (ascii ''efi'')), (''fdo.bmo:active'', bool_val True),
      (''fdo.bmo:supported-types'', array 1 @ text_enc (ascii ''application/x-uefi-image''))]"

lemma devmod_service_info_parses: "parse_service_info_array build_devmod_service_info = Ret devmod_pairs"
proof (rule service_info_roundtrip_aux)
  show "\<forall>(k, v)\<in>set devmod_pairs. utf8_valid k" by code_simp
  show "build_devmod_service_info = enc (Arr (map (\<lambda>(k, v). Arr [Tstr k, Bstr v]) devmod_pairs))"
    by (simp add: build_devmod_service_info_def devmod_pairs_def svc_info_kv_enc text_enc_def [of "ascii _"] uint_enc_def head16_def array_def del: enc.simps)
     (simp add: enc.simps(5) enc_head_def, simp add: eval_nat_numeral)
  show "length build_devmod_service_info < 2 ^ 63"
    by (simp add: build_devmod_service_info_def svc_info_kv_bytes_def svc_info_kv_text_def svc_info_kv_uint_def svc_info_kv_bool_def
        bytes_enc_def text_enc_def uint_enc_def array_def head16_def)
qed

section \<open>HelloDeviceAck\<close>

lemma as_i8_nat: "n < 2 ^ 7 \<Longrightarrow> as_i8 (int n) = int n"
  by (simp add: as_i8_def sint_uint unsigned_of_nat take_bit_nat_eq_self signed_take_bit_int_eq_self take_bit_int_eq_self)

lemma read_suites_at:
  assumes "at d p (concat (map (\<lambda>t. enc (Tstr t)) ts))" and "\<forall>t\<in>set ts. utf8_valid t" and "length d < 2 ^ 63"
  shows "repeat (length ts) (\<lambda>offered. bind (read_text d) (\<lambda>t. ret (offered @ [t]))) acc p =
    (Ret (acc @ map (\<lambda>t. t) ts), p + length (concat (map (\<lambda>t. enc (Tstr t)) ts)))"
  by (rule repeat_collect [OF _ assms(1)]) (use assms(2,3) in \<open>simp add: bind_def read_text_at del: enc.simps\<close>)

text \<open>HelloDeviceAck20: capabilities, vendor flags, GUID, message size, key exchange suites, cipher suites (at least
  one), nonce and the hash of the probe.\<close>

definition hello_ack_item :: "bytes \<Rightarrow> cbor \<Rightarrow> cbor \<Rightarrow> nat \<Rightarrow> bytes list \<Rightarrow> nat \<Rightarrow> cbor list \<Rightarrow> bytes \<Rightarrow> bytes \<Rightarrow> cbor" where
  "hello_ack_item flags vendor guid sz suites cipher ciphers nonce h =
     Arr [Bstr flags, vendor, guid, Uint sz, Arr (map Tstr suites), Arr (Uint cipher # ciphers), Bstr nonce, Arr [Nint 15, Bstr h]]"

lemma parse_hello_ack20:
  assumes "d = enc (hello_ack_item flags vendor guid sz suites cipher ciphers nonce h)" and "length d < 2 ^ 32"
    and "fits (2 ^ 32) vendor" and "fits (2 ^ 32) guid" and "sz < 2 ^ 16" and "cipher < 2 ^ 7" and "\<forall>c\<in>set ciphers. fits (2 ^ 32) c"
    and "\<forall>t\<in>set suites. utf8_valid t" and "length nonce = 16"
  shows "parse_to2_hello_device_ack d =
    (if KEX_SUITE_20 \<in> set suites
     then Ret \<lparr>capability_flags = flags, nonce_to2_prove_dv = nonce, kex_suite = 1, cipher_suite = int cipher,
       max_owner_msg_size = sz, hash_prev_type = HASH_TYPE_SHA256, ack_hash_prev = h\<rparr>
     else Err CborError)"
proof -
  define p1 where "p1 = length (enc_head 4 8)"
  define p2 where "p2 = p1 + length (enc (Bstr flags))"
  define p3 where "p3 = p2 + length (enc vendor)"
  define p4 where "p4 = p3 + length (enc guid)"
  define p5 where "p5 = p4 + length (enc (Uint sz))"
  define p6 where "p6 = p5 + length (enc_head 4 (length suites))"
  define p7 where "p7 = p6 + length (concat (map (\<lambda>t. enc (Tstr t)) suites))"
  define p8 where "p8 = p7 + length (enc_head 4 (Suc (length ciphers)))"
  define p9 where "p9 = p8 + length (enc (Uint cipher))"
  define p10 where "p10 = p9 + length (concat (map enc ciphers))"
  define p11 where "p11 = p10 + length (enc (Bstr nonce))"
  define p12 where "p12 = p11 + length (enc_head 4 2)"
  define p13 where "p13 = p12 + length (enc (Nint 15))"
  note p_defs = p1_def p2_def p3_def p4_def p5_def p6_def p7_def p8_def p9_def p10_def p11_def p12_def p13_def
  let ?w = "enc_head 4 8 @ enc (Bstr flags) @ enc vendor @ enc guid @ enc (Uint sz) @ enc_head 4 (length suites) @
      concat (map (\<lambda>t. enc (Tstr t)) suites) @ enc_head 4 (Suc (length ciphers)) @ enc (Uint cipher) @ concat (map enc ciphers) @
      enc (Bstr nonce) @ enc_head 4 2 @ enc (Nint 15) @ enc (Bstr h)"
  have "d = ?w"
    using assms(1) by (simp add: hello_ack_item_def eval_nat_numeral comp_def)
  then have w: "at d 0 ?w"
    using at_whole [of d] by (rule subst)
  have a: "at d 0 (enc_head 4 8)" "at d p1 (enc (Bstr flags))" "at d p2 (enc vendor)" "at d p3 (enc guid)" "at d p4 (enc (Uint sz))"
      "at d p5 (enc_head 4 (length suites))" "at d p6 (concat (map (\<lambda>t. enc (Tstr t)) suites))"
      "at d p7 (enc_head 4 (Suc (length ciphers)))" "at d p8 (enc (Uint cipher))" "at d p9 (concat (map enc ciphers))"
      "at d p10 (enc (Bstr nonce))" "at d p11 (enc_head 4 2)" "at d p12 (enc (Nint 15))" "at d p13 (enc (Bstr h))"
    using w unfolding p_defs by (simp_all only: at_append add.assoc add_0)
  have len: "length d < 2 ^ 63" using assms(2) by simp
  have fits64: "fits (2 ^ 64) vendor" "fits (2 ^ 64) guid" "\<And>c. c \<in> set ciphers \<Longrightarrow> fits (2 ^ 64) c"
    using assms(3,4,7) by (auto intro: fits_mono)
  have lens: "length suites < 2 ^ 64" "Suc (length ciphers) < 2 ^ 64"
  proof -
    have "length suites \<le> length (concat (map (\<lambda>t. enc (Tstr t)) suites))" "length ciphers \<le> length (concat (map enc ciphers))"
      by (rule length_concat_ge, simp add: enc_head_def enc_nonempty)+
    then show "length suites < 2 ^ 64" "Suc (length ciphers) < 2 ^ 64"
      using at_bound [OF a(7)] at_bound [OF a(10)] assms(2) by simp_all
  qed
  have skips: "repeat (length ciphers) (\<lambda>_. skip_value d) () p9 = (Ret (), p10)"
    unfolding p10_def using a(10) fits64(3) len
    by (intro fdo.skip_items [of ciphers d "Suc (length d)", folded skip_value_def]) (simp_all add: skip_value_at)
  have r: "read_array_len d 0 = (Ret 8, p1)" "read_bytes d p1 = (Ret flags, p2)" "skip_value d p2 = (Ret (), p3)"
      "skip_value d p3 = (Ret (), p4)" "read_uint d p4 = (Ret sz, p5)" "read_array_len d p5 = (Ret (length suites), p6)"
      "read_array_len d p7 = (Ret (Suc (length ciphers)), p8)" "read_int d p8 = (Ret (as_i32 (int cipher)), p9)"
      "read_bytes d p10 = (Ret nonce, p11)" "read_array_len d p11 = (Ret 2, p12)" "read_int d p12 = (Ret (-1 - as_i32 15), p13)"
      "read_bytes d p13 = (Ret h, p13 + length (enc (Bstr h)))"
    using a len lens fits64 assms(5,6)
    by (simp_all add: read_array_len_at read_bytes_at skip_value_at read_uint_at read_int_at p_defs [symmetric] del: enc.simps)
  have texts: "repeat (length suites) (\<lambda>offered. bind (read_text d) (\<lambda>t. ret (offered @ [t]))) [] p6 = (Ret suites, p7)"
    using read_suites_at [OF a(7) assms(8) len, of "[]"] by (simp add: p7_def)
  have ints: "as_i8 (as_i32 (int cipher)) = int cipher" "-1 - as_i32 15 = HASH_TYPE_SHA256"
  proof -
    show "as_i8 (as_i32 (int cipher)) = int cipher"
      using assms(6) by (simp add: as_i32_nat as_i8_nat)
    show "-1 - as_i32 15 = HASH_TYPE_SHA256" by code_simp
  qed
  show ?thesis
    using r texts skips ints assms(5,9)
    by (simp add: parse_to2_hello_device_ack_def parse_to2_hello_device_ack_v20_def select_kex_suite20_def run_def bind_def lift_def nonce16_def
        del: enc.simps ret_apply repeat.simps) (simp add: bind_def)
qed

text \<open>Negotiation on a well-formed HelloDeviceAck20: the handshake goes on exactly when the Owner offers
  ECDH256; the cipher suite is the Owner's first, the nonce and the hash of the probe are the ones sent.\<close>

theorem hello_ack20_negotiation:
  assumes "d = enc (hello_ack_item flags vendor guid sz suites cipher ciphers nonce h)" and "length d < 2 ^ 32"
    and "fits (2 ^ 32) vendor" and "fits (2 ^ 32) guid" and "sz < 2 ^ 16" and "cipher < 2 ^ 7" and "\<forall>c\<in>set ciphers. fits (2 ^ 32) c"
    and "\<forall>t\<in>set suites. utf8_valid t" and "length nonce = 16"
  shows "parse_to2_hello_device_ack d =
    (if KEX_SUITE_20 \<in> set suites
     then Ret \<lparr>capability_flags = flags, nonce_to2_prove_dv = nonce, kex_suite = 1, cipher_suite = int cipher,
       max_owner_msg_size = sz, hash_prev_type = HASH_TYPE_SHA256, ack_hash_prev = h\<rparr>
     else Err CborError)"
  by (rule parse_hello_ack20 [OF assms])

theorem hello_ack20_negotiation_witness:
  "parse_to2_hello_device_ack (enc (hello_ack_item [4] (Arr []) (Bstr (replicate 16 9)) 65535 [ascii ''ASYMKEX2048''] 3 [] (replicate 16 7) [1])) = Err CborError"
proof -
  have "utf8_valid (ascii ''ASYMKEX2048'')" "KEX_SUITE_20 \<noteq> ascii ''ASYMKEX2048''" by code_simp+
  then show ?thesis
    using hello_ack20_negotiation [of _ "[4]" "Arr []" "Bstr (replicate 16 9)" 65535 "[ascii ''ASYMKEX2048'']" 3 "[]" "replicate 16 7" "[1]"]
    by (simp add: hello_ack_item_def enc_head_def)
qed

section \<open>Raw bytes in messages\<close>

text \<open>GetOVNextEntry carries the entry number as a single raw byte: the message is the number only below 24.
  From 24 to 31 the byte is the head of a longer or reserved item, above it is another type, and the Owner reads
  an error.\<close>

theorem get_ov_next_entry_range:
  "(case read_array_len (build_to2_get_ov_next_entry n) 0 of (r, p) \<Rightarrow> (r, fst (read_uint (build_to2_get_ov_next_entry n) p)))
     = (Ret 1, if unat n < 24 then Ret (unat n) else Err CborError)"
proof -
  have d: "build_to2_get_ov_next_entry n = [0x81, n]"
    by (simp add: build_to2_get_ov_next_entry_def array_def head16_def head_byte_plus)
  have 1: "read_array_len [0x81, n] 0 = (Ret 1, 1)"
    by (simp add: read_array_len_def read_major_def bind_def read_byte_apply decode_additional_def major_eq addl_eq)
  have "fst (read_uint [0x81, n] 1) = (if unat n < 24 then Ret (unat n) else Err CborError)"
  proof (cases "unat n < 32")
    case True
    then show ?thesis
      by (auto simp: read_uint_def read_major_def bind_def read_byte_apply decode_additional_def major_eq addl_eq repeat_eval)
  next
    case False
    then have "major n \<noteq> 0" by (simp add: major_eq)
    with False show ?thesis
      by (simp add: read_uint_def read_major_def bind_def read_byte_apply)
  qed
  with d 1 show ?thesis by simp
qed

end
