(* ===== verification/Artifact.thy ===== *)
theory Artifact
  imports Delegate
begin

text \<open>
  \<open>src/src/cose.rs\<close>, lines 208 to 545: who may sign a provisioning artifact or a meta-payload
  (\<open>artifact_signer_point\<close>), the verification of both (\<open>verify_bmo_signed\<close>,
  \<open>verify_meta_signed\<close>), and the scope constraints of the protected header
  (\<open>evaluate_bmo_scope\<close>).

  Shown: an accepted artifact was signed, in the right domain, by the Owner key or by a key to which
  the Owner delegated provisioning; the content type and the scope were checked; scopes fail closed
  on every constraint the firmware cannot evaluate, with two exceptions that are stated as theorems
  (\<open>scope_guid_array_hides_constraints\<close>, \<open>scope_ignored_after_unskippable_value\<close>).
\<close>

section \<open>Scope constraints\<close>

definition SCOPE_LABEL :: bytes where "SCOPE_LABEL = ascii ''fdo.scope''"
definition LEGACY_BMO_SCOPE_LABEL :: bytes where "LEGACY_BMO_SCOPE_LABEL = ascii ''fdo.bmo.scope''"

definition extract_tstr_keyed_value :: "bytes \<Rightarrow> bytes \<Rightarrow> (unit, bytes) outcome" where
  "extract_tstr_keyed_value header target_key =
     (if header = [] then Err ()
      else run (
        bind (next_byte header) (\<lambda>b.
        bind (guard (major b = 5) ()) (\<lambda>_.
        bind (cbor_read_uint_arg header (addl b)) (\<lambda>map_len.
        end_loop (repeat_flow map_len (\<lambda>_.
          bind (peek_byte header) (\<lambda>key_byte.
          if major key_byte = 3 then
            bind (cbor_read_tstr header) (\<lambda>key_str.
            if key_str = target_key then
              bind get_pos (\<lambda>value_start.
              bind (cbor_skip header) (\<lambda>_.
              bind get_pos (\<lambda>pos.
              bind (slice header value_start pos) (\<lambda>v.
              ret (Stop v)))))
            else bind (cbor_skip header) (\<lambda>_. ret (Next ())))
          else
            bind (cbor_skip header) (\<lambda>_.
            bind (cbor_skip header) (\<lambda>_.
            ret (Next ()))))) ())
        (\<lambda>_. throw ()))))))"

definition evaluate_scope_guid :: "bytes \<Rightarrow> bytes option \<Rightarrow> (unit, bool) parser" where
  "evaluate_scope_guid d device_guid =
     let_else (peek_byte d) False (\<lambda>b.
     if major b = 2 then
       bind (next_byte d) (\<lambda>_.
       let_else (cbor_read_uint_arg d (addl b)) False (\<lambda>len.
       let_else (take_bytes d len) False (\<lambda>guid.
       case device_guid of Some dev_guid \<Rightarrow> ret (guid = dev_guid) | None \<Rightarrow> ret False)))
     else if major b = 4 then
       bind (next_byte d) (\<lambda>_.
       let_else (cbor_read_uint_arg d (addl b)) False (\<lambda>arr_len.
       end_loop (repeat_flow arr_len (\<lambda>_.
         let_else (next_byte d) (Stop False) (\<lambda>gb.
         if major gb \<noteq> 2 then ret (Stop False) else
         let_else (cbor_read_uint_arg d (addl gb)) (Stop False) (\<lambda>glen.
         let_else (take_bytes d glen) (Stop False) (\<lambda>guid.
         case device_guid of
           Some dev_guid \<Rightarrow> if guid = dev_guid then ret (Stop True) else ret (Next ())
         | None \<Rightarrow> ret (Next ()))))) ())
       (\<lambda>_. ret False)))
     else ret False)"

text \<open>The loop of \<open>evaluate_bmo_scope\<close> over the entries of the scope map.\<close>

definition evaluate_scope_map :: "bytes \<Rightarrow> bytes option \<Rightarrow> (unit, bool) outcome" where
  "evaluate_scope_map scope device_guid = run (
     let_else (next_byte scope) True (\<lambda>b.
     if major b \<noteq> 5 then ret False else
     let_else (cbor_read_uint_arg scope (addl b)) False (\<lambda>map_len.
     end_loop (repeat_flow map_len (\<lambda>_.
       let_else (peek_byte scope) (Stop False) (\<lambda>kb.
       if major kb \<noteq> 3 then
         let_else (cbor_skip scope) (Stop False) (\<lambda>_.
         let_else (cbor_skip scope) (Stop False) (\<lambda>_.
         ret (Next ())))
       else
         let_else (cbor_read_tstr scope) (Stop False) (\<lambda>key_str.
         if key_str = ascii ''guid'' then
           bind (evaluate_scope_guid scope device_guid) (\<lambda>guid_ok.
           if guid_ok then ret (Next ()) else ret (Stop False))
         else ret (Stop False)))) ())
     (\<lambda>_. ret True))))"

definition evaluate_bmo_scope :: "bytes \<Rightarrow> bytes option \<Rightarrow> (unit, bool) outcome" where
  "evaluate_bmo_scope header device_guid = run (
     bind (attempt (lift (extract_tstr_keyed_value header SCOPE_LABEL))) (\<lambda>generic.
     bind (attempt (lift (extract_tstr_keyed_value header LEGACY_BMO_SCOPE_LABEL))) (\<lambda>legacy.
     case (generic, legacy) of
       (Some _, Some _) \<Rightarrow> ret False
     | (Some b, None) \<Rightarrow> lift (evaluate_scope_map b device_guid)
     | (None, Some b) \<Rightarrow> lift (evaluate_scope_map b device_guid)
     | (None, None) \<Rightarrow> ret True)))"

section \<open>Signed artifacts\<close>

definition artifact_signer_point :: "crypto \<Rightarrow> bytes \<Rightarrow> bytes \<Rightarrow> (unit, bytes) outcome" where
  "artifact_signer_point cr unprotected owner_point =
     obind (has_delegate_header unprotected) (\<lambda>h.
     if \<not> h then Ret owner_point
     else
       obind (extract_x5chain_from_unprotected unprotected) (\<lambda>cert_ders.
       obind (verify_delegate_chain cr cert_ders owner_point) (\<lambda>chain.
       if \<not> has_provision chain then Err () else Ret (leaf_key_point chain))))"

definition verify_bmo_signed ::
    "crypto \<Rightarrow> bytes \<Rightarrow> bytes \<Rightarrow> bytes \<Rightarrow> bytes option \<Rightarrow> (unit, bytes) outcome" where
  "verify_bmo_signed cr d owner_point expected_ct device_guid =
     obind (parse_cose_sign1 d) (\<lambda>s1.
     obind (parse_protected_tstr (protected_header s1) 3) (\<lambda>ct_val.
     if ct_val \<noteq> expected_ct then Err () else
     let aad = 0x81 # encode_tstr (aad_tag_str BMO_PROVISION) in
     obind (artifact_signer_point cr (unprotected_header s1) owner_point) (\<lambda>key.
     let sig_structure = build_sig_structure (protected_header s1) aad (payload s1) in
     if \<not> verify_es256 cr sig_structure (signature s1) key then Err () else
     obind (evaluate_bmo_scope (protected_header s1) device_guid) (\<lambda>ok.
     if \<not> ok then Err () else Ret (payload s1)))))"

definition verify_meta_signed :: "crypto \<Rightarrow> bytes \<Rightarrow> bytes \<Rightarrow> (unit, bytes) outcome" where
  "verify_meta_signed cr d owner_point =
     obind (parse_cose_sign1 d) (\<lambda>s1.
     obind (artifact_signer_point cr (unprotected_header s1) owner_point) (\<lambda>key.
     let aad = domain_aad (aad_tag_str META_PAYLOAD) FDO_VERSION_200;
         sig_structure = build_sig_structure (protected_header s1) aad (payload s1) in
     if \<not> verify_es256 cr sig_structure (signature s1) key then Err () else Ret (payload s1)))"

section \<open>Totality\<close>

lemma evaluate_scope_guid_wp [wp]:
  assumes "\<And>r q. p \<le> q \<Longrightarrow> Q r q"
  shows "wp (evaluate_scope_guid d g) Q E p"
  unfolding evaluate_scope_guid_def using assms
  by (auto intro!: wp wp_end_loop [where I = "\<lambda>_ q. p \<le> q"] split: option.splits)

lemma evaluate_scope_map_holds [wp]: "holds (evaluate_scope_map d g) (\<lambda>_. True) (\<lambda>_. False)"
  unfolding evaluate_scope_map_def
  by (auto intro!: wp wp_end_loop [where I = "\<lambda>_ _. True"])

lemma artifact_signer_point_holds [wp]: "total (artifact_signer_point cr u owner)"
  by (auto simp: artifact_signer_point_def intro!: holds_conseq [OF has_delegate_header_holds]
      holds_conseq [OF extract_holds(2)] holds_conseq [OF verify_delegate_chain_holds])

lemma verify_meta_signed_holds [wp]: "total (verify_meta_signed cr d owner)"
  by (auto simp: verify_meta_signed_def Let_def intro!: holds_conseq [OF parse_cose_sign1_holds]
      holds_conseq [OF artifact_signer_point_holds])

section \<open>Scopes on well-formed headers\<close>

definition text_keys_ok :: "(cbor \<times> cbor) list \<Rightarrow> bool" where
  "text_keys_ok kvs \<longleftrightarrow> (\<forall>kv\<in>set kvs. \<forall>t. fst kv = Tstr t \<longrightarrow> utf8_valid t)"

lemma kind_3: "kind c = 3 \<longleftrightarrow> (\<exists>t. c = Tstr t)"
  by (cases c) auto

text \<open>One entry of a map whose text keys are valid UTF-8.\<close>

lemma entry_at:
  assumes "kv \<in> set kvs" and "at d p (enc_entry kv)" and "fits (2 ^ 32) (Dict kvs)" and "length d < 2 ^ 63"
    and "text_keys_ok kvs"
  defines "q \<equiv> p + length (enc (fst kv))"
  shows "peek_byte d p = (Ret (d ! p), p)" and "major (d ! p) = 3 \<longleftrightarrow> (\<exists>t. fst kv = Tstr t)"
    and "cbor_skip d p = (Ret (), q)" and "cbor_skip d q = (Ret (), p + length (enc_entry kv))"
    and "fst kv = Tstr t \<Longrightarrow> cbor_read_tstr d p = (Ret t, q)"
    and "at d q (enc (snd kv))" and "fits (2 ^ 32) (snd kv)"
proof -
  have f: "fits (2 ^ 32) (fst kv)" "fits (2 ^ 32) (snd kv)" using assms(1,3) by auto
  have a: "at d p (enc (fst kv))" "at d q (enc (snd kv))"
    using assms(2) by (simp_all add: case_prod_beta q_def)
  note k = kind_at [OF a(1) f(1)]
  show "peek_byte d p = (Ret (d ! p), p)" by (rule k(2))
  show "major (d ! p) = 3 \<longleftrightarrow> (\<exists>t. fst kv = Tstr t)" using k(3) by (simp add: kind_3)
  show "cbor_skip d p = (Ret (), q)" using cbor_skip_at [OF a(1) f(1) assms(4)] by (simp add: q_def)
  show "cbor_skip d q = (Ret (), p + length (enc_entry kv))"
    using cbor_skip_at [OF a(2) f(2) assms(4)] by (simp add: q_def case_prod_beta add.assoc)
  show "cbor_read_tstr d p = (Ret t, q)" if "fst kv = Tstr t"
    using cbor_read_tstr_at [OF a(1) f(1)] that assms(1,5)
    by (cases "cbor_read_tstr d p") (auto simp: q_def text_keys_ok_def)
  show "at d q (enc (snd kv))" "fits (2 ^ 32) (snd kv)" using a f by auto
qed

lemma map_of_Cons': "map_of (kv # kvs) k = (if k = fst kv then Some (snd kv) else map_of kvs k)"
  by (cases kv) auto

lemma extract_tstr_keyed_value_at:
  assumes "at d 0 (enc (Dict kvs))" and "fits (2 ^ 32) (Dict kvs)" and "length d < 2 ^ 63" and "text_keys_ok kvs"
  shows "extract_tstr_keyed_value d t = (case map_of kvs (Tstr t) of Some v \<Rightarrow> Ret (enc v) | None \<Rightarrow> Err ())"
proof -
  note h = dict_head_at [OF assms(1,2)]
  let ?step = "\<lambda>kv _. Ret (if fst kv = Tstr t then Stop (enc (snd kv)) else Next ()) :: (unit, _) outcome"
  let ?body = "\<lambda>_ :: unit. bind (peek_byte d) (\<lambda>key_byte.
          if major key_byte = 3 then
            bind (cbor_read_tstr d) (\<lambda>key_str.
            if key_str = t then
              bind get_pos (\<lambda>value_start.
              bind (cbor_skip d) (\<lambda>_.
              bind get_pos (\<lambda>pos.
              bind (slice d value_start pos) (\<lambda>v.
              ret (Stop v)))))
            else bind (cbor_skip d) (\<lambda>_. ret (Next ())))
          else
            bind (cbor_skip d) (\<lambda>_.
            bind (cbor_skip d) (\<lambda>_.
            ret (Next ()))))"
  have loop: "fst (repeat_flow (length kvs) ?body () (length (enc_head 5 (length kvs)))) = walk ?step kvs ()"
  proof (rule repeat_flow_walk [where e = enc_entry, THEN conjunct1, OF _ h(5)])
    fix kv p s
    assume kv: "kv \<in> set kvs" "at d p (enc_entry kv)"
    note e = entry_at [OF kv assms(2-4)]
    have "slice d (p + length (enc (fst kv))) (p + length (enc_entry kv)) = (ret (enc (snd kv)) :: (unit, _) parser)"
      using at_get_range [OF e(6)] by (simp add: slice_def case_prod_beta add.assoc)
    with e show "fst (?body s p) = ?step kv s \<and> (\<forall>s'. ?step kv s = Ret (Next s') \<longrightarrow> snd (?body s p) = p + length (enc_entry kv))"
      by (cases "\<exists>u. fst kv = Tstr u") (auto simp: bind_def)
  qed
  have "walk ?step kvs () = Ret (case map_of kvs (Tstr t) of Some v \<Rightarrow> Stop (enc v) | None \<Rightarrow> Next ())"
    by (induction kvs) (auto simp: map_of_Cons' simp del: map_of.simps(2))
  with loop h show ?thesis
    by (auto simp: extract_tstr_keyed_value_def loop_defs split: option.splits)
qed

text \<open>
  What a scope map means when no \<open>guid\<close> is an array: every text key is \<open>guid\<close> and names this
  device.
\<close>

definition scope_ok :: "bytes option \<Rightarrow> (cbor \<times> cbor) list \<Rightarrow> bool" where
  "scope_ok g kvs \<longleftrightarrow> (\<forall>kv\<in>set kvs. \<forall>t. fst kv = Tstr t \<longrightarrow>
     t = ascii ''guid'' \<and> (\<exists>x. snd kv = Bstr x \<and> g = Some x))"

definition no_guid_array :: "(cbor \<times> cbor) list \<Rightarrow> bool" where
  "no_guid_array kvs \<longleftrightarrow> (\<forall>kv\<in>set kvs. fst kv = Tstr (ascii ''guid'') \<longrightarrow> (\<nexists>xs. snd kv = Arr xs))"

lemma evaluate_scope_guid_at:
  assumes "at d p (enc v)" and "fits (2 ^ 32) v" and "\<nexists>xs. v = Arr xs"
  shows "fst (evaluate_scope_guid d g p) = Ret (\<exists>x. v = Bstr x \<and> g = Some x)"
    and "v = Bstr x \<Longrightarrow> snd (evaluate_scope_guid d g p) = p + length (enc v)"
proof -
  note k = kind_at [OF assms(1,2)]
  have "kind v = 2 \<longleftrightarrow> (\<exists>x. v = Bstr x)" "kind v = 4 \<longleftrightarrow> (\<exists>xs. v = Arr xs)" by (cases v; simp)+
  with k assms cbor_head_at(4) [of d p 2] at_take_bytes
  show "fst (evaluate_scope_guid d g p) = Ret (\<exists>x. v = Bstr x \<and> g = Some x)"
    and "v = Bstr x \<Longrightarrow> snd (evaluate_scope_guid d g p) = p + length (enc v)"
    by (auto simp: evaluate_scope_guid_def loop_defs add.assoc split: option.splits)
qed

lemma evaluate_scope_map_at:
  assumes "at d 0 (enc (Dict kvs))" and "fits (2 ^ 32) (Dict kvs)" and "length d < 2 ^ 63" and "text_keys_ok kvs"
    and "no_guid_array kvs"
  shows "evaluate_scope_map d g = Ret (scope_ok g kvs)"
proof -
  note h = dict_head_at [OF assms(1,2)]
  let ?ok = "\<lambda>kv. \<forall>t. fst kv = Tstr t \<longrightarrow> t = ascii ''guid'' \<and> (\<exists>x. snd kv = Bstr x \<and> g = Some x)"
  let ?step = "\<lambda>kv _. Ret (if ?ok kv then Next () else Stop False) :: (unit, _) outcome"
  let ?body = "\<lambda>_ :: unit. let_else (peek_byte d) (Stop False) (\<lambda>kb.
       if major kb \<noteq> 3 then
         let_else (cbor_skip d) (Stop False) (\<lambda>_.
         let_else (cbor_skip d) (Stop False) (\<lambda>_.
         ret (Next ())))
       else
         let_else (cbor_read_tstr d) (Stop False) (\<lambda>key_str.
         if key_str = ascii ''guid'' then
           bind (evaluate_scope_guid d g) (\<lambda>guid_ok.
           if guid_ok then ret (Next ()) else ret (Stop False))
         else ret (Stop False)))"
  have loop: "fst (repeat_flow (length kvs) ?body () (length (enc_head 5 (length kvs)))) = walk ?step kvs ()"
  proof (rule repeat_flow_walk [where e = enc_entry, THEN conjunct1, OF _ h(5)])
    fix kv p s
    assume kv: "kv \<in> set kvs" "at d p (enc_entry kv)"
    let ?q = "p + length (enc (fst kv))"
    note e = entry_at [OF kv assms(2-4)]
    have guid: "fst (evaluate_scope_guid d g ?q) = Ret (\<exists>x. snd kv = Bstr x \<and> g = Some x)"
        "snd kv = Bstr x \<Longrightarrow> snd (evaluate_scope_guid d g ?q) = p + length (enc_entry kv)"
      if "fst kv = Tstr (ascii ''guid'')" for x
      using evaluate_scope_guid_at [OF e(6,7), where g = g] assms(5) that kv(1)
      by (auto simp: no_guid_array_def case_prod_beta add.assoc simp del: enc.simps)
    show "fst (?body s p) = ?step kv s \<and> (\<forall>s'. ?step kv s = Ret (Next s') \<longrightarrow> snd (?body s p) = p + length (enc_entry kv))"
    proof (cases "\<exists>t. fst kv = Tstr t")
      case True
      with e guid show ?thesis
        by (cases "evaluate_scope_guid d g ?q") (auto simp: loop_defs split: if_splits)
    qed (use e in \<open>auto simp: loop_defs\<close>)
  qed
  have "walk ?step kvs () = Ret (if scope_ok g kvs then Next () else Stop False)"
    by (induction kvs) (auto simp: scope_ok_def)
  with loop h show ?thesis
    by (auto simp: evaluate_scope_map_def loop_defs)
qed

lemma evaluate_scope_map_other:
  assumes "fits (2 ^ 32) v" and "\<nexists>kvs. v = Dict kvs"
  shows "evaluate_scope_map (enc v) g = Ret False"
proof -
  have "kind v \<noteq> 5" using assms(2) by (cases v) auto
  with kind_at [OF at_whole assms(1)] show ?thesis
    by (simp add: evaluate_scope_map_def loop_defs)
qed

lemma evaluate_bmo_scope_at:
  assumes "at d 0 (enc (Dict kvs))" and "fits (2 ^ 32) (Dict kvs)" and "length d < 2 ^ 63" and "text_keys_ok kvs"
  shows "evaluate_bmo_scope d g =
    (case (map_of kvs (Tstr SCOPE_LABEL), map_of kvs (Tstr LEGACY_BMO_SCOPE_LABEL)) of
       (Some _, Some _) \<Rightarrow> Ret False
     | (Some v, None) \<Rightarrow> evaluate_scope_map (enc v) g
     | (None, Some v) \<Rightarrow> evaluate_scope_map (enc v) g
     | (None, None) \<Rightarrow> Ret True)"
  using extract_tstr_keyed_value_at [OF assms]
  by (auto simp: evaluate_bmo_scope_def loop_defs lift_def split: option.splits)

section \<open>Signers\<close>

text \<open>A key that may authorise provisioning: the Owner's, or one with delegated permission PERM.7.\<close>

definition provisioner :: "crypto \<Rightarrow> bytes \<Rightarrow> bytes \<Rightarrow> bool" where
  "provisioner cr owner k \<longleftrightarrow> (\<exists>P b. delegated cr owner k P b \<and> Provision \<in> P)"

lemma artifact_signer_point_Ret:
  "artifact_signer_point cr u owner = Ret k \<longleftrightarrow>
     (has_delegate_header u = Ret False \<and> k = owner) \<or>
     (has_delegate_header u = Ret True \<and> (\<exists>ders r. extract_x5chain_from_unprotected u = Ret ders \<and>
        verify_delegate_chain cr ders owner = Ret r \<and> has_provision r \<and> k = leaf_key_point r))"
  by (auto simp: artifact_signer_point_def obind_Ret_iff split: if_splits)

lemma artifact_signer_provisioner:
  assumes "artifact_signer_point cr u owner = Ret k"
  shows "provisioner cr owner k"
  using assms unfolding artifact_signer_point_Ret
proof (elim disjE conjE exE)
  fix ders r
  assume v: "verify_delegate_chain cr ders owner = Ret r" and r: "has_provision r" "k = leaf_key_point r"
  from verify_delegate_chain_grants [OF v] r show "provisioner cr owner k"
    unfolding provisioner_def by (metis grants.simps(2) mem_Collect_eq)
qed (auto simp: provisioner_def intro: owner_key)

lemma bmo_aad: "0x81 # encode_tstr (aad_tag_str BMO_PROVISION) = domain_aad (aad_tag_str BMO_PROVISION) 200"
  by (simp add: domain_aad_def FDO_VERSION_200_def)

lemma verify_bmo_signed_Ret:
  "verify_bmo_signed cr d owner ct g = Ret p \<longleftrightarrow>
     (\<exists>s1 k. parse_cose_sign1 d = Ret s1 \<and> parse_protected_tstr (protected_header s1) 3 = Ret ct \<and>
        artifact_signer_point cr (unprotected_header s1) owner = Ret k \<and>
        verify_es256 cr (build_sig_structure (protected_header s1) (domain_aad (aad_tag_str BMO_PROVISION) 200)
          (payload s1)) (signature s1) k \<and>
        evaluate_bmo_scope (protected_header s1) g = Ret True \<and> p = payload s1)"
  unfolding verify_bmo_signed_def Let_def bmo_aad
  by (auto simp: obind_Ret_iff simp del: aad_tag_str.simps split: if_splits)

text \<open>An Owner-signed artifact without scope, as the tools write it, is accepted.\<close>

lemma no_text_label: "int_keys kvs \<Longrightarrow> map_of kvs (Tstr t) = None"
  by (induction kvs) (auto simp: int_keys_Cons)

lemma verify_bmo_signed_owner:
  assumes "d = enc_head 6 18 @ enc (Arr [Bstr (enc (Dict kvs)), Dict [], Bstr pay, Bstr sg])"
    and "int_keys kvs" and "fits (2 ^ 32) (Dict kvs)" and "length d < 2 ^ 32"
    and "int_lookup 3 kvs = Some (Tstr ct)" and "utf8_valid ct"
    and "verify_es256 cr (build_sig_structure (enc (Dict kvs)) (domain_aad (aad_tag_str BMO_PROVISION) 200) pay) sg owner"
  shows "verify_bmo_signed cr d owner ct g = Ret pay"
proof -
  let ?h = "enc (Dict kvs)"
  let ?e = "enc_head 4 4 @ enc (Bstr ?h) @ enc (Dict []) @ enc (Bstr pay) @ enc (Bstr sg)"
  have d: "d = enc_head 6 18 @ ?e" using assms(1) by (simp add: eval_nat_numeral)
  have "at d (length (enc_head 6 18)) ?e" "at d 0 (enc_head 6 18)"
    using at_self [of "enc_head 6 18" ?e "[]"] at_self [of "[]" "enc_head 6 18" ?e] d by auto
  moreover obtain alg where "parse_protected_alg ?h = Ret alg"
    using holds_Ret [OF parse_protected_alg_holds] by blast
  ultimately have s1: "parse_cose_sign1 d = Ret \<lparr>algorithm = alg, protected_header = ?h,
      unprotected_header = enc (Dict []), payload = pay, signature = sg\<rparr>"
    using assms(4) by (intro parse_sign1_at) auto
  have h: "length ?h < 2 ^ 63" using assms(4) d by simp
  have ct: "parse_protected_tstr ?h 3 = Ret ct"
    using parse_protected_tstr_at [OF at_whole assms(2,3) h, of 3] assms(5,6) by simp
  have "text_keys_ok kvs"
    using assms(2) by (auto simp: text_keys_ok_def int_keys_def)
  then have "evaluate_bmo_scope ?h g = Ret True"
    using evaluate_bmo_scope_at [OF at_whole assms(3) h] no_text_label [OF assms(2)] by simp
  moreover have "has_delegate_header (enc (Dict [])) = Ret False"
    using has_delegate_header_at [OF at_whole, of "[]"] by (simp add: int_keys_def enc_head_def)
  ultimately show ?thesis
    using s1 ct assms(7) unfolding verify_bmo_signed_Ret artifact_signer_point_Ret by auto
qed

section \<open>Properties\<close>

definition sample_ct :: bytes where
  "sample_ct = ascii ''application/cbor+fdo.bmo.image-begin''"

text \<open>An artifact for every payload, signed by the sample Owner.\<close>

definition sample_signed :: "bytes \<Rightarrow> bytes" where
  "sample_signed pay = enc_head 6 18 @ enc (Arr [Bstr (enc (Dict [(Uint 1, Nint 6), (Uint 3, Tstr sample_ct)])),
     Dict [], Bstr pay, Bstr (replicate 64 0x33)])"

lemma verify_sample_signed:
  assumes "length pay < 2 ^ 16"
  shows "verify_bmo_signed toy_crypto (sample_signed pay) sample_owner sample_ct g = Ret pay"
proof (rule verify_bmo_signed_owner [OF sample_signed_def])
  show "int_lookup 3 [(Uint 1, Nint 6), (Uint 3, Tstr sample_ct)] = Some (Tstr sample_ct)"
    by simp
  show "utf8_valid sample_ct"
    by (rule utf8_valid_ascii_only) (simp add: sample_ct_def ascii_def)
  show "fits (2 ^ 32) (Dict [(Uint 1, Nint 6), (Uint 3, Tstr sample_ct)])"
    by (simp add: sample_ct_def)
  show "length (sample_signed pay) < 2 ^ 32"
    using assms by (simp add: sample_signed_def sample_ct_def enc_head_def)
  show "verify_es256 toy_crypto (build_sig_structure (enc (Dict [(Uint 1, Nint 6), (Uint 3, Tstr sample_ct)]))
      (domain_aad (aad_tag_str BMO_PROVISION) 200) pay) (replicate 64 0x33) sample_owner"
    by (simp add: verify_es256_def toy_crypto_def sample_owner_def)
qed (simp add: int_keys_def)

definition sample_artifact :: bytes where
  "sample_artifact = sample_signed [1, 2, 3]"

lemma verify_sample_artifact: "verify_bmo_signed toy_crypto sample_artifact sample_owner sample_ct None = Ret [1, 2, 3]"
  by (simp add: sample_artifact_def verify_sample_signed)

text \<open>C11: what \<open>verify_bmo_signed\<close> returns is the payload of a COSE_Sign1 whose signature, in the
  BMO domain, was made by the Owner key or by a key to which the Owner delegated PERM.7 through
  certificates; its content type is the expected one and its scope was evaluated and passed.\<close>

theorem verify_bmo_signed_sound:
  assumes "verify_bmo_signed cr d owner ct g = Ret p"
  shows "\<exists>s1 k. parse_cose_sign1 d = Ret s1 \<and> p = payload s1 \<and> provisioner cr owner k \<and>
    verify_es256 cr (build_sig_structure (protected_header s1) (domain_aad (aad_tag_str BMO_PROVISION) 200) p)
      (signature s1) k \<and>
    parse_protected_tstr (protected_header s1) 3 = Ret ct \<and> evaluate_bmo_scope (protected_header s1) g = Ret True"
  using assms artifact_signer_provisioner unfolding verify_bmo_signed_Ret by blast

theorem verify_bmo_signed_sound_witness:
  "\<exists>s1 k. parse_cose_sign1 sample_artifact = Ret s1 \<and> [1, 2, 3] = payload s1 \<and> provisioner toy_crypto sample_owner k"
  using verify_bmo_signed_sound [OF verify_sample_artifact] by blast

text \<open>On bytes that are not authenticated \<open>verify_bmo_signed\<close> cannot panic or hang: if it does
  either, the signature had already been verified under a key that may authorise provisioning.\<close>

theorem verify_bmo_signed_panic_authenticated:
  assumes "\<not> total (verify_bmo_signed cr d owner ct g)"
  shows "\<exists>s1 k. parse_cose_sign1 d = Ret s1 \<and> provisioner cr owner k \<and>
    verify_es256 cr (build_sig_structure (protected_header s1) (domain_aad (aad_tag_str BMO_PROVISION) 200) (payload s1))
      (signature s1) k"
proof -
  have "total (parse_cose_sign1 d)" by (rule parse_cose_sign1_holds)
  then obtain s1 where s1: "parse_cose_sign1 d = Ret s1"
    using assms by (cases "parse_cose_sign1 d") (auto simp: verify_bmo_signed_def)
  have "total (parse_protected_tstr (protected_header s1) 3)"
    by (rule holds_conseq [OF parse_protected_tstr_holds]) auto
  then obtain ct' where ct: "parse_protected_tstr (protected_header s1) 3 = Ret ct'"
    using assms s1 by (cases "parse_protected_tstr (protected_header s1) 3") (auto simp: verify_bmo_signed_def)
  have "total (artifact_signer_point cr (unprotected_header s1) owner)" by (rule artifact_signer_point_holds)
  then obtain k where k: "artifact_signer_point cr (unprotected_header s1) owner = Ret k"
    using assms s1 ct by (cases "artifact_signer_point cr (unprotected_header s1) owner")
      (auto simp: verify_bmo_signed_def split: if_splits)
  have "verify_es256 cr (build_sig_structure (protected_header s1) (domain_aad (aad_tag_str BMO_PROVISION) 200)
      (payload s1)) (signature s1) k"
    using assms s1 ct k unfolding verify_bmo_signed_def Let_def bmo_aad by (auto split: if_splits)
  with s1 artifact_signer_provisioner [OF k] show ?thesis by blast
qed

text \<open>A header that ends in a lone \<open>0xf8\<close> as the scope value: \<open>cbor_skip\<close> moves the position behind the
  end of the header, and the slice \<open>&header[value_start..pos]\<close> panics.\<close>

definition truncated_scope :: bytes where
  "truncated_scope = [0xa2, 0x03, 0x61, 0x78] @ enc (Tstr SCOPE_LABEL) @ [0xf8]"

definition truncated_artifact :: bytes where
  "truncated_artifact = enc_head 4 4 @ enc (Bstr truncated_scope) @ enc (Dict []) @ enc (Bstr [1])
     @ enc (Bstr (replicate 64 0x33))"

lemma truncated_scope_panics: "evaluate_bmo_scope truncated_scope g = Panic"
proof -
  have "extract_tstr_keyed_value truncated_scope SCOPE_LABEL = Panic"
    by code_simp
  then show ?thesis by (simp add: evaluate_bmo_scope_def loop_defs lift_def)
qed

lemma truncated_artifact_panics: "verify_bmo_signed toy_crypto truncated_artifact sample_owner [0x78] g = Panic"
proof -
  obtain alg where alg: "parse_protected_alg truncated_scope = Ret alg"
    using holds_Ret [OF parse_protected_alg_holds] by blast
  have "parse_cose_sign1 truncated_artifact = Ret \<lparr>algorithm = alg, protected_header = truncated_scope,
      unprotected_header = enc (Dict []), payload = [1], signature = replicate 64 0x33\<rparr>"
  proof (rule parse_sign1_at [where p = 0, OF _ _ alg])
    show "at truncated_artifact 0 (enc_head 4 4 @ enc (Bstr truncated_scope) @ enc (Dict []) @ enc (Bstr [1])
        @ enc (Bstr (replicate 64 0x33)))"
      unfolding truncated_artifact_def by (rule at_whole)
    show "length truncated_artifact < 2 ^ 32"
      by (simp add: truncated_artifact_def truncated_scope_def SCOPE_LABEL_def enc_head_def)
  qed simp_all
  moreover have "parse_protected_tstr truncated_scope 3 = Ret [0x78]"
    by code_simp
  moreover have "has_delegate_header (enc (Dict [])) = Ret False"
    by code_simp
  then have "artifact_signer_point toy_crypto (enc (Dict [])) sample_owner = Ret sample_owner"
    by (simp add: artifact_signer_point_def)
  moreover have "verify_es256 toy_crypto m (replicate 64 0x33) sample_owner" for m
    by (simp add: verify_es256_def toy_crypto_def sample_owner_def)
  ultimately show ?thesis
    by (simp add: verify_bmo_signed_def truncated_scope_panics)
qed

theorem verify_bmo_signed_panic_authenticated_witness:
  "\<exists>s1 k. parse_cose_sign1 truncated_artifact = Ret s1 \<and> provisioner toy_crypto sample_owner k"
  using verify_bmo_signed_panic_authenticated [of toy_crypto truncated_artifact sample_owner "[0x78]" None]
  by (auto simp: truncated_artifact_panics)

text \<open>A scope fails closed on a well-formed header: carrying both labels, a scope that is not a
  map, any field other than \<open>guid\<close> (validity window, generation, unknown) and a \<open>guid\<close> that is not
  this device's are all rejected; no scope at all is accepted.\<close>

theorem evaluate_bmo_scope_fail_closed:
  assumes "fits (2 ^ 32) (Dict kvs)" and "text_keys_ok kvs" and "length (enc (Dict kvs)) < 2 ^ 32"
    and "\<And>v s. v \<in> snd ` set kvs \<Longrightarrow> v = Dict s \<Longrightarrow> text_keys_ok s \<and> no_guid_array s"
  shows "evaluate_bmo_scope (enc (Dict kvs)) g = Ret (
    case (map_of kvs (Tstr SCOPE_LABEL), map_of kvs (Tstr LEGACY_BMO_SCOPE_LABEL)) of
      (None, None) \<Rightarrow> True
    | (Some (Dict s), None) \<Rightarrow> scope_ok g s
    | (None, Some (Dict s)) \<Rightarrow> scope_ok g s
    | _ \<Rightarrow> False)"
proof -
  have map: "evaluate_scope_map (enc v) g = Ret (case v of Dict s \<Rightarrow> scope_ok g s | _ \<Rightarrow> False)"
    if "map_of kvs (Tstr t) = Some v" for t v
  proof -
    have v: "(Tstr t, v) \<in> set kvs" using map_of_SomeD [OF that] .
    then have fits: "fits (2 ^ 32) v" using assms(1) by auto
    have "length (enc v) \<le> length (enc_entry (Tstr t, v))" by simp
    also have "\<dots> \<le> length (enc (Dict kvs))"
      using length_concat_member [OF v, of enc_entry] by simp
    finally have len: "length (enc v) < 2 ^ 63" using assms(3) by simp
    show ?thesis
    proof (cases "\<exists>s. v = Dict s")
      case True
      then obtain s where s: "v = Dict s" ..
      have "text_keys_ok s" "no_guid_array s" using assms(4) [of v s] v s by force+
      from evaluate_scope_map_at [OF at_whole fits [unfolded s] len [unfolded s] this] s show ?thesis by simp
    qed (use evaluate_scope_map_other [OF fits] in \<open>auto split: cbor.splits\<close>)
  qed
  show ?thesis
    using evaluate_bmo_scope_at [OF at_whole assms(1) _ assms(2)] assms(3) map
    by (auto split: option.splits cbor.splits)
qed

theorem evaluate_bmo_scope_fail_closed_witness:
  "evaluate_bmo_scope (enc (Dict [(Tstr SCOPE_LABEL, Dict [(Tstr (ascii ''not_after''), Uint 5)])])) (Some [1]) = Ret False"
  using evaluate_bmo_scope_fail_closed [of "[(Tstr SCOPE_LABEL, Dict [(Tstr (ascii ''not_after''), Uint 5)])]" "Some [1]"]
  by (simp add: SCOPE_LABEL_def LEGACY_BMO_SCOPE_LABEL_def text_keys_ok_def no_guid_array_def scope_ok_def ascii_def
      in_range_def enc_head_def)

text \<open>After a match inside an array of GUIDs the loop goes on in the middle of the array: the
  constraints that follow are consumed as if they were the rest of the array, and a validity window
  that must be rejected is not seen.\<close>

theorem scope_guid_array_hides_constraints:
  "evaluate_scope_map (enc (Dict [(Tstr (ascii ''guid''), Arr [Bstr [1], Bstr [2]]),
     (Tstr (ascii ''not_after''), Uint 5)])) (Some [1]) = Ret True"
  by code_simp

text \<open>An 8-byte integer anywhere before the scope label stops the search for it, and the absence
  of a result counts as the absence of a scope: the constraints are not evaluated.\<close>

theorem scope_ignored_after_unskippable_value:
  "evaluate_bmo_scope ([0xa2, 0x18, 0x64, 0x1b, 0, 0, 0, 0, 0, 0, 0, 0] @ enc (Tstr SCOPE_LABEL)
     @ enc (Dict [(Tstr (ascii ''not_after''), Uint 5)])) None = Ret True"
  by code_simp

end
