(* ===== verification/Chunking.thy ===== *)
theory Chunking
  imports Fdo_Cbor Artifact
begin

text \<open>
  \<open>src/src/chunking.rs\<close>: the delivery rules that service modules share. Parsing of a meta-payload and of
  a COSE_Key, the authentication of a fetched meta-payload (\<open>verify_and_extract_meta\<close>), what an
  unauthenticated one may say (\<open>check_unauthenticated_meta\<close>), and which hashes an image must match for
  each delivery mode (\<open>inline_hash_decision\<close>, \<open>url_hash_decision\<close>, \<open>meta_hash_decision\<close>).

  Shown: a meta-payload counts as authenticated only with a signature of the named publisher, of the Owner or
  of a delegate with provisioning permission, in the domain of meta-payloads, and a named publisher is never
  downgraded to an unsigned payload; the hash decisions return only hashes that were stated, and never nothing.
\<close>

section \<open>Constants\<close>

definition ERR_URL_FETCH_FAILED :: nat where "ERR_URL_FETCH_FAILED = 9"
definition ERR_HASH_MISMATCH :: nat where "ERR_HASH_MISMATCH = 11"
definition ERR_META_SIGNATURE_INVALID :: nat where "ERR_META_SIGNATURE_INVALID = 12"
definition ERR_META_PARSE_ERROR :: nat where "ERR_META_PARSE_ERROR = 13"
definition ERR_NOT_AUTHORIZED :: nat where "ERR_NOT_AUTHORIZED = 15"
definition ERR_UNAUTHENTICATED_SOURCE :: nat where "ERR_UNAUTHENTICATED_SOURCE = 19"

definition is_cbor_tag18 :: "bytes \<Rightarrow> bool" where
  "is_cbor_tag18 d \<longleftrightarrow> d \<noteq> [] \<and> d ! 0 = 0xD2"

datatype authority = Artifact | Channel | Unauthenticated

record delivery_keys =
  dk_mode :: "nat option"
  dk_url :: "bytes option"
  dk_tls_ca :: "bytes option"
  dk_hash :: "bytes option"
  dk_signer :: "bytes option"

text \<open>\<open>Err ()\<close> is the malformed message.\<close>

definition merge_alias :: "'a option \<Rightarrow> 'a option \<Rightarrow> (unit, 'a option) outcome" where
  "merge_alias generic legacy = (case (generic, legacy) of
     (Some g, Some l) \<Rightarrow> if g \<noteq> l then Err () else Ret (Some g)
   | (Some g, None) \<Rightarrow> Ret (Some g)
   | (None, l) \<Rightarrow> Ret l)"

section \<open>Meta-payloads\<close>

record meta_payload =
  mime_type :: bytes
  meta_url :: bytes
  meta_tls_ca :: "bytes option"
  meta_hash_alg :: "bytes option"
  meta_expected_hash :: "bytes option"
  meta_boot_args :: "bytes option"
  meta_name :: "bytes option"
  meta_version :: "bytes option"
  meta_description :: "bytes option"
  extra_keys :: "int list"

definition instruction_fields :: "meta_payload \<Rightarrow> bytes list" where
  "instruction_fields m =
     (if meta_tls_ca m \<noteq> None then [ascii ''tls_ca''] else [])
     @ (if meta_boot_args m \<noteq> None then [ascii ''boot_args''] else [])
     @ map (\<lambda>k. ascii ''key '' @ dec_int k) (extra_keys m)"

text \<open>The state of the loop: the two required fields, and the rest as a record whose required fields are not
  yet filled in.\<close>

definition meta_none :: meta_payload where
  "meta_none = \<lparr>mime_type = [], meta_url = [], meta_tls_ca = None, meta_hash_alg = None, meta_expected_hash = None,
     meta_boot_args = None, meta_name = None, meta_version = None, meta_description = None, extra_keys = []\<rparr>"

definition parse_meta_entry ::
    "bytes \<Rightarrow> bytes option \<times> bytes option \<times> meta_payload \<Rightarrow> (unit, bytes option \<times> bytes option \<times> meta_payload) parser" where
  "parse_meta_entry d s = (case s of (mime, url, m) \<Rightarrow>
     let text = or_err (read_text d) (); bstr = or_err (read_bytes d) () in
     bind (or_err (read_int d) ()) (\<lambda>key.
     if key = 0 then bind text (\<lambda>t. ret (Some t, url, m))
     else if key = 1 then bind text (\<lambda>t. ret (mime, Some t, m))
     else if key = 2 then bind bstr (\<lambda>b. ret (mime, url, m\<lparr>meta_tls_ca := Some b\<rparr>))
     else if key = 3 then bind text (\<lambda>t. ret (mime, url, m\<lparr>meta_hash_alg := Some t\<rparr>))
     else if key = 4 then bind bstr (\<lambda>b. ret (mime, url, m\<lparr>meta_expected_hash := Some b\<rparr>))
     else if key = 5 then bind text (\<lambda>t. ret (mime, url, m\<lparr>meta_boot_args := Some t\<rparr>))
     else if key = 6 then bind text (\<lambda>t. ret (mime, url, m\<lparr>meta_name := Some t\<rparr>))
     else if key = 7 then bind text (\<lambda>t. ret (mime, url, m\<lparr>meta_version := Some t\<rparr>))
     else if key = 8 then bind text (\<lambda>t. ret (mime, url, m\<lparr>meta_description := Some t\<rparr>))
     else bind (or_err (skip_value d) ()) (\<lambda>_. ret (mime, url, m\<lparr>extra_keys := extra_keys m @ [key]\<rparr>))))"

definition parse_meta_payload :: "bytes \<Rightarrow> (unit, meta_payload) outcome" where
  "parse_meta_payload d = run (
     bind (or_err (read_map_len d) ()) (\<lambda>map_len.
     bind (repeat map_len (parse_meta_entry d) (None, None, meta_none)) (\<lambda>(mime, url, m).
     bind (of_option () mime) (\<lambda>mt.
     bind (of_option () url) (\<lambda>u.
     ret (m\<lparr>mime_type := mt, meta_url := u\<rparr>))))))"

definition parse_cose_key_p256 :: "bytes \<Rightarrow> (unit, bytes) outcome" where
  "parse_cose_key_p256 d = run (
     bind (next_byte d) (\<lambda>b.
     bind (guard (major b = 5) ()) (\<lambda>_.
     bind (cbor_read_uint_arg d (addl b)) (\<lambda>map_len.
     bind (repeat map_len (\<lambda>(x, y).
       bind (cbor_read_int_value d) (\<lambda>key.
       if key = -2 then bind (attempt (cbor_read_bstr d)) (\<lambda>x'. ret (x', y))
       else if key = -3 then bind (attempt (cbor_read_bstr d)) (\<lambda>y'. ret (x, y'))
       else bind (cbor_skip d) (\<lambda>_. ret (x, y)))) (None, None)) (\<lambda>(x, y).
     case (x, y) of
       (Some xb, Some yb) \<Rightarrow> if length xb = 32 \<and> length yb = 32 then ret (0x04 # xb @ yb) else throw ()
     | _ \<Rightarrow> throw ())))))"

definition verify_and_extract_meta ::
    "crypto \<Rightarrow> bytes \<Rightarrow> bytes option \<Rightarrow> bytes option \<Rightarrow> (nat, bytes \<times> bool) outcome" where
  "verify_and_extract_meta cr d meta_signer owner_point = (case meta_signer of
     Some signer_cose_key \<Rightarrow>
       if \<not> is_cbor_tag18 d then Err ERR_META_SIGNATURE_INVALID
       else obind (ok_or (parse_cose_key_p256 signer_cose_key) ERR_META_SIGNATURE_INVALID) (\<lambda>point.
         obind (ok_or (parse_cose_sign1 d) ERR_META_SIGNATURE_INVALID) (\<lambda>s1.
         let aad = domain_aad (aad_tag_str META_PAYLOAD) FDO_VERSION_200 in
         if \<not> verify_sign1 cr s1 aad point then Err ERR_META_SIGNATURE_INVALID
         else Ret (payload s1, True)))
   | None \<Rightarrow>
       if is_cbor_tag18 d then
         (case owner_point of
            None \<Rightarrow> Err ERR_META_SIGNATURE_INVALID
          | Some owner \<Rightarrow>
              obind (ok_or (verify_meta_signed cr d owner) ERR_META_SIGNATURE_INVALID) (\<lambda>inner. Ret (inner, True)))
       else Ret (d, False))"

section \<open>Hash policy\<close>

datatype hash_policy_error = BeginEndDisagree | SignedWithoutHash | NoHash | UnauthenticatedSource
  | InstructionFromUnauthenticatedMeta

text \<open>The dash in two of the messages is U+2014.\<close>

definition em_dash :: bytes where "em_dash = [0xe2, 0x80, 0x94]"

fun message :: "hash_policy_error \<Rightarrow> bytes" where
  "message BeginEndDisagree = ascii ''image-begin/image-end hash disagreement''"
| "message SignedWithoutHash = ascii ''signed image-begin has no expected_hash (-9)''"
| "message NoHash = ascii ''no image hash available '' @ em_dash @ ascii '' refusing to chainload''"
| "message UnauthenticatedSource = ascii ''no authenticated hash for out-of-band image''"
| "message InstructionFromUnauthenticatedMeta =
     ascii ''unauthenticated meta-payload carries instruction fields (boot_args/tls_ca/...)''"

fun code :: "hash_policy_error \<Rightarrow> nat" where
  "code BeginEndDisagree = ERR_HASH_MISMATCH"
| "code SignedWithoutHash = ERR_NOT_AUTHORIZED"
| "code NoHash = ERR_UNAUTHENTICATED_SOURCE"
| "code UnauthenticatedSource = ERR_UNAUTHENTICATED_SOURCE"
| "code InstructionFromUnauthenticatedMeta = ERR_NOT_AUTHORIZED"

definition check_unauthenticated_meta :: "meta_payload \<Rightarrow> bool \<Rightarrow> bytes option \<Rightarrow> (hash_policy_error, unit) outcome" where
  "check_unauthenticated_meta m meta_authenticated begin_hash =
     (if meta_authenticated then Ret ()
      else if begin_hash = None then Err UnauthenticatedSource
      else if instruction_fields m \<noteq> [] then Err InstructionFromUnauthenticatedMeta
      else Ret ())"

definition inline_hash_decision ::
    "authority \<Rightarrow> bytes option \<Rightarrow> bytes option \<Rightarrow> (hash_policy_error, bytes) outcome" where
  "inline_hash_decision auth begin_hash end_hash =
     (if (case (begin_hash, end_hash) of (Some bh, Some eh) \<Rightarrow> bh \<noteq> eh | _ \<Rightarrow> False) then Err BeginEndDisagree
      else if auth = Artifact \<and> begin_hash = None then Err SignedWithoutHash
      else case (case begin_hash of Some h \<Rightarrow> Some h | None \<Rightarrow> end_hash) of
        Some h \<Rightarrow> Ret h
      | None \<Rightarrow> Err NoHash)"

definition url_hash_decision :: "authority \<Rightarrow> bytes option \<Rightarrow> (hash_policy_error, bytes) outcome" where
  "url_hash_decision auth begin_hash = (case begin_hash of Some h \<Rightarrow> Ret h | None \<Rightarrow> Err UnauthenticatedSource)"

definition meta_hash_decision ::
    "authority \<Rightarrow> bytes option \<Rightarrow> bool \<Rightarrow> bytes option \<Rightarrow> (hash_policy_error, bytes list) outcome" where
  "meta_hash_decision auth begin_hash meta_authenticated meta_hash =
     (let evidence = begin_hash \<noteq> None \<or> (meta_authenticated \<and> meta_hash \<noteq> None) in
      if \<not> evidence then Err UnauthenticatedSource
      else Ret ((case begin_hash of Some bh \<Rightarrow> [bh] | None \<Rightarrow> []) @ (case meta_hash of Some mh \<Rightarrow> [mh] | None \<Rightarrow> [])))"

section \<open>Authentication of meta-payloads\<close>

lemma parse_cose_key_p256_holds [wp]: "holds (parse_cose_key_p256 d) (\<lambda>pt. length pt = 65) (\<lambda>_. True)"
  unfolding parse_cose_key_p256_def
  by (auto intro!: wp wp_conseq [OF wp_repeat [where I = "\<lambda>_ _. True" and E = "\<lambda>_ _. True"]] split: option.splits)

text \<open>C12: authentication of a fetched meta-payload: it never panics; a payload counts as signed only if it is the
  payload of a COSE_Sign1 message with a valid signature in the domain of meta-payloads, under the publisher key that
  the begin message names or, when it names none, under a key that may provision for the Owner; and a payload
  is taken unsigned only when no publisher is named and it does not claim to be signed.\<close>

theorem meta_payload_authentication:
  "total (verify_and_extract_meta cr d signer owner) \<and>
   (\<forall>inner signed. verify_and_extract_meta cr d signer owner = Ret (inner, signed) \<longrightarrow>
     (if signed then
        \<exists>s1 k. parse_cose_sign1 d = Ret s1 \<and> inner = payload s1 \<and>
          verify_es256 cr (build_sig_structure (protected_header s1) (domain_aad (aad_tag_str META_PAYLOAD) 200) inner) (signature s1) k \<and>
          (case signer of Some ck \<Rightarrow> parse_cose_key_p256 ck = Ret k | None \<Rightarrow> \<exists>own. owner = Some own \<and> provisioner cr own k)
      else signer = None \<and> \<not> is_cbor_tag18 d \<and> inner = d))"
proof (intro conjI allI impI)
  show "total (verify_and_extract_meta cr d signer owner)"
    by (auto simp: verify_and_extract_meta_def Let_def split: option.splits
        intro!: holds_conseq [OF parse_cose_key_p256_holds] holds_conseq [OF parse_cose_sign1_holds] holds_conseq [OF verify_meta_signed_holds])
next
  fix inner signed
  assume "verify_and_extract_meta cr d signer owner = Ret (inner, signed)"
  then show "if signed then
        \<exists>s1 k. parse_cose_sign1 d = Ret s1 \<and> inner = payload s1 \<and>
          verify_es256 cr (build_sig_structure (protected_header s1) (domain_aad (aad_tag_str META_PAYLOAD) 200) inner) (signature s1) k \<and>
          (case signer of Some ck \<Rightarrow> parse_cose_key_p256 ck = Ret k | None \<Rightarrow> \<exists>own. owner = Some own \<and> provisioner cr own k)
      else signer = None \<and> \<not> is_cbor_tag18 d \<and> inner = d"
    by (auto simp: verify_and_extract_meta_def obind_Ret_iff ok_or_Ret_iff verify_meta_signed_def verify_sign1_def Let_def
        FDO_VERSION_200_def split: option.splits if_splits dest: artifact_signer_provisioner)
qed

lemma verify_sample_meta: "verify_meta_signed toy_crypto sample_artifact sample_owner = Ret [1, 2, 3]"
proof -
  have "verify_es256 toy_crypto m sg k = verify_es256 toy_crypto m' sg k" for m m' sg k
    by (simp add: verify_es256_def toy_crypto_def)
  with verify_sample_artifact show ?thesis
    unfolding verify_bmo_signed_Ret verify_meta_signed_def Let_def by force
qed

lemma sample_artifact_tag18: "is_cbor_tag18 sample_artifact"
  by (simp add: is_cbor_tag18_def sample_artifact_def sample_signed_def enc_head_def head_byte_def)

theorem meta_payload_authentication_witness:
  "\<exists>s1 k. parse_cose_sign1 sample_artifact = Ret s1 \<and> [1, 2, 3] = payload s1 \<and> provisioner toy_crypto sample_owner k"
proof -
  have "verify_and_extract_meta toy_crypto sample_artifact None (Some sample_owner) = Ret ([1, 2, 3], True)"
    using verify_sample_meta by (simp add: verify_and_extract_meta_def sample_artifact_tag18 ok_or_Ret_iff obind_Ret_iff)
  with meta_payload_authentication [of toy_crypto sample_artifact None "Some sample_owner"] show ?thesis
    by auto
qed

end
