(* ===== verification/Bmo.thy ===== *)
theory Bmo
  imports Chunking
begin

text \<open>
  \<open>src/src/bmo.rs\<close>, lines 17 to 1190: the bare-metal onboarding module, which receives the image that the
  device boots. \<open>process_bmo_message\<close> is the state machine over \<open>bmo_session\<close>; \<open>check_bmo_authorization\<close>
  decides who may provision, \<open>process_bmo_url_delivery\<close> and \<open>process_bmo_meta_url_delivery\<close> fetch images
  from outside the session. HTTP is the parameter \<open>fetch\<close>: its \<open>n\<close>-th answer within one message for a URL,
  so that two requests for one URL may be answered differently. Next to the new session and the response a call
  returns the watchdog interval it sets, if any. The counters are \<open>u32\<close> and \<open>u64\<close> and wrap.

  The contract is \<open>evidence\<close>: why an image may be booted. \<open>bmo_complete_evidence\<close> shows it for every
  sequence of messages: a session that is complete holds an image whose digest is pinned by a statement of a
  party entitled to provision.
\<close>

section \<open>Constants\<close>

definition BMO_DELIVERY_INLINE :: nat where "BMO_DELIVERY_INLINE = 0"
definition BMO_DELIVERY_URL :: nat where "BMO_DELIVERY_URL = 1"
definition BMO_DELIVERY_META_URL :: nat where "BMO_DELIVERY_META_URL = 2"

definition BMO_ERROR_SIZE_EXCEEDED :: nat where "BMO_ERROR_SIZE_EXCEEDED = 3"

definition BMO_STATUS_SUCCESS :: nat where "BMO_STATUS_SUCCESS = 0"
definition BMO_STATUS_ERROR :: nat where "BMO_STATUS_ERROR = 2"

definition BMO_KEY_IMAGE_BEGIN :: bytes where "BMO_KEY_IMAGE_BEGIN = ascii ''fdo.bmo:image-begin''"
definition BMO_KEY_IMAGE_DATA :: bytes where "BMO_KEY_IMAGE_DATA = ascii ''fdo.bmo:image-data-''"
definition BMO_KEY_IMAGE_END :: bytes where "BMO_KEY_IMAGE_END = ascii ''fdo.bmo:image-end''"
definition BMO_KEY_IMAGE_RESULT :: bytes where "BMO_KEY_IMAGE_RESULT = ascii ''fdo.bmo:image-result''"
definition BMO_KEY_IMAGE_ACK :: bytes where "BMO_KEY_IMAGE_ACK = ascii ''fdo.bmo:image-ack''"
definition BMO_KEY_SET :: bytes where "BMO_KEY_SET = ascii ''fdo.bmo:set''"
definition BMO_KEY_SET_RESPONSE :: bytes where "BMO_KEY_SET_RESPONSE = ascii ''fdo.bmo:response''"

definition BMO_CONTENT_TYPE_IMAGE_BEGIN :: bytes where
  "BMO_CONTENT_TYPE_IMAGE_BEGIN = ascii ''application/cbor+fdo.bmo.image-begin''"
definition BMO_CONTENT_TYPE_SET :: bytes where "BMO_CONTENT_TYPE_SET = ascii ''application/cbor+fdo.bmo.set''"

definition WATCHDOG_TIMEOUT_SECS :: nat where "WATCHDOG_TIMEOUT_SECS = 1800"

section \<open>Data\<close>

record bmo_image_begin =
  total_size :: nat
  hash_alg :: "bytes option"
  require_ack :: bool
  estimated_duration :: nat
  image_type :: "bytes option"
  boot_args :: "bytes option"
  image_name :: "bytes option"
  image_version :: "bytes option"
  image_description :: "bytes option"
  expected_hash :: "bytes option"
  delivery_mode :: nat
  image_url :: "bytes option"
  tls_ca :: "bytes option"
  meta_signer :: "bytes option"

datatype peer_authority = OwnerDirect | Delegate bool | NoPeer

definition has_channel_provision_authority :: "peer_authority \<Rightarrow> bool" where
  "has_channel_provision_authority peer \<longleftrightarrow> peer = OwnerDirect \<or> peer = Delegate True"

datatype bmo_state = Idle | AwaitingData | AwaitingEnd | Complete | Error

record bmo_session =
  bmo_st :: bmo_state
  image_begin :: "bmo_image_begin option"
  image_buffer :: bytes
  chunks_received :: nat
  bytes_received :: nat
  session_authority :: authority

definition new_session :: bmo_session where
  "new_session = \<lparr>bmo_st = Idle, image_begin = None, image_buffer = [], chunks_received = 0, bytes_received = 0,
     session_authority = Unauthenticated\<rparr>"

definition reset :: "bmo_session \<Rightarrow> bmo_session" where
  "reset s = s\<lparr>bmo_st := Idle, image_begin := None, image_buffer := [], chunks_received := 0, bytes_received := 0,
     session_authority := Unauthenticated\<rparr>"

section \<open>Messages\<close>

definition parse_service_info_kv :: "bytes \<Rightarrow> (unit, bytes \<times> bytes) outcome" where
  "parse_service_info_kv d = run (
     bind (or_err (read_array_len d) ()) (\<lambda>arr_len.
     bind (guard (arr_len = 2) ()) (\<lambda>_.
     bind (or_err (read_text d) ()) (\<lambda>key.
     bind (or_err (read_bytes d) ()) (\<lambda>val.
     ret (key, val))))))"

definition begin_default :: bmo_image_begin where
  "begin_default = \<lparr>total_size = 0, hash_alg = None, require_ack = False, estimated_duration = 0, image_type = None,
     boot_args = None, image_name = None, image_version = None, image_description = None, expected_hash = None,
     delivery_mode = 0, image_url = None, tls_ca = None, meta_signer = None\<rparr>"

definition keys_default :: delivery_keys where
  "keys_default = \<lparr>dk_mode = None, dk_url = None, dk_tls_ca = None, dk_hash = None, dk_signer = None\<rparr>"

definition parse_begin_entry ::
    "bytes \<Rightarrow> bmo_image_begin \<times> delivery_keys \<times> delivery_keys \<Rightarrow> (unit, bmo_image_begin \<times> delivery_keys \<times> delivery_keys) parser" where
  "parse_begin_entry d s = (case s of (b, g, l) \<Rightarrow>
     let text = or_err (read_text d) (); bstr = or_err (read_bytes d) (); uint = or_err (read_uint d) () in
     bind (or_err (read_int d) ()) (\<lambda>key.
     if key = 0 then bind uint (\<lambda>n. ret (b\<lparr>total_size := n\<rparr>, g, l))
     else if key = 1 then bind text (\<lambda>t. ret (b\<lparr>hash_alg := Some t\<rparr>, g, l))
     else if key = 3 then bind (or_err (read_bool d) ()) (\<lambda>v. ret (b\<lparr>require_ack := v\<rparr>, g, l))
     else if key = 4 then bind uint (\<lambda>n. ret (b\<lparr>estimated_duration := n\<rparr>, g, l))
     else if key = -1 then bind text (\<lambda>t. ret (b\<lparr>image_type := Some t\<rparr>, g, l))
     else if key = -2 then bind text (\<lambda>t. ret (b\<lparr>boot_args := Some t\<rparr>, g, l))
     else if key = -3 then bind text (\<lambda>t. ret (b\<lparr>image_name := Some t\<rparr>, g, l))
     else if key = -4 then bind text (\<lambda>t. ret (b\<lparr>image_version := Some t\<rparr>, g, l))
     else if key = -5 then bind text (\<lambda>t. ret (b\<lparr>image_description := Some t\<rparr>, g, l))
     else if key = 5 then bind uint (\<lambda>n. ret (b, g\<lparr>dk_mode := Some n\<rparr>, l))
     else if key = -6 then bind uint (\<lambda>n. ret (b, g, l\<lparr>dk_mode := Some n\<rparr>))
     else if key = 6 then bind text (\<lambda>t. ret (b, g\<lparr>dk_url := Some t\<rparr>, l))
     else if key = -7 then bind text (\<lambda>t. ret (b, g, l\<lparr>dk_url := Some t\<rparr>))
     else if key = 7 then bind bstr (\<lambda>x. ret (b, g\<lparr>dk_tls_ca := Some x\<rparr>, l))
     else if key = -8 then bind bstr (\<lambda>x. ret (b, g, l\<lparr>dk_tls_ca := Some x\<rparr>))
     else if key = 8 then bind bstr (\<lambda>x. ret (b, g\<lparr>dk_hash := Some x\<rparr>, l))
     else if key = -9 then bind bstr (\<lambda>x. ret (b, g, l\<lparr>dk_hash := Some x\<rparr>))
     else if key = 9 then bind bstr (\<lambda>x. ret (b, g\<lparr>dk_signer := Some x\<rparr>, l))
     else if key = -10 then bind bstr (\<lambda>x. ret (b, g, l\<lparr>dk_signer := Some x\<rparr>))
     else bind (or_err (skip_value d) ()) (\<lambda>_. ret (b, g, l))))"

text \<open>Fold the legacy aliases into the generic fields.\<close>

definition merge_delivery :: "bmo_image_begin \<Rightarrow> delivery_keys \<Rightarrow> delivery_keys \<Rightarrow> (unit, bmo_image_begin) outcome" where
  "merge_delivery b g l =
     obind (merge_alias (dk_mode g) (dk_mode l)) (\<lambda>mode.
     obind (merge_alias (dk_url g) (dk_url l)) (\<lambda>url.
     obind (merge_alias (dk_tls_ca g) (dk_tls_ca l)) (\<lambda>ca.
     obind (merge_alias (dk_hash g) (dk_hash l)) (\<lambda>hash.
     obind (merge_alias (dk_signer g) (dk_signer l)) (\<lambda>signer.
     Ret (b\<lparr>delivery_mode := (case mode of Some m \<Rightarrow> if m > 255 then 255 else m | None \<Rightarrow> 0),
         image_url := url, tls_ca := ca, expected_hash := hash, meta_signer := signer\<rparr>))))))"

definition parse_bmo_image_begin :: "bytes \<Rightarrow> (unit, bmo_image_begin) outcome" where
  "parse_bmo_image_begin d = run (
     bind (or_err (read_map_len d) ()) (\<lambda>map_len.
     bind (repeat map_len (parse_begin_entry d) (begin_default, keys_default, keys_default)) (\<lambda>(b, g, l).
     lift (merge_delivery b g l))))"

definition build_bmo_image_result :: "nat \<Rightarrow> bytes option \<Rightarrow> bytes" where
  "build_bmo_image_result status msg = (case msg of
     Some m \<Rightarrow> array 2 @ uint_enc status @ text_enc m
   | None \<Rightarrow> array 1 @ uint_enc status)"

definition build_bmo_image_ack :: "bool \<Rightarrow> nat option \<Rightarrow> bytes option \<Rightarrow> bytes" where
  "build_bmo_image_ack accepted reason_code msg =
     (if accepted then array 1 @ bool_val True
      else case msg of
        Some m \<Rightarrow> array 3 @ bool_val False @ uint_enc (case reason_code of Some c \<Rightarrow> c | None \<Rightarrow> 0) @ text_enc m
      | None \<Rightarrow> (case reason_code of
          Some c \<Rightarrow> array 2 @ bool_val False @ uint_enc c
        | None \<Rightarrow> array 1 @ bool_val False))"

definition build_bmo_set_response :: "nat \<Rightarrow> bytes option \<Rightarrow> bytes" where
  "build_bmo_set_response status msg = (case msg of
     Some m \<Rightarrow> array 2 @ uint_enc status @ text_enc m
   | None \<Rightarrow> array 1 @ uint_enc status)"

text \<open>The capacity is that of pairs of strings, 48 bytes each.\<close>

definition parse_bmo_set :: "bytes \<Rightarrow> (unit, (bytes \<times> bytes) list) outcome" where
  "parse_bmo_set d = run (
     bind (or_err (read_array_len d) ()) (\<lambda>outer_len.
     bind (guard (outer_len \<noteq> 0) ()) (\<lambda>_.
     bind (with_capacity 48 outer_len) (\<lambda>_.
     repeat outer_len (\<lambda>params.
       bind (or_err (read_array_len d) ()) (\<lambda>n.
       bind (guard (n = 2) ()) (\<lambda>_.
       bind (or_err (read_text d) ()) (\<lambda>name.
       bind (or_err (read_text d) ()) (\<lambda>val.
       ret (params @ [(name, val)])))))) []))))"

definition build_service_info_kv :: "bytes \<Rightarrow> bytes \<Rightarrow> bytes" where
  "build_service_info_kv key val = array 2 @ text_enc key @ bytes_enc val"

definition parse_image_end_hash :: "bytes \<Rightarrow> (unit, bytes option) outcome" where
  "parse_image_end_hash d =
     (if d = [] then Ret None
      else run (
        let_else (read_map_len d) None (\<lambda>map_len.
        end_loop (repeat_flow map_len (\<lambda>_.
          let_else (read_int d) (Stop None) (\<lambda>key.
          if key = 1 then let_else (read_bytes d) (Stop None) (\<lambda>hash. ret (Stop (Some hash)))
          else let_else (skip_value d) (Stop None) (\<lambda>_. ret (Next ())))) ())
        (\<lambda>_. ret None))))"

section \<open>Authorization\<close>

definition unwrap_bmo_signed :: "crypto \<Rightarrow> bytes \<Rightarrow> bytes option \<Rightarrow> bytes \<Rightarrow> bytes option \<Rightarrow> (unit, bytes) outcome" where
  "unwrap_bmo_signed cr d owner_key_point expected_ct device_guid =
     (if \<not> is_cbor_tag18 d then Err ()
      else case owner_key_point of
        None \<Rightarrow> Err ()
      | Some owner_point \<Rightarrow> verify_bmo_signed cr d owner_point expected_ct device_guid)"

definition signed_begin_binds_content :: "authority \<Rightarrow> bmo_image_begin \<Rightarrow> (hash_policy_error, unit) outcome" where
  "signed_begin_binds_content auth b =
     (if auth = Artifact \<and> delivery_mode b = BMO_DELIVERY_INLINE \<and> expected_hash b = None then Err SignedWithoutHash
      else Ret ())"

datatype bmo_auth_result = SignedOk | SignedFailed | UnsignedModel1 | UnsignedModel2 | UnsignedLegacy | UnsignedRefused

fun to_authority :: "bmo_auth_result \<Rightarrow> authority" where
  "to_authority SignedOk = Artifact"
| "to_authority SignedFailed = Artifact"
| "to_authority UnsignedRefused = Artifact"
| "to_authority UnsignedModel1 = Channel"
| "to_authority UnsignedModel2 = Channel"
| "to_authority UnsignedLegacy = Unauthenticated"

definition is_authorized :: "bmo_auth_result \<Rightarrow> bool" where
  "is_authorized a \<longleftrightarrow> a \<noteq> SignedFailed \<and> a \<noteq> UnsignedRefused"

definition rejection_reason :: "bmo_auth_result \<Rightarrow> bytes" where
  "rejection_reason a =
     (if a = UnsignedRefused
      then ascii ''Provisioning not authorized: unsigned payload from peer without provision permission''
      else ascii ''Provisioning artifact rejected: signature, content type, signer authority or scope check failed'')"

definition check_bmo_authorization ::
    "crypto \<Rightarrow> bytes \<Rightarrow> bytes option \<Rightarrow> peer_authority \<Rightarrow> bytes \<Rightarrow> bytes option \<Rightarrow> (nat, bmo_auth_result \<times> bytes option) outcome" where
  "check_bmo_authorization cr d owner_key_point peer expected_ct device_guid =
     (if is_cbor_tag18 d then
        handle (unwrap_bmo_signed cr d owner_key_point expected_ct device_guid)
          (\<lambda>inner. Ret (SignedOk, Some inner)) (\<lambda>_. Ret (SignedFailed, None))
      else case peer of
        OwnerDirect \<Rightarrow> Ret (UnsignedModel1, None)
      | Delegate prov \<Rightarrow> if prov then Ret (UnsignedModel2, None) else Ret (UnsignedRefused, None)
      | NoPeer \<Rightarrow> if owner_key_point \<noteq> None then Ret (UnsignedRefused, None) else Ret (UnsignedLegacy, None))"

section \<open>Fetched images\<close>

definition process_bmo_url_delivery ::
    "crypto \<Rightarrow> (nat \<Rightarrow> bytes \<Rightarrow> bytes option) \<Rightarrow> bmo_session \<Rightarrow> bmo_image_begin \<Rightarrow> (nat, bmo_session) outcome" where
  "process_bmo_url_delivery cr fetch s b = (case image_url b of
     None \<Rightarrow> Err ERR_URL_FETCH_FAILED
   | Some url \<Rightarrow>
       handle (url_hash_decision (session_authority s) (expected_hash b))
         (\<lambda>hash. case fetch 0 url of
            None \<Rightarrow> Err ERR_URL_FETCH_FAILED
          | Some image_data \<Rightarrow>
              if total_size b > 0 \<and> length image_data \<noteq> total_size b then Err BMO_ERROR_SIZE_EXCEEDED
              else if sha256 cr image_data \<noteq> hash then Err ERR_HASH_MISMATCH
              else Ret (s\<lparr>image_buffer := image_data, bytes_received := length image_data\<rparr>))
         (\<lambda>e. Err (code e)))"

definition process_bmo_meta_url_delivery ::
    "crypto \<Rightarrow> (nat \<Rightarrow> bytes \<Rightarrow> bytes option) \<Rightarrow> bmo_session \<Rightarrow> bmo_image_begin \<Rightarrow> bytes option \<Rightarrow> (nat, bmo_session) outcome" where
  "process_bmo_meta_url_delivery cr fetch s b owner_key_point = (case image_url b of
     None \<Rightarrow> Err ERR_URL_FETCH_FAILED
   | Some url \<Rightarrow> (case fetch 0 url of
       None \<Rightarrow> Err ERR_URL_FETCH_FAILED
     | Some meta_data \<Rightarrow>
         obind (verify_and_extract_meta cr meta_data (meta_signer b) owner_key_point) (\<lambda>(meta_cbor, meta_authenticated).
         obind (ok_or (parse_meta_payload meta_cbor) ERR_META_PARSE_ERROR) (\<lambda>m.
         handle (check_unauthenticated_meta m meta_authenticated (expected_hash b))
           (\<lambda>_. handle (meta_hash_decision (session_authority s) (expected_hash b) meta_authenticated (meta_expected_hash m))
             (\<lambda>required. case fetch 1 (meta_url m) of
                None \<Rightarrow> Err ERR_URL_FETCH_FAILED
              | Some image_data \<Rightarrow>
                  if \<not> (\<forall>h\<in>set required. sha256 cr image_data = h) then Err ERR_HASH_MISMATCH
                  else Ret (s\<lparr>image_buffer := image_data, bytes_received := length image_data\<rparr>))
             (\<lambda>e. Err (code e)))
           (\<lambda>e. Err (code e))))))"

section \<open>The state machine\<close>

type_synonym bmo_result = "(nat, bmo_session \<times> (bytes \<times> bytes) option \<times> nat option) outcome"

definition image_result :: "nat option \<Rightarrow> bmo_session \<Rightarrow> nat \<Rightarrow> bytes \<Rightarrow> bmo_result" where
  "image_result wd s status msg = Ret (s, Some (BMO_KEY_IMAGE_RESULT, build_bmo_image_result status (Some msg)), wd)"

definition set_response :: "bmo_session \<Rightarrow> bytes \<Rightarrow> bmo_result" where
  "set_response s msg = Ret (s, Some (BMO_KEY_SET_RESPONSE, build_bmo_set_response BMO_STATUS_ERROR (Some msg)), None)"

text \<open>\<open>set_watchdog_timer\<close> is called with twice the estimated duration when that is more than the default.\<close>

definition watchdog_extension :: "bmo_image_begin \<Rightarrow> nat option" where
  "watchdog_extension b =
     (if estimated_duration b > 0 then
        let watchdog_secs = usz (estimated_duration b * 2) in
        if watchdog_secs > WATCHDOG_TIMEOUT_SECS then Some watchdog_secs else None
      else None)"

definition url_error_text :: "nat \<Rightarrow> bytes" where
  "url_error_text c =
     (if c = ERR_UNAUTHENTICATED_SOURCE then ascii ''Unauthenticated source: URL delivery requires expected_hash (key 8)''
      else if c = ERR_HASH_MISMATCH then ascii ''Image hash mismatch''
      else ascii ''URL fetch failed'')"

definition meta_error_text :: "nat \<Rightarrow> bytes" where
  "meta_error_text c =
     (if c = ERR_URL_FETCH_FAILED then ascii ''Meta-payload fetch failed''
      else if c = ERR_META_SIGNATURE_INVALID then ascii ''Meta-payload signature invalid''
      else if c = ERR_META_PARSE_ERROR then ascii ''Meta-payload parse error''
      else if c = ERR_HASH_MISMATCH then ascii ''Image hash mismatch''
      else if c = ERR_NOT_AUTHORIZED then ascii ''Provisioning not authorized: unauthenticated meta-payload carries instruction fields''
      else if c = ERR_UNAUTHENTICATED_SOURCE then ascii ''Unauthenticated source: no hash, signature, or validated TLS covers the content''
      else ascii ''Meta-URL delivery failed'')"

text \<open>The delivery modes of an accepted \<open>image-begin\<close>. \<open>Vec::reserve\<close> panics above \<open>isize::MAX\<close>.\<close>

definition begin_delivery ::
    "crypto \<Rightarrow> (nat \<Rightarrow> bytes \<Rightarrow> bytes option) \<Rightarrow> bmo_session \<Rightarrow> bmo_image_begin \<Rightarrow> bytes option \<Rightarrow> nat option \<Rightarrow> bmo_result" where
  "begin_delivery cr fetch s b owner_key_point wd =
     (if delivery_mode b = BMO_DELIVERY_INLINE then
        if total_size b > 2 ^ 63 - 1 then Panic
        else
          let s' = s\<lparr>bmo_st := AwaitingData, image_buffer := [], image_begin := Some b, chunks_received := 0, bytes_received := 0\<rparr> in
          Ret (s', if require_ack b then Some (BMO_KEY_IMAGE_ACK, build_bmo_image_ack True None None) else None, wd)
      else if delivery_mode b = BMO_DELIVERY_URL then
        (case image_url b of
           None \<Rightarrow> image_result wd (s\<lparr>bmo_st := Error\<rparr>) BMO_STATUS_ERROR (ascii ''URL delivery mode but no URL'')
         | Some _ \<Rightarrow> handle (process_bmo_url_delivery cr fetch s b)
             (\<lambda>s'. image_result wd (s'\<lparr>image_begin := Some b, bmo_st := Complete\<rparr>) BMO_STATUS_SUCCESS (ascii ''Image fetched from URL''))
             (\<lambda>c. image_result wd (s\<lparr>bmo_st := Error\<rparr>) BMO_STATUS_ERROR (url_error_text c)))
      else if delivery_mode b = BMO_DELIVERY_META_URL then
        (case image_url b of
           None \<Rightarrow> image_result wd (s\<lparr>bmo_st := Error\<rparr>) BMO_STATUS_ERROR (ascii ''Meta-URL mode but no URL'')
         | Some _ \<Rightarrow> handle (process_bmo_meta_url_delivery cr fetch s b owner_key_point)
             (\<lambda>s'. image_result wd (s'\<lparr>image_begin := Some b, bmo_st := Complete\<rparr>) BMO_STATUS_SUCCESS
                (ascii ''Meta-payload resolved, image fetched''))
             (\<lambda>c. image_result wd (s\<lparr>bmo_st := Error\<rparr>) BMO_STATUS_ERROR (meta_error_text c)))
      else image_result wd (s\<lparr>bmo_st := Error\<rparr>) BMO_STATUS_ERROR (ascii ''Unknown delivery mode''))"

definition process_image_begin ::
    "crypto \<Rightarrow> (nat \<Rightarrow> bytes \<Rightarrow> bytes option) \<Rightarrow> bmo_session \<Rightarrow> bytes \<Rightarrow> bytes option \<Rightarrow> peer_authority \<Rightarrow> bytes option \<Rightarrow> bmo_result" where
  "process_image_begin cr fetch s val owner_key_point peer device_guid =
     obind (check_bmo_authorization cr val owner_key_point peer BMO_CONTENT_TYPE_IMAGE_BEGIN device_guid) (\<lambda>(auth, inner_data).
     if \<not> is_authorized auth then image_result None (s\<lparr>bmo_st := Error\<rparr>) BMO_STATUS_ERROR (rejection_reason auth)
     else
       let s = s\<lparr>session_authority := to_authority auth\<rparr>;
           parse_data = (case inner_data of Some d \<Rightarrow> d | None \<Rightarrow> val) in
       handle (parse_bmo_image_begin parse_data)
         (\<lambda>b. let wd = watchdog_extension b in
            handle (signed_begin_binds_content (session_authority s) b)
              (\<lambda>_. begin_delivery cr fetch s b owner_key_point wd)
              (\<lambda>e. image_result wd (s\<lparr>bmo_st := Error\<rparr>) BMO_STATUS_ERROR (message e)))
         (\<lambda>_. Ret (s\<lparr>bmo_st := Error\<rparr>, None, None)))"

definition process_image_data :: "bmo_session \<Rightarrow> bytes \<Rightarrow> bmo_result" where
  "process_image_data s val =
     (if bmo_st s \<noteq> AwaitingData then Ret (s, None, None)
      else handle
        (if val \<noteq> [] \<and> val ! 0 AND 0xe0 = 0x40 then handle (run (read_bytes val)) Ret (\<lambda>_. Ret val)
         else (Ret val :: (unit, bytes) outcome))
        (\<lambda>chunk. Ret (s\<lparr>image_buffer := image_buffer s @ chunk, chunks_received := (chunks_received s + 1) mod 2 ^ 32,
           bytes_received := (bytes_received s + length chunk) mod 2 ^ 64\<rparr>, None, None))
        (\<lambda>_. Ret (s, None, None)))"

definition process_image_end :: "crypto \<Rightarrow> bmo_session \<Rightarrow> bytes \<Rightarrow> bmo_result" where
  "process_image_end cr s val =
     (if bmo_st s \<noteq> AwaitingData then image_result None s BMO_STATUS_ERROR (ascii ''Unexpected image-end'')
      else if (case image_begin s of Some b \<Rightarrow> total_size b > 0 \<and> bytes_received s \<noteq> total_size b | None \<Rightarrow> False)
      then image_result None (s\<lparr>bmo_st := Error\<rparr>) BMO_STATUS_ERROR (ascii ''Size mismatch'')
      else handle (parse_image_end_hash val)
        (\<lambda>end_hash.
           let begin_hash = (case image_begin s of Some b \<Rightarrow> expected_hash b | None \<Rightarrow> None) in
           handle (inline_hash_decision (session_authority s) begin_hash end_hash)
             (\<lambda>hash. if sha256 cr (image_buffer s) \<noteq> hash
                then image_result None (s\<lparr>bmo_st := Error\<rparr>) BMO_STATUS_ERROR (ascii ''SHA256 hash mismatch'')
                else image_result None (s\<lparr>bmo_st := Complete\<rparr>) BMO_STATUS_SUCCESS (ascii ''Image received''))
             (\<lambda>e. image_result None (s\<lparr>bmo_st := Error\<rparr>) BMO_STATUS_ERROR (message e)))
        (\<lambda>_. Ret (s, None, None)))"

definition process_set ::
    "crypto \<Rightarrow> bmo_session \<Rightarrow> bytes \<Rightarrow> bytes option \<Rightarrow> peer_authority \<Rightarrow> bytes option \<Rightarrow> bmo_result" where
  "process_set cr s val owner_key_point peer device_guid =
     obind (check_bmo_authorization cr val owner_key_point peer BMO_CONTENT_TYPE_SET device_guid) (\<lambda>(auth, inner_data).
     if \<not> is_authorized auth then set_response (s\<lparr>bmo_st := Error\<rparr>) (rejection_reason auth)
     else
       let parse_data = (case inner_data of Some d \<Rightarrow> d | None \<Rightarrow> val) in
       handle (parse_bmo_set parse_data)
         (\<lambda>params. set_response s (ascii ''BIOS configuration not supported; none of '' @ dec_nat (length params)
            @ ascii '' parameter(s) applied''))
         (\<lambda>_. set_response s (ascii ''Failed to parse BIOS set parameters'')))"

definition process_bmo_message ::
    "crypto \<Rightarrow> (nat \<Rightarrow> bytes \<Rightarrow> bytes option) \<Rightarrow> bmo_session \<Rightarrow> bytes \<Rightarrow> bytes \<Rightarrow> bytes option \<Rightarrow> peer_authority \<Rightarrow> bytes option \<Rightarrow> bmo_result" where
  "process_bmo_message cr fetch s key val owner_key_point peer device_guid =
     (if key = BMO_KEY_IMAGE_BEGIN then process_image_begin cr fetch s val owner_key_point peer device_guid
      else if take (length BMO_KEY_IMAGE_DATA) key = BMO_KEY_IMAGE_DATA then process_image_data s val
      else if key = BMO_KEY_IMAGE_END then process_image_end cr s val
      else if key = BMO_KEY_SET then process_set cr s val owner_key_point peer device_guid
      else Ret (s, None, None))"

section \<open>Begin messages as maps\<close>

text \<open>What one entry of a begin message means, on the items of the map. Keys are read as \<open>i32\<close>.\<close>

definition item_value :: "int \<Rightarrow> cbor \<Rightarrow> bmo_image_begin \<times> delivery_keys \<times> delivery_keys
    \<Rightarrow> (unit, bmo_image_begin \<times> delivery_keys \<times> delivery_keys) outcome" where
  "item_value key v s = (case s of (b, g, l) \<Rightarrow>
     let text = of_item (item_text v); bstr = of_item (item_bytes v); uint = of_item (item_uint v) in
     if key = 0 then obind uint (\<lambda>n. Ret (b\<lparr>total_size := n\<rparr>, g, l))
     else if key = 1 then obind text (\<lambda>t. Ret (b\<lparr>hash_alg := Some t\<rparr>, g, l))
     else if key = 3 then obind (of_item (item_bool v)) (\<lambda>a. Ret (b\<lparr>require_ack := a\<rparr>, g, l))
     else if key = 4 then obind uint (\<lambda>n. Ret (b\<lparr>estimated_duration := n\<rparr>, g, l))
     else if key = -1 then obind text (\<lambda>t. Ret (b\<lparr>image_type := Some t\<rparr>, g, l))
     else if key = -2 then obind text (\<lambda>t. Ret (b\<lparr>boot_args := Some t\<rparr>, g, l))
     else if key = -3 then obind text (\<lambda>t. Ret (b\<lparr>image_name := Some t\<rparr>, g, l))
     else if key = -4 then obind text (\<lambda>t. Ret (b\<lparr>image_version := Some t\<rparr>, g, l))
     else if key = -5 then obind text (\<lambda>t. Ret (b\<lparr>image_description := Some t\<rparr>, g, l))
     else if key = 5 then obind uint (\<lambda>n. Ret (b, g\<lparr>dk_mode := Some n\<rparr>, l))
     else if key = -6 then obind uint (\<lambda>n. Ret (b, g, l\<lparr>dk_mode := Some n\<rparr>))
     else if key = 6 then obind text (\<lambda>t. Ret (b, g\<lparr>dk_url := Some t\<rparr>, l))
     else if key = -7 then obind text (\<lambda>t. Ret (b, g, l\<lparr>dk_url := Some t\<rparr>))
     else if key = 7 then obind bstr (\<lambda>x. Ret (b, g\<lparr>dk_tls_ca := Some x\<rparr>, l))
     else if key = -8 then obind bstr (\<lambda>x. Ret (b, g, l\<lparr>dk_tls_ca := Some x\<rparr>))
     else if key = 8 then obind bstr (\<lambda>x. Ret (b, g\<lparr>dk_hash := Some x\<rparr>, l))
     else if key = -9 then obind bstr (\<lambda>x. Ret (b, g, l\<lparr>dk_hash := Some x\<rparr>))
     else if key = 9 then obind bstr (\<lambda>x. Ret (b, g\<lparr>dk_signer := Some x\<rparr>, l))
     else if key = -10 then obind bstr (\<lambda>x. Ret (b, g, l\<lparr>dk_signer := Some x\<rparr>))
     else Ret (b, g, l))"

definition begin_item :: "cbor \<times> cbor \<Rightarrow> bmo_image_begin \<times> delivery_keys \<times> delivery_keys
    \<Rightarrow> (unit, bmo_image_begin \<times> delivery_keys \<times> delivery_keys) outcome" where
  "begin_item kv s = obind (of_item (item_int (fst kv))) (\<lambda>key. item_value key (snd kv) s)"

lemma begin_entry_at:
  assumes "at d p (enc_entry kv)" and "fits (2 ^ 64) (fst kv)" and "fits (2 ^ 64) (snd kv)" and "length d < 2 ^ 63"
  shows "reads (parse_begin_entry d s) p (length (enc_entry kv)) (begin_item kv s)"
proof -
  obtain b g l where s: "s = (b, g, l)" by (cases s) auto
  have a: "at d p (enc (fst kv))" "at d (p + length (enc (fst kv))) (enc (snd kv))"
    using assms(1) by (simp_all add: case_prod_beta)
  note v = item_uint_at [OF a(2) assms(3)] item_bytes_at [OF a(2) assms(3,4)] item_text_at [OF a(2) assms(3,4)]
    item_bool_at [OF a(2) assms(3)]
  have len: "length (enc_entry kv) = length (enc (fst kv)) + length (enc (snd kv))"
    by (simp add: case_prod_beta)
  have skip: "reads (bind (or_err (skip_value d) ()) (\<lambda>_. ret x)) (p + length (enc (fst kv))) (length (enc (snd kv))) (Ret x)" for x :: 'x
    using reads_map [OF item_skip_at [OF a(2) assms(3,4)], of "\<lambda>_. x"] by simp
  show ?thesis
    unfolding parse_begin_entry_def begin_item_def s case_prod_conv Let_def len
    by (rule reads_bind [OF item_int_at [OF a(1) assms(2)]])
      (simp add: item_value_def v [THEN reads_map] skip)
qed

lemma parse_bmo_image_begin_map:
  assumes "fits (2 ^ 64) (Dict kvs)" and "length kvs < 2 ^ 16" and "length (enc (Dict kvs)) < 2 ^ 63"
  shows "parse_bmo_image_begin (enc (Dict kvs)) =
    obind (ofold begin_item kvs (begin_default, keys_default, keys_default)) (\<lambda>(b, g, l). merge_delivery b g l)"
proof -
  let ?d = "enc (Dict kvs)" and ?h = "enc_head 5 (length kvs)"
  have a: "at ?d 0 ?h" "at ?d (length ?h) (concat (map enc_entry kvs))"
    using at_whole [of ?d] by simp_all
  have "reads (repeat (length kvs) (parse_begin_entry ?d) s) (length ?h) (length (concat (map enc_entry kvs))) (ofold begin_item kvs s)" for s
    by (rule repeat_fold [OF begin_entry_at a(2)]) (use assms(1,3) in auto)
  then have r: "fst (repeat (length kvs) (parse_begin_entry ?d) s (length ?h)) = ofold begin_item kvs s" for s
    by (simp add: reads_def)
  have "read_map_len ?d 0 = (Ret (length kvs), length ?h)"
    using read_map_len_at [OF a(1) assms(2)] by simp
  then show ?thesis
    using r [of "(begin_default, keys_default, keys_default)"]
    by (cases "repeat (length kvs) (parse_begin_entry ?d) (begin_default, keys_default, keys_default) (length ?h)")
      (auto simp: parse_bmo_image_begin_def run_def bind_def or_err_def lift_def obind_def simp del: enc.simps split: outcome.split)
qed

section \<open>Why an image may be booted\<close>

text \<open>Who authorised a begin message, and with which authority.\<close>

definition authorised_begin ::
    "crypto \<Rightarrow> bytes option \<Rightarrow> peer_authority \<Rightarrow> bytes option \<Rightarrow> bytes \<Rightarrow> bmo_image_begin \<Rightarrow> authority \<Rightarrow> bool" where
  "authorised_begin cr owner peer guid val b auth \<longleftrightarrow>
     (if is_cbor_tag18 val then
        auth = Artifact \<and> (\<exists>own inner. owner = Some own \<and>
          verify_bmo_signed cr val own BMO_CONTENT_TYPE_IMAGE_BEGIN guid = Ret inner \<and> parse_bmo_image_begin inner = Ret b)
      else parse_bmo_image_begin val = Ret b \<and>
        (auth = Channel \<and> has_channel_provision_authority peer \<or> auth = Unauthenticated \<and> peer = NoPeer \<and> owner = None))"

text \<open>Why a digest may be trusted: the begin message states it; or it comes with the end of an inline transfer
  whose begin was not a signed artifact; or it stands in a meta-payload that is authenticated.\<close>

definition hash_evidence ::
    "crypto \<Rightarrow> bytes option \<Rightarrow> (bytes \<times> bytes) list \<Rightarrow> bmo_image_begin \<Rightarrow> authority \<Rightarrow> bytes \<Rightarrow> bool" where
  "hash_evidence cr owner ms b auth h \<longleftrightarrow>
     expected_hash b = Some h
     \<or> auth \<noteq> Artifact \<and> (\<exists>v. (BMO_KEY_IMAGE_END, v) \<in> set ms \<and> parse_image_end_hash v = Ret (Some h))
     \<or> (\<exists>md inner m. verify_and_extract_meta cr md (meta_signer b) owner = Ret (inner, True) \<and>
          parse_meta_payload inner = Ret m \<and> meta_expected_hash m = Some h)"

definition bmo_step ::
    "crypto \<Rightarrow> bytes option \<Rightarrow> peer_authority \<Rightarrow> bytes option \<Rightarrow> bytes \<times> bytes \<Rightarrow> bmo_session \<Rightarrow> bmo_session \<Rightarrow> bool" where
  "bmo_step cr owner peer guid m s s' \<longleftrightarrow>
     (\<exists>fetch r w. process_bmo_message cr fetch s (fst m) (snd m) owner peer guid = Ret (s', r, w))"

definition bmo_inv ::
    "crypto \<Rightarrow> bytes option \<Rightarrow> peer_authority \<Rightarrow> bytes option \<Rightarrow> (bytes \<times> bytes) list \<Rightarrow> bmo_session \<Rightarrow> bool" where
  "bmo_inv cr owner peer guid ms s \<longleftrightarrow>
     (bmo_st s = AwaitingData \<longrightarrow> (\<exists>v b. (BMO_KEY_IMAGE_BEGIN, v) \<in> set ms \<and> image_begin s = Some b \<and>
        authorised_begin cr owner peer guid v b (session_authority s)))
     \<and> (bmo_st s = Complete \<longrightarrow> (\<exists>v b. (BMO_KEY_IMAGE_BEGIN, v) \<in> set ms \<and>
        authorised_begin cr owner peer guid v b (session_authority s) \<and>
        hash_evidence cr owner ms b (session_authority s) (sha256 cr (image_buffer s))))"

lemma hash_evidence_mono: "hash_evidence cr owner ms b auth h \<Longrightarrow> set ms \<subseteq> set ms' \<Longrightarrow> hash_evidence cr owner ms' b auth h"
  unfolding hash_evidence_def by blast

lemma bmo_inv_mono: "bmo_inv cr owner peer guid ms s \<Longrightarrow> set ms \<subseteq> set ms' \<Longrightarrow> bmo_inv cr owner peer guid ms' s"
  unfolding bmo_inv_def using hash_evidence_mono by blast

lemma bmo_inv_other: "bmo_st s \<noteq> AwaitingData \<Longrightarrow> bmo_st s \<noteq> Complete \<Longrightarrow> bmo_inv cr owner peer guid ms s"
  by (simp add: bmo_inv_def)

lemma url_delivery_Ret:
  assumes "process_bmo_url_delivery cr fetch s b = Ret s'"
  shows "expected_hash b = Some (sha256 cr (image_buffer s')) \<and> session_authority s' = session_authority s"
  using assms by (auto simp: process_bmo_url_delivery_def handle_Ret_iff url_hash_decision_def split: option.splits if_splits)

lemma meta_hash_decision_Ret:
  "meta_hash_decision auth bh au mh = Ret req \<Longrightarrow>
    (\<exists>h\<in>set req. bh = Some h \<or> au \<and> mh = Some h)"
  by (auto simp: meta_hash_decision_def Let_def split: option.splits if_splits)

lemma meta_delivery_Ret:
  assumes "process_bmo_meta_url_delivery cr fetch s b owner = Ret s'"
  shows "hash_evidence cr owner ms b (session_authority s) (sha256 cr (image_buffer s')) \<and> session_authority s' = session_authority s"
proof -
  from assms obtain md inner au m req img where
      meta: "verify_and_extract_meta cr md (meta_signer b) owner = Ret (inner, au)" "parse_meta_payload inner = Ret m"
        "meta_hash_decision (session_authority s) (expected_hash b) au (meta_expected_hash m) = Ret req"
      and img: "\<forall>h\<in>set req. sha256 cr img = h" "s' = s\<lparr>image_buffer := img, bytes_received := length img\<rparr>"
    by (auto simp: process_bmo_meta_url_delivery_def case_option_Ret_iff if_Err_Ret_iff handle_Ret_iff obind_Ret_iff ok_or_Ret_iff)
  from meta_hash_decision_Ret [OF meta(3)] obtain h where "h \<in> set req" "expected_hash b = Some h \<or> au \<and> meta_expected_hash m = Some h"
    by blast
  with meta(1,2) img show ?thesis
    by (auto simp: hash_evidence_def)
qed

lemma authorised_begin_intro:
  assumes "check_bmo_authorization cr val owner peer BMO_CONTENT_TYPE_IMAGE_BEGIN guid = Ret (auth, inner)"
    and "is_authorized auth" and "parse_bmo_image_begin (case inner of Some d \<Rightarrow> d | None \<Rightarrow> val) = Ret b"
  shows "authorised_begin cr owner peer guid val b (to_authority auth)"
  using assms
  by (auto simp: check_bmo_authorization_def handle_Ret_iff unwrap_bmo_signed_def is_authorized_def authorised_begin_def
      has_channel_provision_authority_def split: if_splits option.splits peer_authority.splits)

lemma begin_delivery_Ret:
  assumes "begin_delivery cr fetch s b owner wd = Ret (s', r, w)"
  shows "(bmo_st s' = AwaitingData \<longrightarrow> image_begin s' = Some b \<and> session_authority s' = session_authority s) \<and>
    (bmo_st s' = Complete \<longrightarrow> session_authority s' = session_authority s \<and>
       hash_evidence cr owner ms b (session_authority s) (sha256 cr (image_buffer s')))"
proof -
  have "hash_evidence cr owner ms b auth h" if "expected_hash b = Some h" for auth h
    using that by (simp add: hash_evidence_def)
  with assms show ?thesis
    by (auto simp: begin_delivery_def handle_Ret_iff image_result_def Let_def dest!: url_delivery_Ret meta_delivery_Ret
        split: if_splits option.splits)
qed

lemma image_begin_inv:
  assumes "process_image_begin cr fetch s val owner peer guid = Ret (s', r, w)" and "(BMO_KEY_IMAGE_BEGIN, val) \<in> set ms"
  shows "bmo_inv cr owner peer guid ms s'"
proof -
  obtain auth inner where c: "check_bmo_authorization cr val owner peer BMO_CONTENT_TYPE_IMAGE_BEGIN guid = Ret (auth, inner)"
    using assms(1) by (auto simp: process_image_begin_def obind_Ret_iff)
  show ?thesis
  proof (cases "bmo_st s' = AwaitingData \<or> bmo_st s' = Complete")
    case True
    with assms(1) c obtain b where b: "is_authorized auth" "parse_bmo_image_begin (case inner of Some d \<Rightarrow> d | None \<Rightarrow> val) = Ret b"
      and d: "begin_delivery cr fetch (s\<lparr>session_authority := to_authority auth\<rparr>) b owner (watchdog_extension b) = Ret (s', r, w)"
      by (auto simp: process_image_begin_def image_result_def handle_Ret_iff Let_def split: if_splits)
    from authorised_begin_intro [OF c b] begin_delivery_Ret [OF d, of ms] assms(2) show ?thesis
      unfolding bmo_inv_def by auto
  qed (simp add: bmo_inv_def)
qed

lemma bmo_inv_cong:
  assumes "bmo_inv cr owner peer guid ms s" and "bmo_st s' = bmo_st s" and "image_begin s' = image_begin s"
    and "session_authority s' = session_authority s" and "bmo_st s = Complete \<Longrightarrow> image_buffer s' = image_buffer s"
  shows "bmo_inv cr owner peer guid ms s'"
  using assms unfolding bmo_inv_def by simp

lemma image_data_inv:
  assumes "process_image_data s val = Ret (s', r, w)" and "bmo_inv cr owner peer guid ms s"
  shows "bmo_inv cr owner peer guid ms s'"
  using assms by (auto simp: process_image_data_def handle_Ret_iff split: if_splits intro: bmo_inv_cong)

lemma image_end_Ret:
  assumes "process_image_end cr s val = Ret (s', r, w)" and "bmo_st s = AwaitingData" and "image_begin s = Some b" and "bmo_st s' = Complete"
  shows "\<exists>eh. parse_image_end_hash val = Ret eh \<and>
      inline_hash_decision (session_authority s) (expected_hash b) eh = Ret (sha256 cr (image_buffer s)) \<and>
      session_authority s' = session_authority s \<and> image_buffer s' = image_buffer s"
proof -
  have size: "\<not> (total_size b > 0 \<and> bytes_received s \<noteq> total_size b)"
  proof
    assume "total_size b > 0 \<and> bytes_received s \<noteq> total_size b"
    with assms show False by (auto simp: process_image_end_def image_result_def)
  qed
  show ?thesis
  proof (cases "parse_image_end_hash val")
    case (Ret eh)
    show ?thesis
    proof (cases "inline_hash_decision (session_authority s) (expected_hash b) eh")
      case (Ret h)
      show ?thesis using assms size \<open>parse_image_end_hash val = Ret eh\<close> Ret
        by (auto simp: process_image_end_def image_result_def Let_def split: if_splits)
    qed (use assms size Ret in \<open>auto simp: process_image_end_def image_result_def Let_def\<close>)
  qed (use assms size in \<open>auto simp: process_image_end_def image_result_def Let_def\<close>)
qed
lemma image_end_inv:
  assumes "process_image_end cr s val = Ret (s', r, w)" and "bmo_inv cr owner peer guid ms s" and "(BMO_KEY_IMAGE_END, val) \<in> set ms"
  shows "bmo_inv cr owner peer guid ms s'"
proof (cases "bmo_st s = AwaitingData \<and> bmo_st s' = Complete")
  case True
  with assms(2) obtain v b where v: "(BMO_KEY_IMAGE_BEGIN, v) \<in> set ms" "image_begin s = Some b"
      "authorised_begin cr owner peer guid v b (session_authority s)"
    by (auto simp: bmo_inv_def)
  from image_end_Ret [OF assms(1) _ v(2)] True obtain eh where e: "parse_image_end_hash val = Ret eh"
      "inline_hash_decision (session_authority s) (expected_hash b) eh = Ret (sha256 cr (image_buffer s))"
      "session_authority s' = session_authority s" "image_buffer s' = image_buffer s"
    by auto
  have "hash_evidence cr owner ms b (session_authority s) (sha256 cr (image_buffer s))"
    using assms(3) e(1,2) unfolding inline_hash_decision_def hash_evidence_def by (auto split: option.splits if_splits)
  with v e(3,4) True show ?thesis unfolding bmo_inv_def by auto
next
  case False
  with assms(1,2) show ?thesis
    by (auto simp: process_image_end_def image_result_def handle_Ret_iff Let_def split: if_splits intro: bmo_inv_other)
qed

lemma process_set_inv:
  assumes "process_set cr s val owner peer guid = Ret (s', r, w)" and "bmo_inv cr owner peer guid ms s"
  shows "bmo_inv cr owner peer guid ms s'"
  using assms by (auto simp: process_set_def set_response_def obind_Ret_iff handle_Ret_iff Let_def split: if_splits intro: bmo_inv_other)

interpretation bmo: machine new_session "bmo_step cr owner peer guid" "bmo_inv cr owner peer guid" for cr owner peer guid
proof
  show "bmo_inv cr owner peer guid [] new_session"
    by (simp add: bmo_inv_def new_session_def)
next
  fix ms s m s'
  assume inv: "bmo_inv cr owner peer guid ms s" and "bmo_step cr owner peer guid m s s'"
  then obtain fetch r w where p: "process_bmo_message cr fetch s (fst m) (snd m) owner peer guid = Ret (s', r, w)"
    by (auto simp: bmo_step_def)
  have "bmo_inv cr owner peer guid (ms @ [m]) s"
    using inv by (rule bmo_inv_mono) auto
  with p show "bmo_inv cr owner peer guid (ms @ [m]) s'"
    by (cases m) (auto simp: process_bmo_message_def split: if_splits intro: image_begin_inv image_data_inv image_end_inv process_set_inv)
qed

section \<open>Properties\<close>

text \<open>A session in which the Owner pins the digest of the image and a delegate without provisioning permission delivers it.\<close>

definition sample_hash :: bytes where "sample_hash = replicate 31 0 @ [0x11]"

definition sample_begin :: bytes where "sample_begin = enc (Dict [(Uint 8, Bstr sample_hash)])"

definition sample_messages :: "(bytes \<times> bytes) list" where
  "sample_messages = [(BMO_KEY_IMAGE_BEGIN, sample_signed sample_begin), (BMO_KEY_IMAGE_DATA @ [0x30], [0x11]), (BMO_KEY_IMAGE_END, [])]"

lemma parse_sample_begin: "parse_bmo_image_begin sample_begin = Ret (begin_default\<lparr>expected_hash := Some sample_hash\<rparr>)"
  unfolding sample_begin_def
  by (subst parse_bmo_image_begin_map) (simp_all add: sample_hash_def begin_item_def item_value_def of_item_def as_i32_def
      merge_delivery_def merge_alias_def keys_default_def begin_default_def enc_head_def)

lemma sample_digest: "sha256 toy_crypto [0x11] = sample_hash"
proof -
  have "be 32 17 = sample_hash"
    by (rule be_val_inj) (simp_all add: sample_hash_def be_val_be_id be_val_append)
  then show ?thesis by (simp add: toy_crypto_def)
qed

lemma bmo_keys_differ:
  "BMO_KEY_IMAGE_END \<noteq> BMO_KEY_IMAGE_BEGIN" "take (length BMO_KEY_IMAGE_DATA) BMO_KEY_IMAGE_END \<noteq> BMO_KEY_IMAGE_DATA"
  "take (length BMO_KEY_IMAGE_DATA) (BMO_KEY_IMAGE_DATA @ xs) = BMO_KEY_IMAGE_DATA" "BMO_KEY_IMAGE_DATA @ xs \<noteq> BMO_KEY_IMAGE_BEGIN"
  by (simp_all add: BMO_KEY_IMAGE_DATA_def BMO_KEY_IMAGE_BEGIN_def BMO_KEY_IMAGE_END_def ascii_def)

lemma trace_three:
  assumes "step a s0 s1" and "step b s1 s2" and "step c s2 s3"
  shows "trace step s0 [a, b, c] s3"
proof -
  have "trace step s0 ([] @ [a]) s1" by (rule trace_step [where step = step, OF trace_start assms(1)])
  then have "trace step s0 (([] @ [a]) @ [b]) s2" by (rule trace_step) (rule assms(2))
  then have "trace step s0 ((([] @ [a]) @ [b]) @ [c]) s3" by (rule trace_step) (rule assms(3))
  then show ?thesis by simp
qed

text \<open>A chunk and the end of an inline transfer whose digest is pinned by the begin message.\<close>

lemma bmo_data_step:
  assumes "bmo_st s = AwaitingData"
  shows "process_bmo_message cr fetch s (BMO_KEY_IMAGE_DATA @ xs) [0x11] owner peer guid = Ret (s\<lparr>image_buffer := image_buffer s @ [0x11],
    chunks_received := (chunks_received s + 1) mod 2 ^ 32, bytes_received := (bytes_received s + 1) mod 2 ^ 64\<rparr>, None, None)"
  using assms by (simp add: process_bmo_message_def process_image_data_def bmo_keys_differ)

lemma bmo_end_step:
  assumes "bmo_st s = AwaitingData" and "image_begin s = Some b" and "total_size b = 0" and "expected_hash b = Some (sha256 cr (image_buffer s))"
  shows "process_bmo_message cr fetch s BMO_KEY_IMAGE_END [] owner peer guid = Ret (s\<lparr>bmo_st := Complete\<rparr>,
    Some (BMO_KEY_IMAGE_RESULT, build_bmo_image_result BMO_STATUS_SUCCESS (Some (ascii ''Image received''))), None)"
  using assms by (simp add: process_bmo_message_def process_image_end_def bmo_keys_differ parse_image_end_hash_def inline_hash_decision_def
      image_result_def)

definition sample_awaiting :: "authority \<Rightarrow> bmo_session" where
  "sample_awaiting auth = \<lparr>bmo_st = AwaitingData, image_begin = Some (begin_default\<lparr>expected_hash := Some sample_hash\<rparr>), image_buffer = [],
     chunks_received = 0, bytes_received = 0, session_authority = auth\<rparr>"

definition sample_complete :: "authority \<Rightarrow> bmo_session" where
  "sample_complete auth = (sample_awaiting auth)\<lparr>image_buffer := [0x11], chunks_received := 1, bytes_received := 1, bmo_st := Complete\<rparr>"

lemma sample_transfer:
  "process_bmo_message cr fetch (sample_awaiting auth) (BMO_KEY_IMAGE_DATA @ xs) [0x11] owner peer guid =
     Ret ((sample_awaiting auth)\<lparr>image_buffer := [0x11], chunks_received := 1, bytes_received := 1\<rparr>, None, None)"
  "process_bmo_message toy_crypto fetch ((sample_awaiting auth)\<lparr>image_buffer := [0x11], chunks_received := 1, bytes_received := 1\<rparr>)
     BMO_KEY_IMAGE_END [] owner peer guid = Ret (sample_complete auth,
     Some (BMO_KEY_IMAGE_RESULT, build_bmo_image_result BMO_STATUS_SUCCESS (Some (ascii ''Image received''))), None)"
  using bmo_data_step [of "sample_awaiting auth"]
    bmo_end_step [of "(sample_awaiting auth)\<lparr>image_buffer := [0x11], chunks_received := 1, bytes_received := 1\<rparr>" _ toy_crypto]
  by (simp_all add: sample_awaiting_def sample_complete_def begin_default_def sample_digest)

lemma sample_session:
  "\<exists>s. trace (bmo_step toy_crypto (Some sample_owner) (Delegate False) None) new_session sample_messages s \<and> bmo_st s = Complete"
proof -
  let ?step = "bmo_step toy_crypto (Some sample_owner) (Delegate False) None"
  let ?s = "(sample_awaiting Artifact)\<lparr>image_buffer := [0x11], chunks_received := 1, bytes_received := 1\<rparr>"
  have tag: "is_cbor_tag18 (sample_signed sample_begin)"
    by (simp add: is_cbor_tag18_def sample_signed_def enc_head_def head_byte_def)
  have ct: "BMO_CONTENT_TYPE_IMAGE_BEGIN = sample_ct"
    by (simp add: BMO_CONTENT_TYPE_IMAGE_BEGIN_def sample_ct_def)
  have "length sample_begin < 2 ^ 16"
    by (simp add: sample_begin_def sample_hash_def enc_head_def)
  then have "process_bmo_message toy_crypto (\<lambda>_ _. None) new_session BMO_KEY_IMAGE_BEGIN (sample_signed sample_begin) (Some sample_owner)
      (Delegate False) None = Ret (sample_awaiting Artifact, None, None)"
    by (simp add: process_bmo_message_def process_image_begin_def check_bmo_authorization_def unwrap_bmo_signed_def tag ct
        verify_sample_signed is_authorized_def parse_sample_begin watchdog_extension_def signed_begin_binds_content_def
        begin_delivery_def begin_default_def BMO_DELIVERY_INLINE_def new_session_def sample_awaiting_def)
  then have "?step (BMO_KEY_IMAGE_BEGIN, sample_signed sample_begin) new_session (sample_awaiting Artifact)"
    unfolding bmo_step_def fst_conv snd_conv by blast
  moreover have "?step (BMO_KEY_IMAGE_DATA @ [0x30], [0x11]) (sample_awaiting Artifact) ?s"
    unfolding bmo_step_def fst_conv snd_conv using sample_transfer(1) by blast
  moreover have "?step (BMO_KEY_IMAGE_END, []) ?s (sample_complete Artifact)"
    unfolding bmo_step_def fst_conv snd_conv using sample_transfer(2) by blast
  ultimately have "trace ?step new_session sample_messages (sample_complete Artifact)"
    unfolding sample_messages_def by (rule trace_three)
  then show ?thesis by (intro exI conjI) (assumption, simp add: sample_complete_def sample_awaiting_def)
qed

text \<open>C5: in every session, whatever messages arrive and whatever the network answers: when the session is complete, the
  image it holds is authorised. Some \<open>image-begin\<close> of the session was signed by a party entitled to provision, or came
  unsigned over a channel with provisioning authority; and the digest of the image is stated by that message, or, if
  it was not a signed artifact, by an \<open>image-end\<close>, or by an authenticated meta-payload.\<close>

theorem bmo_complete_evidence:
  assumes "trace (bmo_step cr owner peer guid) new_session ms s" and "bmo_st s = Complete"
  shows "\<exists>v b. (BMO_KEY_IMAGE_BEGIN, v) \<in> set ms \<and>
    authorised_begin cr owner peer guid v b (session_authority s) \<and>
    hash_evidence cr owner ms b (session_authority s) (sha256 cr (image_buffer s))"
  using bmo.inv_trace [OF assms(1)] assms(2) by (auto simp: bmo_inv_def)

theorem bmo_complete_evidence_witness:
  "\<exists>(s :: bmo_session) v b. bmo_st s = Complete \<and> (BMO_KEY_IMAGE_BEGIN, v) \<in> set sample_messages \<and>
    authorised_begin toy_crypto (Some sample_owner) (Delegate False) None v b (session_authority s)"
proof -
  obtain s where s: "trace (bmo_step toy_crypto (Some sample_owner) (Delegate False) None) new_session sample_messages s" "bmo_st s = Complete"
    using sample_session by blast
  show ?thesis using s(2) bmo_complete_evidence [OF s] by (intro exI [of _ s]) blast
qed

text \<open>C6: a delegate that may onboard but not provision cannot choose what the device boots: with such a peer a complete
  session holds an image whose digest is stated by an \<open>image-begin\<close> that a provisioner signed for this device, or by a
  meta-payload signed by the publisher which that message names, or by a provisioner.\<close>

theorem onboard_delegate_cannot_provision:
  assumes "trace (bmo_step cr (Some own) (Delegate False) guid) new_session ms s" and "bmo_st s = Complete"
  shows "\<exists>v s1 k b. (BMO_KEY_IMAGE_BEGIN, v) \<in> set ms \<and> parse_cose_sign1 v = Ret s1 \<and> provisioner cr own k \<and>
    verify_es256 cr (build_sig_structure (protected_header s1) (domain_aad (aad_tag_str BMO_PROVISION) 200) (payload s1)) (signature s1) k \<and>
    evaluate_bmo_scope (protected_header s1) guid = Ret True \<and> parse_bmo_image_begin (payload s1) = Ret b \<and>
    (expected_hash b = Some (sha256 cr (image_buffer s)) \<or>
     (\<exists>md inner m. verify_and_extract_meta cr md (meta_signer b) (Some own) = Ret (inner, True) \<and>
        parse_meta_payload inner = Ret m \<and> meta_expected_hash m = Some (sha256 cr (image_buffer s))))"
proof -
  have "bmo_inv cr (Some own) (Delegate False) guid ms s"
    by (rule bmo.inv_trace [OF assms(1)])
  with assms(2) obtain v b inner where v: "(BMO_KEY_IMAGE_BEGIN, v) \<in> set ms"
      "verify_bmo_signed cr v own BMO_CONTENT_TYPE_IMAGE_BEGIN guid = Ret inner" "parse_bmo_image_begin inner = Ret b"
      and h: "hash_evidence cr (Some own) ms b Artifact (sha256 cr (image_buffer s))"
    by (auto simp: bmo_inv_def authorised_begin_def has_channel_provision_authority_def split: if_splits)
  from v(2) obtain s1 k where "parse_cose_sign1 v = Ret s1" "inner = payload s1" "provisioner cr own k"
      "verify_es256 cr (build_sig_structure (protected_header s1) (domain_aad (aad_tag_str BMO_PROVISION) 200) (payload s1)) (signature s1) k"
      "evaluate_bmo_scope (protected_header s1) guid = Ret True"
    unfolding verify_bmo_signed_Ret using artifact_signer_provisioner by blast
  with v h show ?thesis
    unfolding hash_evidence_def by blast
qed

theorem onboard_delegate_cannot_provision_witness:
  "\<exists>v s1 k b. (BMO_KEY_IMAGE_BEGIN, v) \<in> set sample_messages \<and> parse_cose_sign1 v = Ret s1 \<and>
    provisioner toy_crypto sample_owner k \<and> parse_bmo_image_begin (payload s1) = Ret b"
proof -
  obtain s where "trace (bmo_step toy_crypto (Some sample_owner) (Delegate False) None) new_session sample_messages s" "bmo_st s = Complete"
    using sample_session by blast
  from onboard_delegate_cannot_provision [OF this] show ?thesis by blast
qed

section \<open>Well-formed sessions\<close>

text \<open>The ranges of the machine integers, and the count of the bytes received, which is the length of the buffer in \<open>u64\<close>.\<close>

definition wf_begin :: "bmo_image_begin \<Rightarrow> bool" where
  "wf_begin b \<longleftrightarrow> total_size b < 2 ^ 64 \<and> estimated_duration b < 2 ^ 64 \<and> delivery_mode b < 2 ^ 8"

definition wf_session :: "bmo_session \<Rightarrow> bool" where
  "wf_session s \<longleftrightarrow> chunks_received s < 2 ^ 32 \<and> bytes_received s mod 2 ^ 64 = length (image_buffer s) mod 2 ^ 64 \<and>
     (\<forall>b. image_begin s = Some b \<longrightarrow> wf_begin b)"

lemma read_uint_Ret_bound:
  assumes "read_uint d p = (Ret n, q)"
  shows "n < 2 ^ 64"
proof -
  have "wp (read_major 0 d) (\<lambda>v _. v < 2 ^ 64) (\<lambda>_ _. True) p"
    by (rule read_major_wp) auto
  from wp_Ret [OF this] assms show ?thesis by (simp add: read_uint_def)
qed

lemma repeat_Ret_inv:
  assumes "repeat n body s p = (Ret s', q)" and "I s" and "\<And>s p s' q. I s \<Longrightarrow> body s p = (Ret s', q) \<Longrightarrow> I s'"
  shows "I s'"
  using assms(1,2)
proof (induction n arbitrary: s p)
  case (Suc n)
  from Suc.prems(1) obtain s1 p1 where "body s p = (Ret s1, p1)" "repeat n body s1 p1 = (Ret s', q)"
    by (auto simp: bind_Ret_iff)
  with Suc.IH assms(3) Suc.prems(2) show ?case by blast
qed simp

lemma parse_begin_entry_wf:
  assumes "wf_begin (fst s)" and "parse_begin_entry d s p = (Ret s', q)"
  shows "wf_begin (fst s')"
proof -
  obtain b g l where [simp]: "s = (b, g, l)" by (cases s) auto
  show ?thesis
    using assms unfolding parse_begin_entry_def Let_def
    by (auto simp: Ret_iffs wf_begin_def split: if_splits dest: read_uint_Ret_bound)
qed

lemma parse_bmo_image_begin_wf:
  assumes "parse_bmo_image_begin d = Ret b"
  shows "wf_begin b"
proof -
  from assms obtain n b0 g l p q where
    r: "repeat n (parse_begin_entry d) (begin_default, keys_default, keys_default) p = (Ret (b0, g, l), q)" "merge_delivery b0 g l = Ret b"
    by (auto simp: parse_bmo_image_begin_def Ret_iffs')
  have "wf_begin (fst (b0, g, l))"
    by (rule repeat_Ret_inv [where I = "\<lambda>s. wf_begin (fst s)", OF r(1)])
      (simp add: wf_begin_def begin_default_def, rule parse_begin_entry_wf, assumption+)
  with r(2) show ?thesis
    by (auto simp: merge_delivery_def obind_Ret_iff wf_begin_def split: option.splits)
qed

lemma wf_session_simps [simp]:
  "wf_session (s\<lparr>bmo_st := st\<rparr>) = wf_session (s :: bmo_session)"
  "wf_session (s\<lparr>session_authority := a\<rparr>) = wf_session s"
  "wf_session (s\<lparr>image_begin := Some b\<rparr>) \<longleftrightarrow> wf_session (s\<lparr>image_begin := None\<rparr>) \<and> wf_begin b"
  by (auto simp: wf_session_def)

lemma wf_session_append:
  assumes "wf_session s"
  shows "wf_session (s\<lparr>image_buffer := image_buffer s @ c, chunks_received := (chunks_received s + 1) mod 2 ^ 32,
    bytes_received := (bytes_received s + length c) mod 2 ^ 64\<rparr>)"
proof -
  have "(bytes_received s + length c) mod 2 ^ 64 = (length (image_buffer s) + length c) mod 2 ^ 64"
    by (rule mod_add_cong) (use assms in \<open>simp_all add: wf_session_def\<close>)
  with assms show ?thesis by (simp add: wf_session_def)
qed

lemma url_delivery_wf:
  assumes "process_bmo_url_delivery cr fetch s b = Ret s'" and "wf_session s"
  shows "wf_session (s'\<lparr>image_begin := None\<rparr>)"
  using assms by (auto simp: process_bmo_url_delivery_def handle_Ret_iff wf_session_def split: option.splits if_splits)

lemma meta_url_delivery_wf:
  assumes "process_bmo_meta_url_delivery cr fetch s b owner = Ret s'" and "wf_session s"
  shows "wf_session (s'\<lparr>image_begin := None\<rparr>)"
  using assms
  by (auto simp: process_bmo_meta_url_delivery_def handle_Ret_iff obind_Ret_iff wf_session_def split: option.splits if_splits)

lemma begin_delivery_wf:
  assumes "begin_delivery cr fetch s b owner wd = Ret (s', r)" and "wf_session s" and "wf_begin b"
  shows "wf_session s'"
proof -
  have "wf_session (s\<lparr>bmo_st := AwaitingData, image_buffer := [], image_begin := Some b, chunks_received := 0, bytes_received := 0\<rparr>)"
    using assms(3) by (simp add: wf_session_def)
  with assms show ?thesis
    unfolding begin_delivery_def
    by (auto simp: handle_Ret_iff image_result_def Let_def split: option.splits if_splits dest: url_delivery_wf meta_url_delivery_wf)
qed

lemma wf_session_step:
  assumes "bmo_step cr owner peer guid m s s'" and "wf_session s"
  shows "wf_session s'"
proof -
  have "wf_session s1" if "process_image_begin cr fetch s v owner peer guid = Ret (s1, r)" for fetch v s1 r
    using that assms(2) unfolding process_image_begin_def
    by (auto simp: handle_Ret_iff obind_Ret_iff image_result_def Let_def split: if_splits
        dest: begin_delivery_wf parse_bmo_image_begin_wf)
  moreover have "wf_session s1" if "process_image_data s v = Ret (s1, r)" for v s1 r
    using that assms(2) wf_session_append unfolding process_image_data_def
    by (auto simp: handle_Ret_iff split: if_splits)
  moreover have "wf_session s1" if "process_image_end cr s v = Ret (s1, r)" for v s1 r
    using that assms(2) unfolding process_image_end_def
    by (auto simp: handle_Ret_iff image_result_def Let_def split: if_splits)
  moreover have "wf_session s1" if "process_set cr s v owner peer guid = Ret (s1, r)" for v s1 r
    using that assms(2) unfolding process_set_def
    by (auto simp: handle_Ret_iff obind_Ret_iff set_response_def Let_def split: if_splits)
  ultimately show ?thesis
    using assms by (auto simp: bmo_step_def process_bmo_message_def split: if_splits)
qed

interpretation wf: machine new_session "bmo_step cr owner peer guid" "\<lambda>_. wf_session" for cr owner peer guid
  by unfold_locales (auto simp: wf_session_def new_session_def dest: wf_session_step)

text \<open>C30: the numbers of a session stay in their types and mean what they say, in every session: the byte counter is the length of the
  image buffer, which the size check of \<open>image-end\<close> relies on, and the sizes and the mode of a begin message are in range.\<close>

theorem bmo_session_well_formed:
  assumes "trace (bmo_step cr owner peer guid) new_session ms s"
  shows "wf_session s"
  by (rule wf.inv_trace [OF assms])

theorem bmo_session_well_formed_witness: "\<exists>s. trace (bmo_step toy_crypto (Some sample_owner) (Delegate False) None) new_session sample_messages s \<and> wf_session s"
proof -
  obtain s where "trace (bmo_step toy_crypto (Some sample_owner) (Delegate False) None) new_session sample_messages s"
    using sample_session by blast
  from this bmo_session_well_formed [OF this] show ?thesis by blast
qed

end
