(* ===== verification/Device_Env.thy ===== *)
theory Device_Env
  imports Fdo_Cbor
begin

text \<open>
  What the protocol drivers are run against: the network, the TPM and the firmware services, as the parameter
  \<open>device_env\<close>. Each of its functions takes the history of the run, the list of what the device has done
  so far, so that no answer is assumed to be honest, repeatable or independent of what was sent. The functions are
  \<open>http_post_with_session\<close> and \<open>http_get\<close> of \<open>src/src/http_api.rs\<close> and the operations of
  \<open>src/src/tpm.rs\<close> that \<open>fdo.rs\<close> calls. A driver is a computation whose state is the history.

  \<open>spec\<close> is the program logic of the drivers: what a run returns and what it adds to the history, whatever
  the environment answers and wherever the run ends.
\<close>

section \<open>The environment\<close>

record http_post_response =
  resp_body :: bytes
  resp_auth_token :: "bytes option"
  resp_message_type :: "nat option"

record tpm_ecdh_key_pair =
  ecdh_handle :: nat
  public_x :: bytes
  public_y :: bytes

datatype event =
    Post bytes bytes nat "bytes option" \<comment> \<open>URL, body, message type, session token\<close>
  | GetRandom nat
  | CreateEcdhKey
  | EcdhDerive nat bytes
  | SignWith nat bytes
  | FlushContext nat
  | FlushAllTransient
  | BmoMessage bytes bytes \<comment> \<open>a message is given to the BMO module\<close>
  | Watchdog nat
  | Chainload bytes

record device_env =
  http_post_with_session :: "event list \<Rightarrow> bytes \<Rightarrow> bytes \<Rightarrow> nat \<Rightarrow> bytes option \<Rightarrow> http_post_response option"
  http_get :: "event list \<Rightarrow> nat \<Rightarrow> bytes \<Rightarrow> bytes option"
  tpm_get_random :: "event list \<Rightarrow> nat \<Rightarrow> bytes option"
  tpm_create_ecdh_key :: "event list \<Rightarrow> tpm_ecdh_key_pair option"
  tpm_ecdh_derive :: "event list \<Rightarrow> nat \<Rightarrow> bytes \<Rightarrow> bytes option"
  tpm_sign_with_persistent :: "event list \<Rightarrow> nat \<Rightarrow> bytes \<Rightarrow> bytes option"
  tpm_hmac :: "event list \<Rightarrow> nat \<Rightarrow> bytes \<Rightarrow> bytes option"

type_synonym 'a io = "(event list, fdo_error, 'a) comp"

text \<open>A call of the environment, the history, and a call whose result does not matter.\<close>

definition call :: "event \<Rightarrow> (event list \<Rightarrow> 'a) \<Rightarrow> 'a io" where
  "call e f h = (Ret (f h), h @ [e])"

definition history :: "event list io" where
  "history h = (Ret h, h)"

definition perform :: "event \<Rightarrow> unit io" where
  "perform e = call e (\<lambda>_. ())"

section \<open>Reasoning about runs\<close>

definition spec :: "(event list, 'e, 'a) comp \<Rightarrow> (('e, 'a) outcome \<Rightarrow> event list \<Rightarrow> bool) \<Rightarrow> bool" where
  "spec m Q \<longleftrightarrow> (\<forall>h. \<exists>r ev. m h = (r, h @ ev) \<and> Q r ev)"

text \<open>What a run adds to the history.\<close>

definition new_events :: "(event list, 'e, 'a) comp \<Rightarrow> event list \<Rightarrow> event list" where
  "new_events m h = drop (length h) (snd (m h))"

lemma spec_new_events: "spec m Q \<Longrightarrow> m h = (fst (m h), h @ new_events m h) \<and> Q (fst (m h)) (new_events m h)"
  unfolding spec_def new_events_def by (metis append_eq_conv_conj fst_conv snd_conv)

lemma spec_Ret: "spec m Q \<Longrightarrow> m h = (r, h') \<Longrightarrow> \<exists>ev. h' = h @ ev \<and> Q r ev"
  unfolding spec_def by (metis prod.inject)

lemma spec_conseq: "spec m Q \<Longrightarrow> (\<And>r ev. Q r ev \<Longrightarrow> Q' r ev) \<Longrightarrow> spec m Q'"
  unfolding spec_def by blast

named_theorems spec_intro

lemma spec_ret [spec_intro]: "Q (Ret x) [] \<Longrightarrow> spec (ret x) Q"
  and spec_throw [spec_intro]: "Q (Err e) [] \<Longrightarrow> spec (throw e) Q"
  and spec_panic [spec_intro]: "Q Panic [] \<Longrightarrow> spec panic Q"
  and spec_diverge [spec_intro]: "Q Diverge [] \<Longrightarrow> spec diverge Q"
  and spec_lift [spec_intro]: "Q r [] \<Longrightarrow> spec (lift r) Q"
  by (auto simp: spec_def lift_def)

lemma spec_guard [spec_intro]: "(c \<Longrightarrow> Q (Ret ()) []) \<Longrightarrow> (\<not> c \<Longrightarrow> Q (Err e) []) \<Longrightarrow> spec (guard c e) Q"
  by (auto simp: spec_def guard_def)

lemma spec_of_option [spec_intro]: "(\<And>y. x = Some y \<Longrightarrow> Q (Ret y) []) \<Longrightarrow> Q (Err e) [] \<Longrightarrow> spec (of_option e x) Q"
  by (auto simp: spec_def of_option_def split: option.splits)

lemma spec_history [spec_intro]: "(\<And>h. Q (Ret h) []) \<Longrightarrow> spec history Q"
  by (auto simp: spec_def history_def)

lemma spec_call [spec_intro]: "(\<And>x. Q (Ret x) [e]) \<Longrightarrow> spec (call e f) Q"
  by (auto simp: spec_def call_def)

lemma spec_perform [spec_intro]: "Q (Ret ()) [e] \<Longrightarrow> spec (perform e) Q"
  by (auto simp: spec_def perform_def call_def)

text \<open>The result of a failed step, at another type.\<close>

fun failed :: "('e, 'a) outcome \<Rightarrow> ('e, 'b) outcome option" where
  "failed (Ret x) = None"
| "failed (Err e) = Some (Err e)"
| "failed Panic = Some Panic"
| "failed Diverge = Some Diverge"

lemma spec_bind:
  assumes "spec m Q" and "\<And>x ev. Q (Ret x) ev \<Longrightarrow> spec (f x) (\<lambda>r ev'. Q' r (ev @ ev'))"
    and "\<And>r r' ev. Q r ev \<Longrightarrow> failed r = Some r' \<Longrightarrow> Q' r' ev"
  shows "spec (bind m f) Q'"
  unfolding spec_def
proof
  fix h
  obtain r ev where m: "m h = (r, h @ ev)" "Q r ev"
    using assms(1) unfolding spec_def by blast
  show "\<exists>r ev. bind m f h = (r, h @ ev) \<and> Q' r ev"
  proof (cases r)
    case (Ret x)
    with m(2) assms(2) obtain r' ev' where "f x (h @ ev) = (r', (h @ ev) @ ev')" "Q' r' (ev @ ev')"
      unfolding spec_def by blast
    with m(1) Ret show ?thesis by (simp add: bind_def)
  qed (use m assms(3) [of r ev] in \<open>simp_all add: bind_def\<close>)
qed

lemma spec_history_bind: "(\<And>h. spec (f h) Q) \<Longrightarrow> spec (bind history f) Q"
  unfolding spec_def by (simp add: bind_def history_def)

lemma spec_perform_bind: "spec (f ()) (\<lambda>r ev. Q r (e # ev)) \<Longrightarrow> spec (bind (perform e) f) Q"
  by (rule spec_bind [where Q = "\<lambda>r ev. r = Ret () \<and> ev = [e]"]) (auto intro: spec_perform)

lemma spec_or_err [spec_intro]:
  assumes "spec m (\<lambda>r. Q (ok_or r e))"
  shows "spec (or_err m e) Q"
  unfolding spec_def
proof
  fix h
  obtain r ev where "m h = (r, h @ ev)" "Q (ok_or r e) ev"
    using assms unfolding spec_def by blast
  then show "\<exists>r ev. or_err m e h = (r, h @ ev) \<and> Q r ev"
    by (cases r) (simp_all add: or_err_def)
qed

text \<open>What every event of a run satisfies.\<close>

abbreviation emits :: "(event \<Rightarrow> bool) \<Rightarrow> (event list, 'e, 'a) comp \<Rightarrow> bool" where
  "emits P m \<equiv> spec m (\<lambda>_ ev. \<forall>e\<in>set ev. P e)"

lemma emits_bind [spec_intro]:
  assumes "emits P m" and "\<And>x. emits P (f x)"
  shows "emits P (bind m f)"
proof (rule spec_bind [OF assms(1)])
  show "spec (f x) (\<lambda>_ ev'. \<forall>e\<in>set (ev @ ev'). P e)" if "\<forall>e\<in>set ev. P e" for x ev
    by (rule spec_conseq [OF assms(2)]) (use that in auto)
qed

lemma emits_repeat [spec_intro]: "(\<And>s. emits P (body s)) \<Longrightarrow> emits P (repeat n body s)"
  by (induction n arbitrary: s) (auto intro!: spec_intro)

lemma or_err_simps: "or_err (ret x) e = ret x" "or_err (throw f) e = throw e" "or_err panic e = panic" "or_err diverge e = diverge"
  by (simp_all add: fun_eq_iff or_err_def)

lemma attempt_simps: "attempt (ret x) = ret (Some x)" "attempt (throw f) = ret None" "attempt panic = panic" "attempt diverge = diverge"
  by (simp_all add: fun_eq_iff attempt_def)

lemma lift_simps: "lift (Ret x) = ret x" "lift (Err e) = throw e" "lift Panic = panic" "lift Diverge = diverge"
  by (simp_all add: fun_eq_iff lift_def)

text \<open>Inversion of successful runs.\<close>

lemma call_Ret_iff: "call e f h = (Ret x, h') \<longleftrightarrow> x = f h \<and> h' = h @ [e]"
  by (auto simp: call_def)

lemma perform_Ret_iff: "perform e h = (Ret u, h') \<longleftrightarrow> h' = h @ [e]"
  by (auto simp: perform_def call_def)

lemma history_Ret_iff: "history h = (Ret g, h') \<longleftrightarrow> g = h \<and> h' = h"
  by (auto simp: history_def)

lemmas io_Ret_iffs = Ret_iffs' call_Ret_iff perform_Ret_iff history_Ret_iff

end
