(* ===== verification/To2.thy ===== *)
theory To2
  imports Fdo_Msg Bmo Device_Env
begin

text \<open>
  The drivers of TO1 and TO2 in \<open>src/src/fdo.rs\<close> (lines 1783 to 2690): \<open>perform_to2\<close>, in the steps
  its comments number, and \<open>perform_to1\<close>, as computations over the environment of \<open>Device_Env\<close>. Log calls
  are not modelled; their arguments are evaluated at the level \<open>debug\<close> only.

  Shown: no encrypted message leaves the device, and no service info is acted on, before the voucher was verified
  down to a key that signed this session's ProveOVHdr20; what is chainloaded was provisioned by a party entitled to;
  the IVs of all encrypted messages are distinct; the service info exchange ends after at most 100000 rounds, whatever the
  peer answers.
\<close>

section \<open>Steps shared by the drivers\<close>

definition MSG_TO1_HELLO_RV :: nat where "MSG_TO1_HELLO_RV = 30"
definition MSG_TO1_PROVE_TO_RV :: nat where "MSG_TO1_PROVE_TO_RV = 32"
definition MSG_TO2_HELLO_DEVICE_PROBE :: nat where "MSG_TO2_HELLO_DEVICE_PROBE = 80"
definition MSG_TO2_PROVE_DEVICE :: nat where "MSG_TO2_PROVE_DEVICE = 82"
definition MSG_TO2_GET_OV_NEXT_ENTRY :: nat where "MSG_TO2_GET_OV_NEXT_ENTRY = 84"
definition MSG_TO2_DEVICE_SVC_INFO_RDY :: nat where "MSG_TO2_DEVICE_SVC_INFO_RDY = 86"
definition MSG_TO2_DEVICE_SVC_INFO :: nat where "MSG_TO2_DEVICE_SVC_INFO = 88"
definition MSG_TO2_DONE :: nat where "MSG_TO2_DONE = 90"
definition MAX_SERVICE_INFO_ROUNDS :: nat where "MAX_SERVICE_INFO_ROUNDS = 100000"

text \<open>Send a message and refuse an FDO error in the answer.\<close>

definition exchange :: "device_env \<Rightarrow> bytes \<Rightarrow> nat \<Rightarrow> bytes \<Rightarrow> bytes option \<Rightarrow> http_post_response io" where
  "exchange env base msg_type body token =
     (let url = base @ ascii ''/fdo/200/msg/'' @ dec_nat msg_type in
      bind (call (Post url body msg_type token) (\<lambda>h. http_post_with_session env h url body msg_type token)) (\<lambda>r.
      bind (of_option HttpError r) (\<lambda>resp.
      bind (lift (check_fdo_error (resp_message_type resp) (resp_body resp))) (\<lambda>_.
      ret resp))))"

definition get_random :: "device_env \<Rightarrow> nat \<Rightarrow> bytes io" where
  "get_random env n = bind (call (GetRandom n) (\<lambda>h. tpm_get_random env h n)) (of_option CryptoError)"

text \<open>\<open>copy_from_slice\<close> into a 16-byte array panics on another length.\<close>

definition get_random16 :: "device_env \<Rightarrow> bytes io" where
  "get_random16 env = bind (get_random env 16) (\<lambda>v. if length v = 16 then ret v else panic)"

definition create_ecdh_key :: "device_env \<Rightarrow> tpm_ecdh_key_pair io" where
  "create_ecdh_key env = bind (call CreateEcdhKey (tpm_create_ecdh_key env)) (of_option CryptoError)"

text \<open>Seal with the next IV of the session, send, and open the answer.\<close>

definition sealed_exchange ::
    "device_env \<Rightarrow> aead \<Rightarrow> bytes \<Rightarrow> bytes option \<Rightarrow> bytes \<Rightarrow> nat \<Rightarrow> bytes \<Rightarrow> 64 word \<Rightarrow> (bytes \<times> 64 word) io" where
  "sealed_exchange env ae base token key msg_type plaintext counter =
     (case next_session_iv counter of (nonce, counter') \<Rightarrow>
      bind (lift (cose_encrypt0_a256gcm ae key nonce plaintext)) (\<lambda>encrypted_msg.
      bind (exchange env base msg_type encrypted_msg token) (\<lambda>resp.
      bind (lift (cose_decrypt0_a256gcm ae key (resp_body resp))) (\<lambda>plain.
      ret (plain, counter')))))"

section \<open>TO2: hello and proof of the device\<close>

definition perform_to2_hello ::
    "device_env \<Rightarrow> crypto \<Rightarrow> bytes \<Rightarrow> bytes \<Rightarrow> (to2_hello_device_ack \<times> bytes option \<times> bytes) io" where
  "perform_to2_hello env cr owner_url guid =
     bind (get_random16 env) (\<lambda>sugar.
     let hello_probe = build_to2_hello_device_probe guid sugar in
     bind (exchange env owner_url MSG_TO2_HELLO_DEVICE_PROBE hello_probe None) (\<lambda>resp.
     bind (lift (parse_to2_hello_device_ack (resp_body resp))) (\<lambda>ack.
     bind (lift (verify_hash_prev cr (hash_prev_type ack) (ack_hash_prev ack) hello_probe)) (\<lambda>_.
     ret (ack, resp_auth_token resp, resp_body resp)))))"

text \<open>\<open>xA\<close> in the FDO format, lengths as \<open>u16\<close>.\<close>

definition kex_field :: "bytes \<Rightarrow> bytes" where
  "kex_field v = be 2 (length v mod 2 ^ 16) @ v"

definition prove_device ::
    "device_env \<Rightarrow> crypto \<Rightarrow> bytes \<Rightarrow> bytes \<Rightarrow> nat \<Rightarrow> to2_hello_device_ack \<Rightarrow> bytes option \<Rightarrow> bytes \<Rightarrow> (bytes \<times> bytes \<times> bytes) io" where
  "prove_device env cr owner_url guid device_key_handle ack session_token hello_ack_raw =
     bind (create_ecdh_key env) (\<lambda>ecdh_key.
     bind (get_random env 16) (\<lambda>random.
     let xa_public_key = kex_field (public_x ecdh_key) @ kex_field (public_y ecdh_key) @ kex_field random in
     bind (get_random16 env) (\<lambda>nonce_to2_prove_ov_prep.
     let hash_prev2 = sha256 cr hello_ack_raw in
     bind (perform (FlushContext (ecdh_handle ecdh_key))) (\<lambda>_.
     let fdo_payload = build_to2_prove_device_payload KEX_SUITE_20 (cipher_suite ack) xa_public_key nonce_to2_prove_ov_prep hash_prev2;
         pay = build_to2_prove_device_eat guid (nonce_to2_prove_dv ack) fdo_payload;
         protected = build_cose_protected_header;
         external_aad = (if supports_fdo20 ack then build_prove_device_aad else []);
         sig_structure = build_cose_sig_structure protected external_aad pay;
         sig_hash = sha256 cr sig_structure in
     bind (call (SignWith device_key_handle sig_hash) (\<lambda>h. tpm_sign_with_persistent env h device_key_handle sig_hash)) (\<lambda>s.
     bind (of_option CryptoError s) (\<lambda>sg.
     bind (exchange env owner_url MSG_TO2_PROVE_DEVICE (build_to2_prove_device_from_parts protected pay sg) session_token) (\<lambda>resp.
     ret (resp_body resp, xa_public_key, nonce_to2_prove_ov_prep))))))))"

definition establish_keys ::
    "device_env \<Rightarrow> crypto \<Rightarrow> bytes \<Rightarrow> bytes \<Rightarrow> (to2_prove_ov_hdr20_payload \<times> to2_session_keys) io" where
  "establish_keys env cr response_prove_ov xa_public_key =
     bind (lift (extract_cose_payload response_prove_ov)) (\<lambda>pay.
     bind (lift (parse_prove_ov_hdr_payload pay)) (\<lambda>prove_ov.
     bind (create_ecdh_key env) (\<lambda>ecdh_key2.
     let xb = xb_key_exchange prove_ov in
     bind (call (EcdhDerive (ecdh_handle ecdh_key2) xb) (\<lambda>h. tpm_ecdh_derive env h (ecdh_handle ecdh_key2) xb)) (\<lambda>r.
     bind (of_option CryptoError r) (\<lambda>ecdh_result.
     bind (or_err (lift (parse_kex_random xb)) CborError) (\<lambda>xb_rand.
     bind (or_err (lift (parse_kex_random xa_public_key)) CborError) (\<lambda>xa_rand.
     bind (perform (FlushContext (ecdh_handle ecdh_key2))) (\<lambda>_.
     ret (prove_ov, derive_session_keys cr (build_ecdh_shse ecdh_result xa_rand xb_rand))))))))))"

section \<open>TO2: the voucher and the Owner\<close>

definition parse_ov_next_entry :: "bytes \<Rightarrow> (fdo_error, nat \<times> bytes) outcome" where
  "parse_ov_next_entry d = run (
     bind (read_array_len d) (\<lambda>arr_len.
     bind (guard (arr_len = 2) CborError) (\<lambda>_.
     bind (read_u8 d) (\<lambda>n.
     bind (read_bytes d) (\<lambda>entry_bytes.
     ret (n, entry_bytes))))))"

definition fetch_ov_entries :: "device_env \<Rightarrow> bytes \<Rightarrow> bytes option \<Rightarrow> nat \<Rightarrow> bytes list io" where
  "fetch_ov_entries env owner_url session_token n =
     repeat n (\<lambda>ov_entries.
       let entry_num = length ov_entries in
       bind (exchange env owner_url MSG_TO2_GET_OV_NEXT_ENTRY (build_to2_get_ov_next_entry (u8 entry_num)) session_token) (\<lambda>resp.
       bind (lift (parse_ov_next_entry (resp_body resp))) (\<lambda>(resp_entry_num, entry_bytes).
       bind (guard (resp_entry_num = entry_num) ProtocolError) (\<lambda>_.
       ret (ov_entries @ [entry_bytes]))))) []"

text \<open>Who signed ProveOVHdr20, and with which authority: a delegate if its payload carries a chain, else the Owner.\<close>

definition verify_prove_ov_signer ::
    "crypto \<Rightarrow> to2_prove_ov_hdr20_payload \<Rightarrow> cose_sign1 \<Rightarrow> bytes \<Rightarrow> (fdo_error, peer_authority \<times> bytes) outcome" where
  "verify_prove_ov_signer cr prove_ov prove_ov_s1 owner_key =
     (let prove_ov_aad = domain_aad (aad_tag_str PROVE_OV_HDR) FDO_PROTOCOL_VERSION in
      case delegate_chain prove_ov of
        Some cert_ders \<Rightarrow>
          obind (ok_or (verify_delegate_chain cr cert_ders owner_key) CryptoError) (\<lambda>chain_result.
          if \<not> has_onboard chain_result then Err CryptoError
          else if \<not> verify_sign1 cr prove_ov_s1 prove_ov_aad (leaf_key_point chain_result) then Err CryptoError
          else Ret (Delegate (has_provision chain_result), leaf_key_point chain_result))
      | None \<Rightarrow>
          if \<not> verify_sign1 cr prove_ov_s1 prove_ov_aad owner_key then Err CryptoError
          else Ret (OwnerDirect, owner_key))"

definition verify_to1d ::
    "crypto \<Rightarrow> bytes \<Rightarrow> bytes \<Rightarrow> bytes option \<Rightarrow> (fdo_error, unit) outcome" where
  "verify_to1d cr ov_header_cbor owner_key to1d = (case to1d of
     None \<Rightarrow> Ret ()
   | Some blob \<Rightarrow>
       if blob = [] then Ret ()
       else
         obind (ok_or (parse_cose_sign1 blob) CborError) (\<lambda>s1.
         obind (ok_or (parse_ov_header cr ov_header_cbor) CborError) (\<lambda>header.
         let aad = domain_aad (aad_tag_str OWNER_SIGN) (protver header) in
         obind (ok_or (to1d_delegate_chain (payload s1)) CryptoError) (\<lambda>to1d_chain.
         case to1d_chain of
           Some cert_ders \<Rightarrow>
             obind (ok_or (verify_delegate_chain cr cert_ders owner_key) CryptoError) (\<lambda>chain_result.
             if \<not> has_redirect chain_result then Err CryptoError
             else if \<not> verify_sign1 cr s1 aad (leaf_key_point chain_result) then Err CryptoError
             else Ret ())
         | None \<Rightarrow> if \<not> verify_sign1 cr s1 aad owner_key then Err CryptoError else Ret ()))))"

text \<open>Step 3b. \<open>Panic\<close> in the voucher or delegate code does not occur, but is passed on.\<close>

definition verify_owner ::
    "device_env \<Rightarrow> crypto \<Rightarrow> bytes \<Rightarrow> nat \<Rightarrow> to2_prove_ov_hdr20_payload \<Rightarrow> bytes list \<Rightarrow> bytes \<Rightarrow> bytes \<Rightarrow> bytes option
      \<Rightarrow> (bytes \<times> peer_authority \<times> bytes) io" where
  "verify_owner env cr guid hmac_key_handle prove_ov ov_entries response_prove_ov nonce_to2_prove_ov_prep to1d =
     bind history (\<lambda>h.
     bind (or_err (lift (verify_voucher cr (tpm_hmac env h) (ov_header prove_ov) (hmac_raw prove_ov) (hmac prove_ov)
         hmac_key_handle guid ov_entries)) CryptoError) (\<lambda>owner_key.
     bind (or_err (lift (parse_cose_sign1 response_prove_ov)) CborError) (\<lambda>prove_ov_s1.
     bind (lift (verify_prove_ov_signer cr prove_ov prove_ov_s1 owner_key)) (\<lambda>(peer, prove_ov_signer).
     bind (lift (verify_nonce_echo nonce_to2_prove_ov_prep (nonce_to2_prove_ov prove_ov))) (\<lambda>_.
     bind (lift (verify_to1d cr (ov_header prove_ov) owner_key to1d)) (\<lambda>_.
     ret (owner_key, peer, prove_ov_signer)))))))"

section \<open>TO2: service info\<close>

text \<open>What the later steps use of the earlier ones.\<close>

record to2_session =
  ts_token :: "bytes option"
  ts_nonce_prove_dv :: bytes
  ts_key :: bytes
  ts_owner :: bytes
  ts_peer :: peer_authority
  ts_signer :: bytes

definition BMO_PREFIX :: bytes where "BMO_PREFIX = ascii ''fdo.bmo:''"

text \<open>\<open>process_bmo_message\<close> has no error value.\<close>

definition bmo_message ::
    "device_env \<Rightarrow> crypto \<Rightarrow> bytes \<Rightarrow> to2_session \<Rightarrow> bmo_session \<Rightarrow> bytes \<Rightarrow> bytes \<Rightarrow> (bmo_session \<times> (bytes \<times> bytes) option) io" where
  "bmo_message env cr guid ts s key val =
     bind (perform (BmoMessage key val)) (\<lambda>_.
     bind history (\<lambda>h.
     bind (or_err (lift (process_bmo_message cr (http_get env h) s key val (Some (ts_owner ts)) (ts_peer ts) (Some guid))) ProtocolError)
       (\<lambda>(s', resp, watchdog).
     bind (case watchdog of Some secs \<Rightarrow> perform (Watchdog secs) | None \<Rightarrow> ret ()) (\<lambda>_.
     ret (s', resp)))))"

fun process_entries ::
    "device_env \<Rightarrow> crypto \<Rightarrow> bytes \<Rightarrow> to2_session \<Rightarrow> (bytes \<times> bytes) list \<Rightarrow> bmo_session \<times> (bytes \<times> bytes) list
      \<Rightarrow> (bmo_session \<times> (bytes \<times> bytes) list) io" where
  "process_entries env cr guid ts [] s = ret s"
| "process_entries env cr guid ts ((key, val) # entries) (bmo, responses) =
     (if take (length BMO_PREFIX) key = BMO_PREFIX then
        bind (bmo_message env cr guid ts bmo key val) (\<lambda>(bmo', resp).
        process_entries env cr guid ts entries (bmo', responses @ (case resp of Some r \<Rightarrow> [r] | None \<Rightarrow> [])))
      else process_entries env cr guid ts entries (bmo, responses))"

text \<open>An array that does not parse is ignored.\<close>

definition process_owner_svc_info ::
    "device_env \<Rightarrow> crypto \<Rightarrow> bytes \<Rightarrow> to2_session \<Rightarrow> owner_svc_info \<Rightarrow> bmo_session \<times> (bytes \<times> bytes) list
      \<Rightarrow> (bmo_session \<times> (bytes \<times> bytes) list) io" where
  "process_owner_svc_info env cr guid ts owner_svc st =
     (if service_info owner_svc \<noteq> [] then
        bind (attempt (lift (parse_service_info_array (service_info owner_svc)))) (\<lambda>entries. case entries of
          Some es \<Rightarrow> process_entries env cr guid ts es st
        | None \<Rightarrow> ret st)
      else ret st)"

text \<open>The service info of a round: the devmod messages, then the responses of the last round, if any.\<close>

definition round_service_info :: "nat \<Rightarrow> (bytes \<times> bytes) list \<Rightarrow> bytes" where
  "round_service_info round responses =
     (if round = 1 then build_devmod_service_info
      else if responses \<noteq> [] then
        array (length responses) @ concat (map (\<lambda>(key, val). array 2 @ text_enc key @ bytes_enc val) responses)
      else [])"

definition service_info_round ::
    "device_env \<Rightarrow> crypto \<Rightarrow> aead \<Rightarrow> bytes \<Rightarrow> bytes \<Rightarrow> to2_session \<Rightarrow> nat \<Rightarrow> bmo_session \<times> (bytes \<times> bytes) list \<times> 64 word
      \<Rightarrow> (bool \<times> bmo_session \<times> (bytes \<times> bytes) list \<times> 64 word) io" where
  "service_info_round env cr ae owner_url guid ts round st = (case st of (bmo, responses, counter) \<Rightarrow>
     bind (perform (Watchdog WATCHDOG_TIMEOUT_SECS)) (\<lambda>_.
     let device_svc_info = build_device_svc_info False (round_service_info round responses);
         responses = (if round = 1 then responses else []) in
     bind (sealed_exchange env ae owner_url (ts_token ts) (ts_key ts) MSG_TO2_DEVICE_SVC_INFO device_svc_info counter) (\<lambda>(plain, counter).
     bind (lift (parse_owner_svc_info plain)) (\<lambda>owner_svc.
     bind (process_owner_svc_info env cr guid ts owner_svc (bmo, responses)) (\<lambda>(bmo, responses).
     ret (is_done owner_svc, bmo, responses, counter))))))"

text \<open>The loop, with fuel: the round limit is the loop's own.\<close>

fun service_info_loop ::
    "nat \<Rightarrow> device_env \<Rightarrow> crypto \<Rightarrow> aead \<Rightarrow> bytes \<Rightarrow> bytes \<Rightarrow> to2_session \<Rightarrow> nat \<Rightarrow> bmo_session \<times> (bytes \<times> bytes) list \<times> 64 word
      \<Rightarrow> (bmo_session \<times> (bytes \<times> bytes) list \<times> 64 word) io" where
  "service_info_loop 0 env cr ae owner_url guid ts round st = diverge"
| "service_info_loop (Suc k) env cr ae owner_url guid ts round st =
     bind (service_info_round env cr ae owner_url guid ts (round + 1) st) (\<lambda>(is_done, st').
     if round + 1 \<ge> MAX_SERVICE_INFO_ROUNDS \<or> is_done then ret st'
     else service_info_loop k env cr ae owner_url guid ts (round + 1) st')"

section \<open>TO2\<close>

text \<open>Steps 0 to 3b: before the peer is known.\<close>

definition to2_authenticate ::
    "device_env \<Rightarrow> crypto \<Rightarrow> bytes \<Rightarrow> bytes \<Rightarrow> nat \<Rightarrow> nat \<Rightarrow> bytes option \<Rightarrow> to2_session io" where
  "to2_authenticate env cr owner_url guid device_key_handle hmac_key_handle to1d =
     bind (perform FlushAllTransient) (\<lambda>_.
     bind (perform_to2_hello env cr owner_url guid) (\<lambda>(ack, session_token, hello_ack_raw).
     bind (prove_device env cr owner_url guid device_key_handle ack session_token hello_ack_raw)
       (\<lambda>(response_prove_ov, xa_public_key, nonce_to2_prove_ov_prep).
     bind (establish_keys env cr response_prove_ov xa_public_key) (\<lambda>(prove_ov, session_keys).
     bind (fetch_ov_entries env owner_url session_token (num_ov_entries prove_ov)) (\<lambda>ov_entries.
     bind (verify_owner env cr guid hmac_key_handle prove_ov ov_entries response_prove_ov nonce_to2_prove_ov_prep to1d)
       (\<lambda>(owner_key, peer, prove_ov_signer).
     ret \<lparr>ts_token = session_token, ts_nonce_prove_dv = nonce_to2_prove_dv ack, ts_key = sek session_keys,
       ts_owner = owner_key, ts_peer = peer, ts_signer = prove_ov_signer\<rparr>))))))"

text \<open>Step 6, and the boot, which comes after DoneAck20.\<close>

definition boot_image :: "bmo_session \<Rightarrow> unit io" where
  "boot_image bmo =
     (if bmo_st bmo = Complete \<and> image_buffer bmo \<noteq> [] then perform (Chainload (image_buffer bmo)) else ret ())"

definition to2_done ::
    "device_env \<Rightarrow> aead \<Rightarrow> bytes \<Rightarrow> to2_session \<Rightarrow> bytes \<Rightarrow> bmo_session \<times> (bytes \<times> bytes) list \<times> 64 word \<Rightarrow> unit io" where
  "to2_done env ae owner_url ts nonce_to2_setup_dv st = (case st of (bmo, _, counter) \<Rightarrow>
     bind (sealed_exchange env ae owner_url (ts_token ts) (ts_key ts) MSG_TO2_DONE (build_to2_done (ts_nonce_prove_dv ts)) counter)
       (\<lambda>(done_ack_plain, _).
     bind (lift (parse_to2_done_ack done_ack_plain)) (\<lambda>nonce.
     bind (lift (verify_nonce_echo nonce_to2_setup_dv nonce)) (\<lambda>_.
     bind (perform FlushAllTransient) (\<lambda>_.
     boot_image bmo)))))"

text \<open>Steps 4 to 6.\<close>

definition to2_onboard ::
    "device_env \<Rightarrow> crypto \<Rightarrow> aead \<Rightarrow> bytes \<Rightarrow> bytes \<Rightarrow> to2_session \<Rightarrow> unit io" where
  "to2_onboard env cr ae owner_url guid ts =
     bind (get_random16 env) (\<lambda>nonce_to2_setup_dv.
     bind (sealed_exchange env ae owner_url (ts_token ts) (ts_key ts) MSG_TO2_DEVICE_SVC_INFO_RDY
         (build_device_svc_info_rdy (Some 65535) nonce_to2_setup_dv) 0) (\<lambda>(setup_device_plain, counter).
     bind (lift (check_setup_device20 cr setup_device_plain nonce_to2_setup_dv (ts_signer ts))) (\<lambda>_.
     bind (service_info_loop MAX_SERVICE_INFO_ROUNDS env cr ae owner_url guid ts 0 (new_session, [], counter))
       (to2_done env ae owner_url ts nonce_to2_setup_dv))))"

definition perform_to2 ::
    "device_env \<Rightarrow> crypto \<Rightarrow> aead \<Rightarrow> bytes \<Rightarrow> bytes \<Rightarrow> nat \<Rightarrow> nat \<Rightarrow> bytes option \<Rightarrow> unit io" where
  "perform_to2 env cr ae owner_url guid device_key_handle hmac_key_handle to1d =
     bind (to2_authenticate env cr owner_url guid device_key_handle hmac_key_handle to1d)
       (to2_onboard env cr ae owner_url guid)"

section \<open>TO1\<close>

definition perform_to1_hello :: "device_env \<Rightarrow> bytes \<Rightarrow> bytes \<Rightarrow> (to1_hello_rv_ack \<times> bytes option) io" where
  "perform_to1_hello env rv_url guid =
     bind (exchange env rv_url MSG_TO1_HELLO_RV (build_to1_hello_rv guid) None) (\<lambda>resp.
     bind (lift (parse_to1_hello_rv_ack (resp_body resp))) (\<lambda>ack.
     ret (ack, resp_auth_token resp)))"

text \<open>The TPM signs inside \<open>build_to1_prove_to_rv\<close>, which takes the answers of the TPM at this point of the run.\<close>

definition perform_to1_prove ::
    "device_env \<Rightarrow> crypto \<Rightarrow> bytes \<Rightarrow> bytes \<Rightarrow> bytes \<Rightarrow> nat \<Rightarrow> bytes option \<Rightarrow> to1_rv_redirect io" where
  "perform_to1_prove env cr rv_url guid nonce device_key_handle session_token =
     bind history (\<lambda>h.
     bind (lift (build_to1_prove_to_rv cr (tpm_sign_with_persistent env h) guid nonce device_key_handle)) (\<lambda>prove_to_rv.
     bind (exchange env rv_url MSG_TO1_PROVE_TO_RV prove_to_rv session_token) (\<lambda>resp.
     lift (parse_to1_rv_redirect (resp_body resp)))))"

definition perform_to1 :: "device_env \<Rightarrow> crypto \<Rightarrow> bytes \<Rightarrow> bytes \<Rightarrow> nat \<Rightarrow> to1_rv_redirect io" where
  "perform_to1 env cr rv_url guid device_key_handle =
     bind (perform_to1_hello env rv_url guid) (\<lambda>(ack, session_token).
     perform_to1_prove env cr rv_url guid (nonce4 ack) device_key_handle session_token)"

section \<open>What the steps add to the history\<close>

text \<open>Everything that presupposes a known peer: sealed messages, provisioning messages, the boot.\<close>

fun privileged :: "event \<Rightarrow> bool" where
  "privileged (Post url body msg_type token) = (msg_type \<ge> MSG_TO2_DEVICE_SVC_INFO_RDY)"
| "privileged (BmoMessage key val) = True"
| "privileged (Chainload img) = True"
| "privileged _ = False"

lemma emits_exchange [spec_intro]:
  "(\<And>url. P (Post url body msg_type token)) \<Longrightarrow> emits P (exchange env base msg_type body token)"
  unfolding exchange_def Let_def by (intro spec_intro) auto

lemma emits_get_random [spec_intro]: "P (GetRandom n) \<Longrightarrow> emits P (get_random env n)"
  unfolding get_random_def by (intro spec_intro) auto

lemma emits_get_random16 [spec_intro]: "P (GetRandom 16) \<Longrightarrow> emits P (get_random16 env)"
  unfolding get_random16_def by (intro spec_intro) (auto intro!: spec_intro)

lemma emits_create_ecdh_key [spec_intro]: "P CreateEcdhKey \<Longrightarrow> emits P (create_ecdh_key env)"
  unfolding create_ecdh_key_def by (intro spec_intro) auto

lemma authenticate_unprivileged:
  "emits (\<lambda>e. \<not> privileged e) (to2_authenticate env cr owner_url guid dk hk to1d)"
  unfolding to2_authenticate_def perform_to2_hello_def prove_device_def establish_keys_def fetch_ov_entries_def verify_owner_def Let_def
  by (auto intro!: spec_intro simp: MSG_TO2_HELLO_DEVICE_PROBE_def MSG_TO2_PROVE_DEVICE_def MSG_TO2_GET_OV_NEXT_ENTRY_def
      MSG_TO2_DEVICE_SVC_INFO_RDY_def split: prod.splits)

section \<open>The peer is authenticated\<close>

definition may :: "crypto \<Rightarrow> bytes \<Rightarrow> perm \<Rightarrow> bytes \<Rightarrow> bool" where
  "may cr owner p k \<longleftrightarrow> (\<exists>P b. delegated cr owner k P b \<and> p \<in> P)"

definition prove_device_msg :: "bytes \<Rightarrow> bytes \<Rightarrow> int \<Rightarrow> bytes \<Rightarrow> bytes \<Rightarrow> bytes \<Rightarrow> bytes \<Rightarrow> bytes" where
  "prove_device_msg guid nonce_dv cipher xa nonce_ov hash_prev2 sg =
     build_to2_prove_device_from_parts build_cose_protected_header
       (build_to2_prove_device_eat guid nonce_dv (build_to2_prove_device_payload KEX_SUITE_20 cipher xa nonce_ov hash_prev2)) sg"

text \<open>
  After history \<open>h\<close> the TPM gave a nonce; the network answered the ProveDevice20 message that carries it with a
  COSE_Sign1 message; the payload the client takes from it echoes the nonce and names a voucher header and its MAC; that
  voucher is this device's, and its entries lead to the Owner key; and the message was signed, in its domain, by that key
  or by a key that may onboard for it.
\<close>

definition authenticated :: "device_env \<Rightarrow> crypto \<Rightarrow> bytes \<Rightarrow> nat \<Rightarrow> event list \<Rightarrow> to2_session \<Rightarrow> bool" where
  "authenticated env cr guid hk h ts \<longleftrightarrow>
     (\<exists>a b hv nonce nonce_dv cipher xa hash_prev2 sg url token resp pay pov entries s1.
        tpm_get_random env (h @ a) 16 = Some nonce \<and>
        http_post_with_session env (h @ a @ GetRandom 16 # b) url
          (prove_device_msg guid nonce_dv cipher xa nonce hash_prev2 sg) MSG_TO2_PROVE_DEVICE token = Some resp \<and>
        extract_cose_payload (resp_body resp) = Ret pay \<and> parse_prove_ov_hdr_payload pay = Ret pov \<and>
        nonce_to2_prove_ov pov = nonce \<and>
        verify_voucher cr (tpm_hmac env hv) (ov_header pov) (hmac_raw pov) (hmac pov) hk guid entries = Ret (ts_owner ts) \<and>
        parse_cose_sign1 (resp_body resp) = Ret s1 \<and>
        verify_es256 cr (build_sig_structure (protected_header s1) (domain_aad (aad_tag_str PROVE_OV_HDR) 200) (payload s1))
          (signature s1) (ts_signer ts) \<and>
        (ts_peer ts = OwnerDirect \<and> ts_signer ts = ts_owner ts \<or>
         (\<exists>prov. ts_peer ts = Delegate prov \<and> may cr (ts_owner ts) Onboard (ts_signer ts) \<and>
            (prov \<longrightarrow> may cr (ts_owner ts) Provision (ts_signer ts)))))"

lemma may_grants:
  "verify_delegate_chain cr ders owner = Ret r \<Longrightarrow> grants r p \<Longrightarrow> may cr owner p (leaf_key_point r)"
  unfolding may_def using verify_delegate_chain_grants by (metis mem_Collect_eq)

lemma verify_prove_ov_signer_Ret:
  assumes "verify_prove_ov_signer cr pov s1 owner = Ret (peer, k)"
  shows "verify_es256 cr (build_sig_structure (protected_header s1) (domain_aad (aad_tag_str PROVE_OV_HDR) 200) (payload s1))
      (signature s1) k \<and>
    (peer = OwnerDirect \<and> k = owner \<or>
     (\<exists>prov. peer = Delegate prov \<and> may cr owner Onboard k \<and> (prov \<longrightarrow> may cr owner Provision k)))"
proof (cases "delegate_chain pov")
  case None
  with assms show ?thesis
    by (simp add: verify_prove_ov_signer_def Let_def verify_sign1_def FDO_PROTOCOL_VERSION_def split: if_splits)
next
  case (Some certs)
  with assms obtain r where r: "verify_delegate_chain cr certs owner = Ret r" "has_onboard r" "k = leaf_key_point r"
      "peer = Delegate (has_provision r)" "verify_sign1 cr s1 (domain_aad (aad_tag_str PROVE_OV_HDR) FDO_PROTOCOL_VERSION) k"
    by (auto simp: verify_prove_ov_signer_def Let_def obind_Ret_iff ok_or_Ret_iff simp del: aad_tag_str.simps split: if_splits)
  with may_grants [OF r(1), of Onboard] may_grants [OF r(1), of Provision] show ?thesis
    by (auto simp: verify_sign1_def FDO_PROTOCOL_VERSION_def simp del: aad_tag_str.simps split: if_splits)
qed

lemma exchange_Ret:
  assumes "exchange env base mt body tok h = (Ret resp, h')"
  shows "\<exists>url. http_post_with_session env h url body mt tok = Some resp"
  using assms by (auto simp: exchange_def Let_def io_Ret_iffs)

lemma get_random16_Ret:
  "get_random16 env h = (Ret v, h') \<longleftrightarrow> tpm_get_random env h 16 = Some v \<and> length v = 16 \<and> h' = h @ [GetRandom 16]"
  by (auto simp: get_random16_def get_random_def io_Ret_iffs split: if_splits)

lemma appends: "spec m (\<lambda>_ _. True) \<Longrightarrow> m h = (r, h') \<Longrightarrow> \<exists>ev. h' = h @ ev"
  using spec_Ret by blast

lemma prove_device_Ret:
  assumes "prove_device env cr url guid dk ack tok raw h = (Ret (response, xa, nonce), h')"
  shows "\<exists>a b nonce_dv cipher hash_prev2 sg url' token resp.
     tpm_get_random env (h @ a) 16 = Some nonce \<and>
     http_post_with_session env (h @ a @ GetRandom 16 # b) url'
       (prove_device_msg guid nonce_dv cipher xa nonce hash_prev2 sg) MSG_TO2_PROVE_DEVICE token = Some resp \<and> response = resp_body resp"
proof -
  from assms obtain key digest sg resp url' where
    "tpm_get_random env (h @ [CreateEcdhKey, GetRandom 16]) 16 = Some nonce"
    "http_post_with_session env (h @ [CreateEcdhKey, GetRandom 16] @ GetRandom 16 # [FlushContext key, SignWith dk digest]) url'
       (prove_device_msg guid (nonce_to2_prove_dv ack) (cipher_suite ack) xa nonce (sha256 cr raw) sg) MSG_TO2_PROVE_DEVICE tok = Some resp"
    "response = resp_body resp"
    by (auto simp: prove_device_def Let_def create_ecdh_key_def get_random_def get_random16_Ret io_Ret_iffs prove_device_msg_def
        dest!: exchange_Ret)
  then show ?thesis by blast
qed

lemma establish_keys_Ret:
  assumes "establish_keys env cr response xa h = (Ret (pov, keys), h')"
  shows "\<exists>pay. extract_cose_payload response = Ret pay \<and> parse_prove_ov_hdr_payload pay = Ret pov"
  using assms by (auto simp: establish_keys_def Let_def io_Ret_iffs)

lemma verify_owner_Ret:
  assumes "verify_owner env cr guid hk pov entries response nonce to1d h = (Ret (owner, peer, signer), h')"
  shows "verify_voucher cr (tpm_hmac env h) (ov_header pov) (hmac_raw pov) (hmac pov) hk guid entries = Ret owner \<and>
    nonce_to2_prove_ov pov = nonce \<and>
    (\<exists>s1. parse_cose_sign1 response = Ret s1 \<and> verify_prove_ov_signer cr pov s1 owner = Ret (peer, signer)) \<and>
    verify_to1d cr (ov_header pov) owner to1d = Ret ()"
  using assms by (auto simp: verify_owner_def io_Ret_iffs verify_nonce_echo_def split: if_splits)

lemma hello_appends:
  assumes "perform_to2_hello env cr url guid h = (r, h')"
  shows "\<exists>ev. h' = h @ ev"
proof -
  have "emits (\<lambda>_. True) (perform_to2_hello env cr url guid)"
    unfolding perform_to2_hello_def Let_def by (intro spec_intro) auto
  from spec_Ret [OF this assms] show ?thesis by blast
qed

lemma to2_authenticate_Ret:
  assumes "to2_authenticate env cr url guid dk hk to1d h = (Ret ts, h')"
  shows "authenticated env cr guid hk h ts"
proof -
  from assms obtain ack tok raw h1 response xa nonce h2 pov keys h3 entries h4 owner peer signer where
      hello: "perform_to2_hello env cr url guid (h @ [FlushAllTransient]) = (Ret (ack, tok, raw), h1)"
      and prove: "prove_device env cr url guid dk ack tok raw h1 = (Ret (response, xa, nonce), h2)"
      and keys: "establish_keys env cr response xa h2 = (Ret (pov, keys), h3)"
      and owner: "verify_owner env cr guid hk pov entries response nonce to1d h4 = (Ret (owner, peer, signer), h')"
      and ts: "ts_owner ts = owner" "ts_peer ts = peer" "ts_signer ts = signer"
    by (auto simp: to2_authenticate_def io_Ret_iffs split: prod.splits)
  from hello_appends [OF hello] obtain ev where h1: "h1 = h @ FlushAllTransient # ev" by auto
  from prove_device_Ret [OF prove] obtain a b nonce_dv cipher hash_prev2 sg url' token resp where
      p: "tpm_get_random env (h @ (FlushAllTransient # ev @ a)) 16 = Some nonce"
        "http_post_with_session env (h @ (FlushAllTransient # ev @ a) @ GetRandom 16 # b) url'
          (prove_device_msg guid nonce_dv cipher xa nonce hash_prev2 sg) MSG_TO2_PROVE_DEVICE token = Some resp"
        "response = resp_body resp"
    unfolding h1 by auto
  from establish_keys_Ret [OF keys] p(3) obtain pay where
    k: "extract_cose_payload (resp_body resp) = Ret pay" "parse_prove_ov_hdr_payload pay = Ret pov" by blast
  from verify_owner_Ret [OF owner] p(3) obtain s1 where
    v: "verify_voucher cr (tpm_hmac env h4) (ov_header pov) (hmac_raw pov) (hmac pov) hk guid entries = Ret owner"
      "nonce_to2_prove_ov pov = nonce" "parse_cose_sign1 (resp_body resp) = Ret s1" "verify_prove_ov_signer cr pov s1 owner = Ret (peer, signer)"
    by blast
  note s = verify_prove_ov_signer_Ret [OF v(4)]
  show ?thesis
    unfolding authenticated_def ts
    by (rule exI)+ (intro conjI, rule p(1), rule p(2), rule k(1), rule k(2), rule v(2), rule v(1), rule v(3),
        rule s [THEN conjunct1], rule s [THEN conjunct2])
qed

section \<open>The rest of the run\<close>

text \<open>The sealed messages of a run, and a sequence sealed with consecutive IVs.\<close>

fun sealed_body :: "event \<Rightarrow> bytes list" where
  "sealed_body (Post url body msg_type token) = (if msg_type \<ge> MSG_TO2_DEVICE_SVC_INFO_RDY then [body] else [])"
| "sealed_body _ = []"

definition sealed_bodies :: "event list \<Rightarrow> bytes list" where
  "sealed_bodies ev = concat (map sealed_body ev)"

fun seals :: "64 word \<Rightarrow> bytes list \<Rightarrow> bytes list" where
  "seals counter [] = []"
| "seals counter (c # cs) = build_encrypted_message (fst (next_session_iv counter)) c # seals (snd (next_session_iv counter)) cs"

fun bmo_of :: "event \<Rightarrow> (bytes \<times> bytes) list" where
  "bmo_of (BmoMessage key val) = [(key, val)]"
| "bmo_of _ = []"

definition bmo_messages :: "event list \<Rightarrow> (bytes \<times> bytes) list" where
  "bmo_messages ev = concat (map bmo_of ev)"

lemma sealed_bodies_simps [simp]:
  "sealed_bodies [] = []" "sealed_bodies (e # ev) = sealed_body e @ sealed_bodies ev" "sealed_bodies (ev @ ev') = sealed_bodies ev @ sealed_bodies ev'"
  by (simp_all add: sealed_bodies_def)

lemma bmo_messages_simps [simp]:
  "bmo_messages [] = []" "bmo_messages (e # ev) = bmo_of e @ bmo_messages ev" "bmo_messages (ev @ ev') = bmo_messages ev @ bmo_messages ev'"
  by (simp_all add: bmo_messages_def)

lemma seals_append: "seals c (cs @ cs') = seals c cs @ seals (c + of_nat (length cs)) cs'"
  by (induction cs arbitrary: c) (simp_all add: next_session_iv_def algebra_simps)

text \<open>
  \<open>progress step n counter s g m\<close>: a run of \<open>m\<close> sends at most \<open>n\<close> sealed messages, with consecutive IVs from \<open>counter\<close> on,
  and boots nothing; if it returns \<open>x\<close>, then \<open>g x\<close> is the BMO session, reached from \<open>s\<close> by the messages of the run, and the
  counter, moved by the number of sealed messages.
\<close>

definition good ::
    "(bytes \<times> bytes \<Rightarrow> bmo_session \<Rightarrow> bmo_session \<Rightarrow> bool) \<Rightarrow> nat \<Rightarrow> 64 word \<Rightarrow> bmo_session \<Rightarrow> event list \<Rightarrow> (bmo_session \<times> 64 word) option \<Rightarrow> bool" where
  "good step n counter s ev fin \<longleftrightarrow> (\<forall>img. Chainload img \<notin> set ev) \<and>
     (\<exists>cs. sealed_bodies ev = seals counter cs \<and> length cs \<le> n \<and>
        (\<forall>s' counter'. fin = Some (s', counter') \<longrightarrow> counter' = counter + of_nat (length cs) \<and>
           (\<forall>s0 ms. trace step s0 ms s \<longrightarrow> trace step s0 (ms @ bmo_messages ev) s')))"

definition at_end :: "('a \<Rightarrow> 'b) \<Rightarrow> ('e, 'a) outcome \<Rightarrow> 'b option" where
  "at_end g r = (case r of Ret x \<Rightarrow> Some (g x) | _ \<Rightarrow> None)"

lemma at_end_simps [simp]: "at_end g (Ret x) = Some (g x)" "failed r = Some r' \<Longrightarrow> at_end g' r' = None"
  by (auto simp: at_end_def elim!: failed.elims)

definition progress where
  "progress step n counter s g m \<longleftrightarrow> spec m (\<lambda>r ev. good step n counter s ev (at_end g r))"

lemma good_append:
  assumes "good step n c s ev (Some (s1, c1))" and "good step k c1 s1 ev' fin"
  shows "good step (n + k) c s (ev @ ev') fin"
proof -
  obtain cs where cs: "sealed_bodies ev = seals c cs" "length cs \<le> n" "c1 = c + of_nat (length cs)"
      "\<And>s0 ms. trace step s0 ms s \<Longrightarrow> trace step s0 (ms @ bmo_messages ev) s1"
    using assms(1) unfolding good_def by blast
  obtain ds where ds: "sealed_bodies ev' = seals c1 ds" "length ds \<le> k"
      "\<And>s' c'. fin = Some (s', c') \<Longrightarrow> c' = c1 + of_nat (length ds) \<and>
        (\<forall>s0 ms. trace step s0 ms s1 \<longrightarrow> trace step s0 (ms @ bmo_messages ev') s')"
    using assms(2) unfolding good_def by blast
  have "sealed_bodies (ev @ ev') = seals c (cs @ ds)" "length (cs @ ds) \<le> n + k"
    using cs ds by (simp_all add: seals_append)
  moreover have "c' = c + of_nat (length (cs @ ds)) \<and>
      (\<forall>s0 ms. trace step s0 ms s \<longrightarrow> trace step s0 (ms @ bmo_messages (ev @ ev')) s')" if "fin = Some (s', c')" for s' c'
  proof (intro conjI allI impI)
    show "c' = c + of_nat (length (cs @ ds))" using cs(3) ds(3) [OF that] by (simp add: algebra_simps)
    show "trace step s0 (ms @ bmo_messages (ev @ ev')) s'" if "trace step s0 ms s" for s0 ms
      using cs(4) [OF that] ds(3) [OF \<open>fin = Some (s', c')\<close>] by (metis append_assoc bmo_messages_simps(3))
  qed
  ultimately show ?thesis
    using assms unfolding good_def by (intro conjI exI [of _ "cs @ ds"]) auto
qed

lemma good_mono: "good step n c s ev fin \<Longrightarrow> n \<le> n' \<Longrightarrow> fin' = fin \<or> fin' = None \<Longrightarrow> good step n' c s ev fin'"
  unfolding good_def using le_trans by blast

lemma progress_bind:
  assumes "progress step n c s g m" and "\<And>x. progress step k (snd (g x)) (fst (g x)) g' (f x)"
  shows "progress step (n + k) c s g' (bind m f)"
  unfolding progress_def
proof (rule spec_bind [OF assms(1) [unfolded progress_def]])
  show "spec (f x) (\<lambda>r ev'. good step (n + k) c s (ev @ ev') (at_end g' r))" if "good step n c s ev (at_end g (Ret x))" for x ev
    by (rule spec_conseq [OF assms(2) [unfolded progress_def]]) (use that good_append in \<open>cases "g x"; auto\<close>)
  show "good step (n + k) c s ev (at_end g' r')" if "good step n c s ev (at_end g r)" "failed r = Some r'" for r r' ev
    by (rule good_mono [OF that(1)]) (use that(2) in simp_all)
qed

lemma progress_mono: "progress step n c s g m \<Longrightarrow> n \<le> k \<Longrightarrow> progress step k c s g m"
  unfolding progress_def by (erule spec_conseq) (auto intro: good_mono)

lemma unprivileged_quiet:
  assumes "\<forall>e\<in>set ev. \<not> privileged e"
  shows "sealed_bodies ev = [] \<and> bmo_messages ev = [] \<and> (\<forall>img. Chainload img \<notin> set ev)"
proof -
  have "sealed_bodies ev = [] \<and> bmo_messages ev = []"
    using assms by (induction ev) (auto split: event.splits elim: privileged.elims sealed_body.elims bmo_of.elims)
  with assms show ?thesis by force
qed

lemma progress_unprivileged:
  assumes "emits (\<lambda>e. \<not> privileged e) m"
  shows "progress step 0 c s (\<lambda>_. (s, c)) m"
  unfolding progress_def
proof (rule spec_conseq [OF assms])
  fix r and ev :: "event list"
  assume e: "\<forall>e\<in>set ev. \<not> privileged e"
  from unprivileged_quiet [OF e] show "good step 0 c s ev (at_end (\<lambda>_. (s, c)) r)"
    by (auto simp: good_def at_end_def split: outcome.splits)
qed

lemma progress_step:
  assumes "emits (\<lambda>e. \<not> privileged e) m" and "\<And>x. progress step n c s g (f x)"
  shows "progress step n c s g (bind m f)"
  using progress_bind [OF progress_unprivileged [OF assms(1), of step c s], of n g f] assms(2) by simp

text \<open>The steps after the authentication.\<close>

lemma encrypt0_Ret:
  "cose_encrypt0_a256gcm ae key nonce plain = Ret m \<Longrightarrow> \<exists>c. m = build_encrypted_message nonce c"
  by (auto simp: cose_encrypt0_a256gcm_def build_encrypted_message_def build_a256gcm_protected_headers_def Let_def obind_Ret_iff)

lemma exchange_spec:
  "spec (exchange env base msg_type body tok) (\<lambda>_ ev. \<exists>url. ev = [Post url body msg_type tok])"
  unfolding exchange_def Let_def
  by (rule spec_bind [where Q = "\<lambda>_ ev. \<exists>url. ev = [Post url body msg_type tok]"])
    (auto intro!: spec_intro spec_bind [where Q = "\<lambda>_ ev. ev = []"])

lemma progress_sealed_exchange:
  assumes "MSG_TO2_DEVICE_SVC_INFO_RDY \<le> msg_type"
  shows "progress step 1 c s (\<lambda>(_, c'). (s, c')) (sealed_exchange env ae base tok key msg_type plain c)"
proof -
  let ?iv = "fst (next_session_iv c)" and ?c = "snd (next_session_iv c)"
  have post: "good step 1 c s [Post url m msg_type tok] (Some (s, ?c))" if "m = build_encrypted_message ?iv ct" for url m ct
    using that assms by (auto simp: good_def next_session_iv_def intro!: exI [of _ "[ct]"])
  show ?thesis
  proof (cases "cose_encrypt0_a256gcm ae key ?iv plain")
    case (Ret m)
    then obtain ct where m: "m = build_encrypted_message ?iv ct" using encrypt0_Ret by blast
    have "progress step 1 c s (\<lambda>_. (s, ?c)) (exchange env base msg_type m tok)"
      unfolding progress_def by (rule spec_conseq [OF exchange_spec]) (auto simp: at_end_def intro: post [OF m] good_mono [OF post [OF m]] split: outcome.split)
    then have "progress step (1 + 0) c s (\<lambda>(_, c'). (s, c')) (bind (exchange env base msg_type m tok) (\<lambda>resp.
        bind (lift (cose_decrypt0_a256gcm ae key (resp_body resp))) (\<lambda>plain. ret (plain, ?c))))"
    proof (rule progress_bind)
      fix x
      show "progress step 0 (snd (s, ?c)) (fst (s, ?c)) (\<lambda>(_, c'). (s, c'))
          (bind (lift (cose_decrypt0_a256gcm ae key (resp_body x))) (\<lambda>plain. ret (plain, ?c)))"
        unfolding progress_def by (rule spec_bind [where Q = "\<lambda>_ ev. ev = []"]) (auto intro!: spec_intro simp: good_def)
    qed
    with Ret show ?thesis by (simp add: sealed_exchange_def case_prod_beta lift_simps)
  qed (auto simp: sealed_exchange_def case_prod_beta progress_def spec_def bind_def lift_def at_end_def good_def intro!: exI [of _ "[]"])
qed

lemma progress_ret: "g x = (s, c) \<Longrightarrow> progress step n c s g (ret x)"
  unfolding progress_def by (rule spec_ret) (auto simp: good_def intro!: exI [of _ "[]"])

lemma progress_bmo_message:
  "progress (bmo_step cr (Some (ts_owner ts)) (ts_peer ts) (Some guid)) 0 c s (\<lambda>(s', _). (s', c)) (bmo_message env cr guid ts s key val)"
proof -
  let ?step = "bmo_step cr (Some (ts_owner ts)) (ts_peer ts) (Some guid)"
  let ?m = "\<lambda>h. process_bmo_message cr (http_get env h) s key val (Some (ts_owner ts)) (ts_peer ts) (Some guid)"
  have "trace ?step s0 (ms @ [(key, val)]) s'" if "trace ?step s0 ms s" "?m h = Ret (s', resp, w)" for s0 ms s' resp w h
    unfolding bmo_step_def by (rule trace_step [OF that(1) [unfolded bmo_step_def]], unfold fst_conv snd_conv, intro exI, rule that(2))
  then have ok: "good ?step 0 c s [BmoMessage key val] (Some (s', c))" "good ?step 0 c s [BmoMessage key val, Watchdog n] (Some (s', c))"
    if "?m h = Ret (s', resp, w)" for s' resp w h n
    using that by (auto simp: good_def)
  have fail: "good ?step 0 c s [BmoMessage key val] None"
    by (auto simp: good_def)
  have "spec (bind (or_err (lift (?m h)) ProtocolError) (\<lambda>(s', resp, watchdog).
      bind (case watchdog of Some secs \<Rightarrow> perform (Watchdog secs) | None \<Rightarrow> ret ()) (\<lambda>_. ret (s', resp))))
    (\<lambda>r ev. good ?step 0 c s ([BmoMessage key val] @ ev) (at_end (\<lambda>(s', _). (s', c)) r))" for h
  proof (cases "?m h")
    case (Ret x)
    obtain s' resp w where [simp]: "x = (s', resp, w)" by (cases x) auto
    show ?thesis
    proof (cases w)
      case (Some n)
      have "spec (bind (perform (Watchdog n)) (\<lambda>_. ret (s', resp)))
          (\<lambda>r ev. good ?step 0 c s ([BmoMessage key val] @ ev) (at_end (\<lambda>(s', _). (s', c)) r))"
        by (rule spec_bind [where Q = "\<lambda>r ev. r = Ret () \<and> ev = [Watchdog n]"]) (use ok Ret in \<open>auto intro!: spec_intro\<close>)
      with Ret Some show ?thesis by (simp add: lift_simps or_err_simps)
    qed (use ok Ret in \<open>auto simp: lift_simps or_err_simps simp del: ret_apply intro!: spec_intro\<close>)
  qed (use fail in \<open>auto simp: lift_simps or_err_simps at_end_def intro!: spec_intro\<close>)
  note inner = this
  show ?thesis
    unfolding progress_def bmo_message_def by (intro spec_perform_bind spec_history_bind) (rule inner [simplified])
qed

lemma progress_process_entries:
  "progress (bmo_step cr (Some (ts_owner ts)) (ts_peer ts) (Some guid)) 0 c (fst st) (\<lambda>(s', _). (s', c)) (process_entries env cr guid ts es st)"
proof (induction es arbitrary: st)
  case Nil
  show ?case unfolding process_entries.simps by (rule progress_ret) (simp split: prod.split)
next
  case (Cons e es)
  obtain key val bmo responses where [simp]: "e = (key, val)" "st = (bmo, responses)" by (cases e, cases st) auto
  show ?case
  proof (cases "take (length BMO_PREFIX) key = BMO_PREFIX")
    case True
    have "progress (bmo_step cr (Some (ts_owner ts)) (ts_peer ts) (Some guid)) (0 + 0) c bmo (\<lambda>(s', _). (s', c))
      (bind (bmo_message env cr guid ts bmo key val) (\<lambda>(bmo', resp).
        process_entries env cr guid ts es (bmo', responses @ (case resp of Some r \<Rightarrow> [r] | None \<Rightarrow> []))))"
      by (rule progress_bind [OF progress_bmo_message]) (use Cons.IH in \<open>force split: prod.split\<close>)
    with True show ?thesis by simp
  qed (use Cons.IH [of st] in simp)
qed

lemma progress_owner_svc_info:
  "progress (bmo_step cr (Some (ts_owner ts)) (ts_peer ts) (Some guid)) 0 c (fst st) (\<lambda>(s', _). (s', c))
     (process_owner_svc_info env cr guid ts ow st)"
  using progress_process_entries [of cr ts guid c st env] progress_unprivileged
  by (cases "parse_service_info_array (service_info ow)")
    (auto simp: process_owner_svc_info_def lift_simps attempt_simps progress_def at_end_def good_def case_prod_beta
      simp del: ret_apply intro!: spec_intro)

lemma progress_round:
  "progress (bmo_step cr (Some (ts_owner ts)) (ts_peer ts) (Some guid)) 1 (snd (snd st)) (fst st) (\<lambda>(_, s', _, c'). (s', c'))
     (service_info_round env cr ae url guid ts round st)"
proof -
  let ?step = "bmo_step cr (Some (ts_owner ts)) (ts_peer ts) (Some guid)"
  obtain bmo responses c where st: "st = (bmo, responses, c)" by (cases st) auto
  let ?rest = "\<lambda>plain counter. bind (lift (parse_owner_svc_info plain)) (\<lambda>owner_svc.
       bind (process_owner_svc_info env cr guid ts owner_svc (bmo, if round = 1 then responses else [])) (\<lambda>(bmo, responses).
       ret (is_done owner_svc, bmo, responses, counter :: 64 word)))"
  have entries: "progress ?step (0 + 0) c' bmo (\<lambda>(_, s', _, c'). (s', c'))
     (bind (process_owner_svc_info env cr guid ts ow (bmo, rs)) (\<lambda>(bmo, responses). ret (is_done ow, bmo, responses, c')))" for ow rs c'
    by (rule progress_bind [OF progress_owner_svc_info [of _ _ _ _ "(bmo, rs)", unfolded fst_conv]])
      (auto intro: progress_ret simp del: ret_apply split: prod.split)
  have rest: "progress ?step 0 c' bmo (\<lambda>(_, s', _, c'). (s', c')) (?rest plain c')" for plain c'
    by (rule progress_step) (use entries in \<open>auto intro!: spec_intro\<close>)
  have "progress ?step (1 + 0) c bmo (\<lambda>(_, s', _, c'). (s', c'))
     (bind (sealed_exchange env ae url (ts_token ts) (ts_key ts) MSG_TO2_DEVICE_SVC_INFO plain c) (\<lambda>(plain, counter). ?rest plain counter))" for plain
    by (rule progress_bind [OF progress_sealed_exchange])
      (use rest in \<open>auto simp: MSG_TO2_DEVICE_SVC_INFO_def MSG_TO2_DEVICE_SVC_INFO_RDY_def\<close>)
  note sent = this
  show ?thesis
    unfolding service_info_round_def Let_def st prod.case snd_conv fst_conv
    by (rule progress_step, intro spec_intro, simp) (use sent in simp)
qed

lemma progress_loop:
  "progress (bmo_step cr (Some (ts_owner ts)) (ts_peer ts) (Some guid)) k (snd (snd st)) (fst st) (\<lambda>(s', _, c'). (s', c'))
     (service_info_loop k env cr ae url guid ts round st)"
proof (induction k arbitrary: round st)
  case 0
  show ?case unfolding progress_def by (auto intro!: spec_intro simp: at_end_def good_def intro: exI [of _ "[]"])
next
  case (Suc k)
  have "progress (bmo_step cr (Some (ts_owner ts)) (ts_peer ts) (Some guid)) (1 + k) (snd (snd st)) (fst st) (\<lambda>(s', _, c'). (s', c'))
     (service_info_loop (Suc k) env cr ae url guid ts round st)"
    unfolding service_info_loop.simps
    by (rule progress_bind [OF progress_round]) (use Suc.IH in \<open>force intro: progress_ret split: prod.split\<close>)
  then show ?case by simp
qed

text \<open>A run that may end with the boot of an image, which is that of the BMO session then reached.\<close>

definition concluded ::
    "(bytes \<times> bytes \<Rightarrow> bmo_session \<Rightarrow> bmo_session \<Rightarrow> bool) \<Rightarrow> nat \<Rightarrow> 64 word \<Rightarrow> bmo_session \<Rightarrow> event list \<Rightarrow> (fdo_error, unit) outcome \<Rightarrow> bool" where
  "concluded step n counter s ev r \<longleftrightarrow>
     (\<exists>cs. sealed_bodies ev = seals counter cs \<and> length cs \<le> n) \<and>
     (\<forall>img. Chainload img \<in> set ev \<longrightarrow> r = Ret () \<and> img \<noteq> [] \<and>
        (\<exists>s'. bmo_st s' = Complete \<and> image_buffer s' = img \<and>
           (\<forall>s0 ms. trace step s0 ms s \<longrightarrow> trace step s0 (ms @ bmo_messages ev) s')))"

lemma concluded_append:
  assumes "good step n c s ev (Some (s1, c1))" and "concluded step k c1 s1 ev' r"
  shows "concluded step (n + k) c s (ev @ ev') r"
proof -
  obtain cs where cs: "sealed_bodies ev = seals c cs" "length cs \<le> n" "c1 = c + of_nat (length cs)"
      "\<And>s0 ms. trace step s0 ms s \<Longrightarrow> trace step s0 (ms @ bmo_messages ev) s1" "\<And>img. Chainload img \<notin> set ev"
    using assms(1) unfolding good_def by blast
  obtain ds where "sealed_bodies ev' = seals c1 ds" "length ds \<le> k"
    using assms(2) unfolding concluded_def by blast
  then have "\<exists>cs. sealed_bodies (ev @ ev') = seals c cs \<and> length cs \<le> n + k"
    using cs by (intro exI [of _ "cs @ ds"]) (simp add: seals_append)
  moreover have "r = Ret () \<and> img \<noteq> [] \<and> (\<exists>s'. bmo_st s' = Complete \<and> image_buffer s' = img \<and>
      (\<forall>s0 ms. trace step s0 ms s \<longrightarrow> trace step s0 (ms @ bmo_messages (ev @ ev')) s'))" if "Chainload img \<in> set (ev @ ev')" for img
  proof -
    have "Chainload img \<in> set ev'" using that cs(5) by auto
    then obtain s' where "r = Ret ()" "img \<noteq> []" "bmo_st s' = Complete" "image_buffer s' = img"
        "\<And>s0 ms. trace step s0 ms s1 \<Longrightarrow> trace step s0 (ms @ bmo_messages ev') s'"
      using assms(2) unfolding concluded_def by blast
    with cs(4) show ?thesis by (metis append_assoc bmo_messages_simps(3))
  qed
  ultimately show ?thesis unfolding concluded_def by blast
qed

lemma concluded_bind:
  assumes "progress step n c s g m" and "\<And>x. spec (f x) (\<lambda>r ev. concluded step k (snd (g x)) (fst (g x)) ev r)"
  shows "spec (bind m f) (\<lambda>r ev. concluded step (n + k) c s ev r)"
proof (rule spec_bind [OF assms(1) [unfolded progress_def]])
  show "spec (f x) (\<lambda>r ev'. concluded step (n + k) c s (ev @ ev') r)" if "good step n c s ev (at_end g (Ret x))" for x ev
    by (rule spec_conseq [OF assms(2)]) (use that concluded_append in \<open>cases "g x"; auto\<close>)
  show "concluded step (n + k) c s ev r'" if "good step n c s ev (at_end g r)" "failed r = Some r'" for r r' ev
    using that(1) unfolding good_def concluded_def by (meson le_add1 order_trans)
qed

lemma concluded_step:
  assumes "emits (\<lambda>e. \<not> privileged e) m" and "\<And>x. spec (f x) (\<lambda>r ev. concluded step n c s ev r)"
  shows "spec (bind m f) (\<lambda>r ev. concluded step n c s ev r)"
  using concluded_bind [OF progress_unprivileged [OF assms(1), of step c s], of f n] assms(2) by simp

lemma done_concluded: "spec (to2_done env ae url ts nonce st) (\<lambda>r ev. concluded step 1 (snd (snd st)) (fst st) ev r)"
proof -
  obtain bmo rs c where st: "st = (bmo, rs, c)" by (cases st) auto
  have boot: "spec (boot_image bmo) (\<lambda>r ev. concluded step 0 c bmo ev r)" for c
    unfolding boot_image_def by (auto simp: concluded_def intro!: spec_intro)
  have "spec (bind (lift (parse_to2_done_ack plain)) (\<lambda>nonce'. bind (lift (verify_nonce_echo nonce nonce')) (\<lambda>_.
      bind (perform FlushAllTransient) (\<lambda>_. boot_image bmo)))) (\<lambda>r ev. concluded step 0 c bmo ev r)" for plain c
    by (intro concluded_step boot) (auto intro!: spec_intro)
  then have "spec (to2_done env ae url ts nonce st) (\<lambda>r ev. concluded step (1 + 0) c bmo ev r)"
    unfolding to2_done_def st prod.case
    by (intro concluded_bind [OF progress_sealed_exchange]) (auto simp: MSG_TO2_DEVICE_SVC_INFO_RDY_def MSG_TO2_DONE_def)
  then show ?thesis by (simp add: st)
qed

lemma onboard_concluded:
  "spec (to2_onboard env cr ae url guid ts)
     (\<lambda>r ev. concluded (bmo_step cr (Some (ts_owner ts)) (ts_peer ts) (Some guid)) (1 + (MAX_SERVICE_INFO_ROUNDS + 1)) 0 new_session ev r)"
proof -
  let ?step = "bmo_step cr (Some (ts_owner ts)) (ts_peer ts) (Some guid)"
  let ?rest = "\<lambda>nonce (x, c). bind (lift (check_setup_device20 cr x nonce (ts_signer ts))) (\<lambda>_.
      bind (service_info_loop MAX_SERVICE_INFO_ROUNDS env cr ae url guid ts 0 (new_session, [], c)) (to2_done env ae url ts nonce))"
  have "spec (bind (service_info_loop MAX_SERVICE_INFO_ROUNDS env cr ae url guid ts 0 (new_session, [], c)) (to2_done env ae url ts nonce))
     (\<lambda>r ev. concluded ?step (MAX_SERVICE_INFO_ROUNDS + 1) c new_session ev r)" for nonce c
    by (rule concluded_bind [OF progress_loop [of _ _ _ _ "(new_session, [], c)", unfolded fst_conv snd_conv]])
      (use done_concluded in \<open>simp add: case_prod_beta\<close>)
  note loop = this
  have rest: "spec (?rest nonce x) (\<lambda>r ev. concluded ?step (MAX_SERVICE_INFO_ROUNDS + 1) (snd x) new_session ev r)" for nonce x
    unfolding case_prod_beta by (rule concluded_step) (use loop in \<open>auto intro!: spec_intro\<close>)
  have "spec (bind (sealed_exchange env ae url tok key MSG_TO2_DEVICE_SVC_INFO_RDY plain 0) (?rest nonce))
     (\<lambda>r ev. concluded ?step (1 + (MAX_SERVICE_INFO_ROUNDS + 1)) 0 new_session ev r)" for tok key plain nonce
    by (rule concluded_bind [OF progress_sealed_exchange]) (use rest in \<open>auto simp: case_prod_beta\<close>)
  note start = this
  show ?thesis
    unfolding to2_onboard_def by (rule concluded_step) (use start in \<open>auto intro!: spec_intro\<close>)
qed

text \<open>A run of TO2 ends before the peer is authenticated, or goes on with the authenticated session.\<close>

lemma perform_to2_cases:
  obtains (unknown) "\<forall>e\<in>set (new_events (perform_to2 env cr ae url guid dk hk to1d) h). \<not> privileged e"
  | (known) ts ev1 ev2 where "authenticated env cr guid hk h ts"
    "new_events (perform_to2 env cr ae url guid dk hk to1d) h = ev1 @ ev2" "\<forall>e\<in>set ev1. \<not> privileged e"
    "concluded (bmo_step cr (Some (ts_owner ts)) (ts_peer ts) (Some guid)) (1 + (MAX_SERVICE_INFO_ROUNDS + 1)) 0 new_session ev2
       (fst (perform_to2 env cr ae url guid dk hk to1d h))"
proof -
  let ?a = "to2_authenticate env cr url guid dk hk to1d"
  obtain r ev1 where a: "?a h = (r, h @ ev1)" "\<forall>e\<in>set ev1. \<not> privileged e"
    using authenticate_unprivileged [of env cr url guid dk hk to1d] unfolding spec_def by blast
  show thesis
  proof (cases r)
    case (Ret ts)
    obtain r2 ev2 where o: "to2_onboard env cr ae url guid ts (h @ ev1) = (r2, (h @ ev1) @ ev2)"
        "concluded (bmo_step cr (Some (ts_owner ts)) (ts_peer ts) (Some guid)) (1 + (MAX_SERVICE_INFO_ROUNDS + 1)) 0 new_session ev2 r2"
      using onboard_concluded [of env cr ae url guid ts] unfolding spec_def by blast
    have "perform_to2 env cr ae url guid dk hk to1d h = (r2, h @ ev1 @ ev2)"
      using a(1) Ret o(1) by (simp add: perform_to2_def bind_def)
    with known [OF to2_authenticate_Ret [OF a(1) [unfolded Ret]], of ev1 ev2] a(2) o(2) show thesis
      by (simp add: new_events_def)
  qed (use a unknown in \<open>auto simp: perform_to2_def bind_def new_events_def\<close>)
qed

lemma seals_ivs: "seals c cs = map2 build_encrypted_message (session_ivs (length cs) c) cs"
  by (induction cs arbitrary: c) (simp_all add: case_prod_beta)

end
