(* ===== verification/Owner_Msg.thy ===== *)
theory Owner_Msg
  imports Fdo_Msg
begin

text \<open>
  What a conforming Owner writes is what the device reads: the messages of TO2 from the Owner's side, as CBOR items, through
  the parsers of \<open>Fdo_Msg\<close>.
\<close>

section \<open>ProveOVHdr20\<close>

text \<open>The payload: voucher header, number of entries, HMAC, nonce, key exchange parameter, message size, Owner key, and
  the certificates of a delegate or null.\<close>

definition prove_ov_item :: "bytes \<Rightarrow> nat \<Rightarrow> nat \<Rightarrow> bytes \<Rightarrow> bytes \<Rightarrow> bytes \<Rightarrow> nat \<Rightarrow> cbor \<Rightarrow> bytes list option \<Rightarrow> cbor" where
  "prove_ov_item ovh n alg hm nonce xb sz key chain =
     Arr [Bstr ovh, Uint n, Arr [Uint alg, Bstr hm], Bstr nonce, Bstr xb, Uint sz, key,
       case chain of None \<Rightarrow> Simple 22 | Some certs \<Rightarrow> Arr (map Bstr certs)]"

lemma read_certs_at_fdo:
  assumes "at d p (concat (map (\<lambda>c. enc (Bstr c)) cs))" and "length d < 2 ^ 63"
  shows "repeat (length cs) (\<lambda>certs. bind (read_bytes d) (\<lambda>c. ret (certs @ [c]))) acc p =
    (Ret (acc @ map (\<lambda>c. c) cs), p + length (concat (map (\<lambda>c. enc (Bstr c)) cs)))"
  by (rule repeat_collect [OF _ assms(1)]) (use assms(2) in \<open>simp add: bind_def read_bytes_at del: enc.simps\<close>)

lemma read_cert_chain_at:
  assumes "at d p (enc (case chain of None \<Rightarrow> Simple 22 | Some certs \<Rightarrow> Arr (map Bstr certs)))" and "chain \<noteq> Some []" and "length d < 2 ^ 32"
  shows "fst (read_cert_chain_or_null d p) = Ret chain"
proof (cases chain)
  case None
  with assms(1) show ?thesis
    by (simp add: read_cert_chain_or_null_def peek_null_def read_null_def bind_def read_byte_apply enc_head_def head_byte_def)
next
  case (Some cs)
  have e: "enc (Arr (map Bstr cs)) = enc_head 4 (length cs) @ concat (map (\<lambda>c. enc (Bstr c)) cs)"
    by (simp add: comp_def)
  have a: "at d p (enc_head 4 (length cs))" "at d (p + length (enc_head 4 (length cs))) (concat (map (\<lambda>c. enc (Bstr c)) cs))"
    using assms(1) Some by (simp_all add: e del: enc.simps)
  have "length cs \<le> length (concat (map (\<lambda>c. enc (Bstr c)) cs))"
    by (rule length_concat_ge) (simp add: enc_head_def)
  then have n: "length cs < 2 ^ 32" using at_bound [OF a(2)] assms(3) by linarith
  then have "\<not> length cs * 24 > 2 ^ 63 - 1" "length cs < 2 ^ 64" by simp_all
  with a peek_null_at [OF a(1)] read_array_len_at [OF a(1)] read_certs_at_fdo [OF a(2), of "[]"] assms(2,3) Some show ?thesis
    by (simp add: read_cert_chain_or_null_def bind_def with_capacity_def)
qed

lemma parse_prove_ov_item:
  assumes "d = enc (prove_ov_item ovh n alg hm nonce xb sz key chain)" and "length d < 2 ^ 32"
    and "n < 2 ^ 8" and "alg < 2 ^ 32" and "length nonce = 16" and "sz < 2 ^ 16" and "fits (2 ^ 32) key" and "chain \<noteq> Some []"
  shows "parse_prove_ov_hdr_payload d = Ret \<lparr>ov_header = ovh, num_ov_entries = n, hmac = hm,
     hmac_raw = enc (Arr [Uint alg, Bstr hm]), nonce_to2_prove_ov = nonce, xb_key_exchange = xb, ov_max_owner_msg_size = sz,
     owner_pub_key_raw = enc key, delegate_chain = chain\<rparr>"
proof -
  let ?c = "case chain of None \<Rightarrow> Simple 22 | Some certs \<Rightarrow> Arr (map Bstr certs)"
  define p1 where "p1 = length (enc_head 4 8)"
  define p2 where "p2 = p1 + length (enc (Bstr ovh))"
  define p3 where "p3 = p2 + length (enc (Uint n))"
  define p4 where "p4 = p3 + length (enc_head 4 2)"
  define p5 where "p5 = p4 + length (enc (Uint alg))"
  define p6 where "p6 = p5 + length (enc (Bstr hm))"
  define p7 where "p7 = p6 + length (enc (Bstr nonce))"
  define p8 where "p8 = p7 + length (enc (Bstr xb))"
  define p9 where "p9 = p8 + length (enc (Uint sz))"
  define p10 where "p10 = p9 + length (enc key)"
  note p_defs = p1_def p2_def p3_def p4_def p5_def p6_def p7_def p8_def p9_def p10_def
  let ?w = "enc_head 4 8 @ enc (Bstr ovh) @ enc (Uint n) @ enc_head 4 2 @ enc (Uint alg) @ enc (Bstr hm) @ enc (Bstr nonce) @
    enc (Bstr xb) @ enc (Uint sz) @ enc key @ enc ?c"
  have "d = ?w"
    using assms(1) by (simp add: prove_ov_item_def eval_nat_numeral)
  then have w: "at d 0 ?w"
    using at_whole [of d] by (rule subst)
  have a: "at d 0 (enc_head 4 8)" "at d p1 (enc (Bstr ovh))" "at d p2 (enc (Uint n))" "at d p3 (enc_head 4 2)" "at d p4 (enc (Uint alg))"
      "at d p5 (enc (Bstr hm))" "at d p6 (enc (Bstr nonce))" "at d p7 (enc (Bstr xb))" "at d p8 (enc (Uint sz))" "at d p9 (enc key)"
      "at d p10 (enc ?c)"
    using w unfolding p_defs by (simp_all only: at_append add.assoc add_0)
  have len: "length d < 2 ^ 63" using assms(2) by simp
  have "at d p3 (enc (Arr [Uint alg, Bstr hm]))" "p3 + length (enc (Arr [Uint alg, Bstr hm])) = p6"
    using a(4-6) unfolding enc_pair p_defs by (simp_all add: add.assoc del: enc.simps)
  then have raw: "get_range d p3 p6 = Some (enc (Arr [Uint alg, Bstr hm]))"
    using at_get_range by metis
  have owner: "get_range d p9 p10 = Some (enc key)"
    unfolding p10_def by (rule at_get_range [OF a(10)])
  have r: "read_array_len d 0 = (Ret 8, p1)" "read_bytes d p1 = (Ret ovh, p2)" "read_uint d p2 = (Ret n, p3)"
      "read_array_len d p3 = (Ret 2, p4)" "read_int d p4 = (Ret (as_i32 (int alg)), p5)" "read_bytes d p5 = (Ret hm, p6)"
      "read_bytes d p6 = (Ret nonce, p7)" "read_bytes d p7 = (Ret xb, p8)" "read_uint d p8 = (Ret sz, p9)" "skip_value d p9 = (Ret (), p10)"
    using a len assms(3,4,6) fits_mono [OF assms(7), of "2 ^ 64"]
    by (simp_all add: read_array_len_at read_bytes_at skip_value_at read_uint_at read_int_at p_defs [symmetric] del: enc.simps)
  obtain q where c: "read_cert_chain_or_null d p10 = (Ret chain, q)"
    using read_cert_chain_at [OF a(11) assms(8,2)] by (cases "read_cert_chain_or_null d p10") auto
  show ?thesis
    using r raw owner c assms(3,5,6)
    by (simp add: parse_prove_ov_hdr_payload_def run_def bind_def nonce16_def span_def slice_def del: enc.simps)
qed

text \<open>C31: the payload of ProveOVHdr20 is read back field by field; in particular the voucher header and the MAC are the
  exact bytes that the hash of the first voucher entry covers, and the certificates of a delegate are the ones sent.\<close>

theorem prove_ov_hdr_roundtrip:
  assumes "d = enc (prove_ov_item ovh n alg hm nonce xb sz key chain)" and "length d < 2 ^ 32"
    and "n < 2 ^ 8" and "alg < 2 ^ 32" and "length nonce = 16" and "sz < 2 ^ 16" and "fits (2 ^ 32) key" and "chain \<noteq> Some []"
  shows "parse_prove_ov_hdr_payload d = Ret \<lparr>ov_header = ovh, num_ov_entries = n, hmac = hm,
     hmac_raw = enc (Arr [Uint alg, Bstr hm]), nonce_to2_prove_ov = nonce, xb_key_exchange = xb, ov_max_owner_msg_size = sz,
     owner_pub_key_raw = enc key, delegate_chain = chain\<rparr>"
  by (rule parse_prove_ov_item [OF assms])

theorem prove_ov_hdr_roundtrip_witness:
  "parse_prove_ov_hdr_payload (enc (prove_ov_item [1] 2 5 [3] (replicate 16 4) [5] 1300 (Arr []) (Some [[6], [7]]))) =
    Ret \<lparr>ov_header = [1], num_ov_entries = 2, hmac = [3], hmac_raw = enc (Arr [Uint 5, Bstr [3]]), nonce_to2_prove_ov = replicate 16 4,
      xb_key_exchange = [5], ov_max_owner_msg_size = 1300, owner_pub_key_raw = enc (Arr []), delegate_chain = Some [[6], [7]]\<rparr>"
  by (rule prove_ov_hdr_roundtrip [OF refl]) (simp_all add: prove_ov_item_def enc_head_def)

section \<open>SetupDevice20, OwnerSvcInfo20, DoneAck20\<close>

lemma check_cred_reuse:
  assumes "parse_cose_sign1 data = Ret s1" and "payload s1 = enc (Arr [Uint 2, Simple 22, Simple 22])"
  shows "check_setup_device20 cr data setup_nonce peer =
    (if verify_sign1 cr s1 (domain_aad (aad_tag_str SETUP_DEVICE) FDO_PROTOCOL_VERSION) peer then Ret CredReuse else Err CryptoError)"
proof -
  have "enc (Arr [Uint 2, Simple 22, Simple 22]) = [0x83, 0x02, 0xf6, 0xf6]" by code_simp
  then have p: "payload s1 = [0x83, 0x02, 0xf6, 0xf6]" using assms(2) by (simp only:)
  have "read_array_len [0x83, 0x02, 0xf6, 0xf6] 0 = (Ret 3, 1)" "read_uint [0x83, 0x02, 0xf6, 0xf6] 1 = (Ret 2, 2)"
    "peek_null [0x83, 0x02, 0xf6, 0xf6] 2 = (Ret True, 2)"
    by code_simp+
  then show ?thesis
    by (simp add: check_setup_device20_def assms(1) p Let_def run_def bind_def guard_def)
qed

lemma parse_owner_svc_info_at:
  assumes "d = [0x83, if mr then 0xf5 else 0xf4, if dn then 0xf5 else 0xf4] @ rest"
  shows "parse_owner_svc_info d = Ret \<lparr>is_done = dn, is_more = mr, service_info = rest\<rparr>"
  using assms by (simp add: parse_owner_svc_info_def run_def bind_def read_array_len_def read_major_def read_byte_apply decode_additional_def
      major_eq addl_eq read_bool_def remaining_bytes_def slice_def get_range_def)

lemma parse_to2_done_ack_at:
  assumes "length nonce = 16"
  shows "parse_to2_done_ack (enc (Arr [Bstr nonce])) = Ret nonce"
proof -
  let ?d = "enc (Arr [Bstr nonce])"
  have d: "?d = enc_head 4 1 @ enc (Bstr nonce)" by simp
  have "at ?d 0 (enc_head 4 1)" "at ?d (length (enc_head 4 1)) (enc (Bstr nonce))"
    using at_whole [of ?d] unfolding d by (simp_all del: enc.simps)
  with read_array_len_at [OF this(1)] read_bytes_at [OF this(2)] assms show ?thesis
    by (simp add: parse_to2_done_ack_def run_def bind_def enc_head_def)
qed

end
