(* ===== verification/To2_Security.thy ===== *)
theory To2_Security
  imports To2 Owner_Msg
begin

text \<open>
  What a run of TO2 achieves. Safety, for every environment: authentication before anything else, provisioned images
  only, distinct IVs, an exchange that ends. Liveness: a run against an Owner that follows the protocol, with concrete
  functions in the place of the cryptography, gets to the boot of the image that the Owner provisions; it is also the
  witness that the hypotheses of the safety properties can hold.
\<close>

section \<open>A run to the end\<close>

definition yields :: "'a io \<Rightarrow> 'a \<Rightarrow> event set \<Rightarrow> bool" where
  "yields m x E \<longleftrightarrow> spec m (\<lambda>r ev. r = Ret x \<and> E \<subseteq> set ev)"

lemma yields_ret: "yields (ret x) x {}"
  unfolding yields_def by (intro spec_intro) simp

lemma yields_lift: "r = Ret x \<Longrightarrow> yields (lift r) x {}"
  unfolding yields_def by (intro spec_intro) simp

lemma yields_or_err: "r = Ret x \<Longrightarrow> yields (or_err (lift r) e) x {}"
  unfolding yields_def by (intro spec_intro) simp

lemma yields_perform: "yields (perform e) () {e}"
  unfolding yields_def by (intro spec_intro) simp

lemma yields_bind: "yields m x E \<Longrightarrow> yields (f x) y E' \<Longrightarrow> yields (bind m f) y E'"
  unfolding yields_def by (erule spec_bind) (auto elim: spec_conseq)

lemma yields_call: "(\<And>h. f h = x) \<Longrightarrow> yields (call e f) x {}"
  unfolding yields_def spec_def call_def by simp

text \<open>The Owner's side: the TPM of the device always gives the same random bytes, the Owner is the manufacturer.\<close>

definition run_nonce :: bytes where "run_nonce = replicate 16 7"

definition run_xb :: bytes where "run_xb = kex_param (replicate 32 1) (replicate 32 2) (replicate 16 3)"

definition run_prove_ov :: bytes where
  "run_prove_ov = enc (prove_ov_item sample_header 0 5 [9] run_nonce run_xb 65535 (Arr []) None)"

definition run_sign1 :: "bytes \<Rightarrow> bytes" where
  "run_sign1 pay = build_to2_prove_device_from_parts es256_header pay (replicate 64 0x33)"

definition run_sealed :: "bytes \<Rightarrow> bytes" where
  "run_sealed pay = build_encrypted_message (replicate 12 1) (pay @ replicate 16 0x99)"

definition run_bmo :: "(bytes \<times> bytes) list" where
  "run_bmo = [(BMO_KEY_IMAGE_BEGIN, sample_begin), (BMO_KEY_IMAGE_DATA @ [0x30], [0x11]), (BMO_KEY_IMAGE_END, [])]"

definition run_svc_info :: bytes where
  "run_svc_info = [0x83, 0xf4, 0xf5] @ enc (Arr (map (\<lambda>(k, v). Arr [Tstr k, Bstr v]) run_bmo))"

definition run_answer :: "nat \<Rightarrow> bytes \<Rightarrow> bytes" where
  "run_answer msg_type body =
     (if msg_type = MSG_TO2_HELLO_DEVICE_PROBE then
        enc (hello_ack_item [4] (Arr []) (Bstr sample_guid) 65535 [KEX_SUITE_20] 3 [] run_nonce (sha256 toy_crypto body))
      else if msg_type = MSG_TO2_PROVE_DEVICE then run_sign1 run_prove_ov
      else if msg_type = MSG_TO2_DEVICE_SVC_INFO_RDY then run_sealed (run_sign1 (enc (Arr [Uint 2, Simple 22, Simple 22])))
      else if msg_type = MSG_TO2_DEVICE_SVC_INFO then run_sealed run_svc_info
      else run_sealed (enc (Arr [Bstr run_nonce])))"

definition run_key :: tpm_ecdh_key_pair where
  "run_key = \<lparr>ecdh_handle = 1, public_x = replicate 32 5, public_y = replicate 32 6\<rparr>"

definition run_env :: device_env where
  "run_env = \<lparr>http_post_with_session = (\<lambda>h url body msg_type token.
       Some \<lparr>resp_body = run_answer msg_type body, resp_auth_token = None, resp_message_type = None\<rparr>),
     http_get = (\<lambda>h n url. None), tpm_get_random = (\<lambda>h n. Some run_nonce), tpm_create_ecdh_key = (\<lambda>h. Some run_key),
     tpm_ecdh_derive = (\<lambda>h k xb. Some (replicate 32 8)), tpm_sign_with_persistent = (\<lambda>h k d. Some (replicate 64 2)),
     tpm_hmac = (\<lambda>h k d. Some [9])\<rparr>"

lemma run_env_simps:
  "tpm_ecdh_derive run_env h k xb = Some (replicate 32 8)" "tpm_sign_with_persistent run_env h k d = Some (replicate 64 2)"
  "tpm_hmac run_env h k d = Some [9]"
  by (simp_all add: run_env_def)

lemma run_answer_simps:
  "run_answer MSG_TO2_PROVE_DEVICE body = run_sign1 run_prove_ov"
  "run_answer MSG_TO2_DEVICE_SVC_INFO_RDY body = run_sealed (run_sign1 (enc (Arr [Uint 2, Simple 22, Simple 22])))"
  "run_answer MSG_TO2_DEVICE_SVC_INFO body = run_sealed run_svc_info"
  "run_answer MSG_TO2_DONE body = run_sealed (enc (Arr [Bstr run_nonce]))"
  by (simp_all add: run_answer_def MSG_TO2_PROVE_DEVICE_def MSG_TO2_HELLO_DEVICE_PROBE_def MSG_TO2_DEVICE_SVC_INFO_RDY_def
      MSG_TO2_DEVICE_SVC_INFO_def MSG_TO2_DONE_def del: enc.simps)

lemma run_exchange:
  "yields (exchange run_env base msg_type body token) \<lparr>resp_body = run_answer msg_type body, resp_auth_token = None, resp_message_type = None\<rparr> {}"
  unfolding exchange_def Let_def
  by (rule yields_bind [OF yields_call [where x = "Some \<lparr>resp_body = run_answer msg_type body, resp_auth_token = None, resp_message_type = None\<rparr>"]])
    (auto simp: run_env_def check_fdo_error_def lift_simps simp del: ret_apply intro: yields_ret)

lemma run_random: "yields (get_random run_env n) run_nonce {}" "yields (get_random16 run_env) run_nonce {}"
proof -
  show r: "yields (get_random run_env n) run_nonce {}" for n
    unfolding get_random_def by (rule yields_bind [OF yields_call [where x = "Some run_nonce"]])
      (auto simp: run_env_def simp del: ret_apply intro: yields_ret)
  show "yields (get_random16 run_env) run_nonce {}"
    unfolding get_random16_def by (rule yields_bind [OF r]) (simp add: run_nonce_def yields_ret del: ret_apply)
qed

lemma run_create_key: "yields (create_ecdh_key run_env) run_key {}"
  unfolding create_ecdh_key_def by (rule yields_bind [OF yields_call [where x = "Some run_key"]])
    (auto simp: run_env_def simp del: ret_apply intro: yields_ret)

definition run_ack :: "bytes \<Rightarrow> to2_hello_device_ack" where
  "run_ack h = \<lparr>capability_flags = [4], nonce_to2_prove_dv = run_nonce, kex_suite = 1, cipher_suite = 3, max_owner_msg_size = 65535,
     hash_prev_type = HASH_TYPE_SHA256, ack_hash_prev = h\<rparr>"

lemma run_hello_ack:
  assumes "length h = 32"
  shows "parse_to2_hello_device_ack (enc (hello_ack_item [4] (Arr []) (Bstr sample_guid) 65535 [KEX_SUITE_20] 3 [] run_nonce h)) = Ret (run_ack h)"
proof -
  have "utf8_valid KEX_SUITE_20" by code_simp
  moreover have "length (enc (hello_ack_item [4] (Arr []) (Bstr sample_guid) 65535 [KEX_SUITE_20] 3 [] run_nonce h)) < 2 ^ 32"
    using assms by (simp add: hello_ack_item_def enc_head_def sample_guid_def KEX_SUITE_20_def run_nonce_def)
  ultimately show ?thesis
    by (subst parse_hello_ack20 [OF refl]) (simp_all add: sample_guid_def run_nonce_def run_ack_def)
qed

definition run_probe :: bytes where "run_probe = build_to2_hello_device_probe sample_guid run_nonce"

lemma run_hello:
  "yields (perform_to2_hello run_env toy_crypto base sample_guid)
     (run_ack (sha256 toy_crypto run_probe), None, run_answer MSG_TO2_HELLO_DEVICE_PROBE run_probe) {}"
proof -
  have "length (sha256 toy_crypto m) = 32" for m by (simp add: toy_crypto_def)
  then have ack: "parse_to2_hello_device_ack (run_answer MSG_TO2_HELLO_DEVICE_PROBE run_probe) = Ret (run_ack (sha256 toy_crypto run_probe))"
    unfolding run_answer_def by (simp add: run_hello_ack)
  show ?thesis
    unfolding perform_to2_hello_def Let_def run_probe_def [symmetric]
    by (rule yields_bind [OF run_random(2)], unfold run_probe_def [symmetric], rule yields_bind [OF run_exchange], rule yields_bind [OF yields_lift])
      (auto simp: ack verify_hash_prev_def run_ack_def lift_simps simp del: ret_apply intro: yields_ret)
qed

definition run_xa :: bytes where "run_xa = kex_param (replicate 32 5) (replicate 32 6) run_nonce"

lemma run_prove_device:
  "yields (prove_device run_env toy_crypto base sample_guid dk ack tok raw) (run_sign1 run_prove_ov, run_xa, run_nonce) {}"
proof -
  have xa: "kex_field (public_x run_key) @ kex_field (public_y run_key) @ kex_field run_nonce = run_xa"
    by (simp add: kex_field_def run_key_def run_xa_def kex_param_def run_nonce_def)
  show ?thesis
    unfolding prove_device_def Let_def
    by (rule yields_bind [OF run_create_key], rule yields_bind [OF run_random(1)], rule yields_bind [OF run_random(2)],
        rule yields_bind [OF yields_perform], rule yields_bind [OF yields_call [where x = "Some (replicate 64 2)"]])
      (auto simp: run_env_simps xa run_answer_simps simp del: ret_apply intro!: yields_bind [OF run_exchange] yields_ret)
qed

definition run_pov :: to2_prove_ov_hdr20_payload where
  "run_pov = \<lparr>ov_header = sample_header, num_ov_entries = 0, hmac = [9], hmac_raw = enc (Arr [Uint 5, Bstr [9]]),
     nonce_to2_prove_ov = run_nonce, xb_key_exchange = run_xb, ov_max_owner_msg_size = 65535, owner_pub_key_raw = enc (Arr []), delegate_chain = None\<rparr>"

lemma length_sample_header: "length sample_header < 2 ^ 14"
  by (simp add: sample_header_def header_item_def key_item_def length_spki sample_owner_def sample_guid_def enc_head_def)

lemma run_prove_ov_parses:
  "length run_prove_ov < 2 ^ 15" "parse_prove_ov_hdr_payload run_prove_ov = Ret run_pov"
proof -
  show len: "length run_prove_ov < 2 ^ 15"
    using length_sample_header
    by (simp add: run_prove_ov_def prove_ov_item_def run_nonce_def run_xb_def kex_param_def enc_head_def)
  show "parse_prove_ov_hdr_payload run_prove_ov = Ret run_pov"
    unfolding run_pov_def
    by (rule parse_prove_ov_item [OF run_prove_ov_def]) (use len in \<open>simp_all add: run_nonce_def\<close>)
qed

lemma run_sign1_parses:
  assumes "length pay < 2 ^ 15"
  shows "parse_cose_sign1 (run_sign1 pay) = Ret \<lparr>algorithm = -7, protected_header = es256_header, unprotected_header = enc (Dict []),
      payload = pay, signature = replicate 64 0x33\<rparr>"
    and "extract_cose_payload (run_sign1 pay) = Ret pay"
proof -
  have tag: "enc_head 6 18 = [0xd2]" "enc (Dict []) = [0xa0]" by code_simp+
  have d: "run_sign1 pay = enc_head 6 18 @ enc_head 4 4 @ enc (Bstr es256_header) @ enc (Dict []) @ enc (Bstr pay) @ enc (Bstr (replicate 64 0x33))"
    using assms by (simp add: run_sign1_def build_to2_prove_device_from_parts_def tag enc16 del: enc.simps)
  have "length (run_sign1 pay) < 2 ^ 32"
    using assms unfolding d by (simp add: enc_head_def)
  from canonical_payload [OF _ es256_header_alg d this]
  show "parse_cose_sign1 (run_sign1 pay) = Ret \<lparr>algorithm = -7, protected_header = es256_header, unprotected_header = enc (Dict []),
      payload = pay, signature = replicate 64 0x33\<rparr>" "extract_cose_payload (run_sign1 pay) = Ret pay"
    by simp_all
qed

definition run_sek :: bytes where
  "run_sek = sek (derive_session_keys toy_crypto (build_ecdh_shse (replicate 32 8) run_nonce (replicate 16 3)))"

lemma length_run_sek: "length run_sek = 32"
  using length_fdo_kdf [of toy_crypto] by (simp add: run_sek_def derive_session_keys_def toy_crypto_def)

lemma run_establish_keys:
  "\<exists>keys. sek keys = run_sek \<and> yields (establish_keys run_env toy_crypto (run_sign1 run_prove_ov) run_xa) (run_pov, keys) {}"
proof -
  have rand: "parse_kex_random run_xb = Ret (replicate 16 3)" "parse_kex_random run_xa = Ret run_nonce"
    using parse_kex_random_correct [of _ "replicate 32 1" "replicate 32 2" "replicate 16 3" "[]"]
      parse_kex_random_correct [of _ "replicate 32 5" "replicate 32 6" run_nonce "[]"]
    by (simp_all add: run_xb_def run_xa_def run_nonce_def)
  have "yields (establish_keys run_env toy_crypto (run_sign1 run_prove_ov) run_xa)
      (run_pov, derive_session_keys toy_crypto (build_ecdh_shse (replicate 32 8) run_nonce (replicate 16 3))) {}"
    unfolding establish_keys_def Let_def
    by (rule yields_bind [OF yields_lift [OF run_sign1_parses(2) [OF run_prove_ov_parses(1)]]], rule yields_bind [OF yields_lift [OF run_prove_ov_parses(2)]],
        rule yields_bind [OF run_create_key], rule yields_bind [OF yields_call [where x = "Some (replicate 32 8)"]])
      (auto simp: run_env_simps run_pov_def rand lift_simps or_err_simps simp del: ret_apply intro!: yields_bind [OF yields_perform] yields_ret)
  then show ?thesis unfolding run_sek_def by blast
qed

lemma run_signature: "verify_es256 toy_crypto m (replicate 64 0x33) sample_owner"
  by (simp add: verify_es256_def toy_crypto_def sample_owner_def)

lemma run_verify_owner:
  "yields (verify_owner run_env toy_crypto sample_guid hk run_pov [] (run_sign1 run_prove_ov) run_nonce None) (sample_owner, OwnerDirect, sample_owner) {}"
proof -
  have voucher: "verify_voucher toy_crypto (tpm_hmac run_env h) (ov_header run_pov) (hmac_raw run_pov) (hmac run_pov) hk sample_guid [] = Ret sample_owner" for h
    by (simp add: run_pov_def verify_voucher_def parse_sample_header run_env_simps)
  let ?s1 = "\<lparr>algorithm = -7, protected_header = es256_header, unprotected_header = enc (Dict []), payload = run_prove_ov, signature = replicate 64 0x33\<rparr>"
  have signer: "verify_prove_ov_signer toy_crypto run_pov ?s1 sample_owner = Ret (OwnerDirect, sample_owner)"
    by (simp add: verify_prove_ov_signer_def run_pov_def verify_sign1_def COSE_ALG_ES256_def run_signature)
  have "verify_nonce_echo run_nonce (nonce_to2_prove_ov run_pov) = Ret ()" "verify_to1d toy_crypto (ov_header run_pov) sample_owner None = Ret ()"
    by (simp_all add: verify_nonce_echo_def run_pov_def verify_to1d_def)
  then have "yields (bind (or_err (lift (verify_voucher toy_crypto (tpm_hmac run_env h) (ov_header run_pov) (hmac_raw run_pov) (hmac run_pov)
         hk sample_guid [])) CryptoError) (\<lambda>owner_key.
     bind (or_err (lift (parse_cose_sign1 (run_sign1 run_prove_ov))) CborError) (\<lambda>prove_ov_s1.
     bind (lift (verify_prove_ov_signer toy_crypto run_pov prove_ov_s1 owner_key)) (\<lambda>(peer, prove_ov_signer).
     bind (lift (verify_nonce_echo run_nonce (nonce_to2_prove_ov run_pov))) (\<lambda>_.
     bind (lift (verify_to1d toy_crypto (ov_header run_pov) owner_key None)) (\<lambda>_.
     ret (owner_key, peer, prove_ov_signer))))))) (sample_owner, OwnerDirect, sample_owner) {}" for h
    by (simp add: voucher run_sign1_parses [OF run_prove_ov_parses(1)] signer lift_simps or_err_simps yields_ret del: ret_apply enc.simps)
  then show ?thesis
    unfolding verify_owner_def yields_def by (rule spec_history_bind)
qed

definition run_session :: to2_session where
  "run_session = \<lparr>ts_token = None, ts_nonce_prove_dv = run_nonce, ts_key = run_sek, ts_owner = sample_owner, ts_peer = OwnerDirect, ts_signer = sample_owner\<rparr>"

lemma run_authenticate: "yields (to2_authenticate run_env toy_crypto base sample_guid dk hk None) run_session {}"
proof -
  obtain keys where keys: "sek keys = run_sek" "yields (establish_keys run_env toy_crypto (run_sign1 run_prove_ov) run_xa) (run_pov, keys) {}"
    using run_establish_keys by blast
  have fetch: "yields (fetch_ov_entries run_env base None (num_ov_entries run_pov)) [] {}"
    by (simp add: fetch_ov_entries_def run_pov_def yields_ret del: ret_apply)
  show ?thesis
    unfolding to2_authenticate_def
    by (rule yields_bind [OF yields_perform], rule yields_bind [OF run_hello], unfold prod.case, rule yields_bind [OF run_prove_device],
        unfold prod.case, rule yields_bind [OF keys(2)], unfold prod.case, rule yields_bind [OF fetch], rule yields_bind [OF run_verify_owner])
      (simp add: keys(1) run_session_def run_ack_def yields_ret del: ret_apply)
qed

lemma run_opens:
  assumes "length pay < 2 ^ 15"
  shows "cose_decrypt0_a256gcm toy_aead run_sek (run_sealed pay) = Ret pay"
proof -
  have "parse_encrypted_message (run_sealed pay) = Ret (replicate 12 1, pay @ replicate 16 0x99)"
    unfolding run_sealed_def by (rule parse_build_encrypted_message) (use assms in simp_all)
  then show ?thesis
    by (simp add: cose_decrypt0_a256gcm_def aes256_gcm_decrypt_def length_run_sek toy_aead_def Let_def)
qed

lemma run_sealed_exchange:
  assumes "\<And>body. run_answer mt body = run_sealed pay" and "length pay < 2 ^ 15"
  shows "yields (sealed_exchange run_env toy_aead base None run_sek mt plain c) (pay, c + 1) {}"
proof -
  have "\<exists>m. cose_encrypt0_a256gcm toy_aead run_sek (fst (next_session_iv c)) plain = Ret m"
    by (simp add: cose_encrypt0_a256gcm_def aes256_gcm_encrypt_def length_run_sek toy_aead_def next_session_iv_def Let_def)
  then obtain m where "cose_encrypt0_a256gcm toy_aead run_sek (fst (next_session_iv c)) plain = Ret m" by blast
  then show ?thesis
    unfolding sealed_exchange_def case_prod_beta
    by (auto simp: lift_simps run_opens [OF assms(2)] assms(1) next_session_iv_def simp del: ret_apply
        intro!: yields_bind [OF run_exchange] yields_ret)
qed

lemma run_bmo_message:
  assumes "\<And>h. process_bmo_message toy_crypto (http_get run_env h) s key val (Some sample_owner) OwnerDirect (Some sample_guid) = Ret (s', r, None)"
  shows "yields (bmo_message run_env toy_crypto sample_guid run_session s key val) (s', r) {}"
proof -
  have "yields (bind history (\<lambda>h. bind (or_err (lift (process_bmo_message toy_crypto (http_get run_env h) s key val (Some (ts_owner run_session))
      (ts_peer run_session) (Some sample_guid))) ProtocolError) (\<lambda>(s', resp, watchdog).
     bind (case watchdog of Some secs \<Rightarrow> perform (Watchdog secs) | None \<Rightarrow> ret ()) (\<lambda>_. ret (s', resp))))) (s', r) {}"
    unfolding yields_def
    by (rule spec_history_bind) (simp add: run_session_def assms lift_simps or_err_simps spec_ret del: ret_apply)
  then show ?thesis
    unfolding bmo_message_def by (rule yields_bind [OF yields_perform])
qed

lemma run_process_entries:
  "\<exists>rs. yields (process_entries run_env toy_crypto sample_guid run_session run_bmo (new_session, [])) (sample_complete Channel, rs) {}"
proof -
  let ?p = "\<lambda>f s k v. process_bmo_message toy_crypto f s k v (Some sample_owner) OwnerDirect (Some sample_guid)"
  have pre: "take (length BMO_PREFIX) BMO_KEY_IMAGE_BEGIN = BMO_PREFIX" "take (length BMO_PREFIX) (BMO_KEY_IMAGE_DATA @ [0x30]) = BMO_PREFIX"
      "take (length BMO_PREFIX) BMO_KEY_IMAGE_END = BMO_PREFIX"
    by code_simp+
  have "\<not> is_cbor_tag18 sample_begin"
    by (simp add: is_cbor_tag18_def sample_begin_def enc_head_def head_byte_def)
  then have b: "?p f new_session BMO_KEY_IMAGE_BEGIN sample_begin = Ret (sample_awaiting Channel, None, None)" for f
    by (simp add: process_bmo_message_def process_image_begin_def check_bmo_authorization_def
        is_authorized_def parse_sample_begin watchdog_extension_def signed_begin_binds_content_def
        begin_delivery_def begin_default_def BMO_DELIVERY_INLINE_def new_session_def sample_awaiting_def)
  have "yields (process_entries run_env toy_crypto sample_guid run_session run_bmo (new_session, [])) (sample_complete Channel,
      [(BMO_KEY_IMAGE_RESULT, build_bmo_image_result BMO_STATUS_SUCCESS (Some (ascii ''Image received'')))]) {}"
    unfolding run_bmo_def process_entries.simps pre if_True simp_thms
    by (rule yields_bind [OF run_bmo_message [OF b]], unfold prod.case process_entries.simps pre if_True simp_thms,
        rule yields_bind [OF run_bmo_message [OF sample_transfer(1)]], unfold prod.case process_entries.simps pre if_True simp_thms,
        rule yields_bind [OF run_bmo_message [OF sample_transfer(2)]])
      (simp add: yields_ret del: ret_apply)
  then show ?thesis by blast
qed

lemma run_svc_info_parses:
  "length run_svc_info < 2 ^ 15"
  "\<exists>ow. parse_owner_svc_info run_svc_info = Ret ow \<and> is_done ow \<and> service_info ow \<noteq> [] \<and> parse_service_info_array (service_info ow) = Ret run_bmo"
proof -
  let ?a = "enc (Arr (map (\<lambda>(k, v). Arr [Tstr k, Bstr v]) run_bmo))"
  have len: "length ?a < 2 ^ 14"
    by (simp add: run_bmo_def sample_begin_def sample_hash_def enc_head_def BMO_KEY_IMAGE_BEGIN_def BMO_KEY_IMAGE_DATA_def BMO_KEY_IMAGE_END_def)
  then show "length run_svc_info < 2 ^ 15" by (simp add: run_svc_info_def del: enc.simps)
  have "utf8_valid BMO_KEY_IMAGE_BEGIN" "utf8_valid (BMO_KEY_IMAGE_DATA @ [0x30])" "utf8_valid BMO_KEY_IMAGE_END" by code_simp+
  then have "\<forall>(k, v)\<in>set run_bmo. utf8_valid k" by (simp add: run_bmo_def)
  from service_info_roundtrip_aux [OF this refl] len have "parse_service_info_array ?a = Ret run_bmo" by simp
  moreover have "parse_owner_svc_info run_svc_info = Ret \<lparr>is_done = True, is_more = False, service_info = ?a\<rparr>"
    by (rule parse_owner_svc_info_at) (simp add: run_svc_info_def)
  ultimately show "\<exists>ow. parse_owner_svc_info run_svc_info = Ret ow \<and> is_done ow \<and> service_info ow \<noteq> [] \<and>
      parse_service_info_array (service_info ow) = Ret run_bmo"
    by (intro exI [of _ "\<lparr>is_done = True, is_more = False, service_info = ?a\<rparr>"]) (simp del: enc.simps)
qed

lemma run_round:
  "\<exists>rs. yields (service_info_round run_env toy_crypto toy_aead base sample_guid run_session 1 (new_session, [], c))
     (True, sample_complete Channel, rs, c + 1) {}"
proof -
  obtain rs where rs: "yields (process_entries run_env toy_crypto sample_guid run_session run_bmo (new_session, [])) (sample_complete Channel, rs) {}"
    using run_process_entries by blast
  obtain ow where ow: "parse_owner_svc_info run_svc_info = Ret ow" "is_done ow" "service_info ow \<noteq> []"
      "parse_service_info_array (service_info ow) = Ret run_bmo"
    using run_svc_info_parses(2) by blast
  have "yields (process_owner_svc_info run_env toy_crypto sample_guid run_session ow (new_session, [])) (sample_complete Channel, rs) {}"
    using rs ow(3,4) by (simp add: process_owner_svc_info_def lift_simps attempt_simps del: ret_apply)
  then have rest: "yields (bind (lift (parse_owner_svc_info run_svc_info)) (\<lambda>owner_svc.
     bind (process_owner_svc_info run_env toy_crypto sample_guid run_session owner_svc (new_session, [])) (\<lambda>(bmo, responses).
     ret (is_done owner_svc, bmo, responses, c + 1)))) (True, sample_complete Channel, rs, c + 1) {}"
    unfolding ow(1) lift_simps bind_ret by (rule yields_bind) (simp add: ow(2) yields_ret del: ret_apply)
  have ts: "ts_token run_session = None" "ts_key run_session = run_sek" by (simp_all add: run_session_def)
  have "yields (service_info_round run_env toy_crypto toy_aead base sample_guid run_session 1 (new_session, [], c))
     (True, sample_complete Channel, rs, c + 1) {}"
    unfolding service_info_round_def prod.case Let_def ts
    by (rule yields_bind [OF yields_perform], rule yields_bind [OF run_sealed_exchange [OF run_answer_simps(3) run_svc_info_parses(1)]])
      (use rest in simp)
  then show ?thesis by blast
qed

lemma run_onboard: "yields (to2_onboard run_env toy_crypto toy_aead base sample_guid run_session) () {Chainload [0x11]}"
proof -
  have ts: "ts_token run_session = None" "ts_key run_session = run_sek" "ts_signer run_session = sample_owner" by (simp_all add: run_session_def)
  let ?sdev = "run_sign1 (enc (Arr [Uint 2, Simple 22, Simple 22]))"
  have setup_len: "length ?sdev < 2 ^ 15"
    by (simp add: run_sign1_def build_to2_prove_device_from_parts_def bytes_enc_def array_def head16_def enc_head_def es256_header_def)
  have "length (enc (Arr [Uint 2, Simple 22, Simple 22])) < 2 ^ 15" by (simp add: enc_head_def)
  from check_cred_reuse [OF run_sign1_parses(1) [OF this]] have reuse: "check_setup_device20 toy_crypto ?sdev run_nonce sample_owner = Ret CredReuse"
    by (simp add: verify_sign1_def COSE_ALG_ES256_def run_signature del: enc.simps)
  obtain rs where round: "yields (service_info_round run_env toy_crypto toy_aead base sample_guid run_session (0 + 1) (new_session, [], 0 + 1))
      (True, sample_complete Channel, rs, 0 + 1 + 1) {}"
    using run_round [of base "0 + 1"] by auto
  have loop: "yields (service_info_loop MAX_SERVICE_INFO_ROUNDS run_env toy_crypto toy_aead base sample_guid run_session 0 (new_session, [], 0 + 1))
      (sample_complete Channel, rs, 0 + 1 + 1) {}"
  proof -
    obtain k where k: "MAX_SERVICE_INFO_ROUNDS = Suc k" by (cases MAX_SERVICE_INFO_ROUNDS) (auto simp: MAX_SERVICE_INFO_ROUNDS_def)
    show ?thesis
      unfolding k service_info_loop.simps by (rule yields_bind [OF round]) (simp add: yields_ret del: ret_apply)
  qed
  have boot: "yields (boot_image (sample_complete Channel)) () {Chainload [0x11]}"
    using yields_perform by (simp add: boot_image_def sample_complete_def sample_awaiting_def)
  have nonce: "length (enc (Arr [Bstr run_nonce])) < 2 ^ 15" "parse_to2_done_ack (enc (Arr [Bstr run_nonce])) = Ret run_nonce"
    using parse_to2_done_ack_at [of run_nonce] by (simp_all add: run_nonce_def enc_head_def)
  have "yields (to2_done run_env toy_aead base run_session run_nonce (sample_complete Channel, rs, 0 + 1 + 1)) () {Chainload [0x11]}"
    unfolding to2_done_def prod.case ts
    by (rule yields_bind [OF run_sealed_exchange [OF run_answer_simps(4) nonce(1)]], unfold prod.case, rule yields_bind [OF yields_lift [OF nonce(2)]],
        rule yields_bind [OF yields_lift], simp add: verify_nonce_echo_def, rule yields_bind [OF yields_perform], rule boot)
  note finish = this
  show ?thesis
    unfolding to2_onboard_def ts
    by (rule yields_bind [OF run_random(2)], rule yields_bind [OF run_sealed_exchange [OF run_answer_simps(2) setup_len]], unfold prod.case,
        rule yields_bind [OF yields_lift [OF reuse]], rule yields_bind [OF loop], rule finish)
qed

lemma run_to2:
  "fst (perform_to2 run_env toy_crypto toy_aead [] sample_guid 0 0 None []) = Ret () \<and>
   Chainload [0x11] \<in> set (new_events (perform_to2 run_env toy_crypto toy_aead [] sample_guid 0 0 None) [])"
proof -
  have "yields (perform_to2 run_env toy_crypto toy_aead [] sample_guid 0 0 None) () {Chainload [0x11]}"
    unfolding perform_to2_def by (rule yields_bind [OF run_authenticate]) (rule run_onboard)
  from spec_new_events [OF this [unfolded yields_def], of "[]"] show ?thesis by auto
qed

section \<open>Properties\<close>



text \<open>C2: what TO2 boots was provisioned: an image is booted only at the end of a successful run with an authenticated peer,
  and then some \<open>image-begin\<close> that this peer delivered was authorised for this Owner, and the digest of the image is the one
  that this message, or a message it vouches for, states.\<close>

theorem to2_chainload_provisioned:
  assumes "Chainload img \<in> set (new_events (perform_to2 env cr ae url guid dk hk to1d) h)"
  shows "fst (perform_to2 env cr ae url guid dk hk to1d h) = Ret () \<and>
    (\<exists>ts v b auth. authenticated env cr guid hk h ts \<and>
      (BMO_KEY_IMAGE_BEGIN, v) \<in> set (bmo_messages (new_events (perform_to2 env cr ae url guid dk hk to1d) h)) \<and>
      authorised_begin cr (Some (ts_owner ts)) (ts_peer ts) (Some guid) v b auth \<and>
      hash_evidence cr (Some (ts_owner ts)) (bmo_messages (new_events (perform_to2 env cr ae url guid dk hk to1d) h)) b auth (sha256 cr img))"
proof (cases rule: perform_to2_cases [of env cr ae url guid dk hk to1d h])
  case unknown
  with assms show ?thesis by force
next
  case (known ts ev1 ev2)
  have q: "bmo_messages ev1 = []" "Chainload img \<notin> set ev1"
    using unprivileged_quiet [OF known(3)] by auto
  with assms known(2) have "Chainload img \<in> set ev2" by auto
  with known(4) obtain s where r: "fst (perform_to2 env cr ae url guid dk hk to1d h) = Ret ()"
      and s: "bmo_st s = Complete" "image_buffer s = img"
        "\<And>s0 ms. trace (bmo_step cr (Some (ts_owner ts)) (ts_peer ts) (Some guid)) s0 ms new_session \<Longrightarrow>
          trace (bmo_step cr (Some (ts_owner ts)) (ts_peer ts) (Some guid)) s0 (ms @ bmo_messages ev2) s"
    unfolding concluded_def by blast
  from s(3) [OF trace_start] have "bmo_inv cr (Some (ts_owner ts)) (ts_peer ts) (Some guid) (bmo_messages ev2) s"
    using bmo.inv_trace by fastforce
  with s(1,2) r known(1) q(1) show ?thesis
    unfolding known(2) by (auto simp: bmo_inv_def)
qed

theorem to2_chainload_provisioned_witness:
  "\<exists>ts v b auth. authenticated run_env toy_crypto sample_guid 0 [] ts \<and>
    authorised_begin toy_crypto (Some (ts_owner ts)) (ts_peer ts) (Some sample_guid) v b auth"
  using to2_chainload_provisioned [OF run_to2 [THEN conjunct2]] by blast

text \<open>C13: no IV is used twice in a run: the messages under the session key, at most 100002 of them, are
  COSE_Encrypt0 messages with distinct IVs.\<close>

theorem to2_ivs_distinct:
  "\<exists>ivs cts. sealed_bodies (new_events (perform_to2 env cr ae url guid dk hk to1d) h) = map2 build_encrypted_message ivs cts \<and>
     distinct ivs \<and> length ivs = length cts \<and> length cts \<le> 100002"
proof (cases rule: perform_to2_cases [of env cr ae url guid dk hk to1d h])
  case unknown
  then show ?thesis using unprivileged_quiet by (intro exI [of _ "[]"]) auto
next
  case (known ts ev1 ev2)
  then obtain cs where "sealed_bodies ev2 = seals 0 cs" "length cs \<le> 100002"
    unfolding concluded_def MAX_SERVICE_INFO_ROUNDS_def by auto
  moreover from this have "distinct (session_ivs (length cs) 0)"
    by (intro session_ivs_distinct_below) simp
  ultimately show ?thesis
    using unprivileged_quiet [OF known(3)] by (intro exI [of _ "session_ivs (length cs) 0"] exI [of _ cs]) (simp add: known(2) seals_ivs)
qed

lemma service_info_loop_fuel:
  assumes "MAX_SERVICE_INFO_ROUNDS \<le> round + k" and "round < MAX_SERVICE_INFO_ROUNDS"
  shows "service_info_loop (k + j) env cr ae url guid ts round st = service_info_loop k env cr ae url guid ts round st"
  using assms
proof (induction k arbitrary: round st)
  case (Suc k)
  have "service_info_loop (k + j) env cr ae url guid ts (round + 1) st' = service_info_loop k env cr ae url guid ts (round + 1) st'"
    if "round + 1 < MAX_SERVICE_INFO_ROUNDS" for st'
    using Suc.IH [of "round + 1" st'] Suc.prems that by simp
  then have "(\<lambda>(is_done, st'). if round + 1 \<ge> MAX_SERVICE_INFO_ROUNDS \<or> is_done then ret st'
        else service_info_loop (k + j) env cr ae url guid ts (round + 1) st') =
      (\<lambda>(is_done, st'). if round + 1 \<ge> MAX_SERVICE_INFO_ROUNDS \<or> is_done then ret st'
        else service_info_loop k env cr ae url guid ts (round + 1) st')"
    by (intro ext) (auto split: prod.split)
  then show ?case by (simp only: add_Suc service_info_loop.simps)
qed simp

text \<open>C28: the service info exchange ends: its own limit on the rounds stops it, whatever the peer answers, so that more fuel than
  100000 rounds never changes a run; and a run sends at most 100000 DeviceSvcInfo20 messages.\<close>

theorem service_info_loop_terminates:
  "service_info_loop (MAX_SERVICE_INFO_ROUNDS + j) env cr ae url guid ts 0 st =
     service_info_loop MAX_SERVICE_INFO_ROUNDS env cr ae url guid ts 0 st \<and>
   length (sealed_bodies (new_events (service_info_loop MAX_SERVICE_INFO_ROUNDS env cr ae url guid ts 0 st) h)) \<le> 100000"
proof
  show "service_info_loop (MAX_SERVICE_INFO_ROUNDS + j) env cr ae url guid ts 0 st =
     service_info_loop MAX_SERVICE_INFO_ROUNDS env cr ae url guid ts 0 st"
    by (rule service_info_loop_fuel) (simp_all add: MAX_SERVICE_INFO_ROUNDS_def)
  have "good (bmo_step cr (Some (ts_owner ts)) (ts_peer ts) (Some guid)) MAX_SERVICE_INFO_ROUNDS (snd (snd st)) (fst st)
      (new_events (service_info_loop MAX_SERVICE_INFO_ROUNDS env cr ae url guid ts 0 st) h)
      (at_end (\<lambda>(s', _, c'). (s', c')) (fst (service_info_loop MAX_SERVICE_INFO_ROUNDS env cr ae url guid ts 0 st h)))"
    using spec_new_events [OF progress_loop [unfolded progress_def]] by blast
  moreover have "length (seals c cs) = length cs" for c cs
    by (simp add: seals_ivs)
  ultimately show "length (sealed_bodies (new_events (service_info_loop MAX_SERVICE_INFO_ROUNDS env cr ae url guid ts 0 st) h)) \<le> 100000"
    unfolding good_def MAX_SERVICE_INFO_ROUNDS_def by auto
qed


text \<open>C4: the two readings of one message break the authentication of TO2. From any one signature of the Owner in the domain of
  ProveOVHdr20 (recorded in another run, so over another nonce) an attacker makes an answer to this run: for every nonce and
  every key exchange parameter there is a message from which the device takes that nonce and that parameter, and which passes
  all checks on the Owner, given the voucher, which every Owner sends to every device that asks.\<close>

theorem replayed_signature_authenticates:
  assumes old: "verify_sign1 cr \<lparr>algorithm = -7, protected_header = prot, unprotected_header = u, payload = pay, signature = sg\<rparr>
      (domain_aad (aad_tag_str PROVE_OV_HDR) FDO_PROTOCOL_VERSION) owner" and "parse_protected_alg prot = Ret (-7)"
    and voucher: "verify_voucher cr (tpm_hmac env h) ovh (enc (Arr [Uint alg, Bstr hm])) hm hk guid entries = Ret owner"
    and "length nonce = 16" and "length entries < 2 ^ 8" and "alg < 2 ^ 32"
    and "length (prot @ pay @ enc (prove_ov_item ovh (length entries) alg hm nonce xb 65535 (Arr []) None) @ sg) < 2 ^ 31"
  defines "forged \<equiv> split_message prot pay (enc (prove_ov_item ovh (length entries) alg hm nonce xb 65535 (Arr []) None)) sg"
  shows "\<exists>pov. obind (extract_cose_payload forged) parse_prove_ov_hdr_payload = Ret pov \<and> xb_key_exchange pov = xb \<and>
    verify_owner env cr guid hk pov entries forged nonce None h = (Ret (owner, OwnerDirect, owner), h)"
proof -
  let ?p = "enc (prove_ov_item ovh (length entries) alg hm nonce xb 65535 (Arr []) None)"
  let ?pov = "\<lparr>ov_header = ovh, num_ov_entries = length entries, hmac = hm, hmac_raw = enc (Arr [Uint alg, Bstr hm]),
    nonce_to2_prove_ov = nonce, xb_key_exchange = xb, ov_max_owner_msg_size = 65535, owner_pub_key_raw = enc (Arr []), delegate_chain = None\<rparr>"
  obtain ub where s1: "parse_cose_sign1 forged = Ret \<lparr>algorithm = -7, protected_header = prot, unprotected_header = ub, payload = pay, signature = sg\<rparr>"
      and pay: "extract_cose_payload forged = Ret ?p"
    using split_message_reads [OF assms(7,2)] unfolding forged_def by blast
  have len: "length ?p < 2 ^ 32" using assms(7) by simp
  have pov: "parse_prove_ov_hdr_payload ?p = Ret ?pov"
    by (rule parse_prove_ov_item [OF refl len]) (use assms(4-6) in simp_all)
  have "verify_prove_ov_signer cr ?pov \<lparr>algorithm = -7, protected_header = prot, unprotected_header = ub, payload = pay, signature = sg\<rparr> owner
      = Ret (OwnerDirect, owner)"
    using old by (simp add: verify_prove_ov_signer_def verify_sign1_def del: aad_tag_str.simps split: if_splits)
  with s1 voucher have "verify_owner env cr guid hk ?pov entries forged nonce None h = (Ret (owner, OwnerDirect, owner), h)"
    by (simp add: verify_owner_def bind_def history_def lift_def or_err_def verify_nonce_echo_def verify_to1d_def del: enc.simps)
  with pay pov show ?thesis by (intro exI [of _ ?pov]) simp
qed

theorem replayed_signature_authenticates_witness:
  "\<exists>pov. obind (extract_cose_payload (split_message es256_header [1] (enc (prove_ov_item sample_header 0 5 [9] (replicate 16 7) [8] 65535 (Arr []) None))
      (replicate 64 0x33))) parse_prove_ov_hdr_payload = Ret pov \<and> xb_key_exchange pov = [8] \<and>
    verify_owner run_env toy_crypto sample_guid 0 pov [] (split_message es256_header [1]
      (enc (prove_ov_item sample_header 0 5 [9] (replicate 16 7) [8] 65535 (Arr []) None)) (replicate 64 0x33)) (replicate 16 7) None [] =
    (Ret (sample_owner, OwnerDirect, sample_owner), [])"
proof -
  have "verify_voucher toy_crypto (tpm_hmac run_env []) sample_header (enc (Arr [Uint 5, Bstr [9]])) [9] 0 sample_guid [] = Ret sample_owner"
    by (simp add: verify_voucher_def parse_sample_header run_env_simps del: enc.simps)
  moreover have "length (es256_header @ [1] @ enc (prove_ov_item sample_header (length []) 5 [9] (replicate 16 7) [8] 65535 (Arr []) None) @ replicate 64 0x33) < 2 ^ 31"
    using length_sample_header by (simp add: prove_ov_item_def enc_head_def es256_header_def)
  ultimately show ?thesis
    using replayed_signature_authenticates [of toy_crypto es256_header "[]" "[1]" "replicate 64 0x33" sample_owner run_env "[]" sample_header 5 "[9]" 0 sample_guid "[]"
        "replicate 16 7" "[8]"] es256_header_alg
    by (simp add: verify_sign1_def COSE_ALG_ES256_def run_signature del: enc.simps)
qed

end
