(* ===== verification/To2_Errors.thy ===== *)
theory To2_Errors
  imports To2_Security
begin

text \<open>
  The error paths of the drivers. An exchange fails when the HTTP request fails or when the answer is an FDO error message;
  \<open>stops\<close> says that a computation does nothing more after a failed exchange and does not succeed. It is shown
  step by step, with one rule for each construct of the drivers.
\<close>

section \<open>Failed exchanges\<close>

fun failed_post :: "device_env \<Rightarrow> event list \<Rightarrow> event \<Rightarrow> bool" where
  "failed_post env h (Post url body msg_type token) = (case http_post_with_session env h url body msg_type token of
     None \<Rightarrow> True
   | Some resp \<Rightarrow> check_fdo_error (resp_message_type resp) (resp_body resp) \<noteq> Ret ())"
| "failed_post env h _ = False"

definition last_words :: "device_env \<Rightarrow> event list \<Rightarrow> ('e, 'a) outcome \<Rightarrow> event list \<Rightarrow> bool" where
  "last_words env h r ev \<longleftrightarrow>
     (\<forall>i<length ev. failed_post env (h @ take i ev) (ev ! i) \<longrightarrow> Suc i = length ev \<and> (\<forall>x. r \<noteq> Ret x))"

definition stops :: "device_env \<Rightarrow> (event list, 'e, 'a) comp \<Rightarrow> bool" where
  "stops env m \<longleftrightarrow> (\<forall>h. \<exists>r ev. m h = (r, h @ ev) \<and> last_words env h r ev)"

named_theorems stops_intro

lemma stops_quiet: "(\<And>h. \<exists>r. m h = (r, h)) \<Longrightarrow> stops env m"
  unfolding stops_def last_words_def by (metis append_Nil2 length_0_conv less_nat_zero_code)

lemma stops_ret [stops_intro]: "stops env (ret x)"
  and stops_panic [stops_intro]: "stops env panic"
  and stops_diverge [stops_intro]: "stops env diverge"
  and stops_lift [stops_intro]: "stops env (lift r)"
  and stops_or_err_lift [stops_intro]: "stops env (or_err (lift r') e)"
  and stops_guard [stops_intro]: "stops env (guard c e)"
  and stops_of_option [stops_intro]: "stops env (of_option e o')"
  by (rule stops_quiet; auto simp: lift_def or_err_def guard_def of_option_def split: outcome.splits option.splits)+

lemma stops_history [stops_intro]: "stops env history"
  and stops_attempt_lift [stops_intro]: "stops env (attempt (lift r'))"
  by (rule stops_quiet; auto simp: history_def lift_def attempt_def split: outcome.splits)+

lemma stops_call [stops_intro]: "(\<And>h. \<not> failed_post env h e) \<Longrightarrow> stops env (call e f)"
  unfolding stops_def last_words_def call_def by auto

lemma stops_perform [stops_intro]: "(\<And>h. \<not> failed_post env h e) \<Longrightarrow> stops env (perform e)"
  unfolding perform_def by (rule stops_call)

lemma last_words_append:
  assumes "last_words env h (Ret x) ev" and "last_words env (h @ ev) r ev'"
  shows "last_words env h r (ev @ ev')"
  unfolding last_words_def
proof (intro allI impI)
  fix i assume i: "i < length (ev @ ev')" "failed_post env (h @ take i (ev @ ev')) ((ev @ ev') ! i)"
  have "\<not> i < length ev" using assms(1) i(2) unfolding last_words_def by (auto simp: nth_append)
  with i assms(2) have "Suc (i - length ev) = length ev' \<and> (\<forall>x. r \<noteq> Ret x)"
    unfolding last_words_def by (auto simp: nth_append)
  with \<open>\<not> i < length ev\<close> show "Suc i = length (ev @ ev') \<and> (\<forall>x. r \<noteq> Ret x)" by auto
qed

lemma stops_bind [stops_intro]:
  assumes "stops env m" and "\<And>x. stops env (f x)"
  shows "stops env (bind m f)"
  unfolding stops_def
proof
  fix h
  obtain r ev where m: "m h = (r, h @ ev)" "last_words env h r ev"
    using assms(1) unfolding stops_def by blast
  show "\<exists>r ev. bind m f h = (r, h @ ev) \<and> last_words env h r ev"
  proof (cases r)
    case (Ret x)
    obtain r' ev' where "f x (h @ ev) = (r', (h @ ev) @ ev')" "last_words env (h @ ev) r' ev'"
      using assms(2) unfolding stops_def by blast
    with m Ret last_words_append show ?thesis by (fastforce simp: bind_def)
  qed (use m in \<open>auto simp: bind_def last_words_def\<close>)
qed

lemma stops_repeat [stops_intro]: "(\<And>s. stops env (body s)) \<Longrightarrow> stops env (repeat n body s)"
  by (induction n arbitrary: s) (auto intro!: stops_intro)

lemma stops_exchange [stops_intro]: "stops env (exchange env base msg_type body token)"
  unfolding stops_def exchange_def Let_def last_words_def
  by (auto simp: bind_def call_def of_option_def lift_def split: option.splits outcome.splits)

section \<open>The drivers\<close>

lemma stops_sealed_exchange [stops_intro]: "stops env (sealed_exchange env ae base token key mt plain c)"
  unfolding sealed_exchange_def by (auto intro!: stops_intro split: prod.splits)

lemma stops_random [stops_intro]: "stops env (get_random env n)" "stops env (get_random16 env)"
  unfolding get_random_def get_random16_def by (auto intro!: stops_intro)

lemma stops_authenticate [stops_intro]: "stops env (to2_authenticate env cr url guid dk hk to1d)"
  unfolding to2_authenticate_def perform_to2_hello_def prove_device_def establish_keys_def fetch_ov_entries_def verify_owner_def
    create_ecdh_key_def Let_def
  by (auto intro!: stops_intro split: prod.splits)

lemma stops_process_entries [stops_intro]: "stops env (process_entries env cr guid ts es st)"
proof (induction es arbitrary: st)
  case Nil
  show ?case by (cases st) (auto intro!: stops_intro simp del: ret_apply)
next
  case (Cons e es)
  then show ?case by (cases e; cases st) (auto simp: bmo_message_def intro!: stops_intro split: prod.splits option.splits)
qed

lemma stops_loop [stops_intro]: "stops env (service_info_loop k env cr ae url guid ts round st)"
proof (induction k arbitrary: round st)
  case (Suc k)
  then show ?case
    by (auto simp: service_info_round_def process_owner_svc_info_def Let_def intro!: stops_intro split: prod.splits option.splits)
qed (auto intro!: stops_intro)

lemma stops_perform_to2: "stops env (perform_to2 env cr ae url guid dk hk to1d)"
  unfolding perform_to2_def to2_onboard_def to2_done_def boot_image_def by (auto intro!: stops_intro split: prod.splits)

lemma stops_perform_to1: "stops env (perform_to1 env cr url guid dk)"
  unfolding perform_to1_def perform_to1_hello_def perform_to1_prove_def by (auto intro!: stops_intro split: prod.splits)

lemma stops_new_events:
  assumes "stops env m" and "new_events m h = a @ e # b" and "failed_post env (h @ a) e"
  shows "b = [] \<and> (\<forall>x. fst (m h) \<noteq> Ret x)"
proof -
  obtain r ev where m: "m h = (r, h @ ev)" "last_words env h r ev"
    using assms(1) unfolding stops_def by blast
  then have ev: "ev = a @ e # b" using assms(2) by (simp add: new_events_def)
  then have "length a < length ev" "take (length a) ev = a" "ev ! length a = e" by simp_all
  with m(2) assms(3) have "Suc (length a) = length ev \<and> (\<forall>x. r \<noteq> Ret x)"
    unfolding last_words_def by metis
  with m(1) ev show ?thesis by simp
qed

text \<open>C27: an exchange that fails ends TO1 and TO2: when a request is not answered, or is answered with an FDO error message, it
  is the last thing the run does, and the run does not succeed. In particular the device is not booted into an image, and no
  later message is sent.\<close>

theorem failed_exchange_stops:
  assumes "http_post_with_session env (h @ a) u body mt token = None \<or>
      (\<exists>resp. http_post_with_session env (h @ a) u body mt token = Some resp \<and> check_fdo_error (resp_message_type resp) (resp_body resp) \<noteq> Ret ())"
  shows "(new_events (perform_to2 env cr ae url guid dk hk to1d) h = a @ Post u body mt token # b \<longrightarrow>
      b = [] \<and> fst (perform_to2 env cr ae url guid dk hk to1d h) \<noteq> Ret ()) \<and>
    (new_events (perform_to1 env cr url guid dk) h = a @ Post u body mt token # b \<longrightarrow>
      b = [] \<and> (\<forall>redirect. fst (perform_to1 env cr url guid dk h) \<noteq> Ret redirect))"
proof -
  have "failed_post env (h @ a) (Post u body mt token)" using assms by auto
  note stop = stops_new_events [OF stops_perform_to2 _ this] stops_new_events [OF stops_perform_to1 _ this]
  show ?thesis using stop(1) [of cr ae url guid dk hk to1d] stop(2) [of cr url guid dk] by blast
qed

definition silent_env :: device_env where
  "silent_env = run_env\<lparr>http_post_with_session := (\<lambda>h url body msg_type token. None)\<rparr>"

theorem failed_exchange_stops_witness:
  "\<exists>u body. new_events (perform_to2 silent_env toy_crypto toy_aead [] sample_guid 0 0 None) [] =
      [FlushAllTransient, GetRandom 16] @ Post u body MSG_TO2_HELLO_DEVICE_PROBE None # [] \<and>
    fst (perform_to2 silent_env toy_crypto toy_aead [] sample_guid 0 0 None []) \<noteq> Ret ()"
proof -
  let ?u = "ascii ''/fdo/200/msg/'' @ dec_nat MSG_TO2_HELLO_DEVICE_PROBE"
  let ?b = "build_to2_hello_device_probe sample_guid run_nonce"
  have none: "http_post_with_session silent_env h u b mt tok = None" for h u b mt tok
    by (simp add: silent_env_def)
  have random: "get_random16 silent_env h = (Ret run_nonce, h @ [GetRandom 16])" for h
    by (simp add: get_random16_def get_random_def silent_env_def run_env_def run_nonce_def bind_def call_def of_option_def)
  have ev: "new_events (perform_to2 silent_env toy_crypto toy_aead [] sample_guid 0 0 None) [] =
      [FlushAllTransient, GetRandom 16] @ Post ?u ?b MSG_TO2_HELLO_DEVICE_PROBE None # []"
    by (simp add: new_events_def perform_to2_def to2_authenticate_def perform_to2_hello_def exchange_def random
        bind_def perform_def call_def of_option_def none Let_def)
  have "fst (perform_to2 silent_env toy_crypto toy_aead [] sample_guid 0 0 None []) \<noteq> Ret ()"
    using failed_exchange_stops [THEN conjunct1, rule_format, OF _ ev] none by blast
  with ev show ?thesis by blast
qed

end
