(* ===== verification/Dns.thy ===== *)
theory Dns
  imports Cbor
begin

text \<open>
  \<open>src/src/dns.rs\<close>: the DNS resolver. Packets are built and parsed by pure functions; \<open>dns_resolve\<close> keeps its
  statics in the record \<open>dns_state\<close>: the server, the cache, the counter of transaction identifiers, and (for the network's
  answers, which may depend on it) what was sent. The UDP exchange of one query is the parameter \<open>udp\<close>, which \<open>Udp4\<close> provides. Every index of the
  source is behind a comparison with the length, so no function can panic; names are followed through at most 64 pointers,
  which is the termination proof of the two loops over labels.

  Shown: names round-trip; on a server that answers for a zone, \<open>dns_resolve\<close> gives what following the aliases of the
  zone gives, with or without the cache; the cache stays bounded and has one entry for a name.
\<close>

section \<open>Packets\<close>

definition DNS_FLAG_RD :: nat where "DNS_FLAG_RD = 0x0100"
definition DNS_TYPE_A :: nat where "DNS_TYPE_A = 1"
definition DNS_TYPE_CNAME :: nat where "DNS_TYPE_CNAME = 5"
definition DNS_CLASS_IN :: nat where "DNS_CLASS_IN = 1"
definition MAX_CNAME_DEPTH :: nat where "MAX_CNAME_DEPTH = 8"
definition MAX_CACHE_ENTRIES :: nat where "MAX_CACHE_ENTRIES = 16"

text \<open>\<open>s.split(c)\<close> for an ASCII character: one piece more than there are separators.\<close>

fun split_at :: "byte \<Rightarrow> bytes \<Rightarrow> bytes list" where
  "split_at c [] = [[]]"
| "split_at c (b # bs) = (case split_at c bs of
     p # ps \<Rightarrow> if b = c then [] # p # ps else (b # p) # ps
   | [] \<Rightarrow> [[b]])"

definition encode_label :: "bytes \<Rightarrow> bytes" where
  "encode_label label =
     (if label = [] then []
      else if length label > 63 then 63 # take 63 label
      else u8 (length label) # label)"

definition encode_dns_name :: "bytes \<Rightarrow> bytes" where
  "encode_dns_name n = concat (map encode_label (split_at 0x2e n)) @ [0]"

definition build_dns_query :: "bytes \<Rightarrow> nat \<Rightarrow> bytes" where
  "build_dns_query hostname tx_id =
     be 2 tx_id @ be 2 DNS_FLAG_RD @ be 2 1 @ be 2 0 @ be 2 0 @ be 2 0
     @ encode_dns_name hostname @ be 2 DNS_TYPE_A @ be 2 DNS_CLASS_IN"

text \<open>\<open>u16::from_be_bytes([data[p], data[p + 1]])\<close>.\<close>

definition u16_at :: "bytes \<Rightarrow> nat \<Rightarrow> nat" where
  "u16_at d p = 256 * unat (d ! p) + unat (d ! (p + 1))"

text \<open>The target of a compression pointer: \<open>((len & 0x3F) << 8) | data[pos + 1]\<close>.\<close>

definition pointer_at :: "bytes \<Rightarrow> nat \<Rightarrow> nat" where
  "pointer_at d p = 256 * unat (d ! p AND 0x3F) + unat (d ! (p + 1))"

function skip_name_loop :: "bytes \<Rightarrow> nat \<Rightarrow> nat \<Rightarrow> nat option \<Rightarrow> nat option" where
  "skip_name_loop d pos jumps end_pos =
     (if pos \<ge> length d then None
      else if d ! pos = 0 then Some (case end_pos of Some e \<Rightarrow> e | None \<Rightarrow> pos + 1)
      else if d ! pos AND 0xC0 = 0xC0 then
        (if pos + 1 \<ge> length d then None
         else if jumps + 1 > 64 then None
         else skip_name_loop d (pointer_at d pos) (jumps + 1) (case end_pos of Some e \<Rightarrow> Some e | None \<Rightarrow> Some (pos + 2)))
      else skip_name_loop d (pos + 1 + unat (d ! pos)) jumps end_pos)"
  by pat_completeness auto
termination
  by (relation "measures [\<lambda>(d, pos, jumps, e). 65 - jumps, \<lambda>(d, pos, jumps, e). length d - pos]") auto

declare skip_name_loop.simps [simp del]

definition skip_dns_name :: "bytes \<Rightarrow> nat \<Rightarrow> nat option" where
  "skip_dns_name d pos = skip_name_loop d pos 0 None"

text \<open>\<open>name.push(b as char)\<close>: the byte as a Latin-1 character, in UTF-8.\<close>

definition push_char :: "byte \<Rightarrow> bytes" where
  "push_char b = (if b < 0x80 then [b] else [0xC0 OR drop_bit 6 b, 0x80 OR (b AND 0x3F)])"

function decode_name_loop :: "bytes \<Rightarrow> nat \<Rightarrow> nat \<Rightarrow> nat option \<Rightarrow> bytes \<Rightarrow> (bytes \<times> nat) option" where
  "decode_name_loop d pos jumps end_pos n =
     (if pos \<ge> length d then None
      else if d ! pos = 0 then Some (n, case end_pos of Some e \<Rightarrow> e | None \<Rightarrow> pos + 1)
      else if d ! pos AND 0xC0 = 0xC0 then
        (if pos + 1 \<ge> length d then None
         else if jumps + 1 > 64 then None
         else decode_name_loop d (pointer_at d pos) (jumps + 1) (case end_pos of Some e \<Rightarrow> Some e | None \<Rightarrow> Some (pos + 2)) n)
      else let len = unat (d ! pos) in
        if pos + 1 + len > length d then None
        else decode_name_loop d (pos + 1 + len) jumps end_pos
          (n @ (if n = [] then [] else [0x2e]) @ concat (map push_char (take len (drop (pos + 1) d)))))"
  by pat_completeness auto
termination
  by (relation "measures [\<lambda>(d, pos, jumps, e, n). 65 - jumps, \<lambda>(d, pos, jumps, e, n). length d - pos]") auto

declare decode_name_loop.simps [simp del]

definition decode_dns_name :: "bytes \<Rightarrow> nat \<Rightarrow> (bytes \<times> nat) option" where
  "decode_dns_name d pos = decode_name_loop d pos 0 None []"

text \<open>
  The question section, and the answers until one is taken. The flags are the bytes 2 and 3: the bit \<open>0x8000\<close> is in the
  first, the response code in the second.
\<close>

fun skip_questions :: "nat \<Rightarrow> bytes \<Rightarrow> nat \<Rightarrow> nat option" where
  "skip_questions 0 d pos = Some pos"
| "skip_questions (Suc n) d pos = (case skip_dns_name d pos of
     None \<Rightarrow> None
   | Some p \<Rightarrow> if p + 4 > length d then None else skip_questions n d (p + 4))"

fun find_address :: "nat \<Rightarrow> bytes \<Rightarrow> nat \<Rightarrow> bytes option" where
  "find_address 0 d pos = None"
| "find_address (Suc n) d pos =
     (if pos \<ge> length d then None
      else case skip_dns_name d pos of
        None \<Rightarrow> None
      | Some p \<Rightarrow>
          if p + 10 > length d then None
          else let rtype = u16_at d p; rclass = u16_at d (p + 2); rdlength = u16_at d (p + 8) in
            if p + 10 + rdlength > length d then None
            else if rtype = DNS_TYPE_A \<and> rclass = DNS_CLASS_IN \<and> rdlength = 4 then Some (take 4 (drop (p + 10) d))
            else find_address n d (p + 10 + rdlength))"

definition parse_dns_response :: "bytes \<Rightarrow> nat \<Rightarrow> bytes option" where
  "parse_dns_response d expected_id =
     (if length d < 12 then None
      else if u16_at d 0 \<noteq> expected_id then None
      else if d ! 2 AND 0x80 = 0 then None
      else if d ! 3 AND 0x0F \<noteq> 0 then None
      else if u16_at d 6 = 0 then None
      else case skip_questions (u16_at d 4) d 12 of None \<Rightarrow> None | Some pos \<Rightarrow> find_address (u16_at d 6) d pos)"

fun find_cname :: "nat \<Rightarrow> bytes \<Rightarrow> nat \<Rightarrow> bytes option" where
  "find_cname 0 d pos = None"
| "find_cname (Suc n) d pos =
     (if pos \<ge> length d then None
      else case skip_dns_name d pos of
        None \<Rightarrow> None
      | Some p \<Rightarrow>
          if p + 10 > length d then None
          else let rtype = u16_at d p; rdlength = u16_at d (p + 8) in
            if p + 10 + rdlength > length d then None
            else if rtype = DNS_TYPE_CNAME \<and> rdlength > 0 then map_option fst (decode_dns_name d (p + 10))
            else find_cname n d (p + 10 + rdlength))"

definition extract_cname_target :: "bytes \<Rightarrow> nat \<Rightarrow> bytes option" where
  "extract_cname_target d expected_id =
     (if length d < 12 then None
      else if u16_at d 0 \<noteq> expected_id \<or> d ! 2 AND 0x80 = 0 then None
      else if d ! 3 AND 0x0F \<noteq> 0 then None
      else case skip_questions (u16_at d 4) d 12 of None \<Rightarrow> None | Some pos \<Rightarrow> find_cname (u16_at d 6) d pos)"

text \<open>\<open>s.parse()\<close> for an unsigned type of \<open>limit\<close> values: digits, with an optional plus sign, and no overflow.\<close>

definition parse_uint :: "nat \<Rightarrow> bytes \<Rightarrow> nat option" where
  "parse_uint limit s =
     (let ds = (case s of [] \<Rightarrow> [] | c # cs \<Rightarrow> if c = 0x2b then cs else s);
          n = fold (\<lambda>c v. 10 * v + (unat c - 48)) ds 0 in
      if ds \<noteq> [] \<and> list_all (\<lambda>c. 0x30 \<le> c \<and> c \<le> 0x39) ds \<and> n < limit then Some n else None)"

definition parse_u8 :: "bytes \<Rightarrow> byte option" where
  "parse_u8 s = map_option u8 (parse_uint 256 s)"

definition is_ipv4_address :: "bytes \<Rightarrow> bool" where
  "is_ipv4_address s \<longleftrightarrow> (let parts = split_at 0x2e s in length parts = 4 \<and> list_all (\<lambda>p. parse_u8 p \<noteq> None) parts)"

section \<open>The resolver\<close>

record dns_state =
  dns_server :: "bytes option"
  dns_cache :: "(bytes \<times> bytes) list"
  dns_tx_id :: "16 word"
  dns_sent :: "(bytes \<times> bytes) list"

type_synonym udp = "(bytes \<times> bytes) list \<Rightarrow> bytes \<Rightarrow> bytes \<Rightarrow> bytes option"

definition set_dns_server :: "bytes \<Rightarrow> dns_state \<Rightarrow> dns_state" where
  "set_dns_server ip s = s\<lparr>dns_server := Some ip\<rparr>"

text \<open>
  What one network interface answers to the questions for its DNS servers: whether its protocol opens, the size it asks for
  (\<open>BUFFER_TOO_SMALL\<close>), and what it writes to a buffer of that size. The first server that is not 0.0.0.0 is taken.
\<close>

record ip4_config =
  cfg_open :: bool
  cfg_size :: "nat option"
  cfg_data :: "bytes option"

fun discover_loop :: "ip4_config list \<Rightarrow> dns_state \<Rightarrow> dns_state" where
  "discover_loop [] s = s"
| "discover_loop (c # cs) s =
     (if \<not> cfg_open c then discover_loop cs s
      else case cfg_size c of
        None \<Rightarrow> discover_loop cs s
      | Some data_size \<Rightarrow>
          if data_size < 4 then discover_loop cs s
          else case cfg_data c of
            None \<Rightarrow> discover_loop cs s
          | Some written \<Rightarrow>
              let buf = take data_size (written @ replicate data_size 0); ip = take 4 buf in
              if ip \<noteq> [0, 0, 0, 0] then set_dns_server ip s else discover_loop cs s)"

definition discover_dns_server :: "ip4_config list option \<Rightarrow> dns_state \<Rightarrow> dns_state" where
  "discover_dns_server handles s = (case handles of None \<Rightarrow> s | Some cs \<Rightarrow> discover_loop cs s)"

text \<open>One query with the next identifier, which wraps; and the loop over the aliases.\<close>

definition dns_query :: "udp \<Rightarrow> bytes \<Rightarrow> bytes \<Rightarrow> dns_state \<Rightarrow> bytes option \<times> dns_state" where
  "dns_query udp server current_name s =
     (let query = build_dns_query current_name (unat (dns_tx_id s)) in
      (udp (dns_sent s) query server, s\<lparr>dns_tx_id := dns_tx_id s + 1, dns_sent := dns_sent s @ [(query, server)]\<rparr>))"

fun chase_cnames :: "nat \<Rightarrow> udp \<Rightarrow> bytes \<Rightarrow> bytes \<Rightarrow> dns_state \<Rightarrow> bytes option \<times> dns_state" where
  "chase_cnames 0 udp server current_name s = (None, s)"
| "chase_cnames (Suc k) udp server current_name s =
     (case dns_query udp server current_name s of
        (None, s') \<Rightarrow> (None, s')
      | (Some response, s') \<Rightarrow>
          (case parse_dns_response response (unat (dns_tx_id s)) of
             Some addr \<Rightarrow> (Some addr, s')
           | None \<Rightarrow>
               (case extract_cname_target response (unat (dns_tx_id s)) of
                  Some cname_target \<Rightarrow> chase_cnames k udp server cname_target s'
                | None \<Rightarrow> (None, s'))))"

definition cache_result :: "bytes \<Rightarrow> bytes \<Rightarrow> dns_state \<Rightarrow> dns_state" where
  "cache_result hostname ip s =
     (let cache = (if length (dns_cache s) \<ge> MAX_CACHE_ENTRIES then drop 1 (dns_cache s) else dns_cache s) in
      s\<lparr>dns_cache := cache @ [(hostname, ip)]\<rparr>)"

definition dns_resolve :: "udp \<Rightarrow> bytes \<Rightarrow> dns_state \<Rightarrow> bytes option \<times> dns_state" where
  "dns_resolve udp hostname s =
     (if is_ipv4_address hostname then (those (map parse_u8 (split_at 0x2e hostname)), s)
      else case map_of (dns_cache s) hostname of
        Some ip \<Rightarrow> (Some ip, s)
      | None \<Rightarrow>
          (case dns_server s of
             None \<Rightarrow> (None, s)
           | Some server \<Rightarrow>
               (case chase_cnames MAX_CNAME_DEPTH udp server hostname s of
                  (None, s') \<Rightarrow> (None, s')
                | (Some ip, s') \<Rightarrow> (Some ip, cache_result hostname ip s'))))"

section \<open>Names\<close>

text \<open>A name as its labels: the dotted form, and the two forms on the wire (in full, or ending in a pointer to the question).\<close>

fun dotted_name :: "bytes list \<Rightarrow> bytes" where
  "dotted_name [] = []"
| "dotted_name [l] = l"
| "dotted_name (l # ls) = l @ 0x2e # dotted_name ls"

definition good_label :: "bytes \<Rightarrow> bool" where
  "good_label l \<longleftrightarrow> l \<noteq> [] \<and> length l \<le> 63 \<and> (\<forall>b\<in>set l. b < 0x80 \<and> b \<noteq> 0x2e)"

abbreviation good_name :: "bytes list \<Rightarrow> bool" where
  "good_name ls \<equiv> \<forall>l\<in>set ls. good_label l"

definition label_bytes :: "bytes list \<Rightarrow> bytes" where
  "label_bytes ls = concat (map (\<lambda>l. u8 (length l) # l) ls)"

fun wire_name :: "bytes list \<times> bool \<Rightarrow> bytes" where
  "wire_name (ls, ptr) = label_bytes ls @ (if ptr then [0xC0, 12] else [0])"

lemma split_at_not_Nil [simp]: "split_at c bs \<noteq> []"
  by (cases bs) (auto split: list.split)

lemma split_at_label: "c \<notin> set l \<Longrightarrow> split_at c l = [l]" "c \<notin> set l \<Longrightarrow> split_at c (l @ c # bs) = l # split_at c bs"
  by (induction l) (auto split: list.split)

lemma split_at_dotted: "good_name ls \<Longrightarrow> ls \<noteq> [] \<Longrightarrow> split_at 0x2e (dotted_name ls) = ls"
  by (induction ls rule: dotted_name.induct) (auto simp: split_at_label good_label_def)

lemma encode_dotted: "good_name ls \<Longrightarrow> encode_dns_name (dotted_name ls) = wire_name (ls, False)"
proof (cases "ls = []")
  case False
  assume "good_name ls"
  moreover from this have "concat (map encode_label ls) = concat (map (\<lambda>l. u8 (length l) # l) ls)"
    by (intro arg_cong [of _ _ concat] map_cong refl) (auto simp: encode_label_def good_label_def)
  ultimately show ?thesis using False by (simp add: encode_dns_name_def split_at_dotted label_bytes_def)
qed (simp add: encode_dns_name_def encode_label_def label_bytes_def)

lemma label_length_byte:
  assumes "n \<le> 63"
  shows "u8 n AND 0xC0 \<noteq> (0xC0 :: byte)" "n \<noteq> 0 \<Longrightarrow> u8 n \<noteq> (0 :: byte)" "unat (u8 n) = n"
proof -
  have "u8 n = take_bit 6 (u8 n)" using assms by (simp add: take_bit_of_nat take_bit_nat_eq_self)
  moreover have "take_bit 6 b AND 0xC0 = (0 :: byte)" for b
    by (simp add: take_bit_eq_mask mask_eq_exp_minus_1 and.assoc)
  ultimately have "u8 n AND 0xC0 = (0 :: byte)" by metis
  then show "u8 n AND 0xC0 \<noteq> (0xC0 :: byte)" by simp
  show u: "unat (u8 n) = n" using assms by (simp add: unat_u8)
  show "n \<noteq> 0 \<Longrightarrow> u8 n \<noteq> (0 :: byte)" using u by (metis unsigned_0)
qed

lemma skip_labels:
  "good_name ls \<Longrightarrow> at d p (label_bytes ls) \<Longrightarrow>
   skip_name_loop d p j e = skip_name_loop d (p + length (label_bytes ls)) j e"
proof (induction ls arbitrary: p)
  case (Cons l ls)
  note byte = label_length_byte [of "length l"]
  have l: "length l \<le> 63" "l \<noteq> []" using Cons.prems(1) by (auto simp: good_label_def)
  have "at d p (u8 (length l) # l @ label_bytes ls)" using Cons.prems(2) by (simp add: label_bytes_def)
  then have "p < length d" "d ! p = u8 (length l)" "at d (p + 1 + length l) (label_bytes ls)" by (simp_all add: add.assoc)
  with Cons.IH [of "p + 1 + length l"] Cons.prems(1) byte l show ?case
    by (subst skip_name_loop.simps) (simp add: label_bytes_def algebra_simps)
qed (simp add: label_bytes_def)

lemma skip_wire_name:
  assumes "good_name ls" and "at d p (wire_name (ls, ptr))" and "ptr \<Longrightarrow> good_name qs \<and> at d 12 (wire_name (qs, False))"
  shows "skip_dns_name d p = Some (p + length (wire_name (ls, ptr)))"
proof -
  let ?p = "p + length (label_bytes ls)"
  have root: "at d q [0] \<Longrightarrow> skip_name_loop d q j e = Some (case e of Some e' \<Rightarrow> e' | None \<Rightarrow> q + 1)" for q j e
    by (subst skip_name_loop.simps) simp
  have start: "skip_dns_name d p = skip_name_loop d ?p 0 None"
    unfolding skip_dns_name_def using skip_labels [OF assms(1)] assms(2) by simp
  show ?thesis
  proof (cases ptr)
    case True
    let ?q = "12 + length (label_bytes qs)"
    have q: "skip_name_loop d 12 1 (Some (?p + 2)) = skip_name_loop d ?q 1 (Some (?p + 2))" "at d ?q [0]"
      using skip_labels [of qs d 12] assms(3) True by auto
    have "at d ?p [0xC0, 12]" using assms(2) True by simp
    then have "skip_name_loop d ?p 0 None = skip_name_loop d 12 1 (Some (?p + 2))"
      by (subst skip_name_loop.simps) (simp add: pointer_at_def)
    with start q root True show ?thesis by simp
  next
    case False
    with start root [of ?p] assms(2) show ?thesis by simp
  qed
qed

lemma decode_labels:
  "good_name ls \<Longrightarrow> at d p (label_bytes ls) \<Longrightarrow>
   decode_name_loop d p j e n = decode_name_loop d (p + length (label_bytes ls)) j e
     (n @ (if n = [] \<or> ls = [] then [] else [0x2e]) @ dotted_name ls)"
proof (induction ls arbitrary: p n)
  case (Cons l ls)
  note byte = label_length_byte [of "length l"]
  have l: "length l \<le> 63" "l \<noteq> []" "\<forall>b\<in>set l. b < 0x80" using Cons.prems(1) by (auto simp: good_label_def)
  have a: "at d p (u8 (length l) # l @ label_bytes ls)" using Cons.prems(2) by (simp add: label_bytes_def)
  then have d: "p < length d" "d ! p = u8 (length l)" "at d (Suc p) l" "at d (p + 1 + length l) (label_bytes ls)" by (simp_all add: add.assoc)
  have "concat (map push_char l) = concat (map (\<lambda>b. [b]) l)"
    by (intro arg_cong [of _ _ concat] map_cong refl) (use l(3) in \<open>simp add: push_char_def\<close>)
  then have "concat (map push_char l) = l" by simp
  moreover have "take (length l) (drop (Suc p) d) = l" using d(3) by (simp add: at_def)
  moreover have "p + 1 + length l \<le> length d" using d(3) at_bound by fastforce
  ultimately have "decode_name_loop d p j e n = decode_name_loop d (p + 1 + length l) j e (n @ (if n = [] then [] else [0x2e]) @ l)"
    using d byte l by (subst decode_name_loop.simps) (simp add: Let_def)
  with Cons.IH [OF _ d(4), of "n @ (if n = [] then [] else [0x2e]) @ l"] Cons.prems(1) l(2) show ?case
    by (cases ls) (simp_all add: label_bytes_def algebra_simps)
qed (simp add: label_bytes_def)

lemma decode_wire_name:
  assumes "good_name ls" and "at d p (wire_name (ls, False))"
  shows "decode_dns_name d p = Some (dotted_name ls, p + length (wire_name (ls, False)))"
proof -
  have "decode_name_loop d q j e n = Some (n, case e of Some e' \<Rightarrow> e' | None \<Rightarrow> q + 1)" if "at d q [0]" for q j e n
    using that by (subst decode_name_loop.simps) simp
  with decode_labels [OF assms(1), of d p 0 None "[]"] assms(2) show ?thesis by (simp add: decode_dns_name_def)
qed

section \<open>Answers\<close>

text \<open>What a server sends: resource records, with names in full or ending in a pointer to the question.\<close>

datatype rdata = Addr bytes | Alias "bytes list" | Other nat bytes

record dns_rr =
  rr_name :: "bytes list \<times> bool"
  rr_class :: nat
  rr_ttl :: nat
  rr_data :: rdata

fun rdata_type :: "rdata \<Rightarrow> nat" where
  "rdata_type (Addr _) = DNS_TYPE_A" | "rdata_type (Alias _) = DNS_TYPE_CNAME" | "rdata_type (Other t _) = t"

fun rdata_bytes :: "rdata \<Rightarrow> bytes" where
  "rdata_bytes (Addr ip) = ip" | "rdata_bytes (Alias ls) = wire_name (ls, False)" | "rdata_bytes (Other _ bs) = bs"

fun good_rdata :: "rdata \<Rightarrow> bool" where
  "good_rdata (Addr ip) \<longleftrightarrow> length ip = 4"
| "good_rdata (Alias ls) \<longleftrightarrow> good_name ls \<and> length (wire_name (ls, False)) < 2 ^ 16"
| "good_rdata (Other t bs) \<longleftrightarrow> t < 2 ^ 16 \<and> t \<notin> {DNS_TYPE_A, DNS_TYPE_CNAME} \<and> length bs < 2 ^ 16"

definition good_rr :: "dns_rr \<Rightarrow> bool" where
  "good_rr r \<longleftrightarrow> good_name (fst (rr_name r)) \<and> rr_class r < 2 ^ 16 \<and> good_rdata (rr_data r)"

definition rr_bytes :: "dns_rr \<Rightarrow> bytes" where
  "rr_bytes r = wire_name (rr_name r) @ be 2 (rdata_type (rr_data r)) @ be 2 (rr_class r) @ be 4 (rr_ttl r)
     @ be 2 (length (rdata_bytes (rr_data r))) @ rdata_bytes (rr_data r)"

definition dns_answer :: "nat \<Rightarrow> bytes list \<Rightarrow> dns_rr list \<Rightarrow> bytes \<Rightarrow> bytes \<Rightarrow> bytes" where
  "dns_answer i q rrs counts more_sections =
     be 2 i @ be 2 0x8180 @ be 2 1 @ be 2 (length rrs) @ counts @ wire_name (q, False) @ be 2 DNS_TYPE_A @ be 2 DNS_CLASS_IN
     @ concat (map rr_bytes rrs) @ more_sections"

fun first_address :: "dns_rr list \<Rightarrow> bytes option" where
  "first_address [] = None"
| "first_address (r # rrs) = (case rr_data r of Addr ip \<Rightarrow> if rr_class r = DNS_CLASS_IN then Some ip else first_address rrs | _ \<Rightarrow> first_address rrs)"

fun first_alias :: "dns_rr list \<Rightarrow> bytes list option" where
  "first_alias [] = None"
| "first_alias (r # rrs) = (case rr_data r of Alias ls \<Rightarrow> Some ls | _ \<Rightarrow> first_alias rrs)"

lemma u16_at_be: "at d p (be 2 n) \<Longrightarrow> n < 2 ^ 16 \<Longrightarrow> u16_at d p = n"
  by (simp add: u16_at_def be_numeral unat_u8)

lemma rr_at:
  assumes "good_rr r" and "at d p (rr_bytes r)" and "good_name q" and "at d 12 (wire_name (q, False))"
  defines "b \<equiv> rdata_bytes (rr_data r)" and "e \<equiv> p + length (wire_name (rr_name r))"
  shows "skip_dns_name d p = Some e" "p < length d" "e + 10 + length b \<le> length d" "u16_at d e = rdata_type (rr_data r)"
    "u16_at d (e + 2) = rr_class r" "u16_at d (e + 8) = length b" "at d (e + 10) b"
    "p + length (rr_bytes r) = e + 10 + length b"
proof -
  obtain ls ptr where n: "rr_name r = (ls, ptr)" by fastforce
  have parts: "at d p (wire_name (rr_name r))" "at d e (be 2 (rdata_type (rr_data r)))" "at d (e + 2) (be 2 (rr_class r))"
      "at d (e + 8) (be 2 (length b))" "at d (e + 10) b"
    using assms(2) by (simp_all add: rr_bytes_def b_def e_def algebra_simps del: wire_name.simps)
  have small: "rdata_type (rr_data r) < 2 ^ 16" "length b < 2 ^ 16" "rr_class r < 2 ^ 16"
    using assms(1) by (cases "rr_data r"; simp add: good_rr_def b_def DNS_TYPE_A_def DNS_TYPE_CNAME_def)+
  show "skip_dns_name d p = Some e"
    unfolding e_def n by (rule skip_wire_name [OF _ _ conjI]) (use assms parts(1) n in \<open>auto simp: good_rr_def\<close>)
  show "p < length d" using parts(1) n by (intro at_less [OF parts(1)]) simp
  show "at d (e + 10) b" by (rule parts)
  show "e + 10 + length b \<le> length d" using at_bound [OF parts(5)] .
  show "u16_at d e = rdata_type (rr_data r)" "u16_at d (e + 2) = rr_class r" "u16_at d (e + 8) = length b"
    by (rule u16_at_be [OF parts(2) small(1)], rule u16_at_be [OF parts(3) small(3)], rule u16_at_be [OF parts(4) small(2)])
  show "p + length (rr_bytes r) = e + 10 + length b" by (simp add: rr_bytes_def b_def e_def del: wire_name.simps)
qed

lemma find_step:
  assumes "good_rr r" and "at d p (rr_bytes r)" and "good_name q" and "at d 12 (wire_name (q, False))"
  shows "find_address (Suc n) d p = (case rr_data r of
      Addr ip \<Rightarrow> if rr_class r = DNS_CLASS_IN then Some ip else find_address n d (p + length (rr_bytes r))
    | _ \<Rightarrow> find_address n d (p + length (rr_bytes r)))" (is ?address)
    and "find_cname (Suc n) d p = (case rr_data r of
      Alias ls \<Rightarrow> Some (dotted_name ls)
    | _ \<Rightarrow> find_cname n d (p + length (rr_bytes r)))" (is ?cname)
proof -
  note r = rr_at [OF assms]
  let ?e = "p + length (wire_name (rr_name r))" and ?b = "rdata_bytes (rr_data r)"
  have data: "take (length ?b) (drop (?e + 10) d) = ?b" using r(7) by (simp add: at_def)
  have "find_address (Suc n) d p =
    (if rdata_type (rr_data r) = DNS_TYPE_A \<and> rr_class r = DNS_CLASS_IN \<and> length ?b = 4 then Some (take 4 (drop (?e + 10) d))
     else find_address n d (p + length (rr_bytes r)))"
    unfolding find_address.simps r(1) r(8) option.case Let_def r(4-6) using r(2,3) by simp
  with data assms(1) show ?address
    by (cases "rr_data r") (auto simp: good_rr_def DNS_TYPE_A_def DNS_TYPE_CNAME_def)
  have "find_cname (Suc n) d p =
    (if rdata_type (rr_data r) = DNS_TYPE_CNAME \<and> length ?b > 0 then map_option fst (decode_dns_name d (?e + 10))
     else find_cname n d (p + length (rr_bytes r)))"
    unfolding find_cname.simps r(1) r(8) option.case Let_def r(4-6) using r(2,3) by simp
  with r(7) assms(1) show ?cname
    by (cases "rr_data r") (auto simp: good_rr_def DNS_TYPE_A_def DNS_TYPE_CNAME_def decode_wire_name simp del: wire_name.simps, simp)
qed

lemma find_at:
  assumes "good_name q" and "at d 12 (wire_name (q, False))" and "\<forall>r\<in>set rrs. good_rr r" and "at d p (concat (map rr_bytes rrs))"
  shows "find_address (length rrs) d p = first_address rrs"
    and "find_cname (length rrs) d p = map_option dotted_name (first_alias rrs)"
  using assms(3,4)
proof (induction rrs arbitrary: p)
  case (Cons r rrs)
  {
    case 1
    then show ?case using find_step(1) [of r d p, OF _ _ assms(1,2)] Cons.IH(1) by (simp del: find_address.simps split: rdata.split)
  next
    case 2
    then show ?case using find_step(2) [of r d p, OF _ _ assms(1,2)] Cons.IH(2) by (simp del: find_cname.simps split: rdata.split)
  }
qed simp_all

lemma parse_answer:
  assumes "good_name q" and "\<forall>r\<in>set rrs. good_rr r" and "length rrs < 2 ^ 16" and "i < 2 ^ 16" and "length counts = 4"
  shows "parse_dns_response (dns_answer i q rrs counts tail) i = first_address rrs" (is ?parse)
    and "extract_cname_target (dns_answer i q rrs counts tail) i = map_option dotted_name (first_alias rrs)" (is ?target)
proof -
  define d where "d = dns_answer i q rrs counts tail"
  let ?p = "12 + length (wire_name (q, False))"
  have whole: "at d 0 (be 2 i @ be 2 0x8180 @ be 2 1 @ be 2 (length rrs) @ counts @ wire_name (q, False) @ be 2 DNS_TYPE_A @ be 2 DNS_CLASS_IN
      @ concat (map rr_bytes rrs) @ tail)"
    using at_whole [of d] by (simp only: d_def dns_answer_def)
  have a: "at d 0 (be 2 i)" "at d 2 (be 2 0x8180)" "at d 4 (be 2 1)" "at d 6 (be 2 (length rrs))" "at d 12 (wire_name (q, False))"
      "at d (?p + 4) (concat (map rr_bytes rrs))"
    using whole assms(5) by (simp_all add: algebra_simps del: wire_name.simps add_2_eq_Suc add_2_eq_Suc')
  have len: "12 \<le> length d" "?p + 4 \<le> length d" using at_bound [OF a(6)] by simp_all
  have qs: "skip_questions (Suc 0) d 12 = Some (?p + 4)"
    using skip_wire_name [of q d 12 False] assms(1) a(5) len(2) by simp
  have h: "u16_at d 0 = i" "u16_at d 4 = Suc 0" "u16_at d 6 = length rrs"
    using u16_at_be [OF a(1) assms(4)] u16_at_be [OF a(3)] u16_at_be [OF a(4) assms(3)] by simp_all
  have "be 2 0x8180 = [0x81, 0x80 :: byte]" by (simp add: be_numeral)
  then have fl: "d ! 2 = 0x81" "d ! 3 = 0x80" using a(2) by (simp_all add: numeral_3_eq_3 numeral_2_eq_2 del: One_nat_def)
  note f = find_at [OF assms(1) a(5) assms(2) a(6)]
  show ?parse unfolding d_def [symmetric] using h len(1) fl qs f(1) by (cases rrs) (simp_all add: parse_dns_response_def del: skip_questions.simps)
  show ?target unfolding d_def [symmetric] using h len(1) fl qs f(2) by (simp add: extract_cname_target_def del: skip_questions.simps)
qed

section \<open>Resolution\<close>

text \<open>The records a server has for each name, what it answers, and what a name stands for: an address, or what its alias stands for.\<close>

type_synonym zone = "bytes list \<Rightarrow> dns_rr list"

definition good_zone :: "zone \<Rightarrow> bool" where
  "good_zone z \<longleftrightarrow> (\<forall>ls. good_name ls \<longrightarrow> length (z ls) < 2 ^ 16 \<and> (\<forall>r\<in>set (z ls). good_rr r))"

definition serves :: "udp \<Rightarrow> bytes \<Rightarrow> zone \<Rightarrow> bool" where
  "serves udp server z \<longleftrightarrow> (\<forall>sent ls i. good_name ls \<longrightarrow> i < 2 ^ 16 \<longrightarrow> (\<exists>counts tail. length counts = 4 \<and>
     udp sent (build_dns_query (dotted_name ls) i) server = Some (dns_answer i ls (z ls) counts tail)))"

fun zone_lookup :: "nat \<Rightarrow> zone \<Rightarrow> bytes list \<Rightarrow> bytes option" where
  "zone_lookup 0 z ls = None"
| "zone_lookup (Suc k) z ls = (case first_address (z ls) of
     Some ip \<Rightarrow> Some ip
   | None \<Rightarrow> (case first_alias (z ls) of Some ls' \<Rightarrow> zone_lookup k z ls' | None \<Rightarrow> None))"

lemma first_alias_good: "\<forall>r\<in>set rrs. good_rr r \<Longrightarrow> first_alias rrs = Some ls \<Longrightarrow> good_name ls"
  by (induction rrs) (auto simp: good_rr_def split: rdata.splits)

lemma chase_zone:
  assumes "serves udp server z" and "good_zone z"
  shows "good_name ls \<Longrightarrow> \<exists>s'. chase_cnames k udp server (dotted_name ls) s = (zone_lookup k z ls, s') \<and>
    dns_cache s' = dns_cache s \<and> dns_server s' = dns_server s \<and> length (dns_sent s') \<le> length (dns_sent s) + k"
proof (induction k arbitrary: ls s)
  case (Suc k)
  let ?i = "unat (dns_tx_id s)"
  have i: "?i < 2 ^ 16" using unsigned_less [of "dns_tx_id s"] by simp
  obtain counts tail where u: "length counts = 4"
      "udp (dns_sent s) (build_dns_query (dotted_name ls) ?i) server = Some (dns_answer ?i ls (z ls) counts tail)"
    using assms(1) Suc.prems i unfolding serves_def by blast
  have rrs: "\<forall>r\<in>set (z ls). good_rr r" "length (z ls) < 2 ^ 16" using assms(2) Suc.prems unfolding good_zone_def by blast+
  note ans = parse_answer [OF Suc.prems rrs i u(1), of tail]
  obtain s' where q: "dns_query udp server (dotted_name ls) s = (Some (dns_answer ?i ls (z ls) counts tail), s')"
      "dns_cache s' = dns_cache s" "dns_server s' = dns_server s" "length (dns_sent s') = length (dns_sent s) + 1"
    using u(2) by (simp add: dns_query_def Let_def)
  show ?case
  proof (cases "first_address (z ls) = None")
    case True
    show ?thesis
    proof (cases "first_alias (z ls)")
      case (Some ls')
      from Suc.IH [OF first_alias_good [OF rrs(1) Some], of s'] q ans True Some show ?thesis by auto
    qed (use q ans True in simp)
  qed (use q ans in auto)
qed simp

text \<open>The state of the cache: bounded, one entry for a name, each of them what the zone gives.\<close>

definition cache_ok :: "zone \<Rightarrow> dns_state \<Rightarrow> bool" where
  "cache_ok z s \<longleftrightarrow> length (dns_cache s) \<le> MAX_CACHE_ENTRIES \<and> distinct (map fst (dns_cache s)) \<and>
     (\<forall>ls ip. good_name ls \<longrightarrow> (dotted_name ls, ip) \<in> set (dns_cache s) \<longrightarrow> zone_lookup MAX_CNAME_DEPTH z ls = Some ip)"

lemma dotted_inj:
  assumes "good_name ls" and "good_name ls'" and "dotted_name ls = dotted_name ls'"
  shows "ls = ls'"
proof -
  have nil: "dotted_name xs = [] \<longleftrightarrow> xs = []" if "good_name xs" for xs
    using that by (cases xs rule: dotted_name.cases) (auto simp: good_label_def)
  show ?thesis
  proof (cases "ls = []")
    case False
    then have "ls' \<noteq> []" using nil assms by metis
    with False split_at_dotted assms show ?thesis by metis
  qed (use nil assms in metis)
qed

lemma cache_result_ok:
  assumes "cache_ok z s" and "map_of (dns_cache s) (dotted_name ls) = None" and "good_name ls" and "zone_lookup MAX_CNAME_DEPTH z ls = Some ip"
  shows "cache_ok z (cache_result (dotted_name ls) ip s)" and "map_of (dns_cache (cache_result (dotted_name ls) ip s)) (dotted_name ls) = Some ip"
proof -
  let ?c = "if length (dns_cache s) \<ge> MAX_CACHE_ENTRIES then drop 1 (dns_cache s) else dns_cache s"
  have c: "dns_cache (cache_result (dotted_name ls) ip s) = ?c @ [(dotted_name ls, ip)]" by (simp add: cache_result_def Let_def)
  have sub: "set ?c \<subseteq> set (dns_cache s)" by (auto dest: in_set_dropD)
  have new: "dotted_name ls \<notin> fst ` set ?c" using sub assms(2) by (auto simp: map_of_eq_None_iff)
  have "distinct (map fst ?c)" using assms(1) by (simp add: cache_ok_def drop_map [symmetric] distinct_drop)
  moreover have "length ?c < MAX_CACHE_ENTRIES" using assms(1) by (auto simp: cache_ok_def MAX_CACHE_ENTRIES_def)
  ultimately show "cache_ok z (cache_result (dotted_name ls) ip s)"
    unfolding cache_ok_def c using new sub assms dotted_inj [OF _ assms(3)] by (auto simp: cache_ok_def)
  show "map_of (dns_cache (cache_result (dotted_name ls) ip s)) (dotted_name ls) = Some ip"
    unfolding c using new by (simp add: map_add_def map_of_eq_None_iff [THEN iffD2])
qed

text \<open>C18: against a server that answers for a zone, resolution refines the lookup in the zone, following up to eight aliases; it sends at
  most eight queries, keeps the cache bounded, unambiguous and true to the zone, and the name just resolved can be found in it.\<close>

theorem dns_resolve_refines:
  assumes "serves udp server z" and "good_zone z" and "good_name ls" and "\<not> is_ipv4_address (dotted_name ls)" and "dns_server s = Some server"
    and "cache_ok z s"
  shows "\<exists>s'. dns_resolve udp (dotted_name ls) s = (zone_lookup MAX_CNAME_DEPTH z ls, s') \<and> cache_ok z s' \<and> dns_server s' = Some server \<and>
    length (dns_sent s') \<le> length (dns_sent s) + MAX_CNAME_DEPTH \<and>
    map_of (dns_cache s') (dotted_name ls) = zone_lookup MAX_CNAME_DEPTH z ls"
proof (cases "map_of (dns_cache s) (dotted_name ls)")
  case None
  obtain s1 where s1: "chase_cnames MAX_CNAME_DEPTH udp server (dotted_name ls) s = (zone_lookup MAX_CNAME_DEPTH z ls, s1)"
      "dns_cache s1 = dns_cache s" "dns_server s1 = dns_server s" "length (dns_sent s1) \<le> length (dns_sent s) + MAX_CNAME_DEPTH"
    using chase_zone [OF assms(1-3)] by blast
  have ok: "cache_ok z s1" using assms(6) s1(2) by (simp add: cache_ok_def)
  show ?thesis
  proof (cases "zone_lookup MAX_CNAME_DEPTH z ls")
    case (Some ip)
    with cache_result_ok [OF ok _ assms(3) Some] None s1 assms(4,5) show ?thesis
      by (auto simp: dns_resolve_def cache_result_def Let_def)
  qed (use None s1 ok assms(4,5) in \<open>auto simp: dns_resolve_def\<close>)
next
  case (Some ip)
  then have "zone_lookup MAX_CNAME_DEPTH z ls = Some ip" using assms(3,6) map_of_SomeD unfolding cache_ok_def by metis
  with Some assms(4-6) show ?thesis by (auto simp: dns_resolve_def)
qed

text \<open>A zone with an alias, and a server for any zone: it reads the question of the query.\<close>

definition sample_zone :: zone where
  "sample_zone ls = (if ls = [ascii ''rv''] then [\<lparr>rr_name = ([], True), rr_class = 1, rr_ttl = 60, rr_data = Alias [ascii ''srv'']\<rparr>]
     else if ls = [ascii ''srv''] then [\<lparr>rr_name = ([ascii ''srv''], False), rr_class = 1, rr_ttl = 60, rr_data = Addr [10, 0, 0, 1]\<rparr>]
     else [])"

definition sample_udp :: "zone \<Rightarrow> udp" where
  "sample_udp z sent q server = map_option (\<lambda>(n, _).
     let ls = filter (\<lambda>l. l \<noteq> []) (split_at 0x2e n) in dns_answer (u16_at q 0) ls (z ls) [0, 0, 0, 0] []) (decode_dns_name q 12)"

lemma sample_serves: "serves (sample_udp z) server z"
proof -
  have "sample_udp z sent (build_dns_query (dotted_name ls) i) server = Some (dns_answer i ls (z ls) [0, 0, 0, 0] [])"
    if ls: "good_name ls" and i: "i < 2 ^ 16" for sent ls i
  proof -
    define q where "q = build_dns_query (dotted_name ls) i"
    have "at q 0 (be 2 i @ be 2 DNS_FLAG_RD @ be 2 1 @ be 2 0 @ be 2 0 @ be 2 0 @ wire_name (ls, False) @ be 2 DNS_TYPE_A @ be 2 DNS_CLASS_IN)"
      using at_whole [of q] by (simp only: q_def build_dns_query_def encode_dotted [OF ls])
    then have "at q 0 (be 2 i)" "at q 12 (wire_name (ls, False))"
      by (simp_all add: algebra_simps del: wire_name.simps add_2_eq_Suc add_2_eq_Suc')
    then have "u16_at q 0 = i" "decode_dns_name q 12 = Some (dotted_name ls, 12 + length (wire_name (ls, False)))"
      using u16_at_be [OF _ i] decode_wire_name [OF ls] by blast+
    moreover have "filter (\<lambda>l. l \<noteq> []) (split_at 0x2e (dotted_name ls)) = ls"
      using split_at_dotted [OF ls] ls by (cases "ls = []") (auto simp: good_label_def filter_id_conv)
    ultimately show ?thesis by (simp add: sample_udp_def Let_def flip: q_def)
  qed
  then show ?thesis
    unfolding serves_def by (intro allI impI exI [of _ "[0, 0, 0, 0] :: bytes"] exI [of _ "[]"] conjI) simp_all
qed

theorem dns_resolve_refines_witness:
  "fst (dns_resolve (sample_udp sample_zone) (ascii ''rv'') \<lparr>dns_server = Some [10, 0, 0, 2], dns_cache = [], dns_tx_id = 1, dns_sent = []\<rparr>) =
   Some [10, 0, 0, 1]"
proof -
  have good: "good_name [ascii ''rv'']" "good_name [ascii ''srv'']" by (simp_all add: good_label_def ascii_def)
  have zone: "good_zone sample_zone"
    using good by (simp add: good_zone_def sample_zone_def good_rr_def label_bytes_def)
  have "\<not> is_ipv4_address (dotted_name [ascii ''rv''])" by (simp add: is_ipv4_address_def ascii_def)
  moreover have "zone_lookup MAX_CNAME_DEPTH sample_zone [ascii ''rv''] = Some [10, 0, 0, 1]"
    by (simp add: MAX_CNAME_DEPTH_def sample_zone_def DNS_CLASS_IN_def numeral_eq_Suc ascii_def)
  ultimately show ?thesis
    using dns_resolve_refines [OF sample_serves zone good(1), of "\<lparr>dns_server = Some [10, 0, 0, 2], dns_cache = [], dns_tx_id = 1, dns_sent = []\<rparr>" "[10, 0, 0, 2]"]
    by (auto simp: cache_ok_def)
qed

text \<open>
  A server that was discovered is a full address other than 0.0.0.0; the cache is not touched. An address with plus signs counts as one,
  although it has no decimal octets.
\<close>

lemma discovered_server:
  "discover_loop cs s = s \<or> (\<exists>ip. discover_loop cs s = set_dns_server ip s \<and> length ip = 4 \<and> ip \<noteq> [0, 0, 0, 0])"
  by (induction cs) (auto simp: Let_def split: option.splits)

lemma plus_sign_address: "is_ipv4_address (ascii ''+1.2.3.4'')"
  by (simp add: is_ipv4_address_def parse_u8_def parse_uint_def ascii_def)

end
