(* ===== verification/Http.thy ===== *)
theory Http
  imports Dns Device_Env
begin

text \<open>
  The HTTP clients: \<open>src/src/tcp4_http.rs\<close> (HTTP over TCP), the answers of \<open>src/src/http.rs\<close> (the firmware's HTTP protocol)
  and the choice between them in \<open>src/src/http_api.rs\<close>. The firmware's network protocols are parameters: what connects, and
  the pieces in which an answer arrives; the theories \<open>Tcp4\<close> and \<open>Http_Uefi\<close> go down to them. Strings are their UTF-8 bytes.

  Header names are compared after \<open>to_lowercase\<close>: the only character outside ASCII whose lower case begins with an ASCII letter that
  stands in these names is the dotted capital I, whose lower case goes on with a combining dot, so that the comparison is that of ASCII.

  Shown: an answer with a length is read to the same result however it is cut into pieces; an answer that ends early, or whose
  body looks like headers, is not refused.
\<close>

section \<open>Strings\<close>

definition strip_cr :: "bytes \<Rightarrow> bytes" where
  "strip_cr l = (if l \<noteq> [] \<and> last l = 13 then butlast l else l)"

text \<open>\<open>str::lines\<close>: a line feed ends a line, with a carriage return before it; there is no empty last line.\<close>

definition str_lines :: "bytes \<Rightarrow> bytes list" where
  "str_lines s = (let ps = split_at 10 s in map strip_cr (butlast ps) @ (if last ps = [] then [] else [last ps]))"

text \<open>\<open>str::trim\<close>: the characters with the property White_Space, in UTF-8.\<close>

definition white_space :: "bytes list" where
  "white_space = [[9], [10], [11], [12], [13], [32], [0xC2, 0x85], [0xC2, 0xA0], [0xE1, 0x9A, 0x80]]
     @ map (\<lambda>b. [0xE2, 0x80, b]) [0x80, 0x81, 0x82, 0x83, 0x84, 0x85, 0x86, 0x87, 0x88, 0x89, 0x8A, 0xA8, 0xA9, 0xAF]
     @ [[0xE2, 0x81, 0x9F], [0xE3, 0x80, 0x80]]"

function trim_by :: "bytes list \<Rightarrow> bytes \<Rightarrow> bytes" where
  "trim_by ws s = (case List.find (\<lambda>w. w \<noteq> [] \<and> take (length w) s = w) ws of
     Some w \<Rightarrow> trim_by ws (drop (length w) s)
   | None \<Rightarrow> s)"
  by pat_completeness auto
termination
  by (relation "measure (length \<circ> snd)") (auto simp: find_Some_iff, metis diff_less length_greater_0_conv take_Nil)

declare trim_by.simps [simp del]

definition str_trim :: "bytes \<Rightarrow> bytes" where
  "str_trim s = rev (trim_by (map rev white_space) (rev (trim_by white_space s)))"

definition ascii_lower :: "byte \<Rightarrow> byte" where
  "ascii_lower b = (if 0x41 \<le> b \<and> b \<le> 0x5a then b + 0x20 else b)"

definition has_header :: "string \<Rightarrow> bytes \<Rightarrow> bool" where
  "has_header n line \<longleftrightarrow> map ascii_lower (take (length n) line) = ascii n"

text \<open>\<open>line.splitn(2, ':').nth(1)\<close>, for a line with a colon.\<close>

definition header_value :: "bytes \<Rightarrow> bytes" where
  "header_value line = drop 1 (dropWhile (\<lambda>b. b \<noteq> 0x3a) line)"

definition starts_with :: "bytes \<Rightarrow> bytes \<Rightarrow> bool" where
  "starts_with p s \<longleftrightarrow> take (length p) s = p"

fun contains :: "bytes \<Rightarrow> bytes \<Rightarrow> bool" where
  "contains p [] \<longleftrightarrow> p = []"
| "contains p (b # s) \<longleftrightarrow> starts_with p (b # s) \<or> contains p s"

section \<open>HTTP over TCP\<close>

definition MAX_RESPONSE_BYTES :: nat where "MAX_RESPONSE_BYTES = 512 * 1024 * 1024"

definition CRLF :: bytes where "CRLF = [13, 10]"

text \<open>The three cuts of an URL; a name is resolved when it is not an address.\<close>

definition url_parts :: "bytes \<Rightarrow> (bytes \<times> nat \<times> bytes) option" where
  "url_parts url =
     (if \<not> starts_with (ascii ''http://'') url then None
      else let rest = drop 7 url;
               hostport = takeWhile (\<lambda>b. b \<noteq> 0x2f) rest;
               path = (if 0x2f \<in> set rest then dropWhile (\<lambda>b. b \<noteq> 0x2f) rest else [0x2f]) in
        if 0x3a \<in> set hostport then
          (let after = rev (takeWhile (\<lambda>b. b \<noteq> 0x3a) (rev hostport));
               host = take (length hostport - length after - 1) hostport in
           case parse_uint (2 ^ 16) after of None \<Rightarrow> None | Some port \<Rightarrow> Some (host, port, path))
        else Some (hostport, 80, path))"

definition parse_url :: "udp \<Rightarrow> bytes \<Rightarrow> dns_state \<Rightarrow> (bytes \<times> nat \<times> bytes) option \<times> dns_state" where
  "parse_url udp url s = (case url_parts url of
     None \<Rightarrow> (None, s)
   | Some (host, port, path) \<Rightarrow>
       (case (if length (split_at 0x2e host) = 4 then those (map parse_u8 (split_at 0x2e host)) else None) of
          Some ip \<Rightarrow> (Some (ip, port, path), s)
        | None \<Rightarrow> (case dns_resolve udp host s of (None, s') \<Rightarrow> (None, s') | (Some ip, s') \<Rightarrow> (Some (ip, port, path), s'))))"

text \<open>\<open>url.split('/').nth(2).unwrap_or("localhost")\<close>.\<close>

definition url_hostname :: "bytes \<Rightarrow> bytes" where
  "url_hostname url = (let ps = split_at 0x2f url in if length ps > 2 then ps ! 2 else ascii ''localhost'')"

text \<open>
  The network interface: the cached one first, then the others that have a MAC address. An interface is a pair of whether it
  has one and whether the connection succeeds on it. The index is cached as an \<open>i8\<close>.
\<close>

fun scan_nics :: "int \<Rightarrow> nat \<Rightarrow> (bool \<times> bool) list \<Rightarrow> nat option" where
  "scan_nics cached i [] = None"
| "scan_nics cached i ((mac, connects) # nics) =
     (if cached \<ge> 0 \<and> i = nat cached then scan_nics cached (Suc i) nics
      else if \<not> mac then scan_nics cached (Suc i) nics
      else if connects then Some i
      else scan_nics cached (Suc i) nics)"

definition choose_nic :: "(bool \<times> bool) list \<Rightarrow> int \<Rightarrow> nat option \<times> int" where
  "choose_nic nics cached =
     (if cached \<ge> 0 \<and> nat cached < length nics \<and> snd (nics ! nat cached) then (Some (nat cached), cached)
      else case scan_nics cached 0 nics of
        Some i \<Rightarrow> (Some i, (int i + 128) mod 256 - 128)
      | None \<Rightarrow> (None, cached))"

definition post_request :: "bytes \<Rightarrow> bytes \<Rightarrow> bytes option \<Rightarrow> bytes \<Rightarrow> bytes" where
  "post_request path hostname auth_token body =
     ascii ''POST '' @ path @ ascii '' HTTP/1.1'' @ CRLF
     @ ascii ''Host: '' @ hostname @ CRLF
     @ ascii ''Content-Type: application/cbor'' @ CRLF
     @ ascii ''Content-Length: '' @ dec_nat (length body) @ CRLF
     @ (case auth_token of Some token \<Rightarrow> ascii ''Authorization: Bearer '' @ token @ CRLF | None \<Rightarrow> [])
     @ ascii ''Connection: close'' @ CRLF @ CRLF @ body"

definition get_request :: "bytes \<Rightarrow> bytes \<Rightarrow> bytes" where
  "get_request path hostname =
     ascii ''GET '' @ path @ ascii '' HTTP/1.1'' @ CRLF @ ascii ''Host: '' @ hostname @ CRLF @ ascii ''Connection: close'' @ CRLF @ CRLF"

fun find_header_end :: "bytes \<Rightarrow> nat option" where
  "find_header_end (a # b # c # d # rest) =
     (if a = 13 \<and> b = 10 \<and> c = 13 \<and> d = 10 then Some 4 else map_option Suc (find_header_end (b # c # d # rest)))"
| "find_header_end _ = None"

definition extract_content_length :: "bytes \<Rightarrow> nat option" where
  "extract_content_length headers = (case from_utf8 headers of
     None \<Rightarrow> None
   | Some s \<Rightarrow> (case List.find (has_header ''content-length:'') (str_lines s) of
       None \<Rightarrow> None
     | Some line \<Rightarrow> parse_uint (2 ^ 64) (str_trim (header_value line))))"

definition bearer_token :: "bytes \<Rightarrow> bytes" where
  "bearer_token v = (if starts_with (ascii ''Bearer '') v then drop 7 v else v)"

definition response_body :: "bytes \<Rightarrow> nat \<Rightarrow> bytes" where
  "response_body d header_end = (let raw_body = drop header_end d in
     case extract_content_length (take header_end d) of
       Some cl \<Rightarrow> if cl \<le> length raw_body then take cl raw_body else raw_body
     | None \<Rightarrow> raw_body)"

text \<open>One header line into the token and the message type; a later line wins.\<close>

definition read_header :: "bytes \<Rightarrow> bytes option \<times> nat option \<Rightarrow> bytes option \<times> nat option" where
  "read_header line r = (case r of (token, msg_type) \<Rightarrow>
     if has_header ''authorization:'' line then (Some (bearer_token (str_trim (header_value line))), msg_type)
     else if has_header ''message-type:'' line then
       (token, case parse_uint 256 (str_trim (header_value line)) of Some mt \<Rightarrow> Some mt | None \<Rightarrow> msg_type)
     else (token, msg_type))"

definition parse_http_response :: "bytes \<Rightarrow> http_post_response option" where
  "parse_http_response d = (case find_header_end d of
     None \<Rightarrow> None
   | Some header_end \<Rightarrow> (case from_utf8 (take header_end d) of
       None \<Rightarrow> None
     | Some s \<Rightarrow> (case str_lines s of
         [] \<Rightarrow> None
       | _ # headers \<Rightarrow>
           (case fold read_header headers (None, None) of (token, msg_type) \<Rightarrow>
              Some \<lparr>resp_body = response_body d header_end, resp_auth_token = token, resp_message_type = msg_type\<rparr>))))"

text \<open>The loop that receives: it ends when the answer is complete, when nothing more arrives, or beyond the bound.\<close>

definition response_complete :: "bytes \<Rightarrow> bool" where
  "response_complete buf = (case find_header_end buf of
     None \<Rightarrow> False
   | Some header_end \<Rightarrow> (case extract_content_length (take header_end buf) of
       Some content_len \<Rightarrow> length buf \<ge> usz (header_end + content_len)
     | None \<Rightarrow> False))"

fun receive :: "bytes list \<Rightarrow> bytes \<Rightarrow> bytes" where
  "receive [] buf = buf"
| "receive (chunk # chunks) buf =
     (if length buf > MAX_RESPONSE_BYTES then buf
      else if response_complete (buf @ chunk) then buf @ chunk
      else receive chunks (buf @ chunk))"

text \<open>\<open>net\<close>: the pieces of the answer to a request over the interface that \<open>choose_nic\<close> finds, or \<open>None\<close> when there is none or the request
  cannot be sent.\<close>

definition tcp4_http_post ::
    "(bytes \<Rightarrow> nat \<Rightarrow> bytes \<Rightarrow> bytes list option) \<Rightarrow> udp \<Rightarrow> bytes \<Rightarrow> bytes \<Rightarrow> bytes option \<Rightarrow> dns_state \<Rightarrow> http_post_response option \<times> dns_state" where
  "tcp4_http_post net udp url body auth_token s = (case parse_url udp url s of
     (None, s') \<Rightarrow> (None, s')
   | (Some (ip, port, path), s') \<Rightarrow>
       (case net ip port (post_request path (url_hostname url) auth_token body) of
          None \<Rightarrow> None
        | Some chunks \<Rightarrow> let buf = receive chunks [] in if buf = [] then None else parse_http_response buf, s'))"

text \<open>The body of a download, if the status line contains 200; headers that are not UTF-8 are taken for a success.\<close>

definition get_body :: "bytes \<Rightarrow> bytes option" where
  "get_body buf = (case find_header_end buf of
     None \<Rightarrow> None
   | Some header_end \<Rightarrow>
       if (case from_utf8 (take header_end buf) of
             Some hs \<Rightarrow> (case str_lines hs of first_line # _ \<Rightarrow> contains (ascii ''200'') first_line | [] \<Rightarrow> True)
           | None \<Rightarrow> True)
       then Some (response_body buf header_end) else None)"

definition tcp4_http_get ::
    "(bytes \<Rightarrow> nat \<Rightarrow> bytes \<Rightarrow> bytes list option) \<Rightarrow> udp \<Rightarrow> bytes \<Rightarrow> dns_state \<Rightarrow> bytes option \<times> dns_state" where
  "tcp4_http_get net udp url s = (case parse_url udp url s of
     (None, s') \<Rightarrow> (None, s')
   | (Some (ip, port, path), s') \<Rightarrow>
       (case net ip port (get_request path (url_hostname url)) of
          None \<Rightarrow> None
        | Some chunks \<Rightarrow> let buf = receive chunks [] in if buf = [] then None else get_body buf, s'))"

section \<open>The firmware's HTTP protocol\<close>

text \<open>
  The headers the firmware returns, as names and values, where a value that does not parse clears a length but leaves a message
  type; then the reads that follow the first. Each read asks for \<open>want\<close> bytes; its result is \<open>None\<close> when the call fails,
  or the bytes it gave, none of them when nothing was ready. The last flag counts empty reads in a row.
\<close>

definition same_name :: "bytes \<Rightarrow> string \<Rightarrow> bool" where
  "same_name n m \<longleftrightarrow> map ascii_lower n = map ascii_lower (ascii m)"

definition uefi_header :: "bytes \<times> bytes \<Rightarrow> bytes option \<times> nat option \<times> nat option \<Rightarrow> bytes option \<times> nat option \<times> nat option" where
  "uefi_header h r = (case (h, r) of ((n, v), (token, msg_type, cl)) \<Rightarrow>
     let cl = (if same_name n ''Content-Length'' then parse_uint (2 ^ 64) (str_trim v) else cl) in
     if same_name n ''Authorization'' then (Some (bearer_token v), msg_type, cl)
     else if same_name n ''Message-Type'' then (token, case parse_uint 256 (str_trim v) of Some mt \<Rightarrow> Some mt | None \<Rightarrow> msg_type, cl)
     else (token, msg_type, cl))"

definition MAX_DRAIN_IDLE :: nat where "MAX_DRAIN_IDLE = 50000"
definition RX_BODY_SIZE :: nat where "RX_BODY_SIZE = 131072"

text \<open>\<open>Some\<close> the body collected, or \<open>None\<close> when the driver wrote more than it was given room for.\<close>

fun drain :: "nat \<Rightarrow> bytes option list \<Rightarrow> nat \<Rightarrow> bytes \<Rightarrow> bytes option" where
  "drain cl [] idle body = Some body"
| "drain cl (answer # answers) idle body =
     (if length body < cl \<and> length body < RX_BODY_SIZE then
        (let want = min (RX_BODY_SIZE - length body) (cl - length body) in
         case answer of
           None \<Rightarrow> Some body
         | Some got \<Rightarrow>
             if length got > want then None
             else if got = [] then (if idle + 1 > MAX_DRAIN_IDLE then Some body else drain cl answers (idle + 1) body)
             else drain cl answers 0 (body @ got))
      else Some body)"

definition extract_authorization_header :: "bytes \<Rightarrow> bytes option" where
  "extract_authorization_header headers = (case from_utf8 headers of
     None \<Rightarrow> None
   | Some s \<Rightarrow> map_option (\<lambda>line. str_trim (header_value line)) (List.find (has_header ''authorization:'') (str_lines s)))"

text \<open>The answer from the collected body; without a token in the headers, headers are looked for in the body.\<close>

definition uefi_answer :: "bytes option \<Rightarrow> nat option \<Rightarrow> bytes \<Rightarrow> http_post_response" where
  "uefi_answer token msg_type rx_body =
     (case (if token = None then find_header_end rx_body else None) of
        Some p \<Rightarrow> \<lparr>resp_body = drop p rx_body, resp_auth_token = extract_authorization_header (take p rx_body), resp_message_type = msg_type\<rparr>
      | None \<Rightarrow> \<lparr>resp_body = rx_body, resp_auth_token = token, resp_message_type = msg_type\<rparr>)"

definition uefi_http_response :: "(bytes \<times> bytes) list \<Rightarrow> bytes \<Rightarrow> bytes option list \<Rightarrow> http_post_response option" where
  "uefi_http_response headers first answers =
     (case fold uefi_header headers (None, None, None) of (token, msg_type, content_length) \<Rightarrow>
       map_option (uefi_answer token msg_type) (case content_length of Some cl \<Rightarrow> drain cl answers 0 first | None \<Rightarrow> Some first))"

text \<open>
  A download: the first part with its status, \<open>None\<close> for a failure before it, and the calls of \<open>response_more\<close> that follow. That function of
  the library is a parameter, one for each call: from the buffer it gives the buffer afterwards and the part it reports, or fails. The list
  ends with the call that fails at the latest.
\<close>

fun more_parts :: "(bytes \<Rightarrow> (bytes \<times> bytes) option) list \<Rightarrow> bytes \<Rightarrow> bytes" where
  "more_parts [] body = body"
| "more_parts (response_more # calls) body = (case response_more body of
     None \<Rightarrow> body
   | Some (body', chunk) \<Rightarrow> if chunk = [] then body' else more_parts calls body')"

definition uefi_http_get :: "(nat \<times> bytes) option \<Rightarrow> (bytes \<Rightarrow> (bytes \<times> bytes) option) list \<Rightarrow> bytes option" where
  "uefi_http_get first calls = (case first of
     None \<Rightarrow> None
   | Some (http_status, body) \<Rightarrow> if http_status \<noteq> 200 then None else Some (more_parts calls body))"

section \<open>The choice of a transport\<close>

text \<open>
  The state of \<open>http_api.rs\<close> and what the firmware says of its interfaces: those of the driver with their address and whether there is
  a link, and those of the IP stack, each with its address, if it opens and tells, and whether DHCP succeeds on it.
\<close>

record net_state =
  tcp4_net_init :: bool
  dhcp_succeeded :: bool
  net_dns :: dns_state

record net_interface =
  if_mac :: "bytes option"
  if_dhcp :: bool

fun dhcp_loop :: "bytes list \<Rightarrow> ip4_config list option \<Rightarrow> net_interface list \<Rightarrow> net_state \<Rightarrow> net_state" where
  "dhcp_loop linked servers [] n = n"
| "dhcp_loop linked servers (i # is) n = (case if_mac i of
     None \<Rightarrow> dhcp_loop linked servers is n
   | Some mac \<Rightarrow>
       if mac \<notin> set linked then dhcp_loop linked servers is n
       else if if_dhcp i then n\<lparr>dhcp_succeeded := True, net_dns := discover_dns_server servers (net_dns n)\<rparr>
       else dhcp_loop linked servers is n)"

definition ensure_network_configured ::
    "(bytes \<times> bool) list \<Rightarrow> net_interface list option \<Rightarrow> ip4_config list option \<Rightarrow> net_state \<Rightarrow> net_state" where
  "ensure_network_configured snps ifs servers n =
     (if tcp4_net_init n then n
      else let linked = map fst (filter snd snps);
               n' = (case ifs of None \<Rightarrow> n | Some is \<Rightarrow> dhcp_loop linked servers is n) in
        n'\<lparr>tcp4_net_init := True\<rparr>)"

text \<open>
  \<open>uefi\<close> is the result of the firmware's protocol, \<open>tcp4\<close> that of HTTP over TCP, which is tried when the first gave nothing and the network
  has been set up (\<open>ensure\<close>).
\<close>

definition api_transport :: "(net_state \<Rightarrow> net_state) \<Rightarrow> 'a option \<Rightarrow> (dns_state \<Rightarrow> 'a option \<times> dns_state) \<Rightarrow> net_state \<Rightarrow> 'a option \<times> net_state" where
  "api_transport ensure uefi tcp4 n = (case uefi of
     Some r \<Rightarrow> (Some r, n)
   | None \<Rightarrow> (let n' = ensure n in case tcp4 (net_dns n') of (r, d) \<Rightarrow> (r, n'\<lparr>net_dns := d\<rparr>)))"

definition api_http_post ::
    "(net_state \<Rightarrow> net_state) \<Rightarrow> http_post_response option \<Rightarrow> (dns_state \<Rightarrow> http_post_response option \<times> dns_state) \<Rightarrow> net_state \<Rightarrow> http_post_response option \<times> net_state" where
  "api_http_post = api_transport"

definition api_http_get :: "(net_state \<Rightarrow> net_state) \<Rightarrow> bytes option \<Rightarrow> (dns_state \<Rightarrow> bytes option \<times> dns_state) \<Rightarrow> net_state \<Rightarrow> bytes option \<times> net_state" where
  "api_http_get = api_transport"

text \<open>The network is set up once: a second call changes nothing, whatever the firmware then says.\<close>

lemma network_set_up_once:
  "ensure_network_configured snps' ifs' servers' (ensure_network_configured snps ifs servers n) = ensure_network_configured snps ifs servers n"
  by (simp add: ensure_network_configured_def Let_def)

text \<open>DHCP is only used on an interface with a link, and a DNS server is only learnt after it succeeded.\<close>

lemma dhcp_loop_link:
  "dhcp_loop linked servers is n = n \<or>
   (dhcp_loop linked servers is n = n\<lparr>dhcp_succeeded := True, net_dns := discover_dns_server servers (net_dns n)\<rparr> \<and>
    (\<exists>i\<in>set is. if_dhcp i \<and> (\<exists>mac\<in>set linked. if_mac i = Some mac)))"
  by (induction "is") (auto split: option.splits)

section \<open>Reassembly\<close>

lemma find_header_end_append: "find_header_end d = Some h \<Longrightarrow> find_header_end (d @ x) = Some h"
  by (induction d arbitrary: h rule: find_header_end.induct) (auto split: if_splits)

lemma find_header_end_bound: "find_header_end d = Some h \<Longrightarrow> 4 \<le> h \<and> h \<le> length d"
  by (induction d arbitrary: h rule: find_header_end.induct) (auto split: if_splits)

text \<open>A block of headers, up to the empty line and not further, announcing a length.\<close>

definition header_block :: "bytes \<Rightarrow> nat \<Rightarrow> bool" where
  "header_block hs n \<longleftrightarrow> find_header_end hs = Some (length hs) \<and> extract_content_length hs = Some n"

lemma header_block_take:
  assumes "header_block hs n" and "length hs + n < 2 ^ 64"
  shows "response_complete (hs @ x) \<longleftrightarrow> n \<le> length x"
    and "parse_http_response (hs @ x) = parse_http_response (hs @ take n x)"
proof -
  have h: "find_header_end (hs @ y) = Some (length hs)" "extract_content_length hs = Some n" for y
    using assms(1) find_header_end_append unfolding header_block_def by auto
  show "response_complete (hs @ x) \<longleftrightarrow> n \<le> length x" using h assms(2) by (simp add: response_complete_def)
  have "response_body (hs @ x) (length hs) = response_body (hs @ take n x) (length hs)"
    using h(2) by (simp add: response_body_def Let_def)
  then show "parse_http_response (hs @ x) = parse_http_response (hs @ take n x)" using h(1)
    by (simp add: parse_http_response_def split: option.split list.split prod.split)
qed

text \<open>A prefix of a complete header block has no end of headers.\<close>

lemma incomplete_prefix:
  assumes "header_block hs n" and "hs = buf @ rest" and "rest \<noteq> []"
  shows "\<not> response_complete buf"
proof -
  have "find_header_end buf = None"
  proof (cases "find_header_end buf")
    case (Some h)
    with find_header_end_append [OF Some, of rest] find_header_end_bound [OF Some] assms show ?thesis by (simp add: header_block_def)
  qed simp
  then show ?thesis by (simp add: response_complete_def)
qed

lemma complete_prefix:
  assumes "header_block hs (length body)" and "length hs + length body < 2 ^ 64" and "us @ rest = hs @ body @ extra"
  shows "response_complete us \<longleftrightarrow> (\<exists>x. us = hs @ body @ x)"
proof (cases "length us < length hs")
  case True
  have "hs = take (length hs) (us @ rest)" using assms(3) by simp
  then have "hs = us @ take (length hs - length us) rest" using True by simp
  moreover from this True have "take (length hs - length us) rest \<noteq> []" by (metis append_Nil2 less_irrefl)
  ultimately have "\<not> response_complete us" using incomplete_prefix [OF assms(1)] by blast
  with True show ?thesis by auto
next
  case False
  then have "take (length hs) us = hs" using arg_cong [OF assms(3), of "take (length hs)"] by simp
  then obtain y where us: "us = hs @ y" by (metis append_take_drop_id)
  with assms(3) have y: "us = hs @ y" "y @ rest = body @ extra" by simp_all
  then have "length body \<le> length y \<longleftrightarrow> (\<exists>x. y = body @ x)" by (auto simp: append_eq_append_conv2)
  with y header_block_take(1) [OF assms(1,2), of y] show ?thesis by simp
qed

lemma receive_complete:
  assumes "header_block hs (length body)" and "length hs + length body \<le> MAX_RESPONSE_BYTES"
  shows "buf @ concat chunks = hs @ body @ extra \<Longrightarrow> \<not> response_complete buf \<Longrightarrow> \<exists>x. receive chunks buf = hs @ body @ x"
proof (induction chunks arbitrary: buf)
  case Nil
  then show ?case using complete_prefix [OF assms(1), of buf "[]" extra] assms(2) by (simp add: MAX_RESPONSE_BYTES_def)
next
  case (Cons c cs)
  have lt: "length hs + length body < 2 ^ 64" using assms(2) by (simp add: MAX_RESPONSE_BYTES_def)
  have "length buf \<le> MAX_RESPONSE_BYTES"
  proof (rule ccontr)
    assume "\<not> ?thesis"
    then have "length hs + length body \<le> length buf" using assms(2) by simp
    moreover have "take (length buf) (hs @ body @ extra) = buf" using Cons.prems(1) by (metis append_eq_conv_conj)
    ultimately have "buf = hs @ body @ take (length buf - length hs - length body) extra" by simp
    then show False using Cons.prems(2) complete_prefix [OF assms(1) lt Cons.prems(1)] by blast
  qed
  moreover have "(buf @ c) @ concat cs = hs @ body @ extra" using Cons.prems(1) by simp
  ultimately show ?case using Cons.IH [of "buf @ c"] complete_prefix [OF assms(1) lt, of "buf @ c"] by auto
qed

lemma parse_header_block:
  assumes "header_block hs (length body)" and "fold read_header (tl (str_lines hs)) (None, None) = (token, msg_type)"
  shows "parse_http_response (hs @ body) = Some \<lparr>resp_body = body, resp_auth_token = token, resp_message_type = msg_type\<rparr>"
proof -
  have h: "find_header_end hs = Some (length hs)" "extract_content_length hs = Some (length body)" using assms(1) by (simp_all add: header_block_def)
  have "hs \<noteq> []" using find_header_end_bound [OF h(1)] by auto
  then have lines: "str_lines hs \<noteq> []" by (cases hs) (auto simp: str_lines_def Let_def split: list.split)
  have "from_utf8 hs = Some hs" using h(2) by (auto simp: extract_content_length_def from_utf8_def split: option.splits if_splits)
  then show ?thesis
    using h find_header_end_append [OF h(1), of body] lines assms(2)
    by (cases "str_lines hs") (simp_all add: parse_http_response_def response_body_def)
qed

text \<open>C21: over TCP, an answer that announces its length is taken apart into its body, token and message type, however it is cut into
  pieces and whatever follows it.\<close>

theorem tcp4_response_reassembled:
  assumes "parse_url udp url s = (Some (ip, port, path), s')"
    and "net ip port (post_request path (url_hostname url) token req) = Some chunks"
    and "header_block hs (length body)" and "length hs + length body \<le> MAX_RESPONSE_BYTES" and "concat chunks = hs @ body @ extra"
    and "fold read_header (tl (str_lines hs)) (None, None) = (token', msg_type)"
  shows "tcp4_http_post net udp url req token s =
    (Some \<lparr>resp_body = body, resp_auth_token = token', resp_message_type = msg_type\<rparr>, s')"
proof -
  have lt: "length hs + length body < 2 ^ 64" using assms(4) by (simp add: MAX_RESPONSE_BYTES_def)
  have "\<not> response_complete []" by (simp add: response_complete_def)
  then obtain x where x: "receive chunks [] = hs @ body @ x" using receive_complete [OF assms(3,4), of "[]"] assms(5) by auto
  have "hs \<noteq> []" using assms(3) by (auto simp: header_block_def)
  with assms(1,2) x header_block_take(2) [OF assms(3) lt, of "body @ x"] parse_header_block [OF assms(3,6)] show ?thesis
    by (simp add: tcp4_http_post_def Let_def)
qed

definition sample_headers :: bytes where
  "sample_headers = ascii ''HTTP/1.1 200'' @ CRLF @ ascii ''Content-Length: 3'' @ CRLF @ ascii ''Message-Type: 61'' @ CRLF @ CRLF"

lemma sample_lines: "str_lines sample_headers = [ascii ''HTTP/1.1 200'', ascii ''Content-Length: 3'', ascii ''Message-Type: 61'', []]"
  by (simp add: str_lines_def sample_headers_def ascii_def CRLF_def strip_cr_def Let_def)

lemma sample_block: "header_block sample_headers 3"
proof -
  have "\<forall>b\<in>set sample_headers. unat b < 0x80" by (simp add: sample_headers_def ascii_def CRLF_def)
  then have u: "from_utf8 sample_headers = Some sample_headers" by (simp add: from_utf8_def utf8_valid_ascii_only)
  have "str_trim (ascii '' 3'') = ascii ''3''"
    by (simp add: str_trim_def white_space_def ascii_def trim_by.simps)
  then have "extract_content_length sample_headers = Some 3"
    unfolding extract_content_length_def u option.case sample_lines
    by (simp add: has_header_def ascii_lower_def ascii_def header_value_def parse_uint_def)
  moreover have "find_header_end sample_headers = Some (length sample_headers)" by (simp add: sample_headers_def ascii_def CRLF_def)
  ultimately show ?thesis by (simp add: header_block_def)
qed

lemma sample_url: "parse_url udp (ascii ''http://10.0.0.1:8080/fdo'') s = (Some ([10, 0, 0, 1], 8080, ascii ''/fdo''), s)"
  by (simp add: parse_url_def url_parts_def starts_with_def ascii_def parse_u8_def parse_uint_def Let_def)

lemma sample_fold: "fold read_header (tl (str_lines sample_headers)) (None, None) = (None, Some 61)"
proof -
  have "str_trim (ascii '' 61'') = ascii ''61''" by (simp add: str_trim_def white_space_def ascii_def trim_by.simps)
  then show ?thesis
    unfolding sample_lines by (simp add: read_header_def has_header_def ascii_lower_def ascii_def header_value_def parse_uint_def)
qed

definition start_dns :: dns_state where
  "start_dns = \<lparr>dns_server = None, dns_cache = [], dns_tx_id = 1, dns_sent = []\<rparr>"

theorem tcp4_response_reassembled_witness:
  "tcp4_http_post (\<lambda>_ _ _. Some [take 20 sample_headers, drop 20 sample_headers @ [1], [2, 3, 9]]) (\<lambda>_ _ _. None) (ascii ''http://10.0.0.1:8080/fdo'') [0x80] None start_dns =
   (Some \<lparr>resp_body = [1, 2, 3], resp_auth_token = None, resp_message_type = Some 61\<rparr>, start_dns)"
proof -
  note sample_fold
  moreover have "length sample_headers \<le> 100" by (simp add: sample_headers_def CRLF_def)
  moreover have "concat [take 20 sample_headers, drop 20 sample_headers @ [1], [2, 3, 9]] = sample_headers @ [1, 2, 3] @ [9]" by simp
  moreover have "header_block sample_headers (length [1, 2, 3 :: byte])" using sample_block by (simp add: numeral_3_eq_3)
  ultimately show ?thesis
    by (intro tcp4_response_reassembled [OF sample_url refl, where hs = sample_headers and extra = "[9]"]) (simp_all add: MAX_RESPONSE_BYTES_def)
qed

text \<open>
  Answers that should be refused and are not: one whose body ends before the announced length; over the firmware's protocol, a body
  that contains an empty line and comes without a token, of which the part before the line is dropped; and, for downloads, a failure
  whose status line contains 200 somewhere.
\<close>

lemma truncated_answer_accepted:
  assumes "header_block hs n" and "length x < n" and "from_utf8 hs = Some hs" and "str_lines hs = l # ls"
  shows "map_option resp_body (parse_http_response (receive [hs @ x] [])) = Some x"
proof -
  have "find_header_end (hs @ x) = Some (length hs)" "extract_content_length hs = Some n"
    using assms(1) find_header_end_append unfolding header_block_def by auto
  with assms(2-4) show ?thesis by (auto simp: parse_http_response_def response_body_def Let_def split: prod.split)
qed

lemma binary_body_cut: "map_option resp_body (uefi_http_response [] [0x45, 13, 10, 13, 10, 1] []) = Some [1]"
  by (simp add: uefi_http_response_def uefi_answer_def)

lemma failure_taken_for_success: "contains (ascii ''200'') (ascii ''HTTP/1.1 404 no file 200'')"
  by (simp add: starts_with_def ascii_def)

text \<open>An interface that is chosen can be connected to, and has a MAC address unless it is the cached one.\<close>

lemma scan_nics_connects:
  "scan_nics cached i nics = Some k \<Longrightarrow> i \<le> k \<and> k < i + length nics \<and> nics ! (k - i) = (True, True)"
proof (induction cached i nics rule: scan_nics.induct)
  case (2 cached i mac connects nics)
  then show ?case by (auto split: if_splits simp: Suc_diff_le nth_Cons')
qed simp

lemma choose_nic_connects:
  assumes "choose_nic nics cached = (Some k, cached')"
  shows "k < length nics \<and> snd (nics ! k) \<and> (int k = cached \<or> fst (nics ! k))"
  using assms scan_nics_connects [of cached 0 nics k]
  by (auto simp: choose_nic_def split: if_splits option.splits)

end
