(* ===== verification/Chainload.thy ===== *)
theory Chainload
  imports Cbor
begin

text \<open>
  \<open>src/src/chainload.rs\<close>: starting an EFI image, from memory or through a file, and the control test of \<open>main.rs\<close>. The firmware's boot services are the parameter
  \<open>boot_services\<close>. A run is a computation over the list of the calls made; \<open>Err ()\<close> is an error status. The images are compared with the
  headers they announce in the arithmetic of a release build. Protocols that are opened and dropped again, and the information about the
  loaded image, which is only logged, are left out.

  Shown: an image is started only behind the checks of its headers, between a short and a long watchdog, and the network is connected
  again; the device path of the temporary file is well formed. An image cut within the field with its size panics instead of being refused.
\<close>

definition WATCHDOG_TIMEOUT_SECS :: nat where "WATCHDOG_TIMEOUT_SECS = 1800"

datatype load_mode = Buffer | File

record chainload_config =
  load_mode_of :: load_mode
  do_teardown :: bool

definition default_config :: chainload_config where
  "default_config = \<lparr>load_mode_of = Buffer, do_teardown = False\<rparr>"

definition set_load_mode :: "load_mode \<Rightarrow> chainload_config \<Rightarrow> chainload_config" where
  "set_load_mode m c = c\<lparr>load_mode_of := m\<rparr>"

definition set_teardown :: "bool \<Rightarrow> chainload_config \<Rightarrow> chainload_config" where
  "set_teardown enable c = c\<lparr>do_teardown := enable\<rparr>"

section \<open>The image\<close>

definition le_val :: "bytes \<Rightarrow> nat" where
  "le_val bs = be_val (rev bs)"

text \<open>\<open>u32::from_le_bytes\<close> of four bytes at a position, a panic out of range.\<close>

definition u32_le :: "bytes \<Rightarrow> nat \<Rightarrow> ('e, nat) outcome" where
  "u32_le d p = (case get_range d p (p + 4) of Some bs \<Rightarrow> Ret (le_val bs) | None \<Rightarrow> Panic)"

definition validate_efi_image :: "bytes \<Rightarrow> ('e, bool) outcome" where
  "validate_efi_image d =
     (if length d < 64 then Ret False
      else if d ! 0 \<noteq> 0x4d \<or> d ! 1 \<noteq> 0x5a then Ret False
      else case u32_le d 0x3C of
        Ret pe_offset \<Rightarrow>
          if pe_offset + 4 > length d then Ret False
          else Ret (d ! pe_offset = 0x50 \<and> d ! (pe_offset + 1) = 0x45 \<and> d ! (pe_offset + 2) = 0 \<and> d ! (pe_offset + 3) = 0)
      | Err e \<Rightarrow> Err e | Panic \<Rightarrow> Panic | Diverge \<Rightarrow> Diverge)"

text \<open>The gate in \<open>chainload_image\<close>: entry point and size of the image. The size is read from \<open>pe_off + 80\<close> on when that position is
  within the image, which does not make sure of all four bytes.\<close>

definition pe_gate :: "bytes \<Rightarrow> (unit, unit) outcome" where
  "pe_gate d =
     obind (u32_le d 0x3C) (\<lambda>pe_off.
     if pe_off + 56 > length d then Err ()
     else obind (u32_le d (pe_off + 40)) (\<lambda>entry.
       obind (if pe_off + 80 \<le> length d then u32_le d (pe_off + 80) else Ret 0) (\<lambda>size_of_image.
       if entry = 0 then Err ()
       else if size_of_image > 0 \<and> entry \<ge> size_of_image then Err ()
       else if size_of_image > 0 \<and> length d mod 2 ^ 32 > size_of_image * 2 mod 2 ^ 32 then Err ()
       else Ret ())))"

section \<open>Loading and starting it\<close>

datatype boot_event =
    OpenLoadedImage
  | OpenFileSystem
  | OpenVolume
  | CreateFile bytes \<comment> \<open>path\<close>
  | OpenFile bytes
  | WriteFile bytes
  | OpenDevicePath
  | ParseDevicePath bytes
  | LoadFromBuffer bytes
  | LoadFromPath bytes
  | LocateSnp
  | DisconnectNic nat
  | SetWatchdog nat nat \<comment> \<open>seconds, code\<close>
  | StartImage bytes
  | ConnectNic nat

text \<open>
  What the firmware says: whether a call succeeds, from the calls before it; whether the running image came from a device, and the nodes of the device
  path up to its end; whether a file is a regular one, what was in the temporary file, and what a read of a file returns; the handles of the network interfaces.
\<close>

record boot_services =
  boot_ok :: "boot_event list \<Rightarrow> boot_event \<Rightarrow> bool"
  has_device :: bool
  is_regular :: bool
  device_path_nodes :: "bytes list"
  temp_file :: bytes
  read_file :: "bytes \<Rightarrow> bytes \<Rightarrow> bytes option" \<comment> \<open>path, bytes read before\<close>
  network_handles :: "nat list option"

definition boot_call :: "boot_event \<Rightarrow> (boot_event list, 'e, unit) comp" where
  "boot_call e h = (Ret (), h @ [e])"

text \<open>A call whose failure is returned.\<close>

definition boot_try :: "boot_services \<Rightarrow> boot_event \<Rightarrow> (boot_event list, unit, unit) comp" where
  "boot_try bs e h = (if boot_ok bs h e then Ret () else Err (), h @ [e])"

definition TEMP_PATH :: bytes where
  "TEMP_PATH = [0x5c] @ ascii ''EFI'' @ [0x5c] @ ascii ''BOOT'' @ [0x5c] @ ascii ''temp_bmo.efi''"

definition u16_le :: "nat \<Rightarrow> bytes" where
  "u16_le n = [u8 n, u8 (n div 256)]"

text \<open>The device path of the file: the nodes of the device, the path in UTF-16 with a NUL, and the end node.\<close>

definition file_path_node :: "bytes \<Rightarrow> bytes" where
  "file_path_node path = (let utf16 = concat (map (\<lambda>b. [b, 0]) (path @ [0])) in [0x04, 0x04] @ u16_le (4 + length utf16) @ utf16)"

definition full_path :: "bytes list \<Rightarrow> bytes" where
  "full_path nodes = concat nodes @ file_path_node TEMP_PATH @ [0x7F, 0xFF] @ u16_le 4"

text \<open>
  The load from a file gives what the file then contains: it is opened without being truncated, so that what was in it behind the written
  bytes stays.
\<close>

definition load_via_temp_file :: "boot_services \<Rightarrow> bytes \<Rightarrow> (boot_event list, unit, bytes) comp" where
  "load_via_temp_file bs d =
     bind (boot_try bs OpenLoadedImage) (\<lambda>_.
     bind (guard (has_device bs) ()) (\<lambda>_.
     bind (boot_try bs OpenFileSystem) (\<lambda>_.
     bind (boot_try bs OpenVolume) (\<lambda>_.
     bind (boot_try bs (CreateFile TEMP_PATH)) (\<lambda>_.
     bind (guard (is_regular bs) ()) (\<lambda>_.
     bind (boot_try bs (WriteFile d)) (\<lambda>_.
     bind (boot_try bs OpenDevicePath) (\<lambda>_.
     bind (boot_try bs (ParseDevicePath (full_path (device_path_nodes bs)))) (\<lambda>_.
     bind (boot_try bs (LoadFromPath (full_path (device_path_nodes bs)))) (\<lambda>_.
     ret (d @ drop (length d) (temp_file bs))))))))))))"

definition load_from_buffer :: "boot_services \<Rightarrow> bytes \<Rightarrow> (boot_event list, unit, bytes) comp" where
  "load_from_buffer bs d = bind (boot_try bs (LoadFromBuffer d)) (\<lambda>_. ret d)"

definition for_each :: "('a \<Rightarrow> boot_event) \<Rightarrow> 'a list \<Rightarrow> (boot_event list, 'e, unit) comp" where
  "for_each f xs h = (Ret (), h @ map f xs)"

definition teardown_network :: "boot_services \<Rightarrow> (boot_event list, 'e, nat list) comp" where
  "teardown_network bs =
     bind (boot_call LocateSnp) (\<lambda>_. case network_handles bs of
       None \<Rightarrow> ret []
     | Some handles \<Rightarrow> bind (for_each DisconnectNic handles) (\<lambda>_. ret handles))"

definition reconnect_network :: "nat list \<Rightarrow> (boot_event list, 'e, unit) comp" where
  "reconnect_network handles = for_each ConnectNic handles"

definition chainload_image :: "boot_services \<Rightarrow> chainload_config \<Rightarrow> bytes \<Rightarrow> (boot_event list, unit, unit) comp" where
  "chainload_image bs c d =
     bind (lift (validate_efi_image d)) (\<lambda>ok.
     bind (guard ok ()) (\<lambda>_.
     bind (lift (pe_gate d)) (\<lambda>_.
     bind (case load_mode_of c of Buffer \<Rightarrow> load_from_buffer bs d | File \<Rightarrow> load_via_temp_file bs d) (\<lambda>loaded.
     bind (if do_teardown c then teardown_network bs else ret []) (\<lambda>torn_down_nics.
     bind (boot_call (SetWatchdog 60 0x10001)) (\<lambda>_.
     bind (boot_call (StartImage loaded)) (\<lambda>_.
     bind (boot_call (SetWatchdog WATCHDOG_TIMEOUT_SECS 0x10000)) (\<lambda>_.
     reconnect_network torn_down_nics))))))))"

text \<open>
  \<open>load_file_from_esp\<close> and the control test of \<open>main.rs\<close>, which starts a file of the system partition. The loop reads until nothing comes.
\<close>

fun read_chunks :: "nat \<Rightarrow> (bytes \<Rightarrow> bytes option) \<Rightarrow> bytes \<Rightarrow> (boot_event list, unit, bytes) comp" where
  "read_chunks 0 read out = diverge"
| "read_chunks (Suc fuel) read out = (case read out of
     None \<Rightarrow> throw ()
   | Some chunk \<Rightarrow> if chunk = [] then ret out else read_chunks fuel read (out @ chunk))"

definition load_file_from_esp :: "nat \<Rightarrow> boot_services \<Rightarrow> bytes \<Rightarrow> (boot_event list, unit, bytes) comp" where
  "load_file_from_esp fuel bs path =
     bind (boot_try bs OpenLoadedImage) (\<lambda>_.
     bind (guard (has_device bs) ()) (\<lambda>_.
     bind (boot_try bs OpenFileSystem) (\<lambda>_.
     bind (boot_try bs OpenVolume) (\<lambda>_.
     bind (guard (ucs2_string path) ()) (\<lambda>_.
     bind (boot_try bs (OpenFile path)) (\<lambda>_.
     bind (guard (is_regular bs) ()) (\<lambda>_.
     read_chunks fuel (read_file bs path) [])))))))"

definition control_test :: "nat \<Rightarrow> boot_services \<Rightarrow> chainload_config \<Rightarrow> bytes \<Rightarrow> (boot_event list, unit, unit) comp" where
  "control_test fuel bs c path =
     bind (attempt (load_file_from_esp fuel bs path)) (\<lambda>r. case r of
       Some d \<Rightarrow> bind (attempt (chainload_image bs c d)) (\<lambda>_. ret ())
     | None \<Rightarrow> ret ())"

section \<open>What is started\<close>

lemma u32_le_eq: "u32_le d p = (if p + 4 \<le> length d then Ret (le_val (take 4 (drop p d))) else Panic)"
  by (simp add: u32_le_def get_range_def)

text \<open>The headers of an image that can be started.\<close>

definition startable :: "bytes \<Rightarrow> bool" where
  "startable d \<longleftrightarrow> (\<exists>pe entry. 64 \<le> length d \<and> take 2 d = ascii ''MZ'' \<and> pe = le_val (take 4 (drop 0x3C d)) \<and> pe + 56 \<le> length d \<and>
     take 4 (drop pe d) = ascii ''PE'' @ [0, 0] \<and> entry = le_val (take 4 (drop (pe + 40) d)) \<and> entry \<noteq> 0 \<and>
     (pe + 84 \<le> length d \<longrightarrow> (let sz = le_val (take 4 (drop (pe + 80) d)) in sz = 0 \<or> entry < sz)))"

lemma validate_total: "\<exists>b. validate_efi_image d = Ret b"
  by (auto simp: validate_efi_image_def u32_le_eq)

lemma gates_startable:
  assumes "validate_efi_image d = (Ret True :: (unit, bool) outcome)" and "pe_gate d = Ret ()"
  shows "startable d"
proof -
  let ?pe = "le_val (take 4 (drop 0x3C d))"
  have v: "64 \<le> length d" "d ! 0 = 0x4d" "d ! 1 = 0x5a" "d ! ?pe = 0x50" "d ! (?pe + 1) = 0x45" "d ! (?pe + 2) = 0" "d ! (?pe + 3) = 0"
    using assms(1) by (auto simp: validate_efi_image_def u32_le_eq split: if_splits)
  have g: "?pe + 56 \<le> length d" "le_val (take 4 (drop (?pe + 40) d)) \<noteq> 0"
      "?pe + 84 \<le> length d \<Longrightarrow> le_val (take 4 (drop (?pe + 80) d)) = 0 \<or> le_val (take 4 (drop (?pe + 40) d)) < le_val (take 4 (drop (?pe + 80) d))"
    using assms(2) v(1) by (auto simp: pe_gate_def u32_le_eq split: if_splits)
  have "take 2 d = [d ! 0, d ! 1]" using v(1) by (cases d; cases "tl d") auto
  moreover have "take 4 (drop ?pe d) = [d ! ?pe, d ! (?pe + 1), d ! (?pe + 2), d ! (?pe + 3)]"
    using g(1) by (simp add: numeral_eq_Suc take_Suc_conv_app_nth)
  ultimately show ?thesis
    unfolding startable_def Let_def using v g by (simp add: ascii_def)
qed

text \<open>The events of a load, and what is loaded.\<close>

fun load_event :: "boot_event \<Rightarrow> bool" where
  "load_event LocateSnp = False"
| "load_event (DisconnectNic _) = False"
| "load_event (SetWatchdog _ _) = False"
| "load_event (StartImage _) = False"
| "load_event (ConnectNic _) = False"
| "load_event _ = True"

definition image_loaded :: "boot_services \<Rightarrow> load_mode \<Rightarrow> bytes \<Rightarrow> bytes" where
  "image_loaded bs m d = (case m of Buffer \<Rightarrow> d | File \<Rightarrow> d @ drop (length d) (temp_file bs))"

definition nics_of :: "boot_services \<Rightarrow> nat list" where
  "nics_of bs = (case network_handles bs of Some handles \<Rightarrow> handles | None \<Rightarrow> [])"

lemma load_run:
  "\<exists>r ld. (case m of Buffer \<Rightarrow> load_from_buffer bs d | File \<Rightarrow> load_via_temp_file bs d) h = (r, h @ ld) \<and> list_all load_event ld \<and>
     (m = Buffer \<longrightarrow> ld = [LoadFromBuffer d]) \<and> (r = Err () \<or> r = Ret (image_loaded bs m d))"
  by (cases m) (auto simp: load_from_buffer_def load_via_temp_file_def image_loaded_def boot_try_def bind_def guard_def)

text \<open>C19: an image is started only if its headers pass: the two signatures, a header within the image and an entry point that is
  not zero and lies within the announced size. A start is preceded by the load, a teardown of the network when it was asked for, and
  a watchdog of one minute, and followed by the long watchdog and the reconnection of exactly the interfaces that were disconnected; what is started is
  the image, with the remains of an older one behind it when it was loaded from the file. A run that does not start it arms no
  watchdog and disconnects nothing; from memory, nothing is written.\<close>

theorem chainload_starts_valid_image:
  "case chainload_image bs c d h of (r, h') \<Rightarrow> \<exists>ld. list_all load_event ld \<and> (case load_mode_of c of Buffer \<Rightarrow> ld = [] \<or> ld = [LoadFromBuffer d] | File \<Rightarrow> True) \<and>
     (r \<noteq> Ret () \<and> h' = h @ ld \<or>
      r = Ret () \<and> startable d \<and>
      h' = h @ ld @ (if do_teardown c then LocateSnp # map DisconnectNic (nics_of bs) else [])
        @ [SetWatchdog 60 0x10001, StartImage (image_loaded bs (load_mode_of c) d), SetWatchdog WATCHDOG_TIMEOUT_SECS 0x10000]
        @ (if do_teardown c then map ConnectNic (nics_of bs) else []))"
proof (cases "validate_efi_image d = (Ret True :: (unit, bool) outcome) \<and> pe_gate d = Ret ()")
  case True
  then have "startable d" using gates_startable by blast
  moreover obtain r ld where ld: "(case load_mode_of c of Buffer \<Rightarrow> load_from_buffer bs d | File \<Rightarrow> load_via_temp_file bs d) h = (r, h @ ld)"
      "list_all load_event ld" "load_mode_of c = Buffer \<longrightarrow> ld = [LoadFromBuffer d]" "r = Err () \<or> r = Ret (image_loaded bs (load_mode_of c) d)"
    using load_run by blast
  ultimately show ?thesis
    using True
    by (cases "network_handles bs")
      (auto simp: chainload_image_def bind_def lift_def boot_call_def teardown_network_def reconnect_network_def for_each_def nics_of_def intro!: exI [of _ ld] split: load_mode.splits)
next
  case False
  obtain b where b: "validate_efi_image d = (Ret b :: (unit, bool) outcome)" using validate_total by blast
  show ?thesis
  proof (cases b)
    case True
    with b False have "pe_gate d \<noteq> Ret ()" by simp
    with b True show ?thesis by (cases "pe_gate d") (auto simp: chainload_image_def bind_def lift_def intro!: exI [of _ "[]"] split: load_mode.split)
  qed (auto simp: chainload_image_def bind_def lift_def b intro!: exI [of _ "[]"] split: load_mode.split)
qed

text \<open>An image that ends within the four bytes of its size, which the gate should refuse.\<close>

definition cut_image :: bytes where
  "cut_image = [0x4d, 0x5a] @ replicate 58 0 @ [64, 0, 0, 0] @ [0x50, 0x45, 0, 0] @ replicate 76 1"

lemma cut_image_panics: "fst (chainload_image bs c cut_image h) = Panic"
proof -
  have len: "length cut_image = 144" by (simp add: cut_image_def)
  have pe: "take 4 (drop 60 cut_image) = [64, 0, 0, 0]" by (simp add: cut_image_def)
  have sg: "cut_image ! 0 = 0x4d" "cut_image ! 1 = 0x5a" "cut_image ! 64 = 0x50" "cut_image ! 65 = 0x45" "cut_image ! 66 = 0" "cut_image ! 67 = 0"
    by (simp_all add: cut_image_def nth_append)
  have "le_val [64, 0, 0, 0] = 64" by (simp add: le_val_def)
  with len pe sg have "validate_efi_image cut_image = (Ret True :: (unit, bool) outcome)" "pe_gate cut_image = Panic"
    by (simp_all add: validate_efi_image_def pe_gate_def u32_le_eq)
  then show ?thesis by (simp add: chainload_image_def bind_def lift_def)
qed

text \<open>An image that passes.\<close>

definition small_image :: bytes where
  "small_image = [0x4d, 0x5a] @ replicate 58 0 @ [64, 0, 0, 0] @ [0x50, 0x45, 0, 0] @ replicate 60 1"

definition sample_boot :: boot_services where
  "sample_boot = \<lparr>boot_ok = (\<lambda>_ _. True), has_device = True, is_regular = True, device_path_nodes = [], temp_file = [],
     read_file = (\<lambda>_ _. Some []), network_handles = None\<rparr>"

lemma small_image_starts: "fst (chainload_image sample_boot default_config small_image h) = Ret ()"
proof -
  have len: "length small_image = 128" by (simp add: small_image_def)
  have pe: "take 4 (drop 60 small_image) = [64, 0, 0, 0]" "take 4 (drop 104 small_image) = [1, 1, 1, 1]" by (simp_all add: small_image_def numeral_eq_Suc)
  have sg: "small_image ! 0 = 0x4d" "small_image ! 1 = 0x5a" "small_image ! 64 = 0x50" "small_image ! 65 = 0x45" "small_image ! 66 = 0" "small_image ! 67 = 0"
    by (simp_all add: small_image_def nth_append)
  have "le_val [64, 0, 0, 0] = 64" "le_val [1, 1, 1, 1] \<noteq> 0" by (simp_all add: le_val_def)
  with len pe sg have "validate_efi_image small_image = (Ret True :: (unit, bool) outcome)" "pe_gate small_image = Ret ()"
    by (simp_all add: validate_efi_image_def pe_gate_def u32_le_eq)
  then show ?thesis by (simp add: chainload_image_def bind_def lift_def boot_call_def default_config_def load_from_buffer_def boot_try_def
      reconnect_network_def for_each_def sample_boot_def)
qed

section \<open>The device path\<close>

text \<open>
  A device path as the UEFI specification reads it: a type, a subtype and the length of the whole node, up to the node that ends it. The path that
  the code puts together is read back as the nodes of the device followed by the file.
\<close>

fun read_nodes :: "nat \<Rightarrow> bytes \<Rightarrow> bytes list option" where
  "read_nodes 0 d = None"
| "read_nodes (Suc k) d =
     (if length d < 4 then None
      else let n = unat (d ! 2) + 256 * unat (d ! 3) in
        if take 2 d = [0x7F, 0xFF] then Some []
        else if n < 4 \<or> length d < n then None
        else map_option ((#) (take n d)) (read_nodes k (drop n d)))"

definition path_node :: "bytes \<Rightarrow> bool" where
  "path_node nd \<longleftrightarrow> 4 \<le> length nd \<and> take 2 nd \<noteq> [0x7F, 0xFF] \<and> length nd < 2 ^ 16 \<and> take 2 (drop 2 nd) = u16_le (length nd)"

lemma path_node_head:
  assumes "path_node nd"
  shows "unat (nd ! 2) + 256 * unat (nd ! 3) = length nd" "(nd @ d) ! 2 = nd ! 2" "(nd @ d) ! 3 = nd ! 3" "take 2 (nd @ d) \<noteq> [0x7F, 0xFF]"
proof -
  have l: "4 \<le> length nd" using assms by (simp add: path_node_def)
  then have "take 2 (drop 2 nd) = [nd ! 2, nd ! 3]" by (simp add: numeral_eq_Suc take_Suc_conv_app_nth)
  then have "nd ! 2 = u8 (length nd)" "nd ! 3 = u8 (length nd div 256)" using assms by (simp_all add: path_node_def u16_le_def)
  moreover have "length nd div 256 < 256" using assms by (simp add: path_node_def less_mult_imp_div_less)
  ultimately show "unat (nd ! 2) + 256 * unat (nd ! 3) = length nd" by (simp add: unat_u8)
  show "(nd @ d) ! 2 = nd ! 2" "(nd @ d) ! 3 = nd ! 3" "take 2 (nd @ d) \<noteq> [0x7F, 0xFF]" using l assms by (auto simp: path_node_def nth_append)
qed

lemma read_path_nodes:
  assumes "list_all path_node nodes" and "length nodes < k"
  shows "read_nodes k (concat nodes @ [0x7F, 0xFF] @ u16_le 4) = Some nodes"
  using assms
proof (induction nodes arbitrary: k)
  case Nil
  then show ?case by (cases k) (simp_all add: u16_le_def)
next
  case (Cons nd nodes)
  then obtain k' where k: "k = Suc k'" "length nodes < k'" by (cases k) auto
  with Cons path_node_head(1) [of nd] path_node_head(2-4) [of nd "concat nodes @ [0x7F, 0xFF] @ u16_le 4"] show ?case
    by (simp add: Let_def path_node_def)
qed

lemma temp_path_node: "path_node (file_path_node TEMP_PATH)"
  by (simp add: path_node_def file_path_node_def TEMP_PATH_def u16_le_def Let_def ascii_def)

text \<open>The device path for the temporary file, built from the nodes of a device, is read back as those nodes followed by the node of the file.\<close>

theorem full_path_roundtrip:
  assumes "list_all path_node nodes"
  shows "read_nodes (length nodes + 2) (full_path nodes) = Some (nodes @ [file_path_node TEMP_PATH])"
  using read_path_nodes [of "nodes @ [file_path_node TEMP_PATH]" "length nodes + 2"] assms temp_path_node by (simp add: full_path_def del: read_nodes.simps)

theorem full_path_roundtrip_witness:
  "read_nodes (length [[2, 1, 4, 0 :: byte]] + 2) (full_path [[2, 1, 4, 0]]) = Some ([[2, 1, 4, 0]] @ [file_path_node TEMP_PATH])"
  by (rule full_path_roundtrip) (simp add: path_node_def u16_le_def)

section \<open>Files\<close>

text \<open>A file that is read in pieces of at most 64 KiB is read in full, with a round for each byte and one more at most.\<close>

lemma read_chunks_all:
  assumes "\<And>n. n \<le> length f \<Longrightarrow> read (take n f) = Some (take 65536 (drop n f))"
  shows "n \<le> length f \<Longrightarrow> length f - n < fuel \<Longrightarrow> read_chunks fuel read (take n f) h = (Ret f, h)"
proof (induction fuel arbitrary: n)
  case (Suc fuel)
  show ?case
  proof (cases "n = length f")
    case False
    then have n: "n < length f" using Suc.prems(1) by simp
    define m where "m = min 65536 (length f - n)"
    have "take n f @ take 65536 (drop n f) = take (n + m) f" by (simp add: take_add m_def min_def)
    moreover have "read_chunks fuel read (take (n + m) f) h = (Ret f, h)" using Suc.prems n by (intro Suc.IH) (auto simp: m_def)
    ultimately show ?thesis using assms [of n] n by simp
  qed (use assms [of n] in simp)
qed simp

lemma load_file_reads_file:
  assumes "\<And>h e. boot_ok bs h e" and "has_device bs" and "is_regular bs" and "ucs2_string path"
    and "\<And>n. n \<le> length f \<Longrightarrow> read_file bs path (take n f) = Some (take 65536 (drop n f))" and "length f < fuel"
  shows "fst (load_file_from_esp fuel bs path h) = Ret f"
  using read_chunks_all [where read = "read_file bs path" and f = f and n = 0 and fuel = fuel] assms
  by (simp add: load_file_from_esp_def bind_def boot_try_def del: read_chunks.simps)

text \<open>An older image that is longer than the new one is started with it, when the load goes through the file.\<close>

lemma old_file_behind_image: "length d < length (temp_file bs) \<Longrightarrow> image_loaded bs File d \<noteq> d"
  by (simp add: image_loaded_def)

end
