(* ===== verification/Tpm.thy ===== *)
theory Tpm
  imports Cbor
begin

text \<open>
  \<open>src/src/tpm.rs\<close>: the TPM commands. The firmware's TCG2 protocol is the parameter \<open>tcg2\<close>: whether it can be
  opened, and the answer to a command, both as functions of the commands submitted so far. A function of \<open>tpm.rs\<close>
  is a computation over that history. The response buffer has the size the caller chose and is zero where the firmware
  writes nothing. Waiting between attempts and logging are not modelled.

  Shown: what the commands look like on the wire, that the parsers of the responses read back what a TPM writes, that
  \<open>tpm_get_random\<close> gives exactly the bytes asked for, and that signatures come out with a low \<open>s\<close>.
\<close>

section \<open>The firmware's interface\<close>

record tcg2 =
  tcg_open :: "bytes list \<Rightarrow> bool"
  tcg_submit :: "bytes list \<Rightarrow> bytes \<Rightarrow> nat \<Rightarrow> bytes option"

type_synonym ('e, 'a) tpm = "(bytes list, 'e, 'a) comp"

definition open_tcg :: "tcg2 \<Rightarrow> (unit, unit) tpm" where
  "open_tcg tcg h = (if tcg_open tcg h then Ret () else Err (), h)"

definition response_buffer :: "nat \<Rightarrow> bytes \<Rightarrow> bytes" where
  "response_buffer n r = take n (r @ replicate n 0)"

definition submit_command :: "tcg2 \<Rightarrow> bytes \<Rightarrow> nat \<Rightarrow> (unit, bytes) tpm" where
  "submit_command tcg cmd resp_size h = (case tcg_submit tcg h cmd resp_size of
     Some r \<Rightarrow> (Ret (response_buffer resp_size r), h @ [cmd])
   | None \<Rightarrow> (Err (), h @ [cmd]))"

section \<open>Marshalling\<close>

definition TPM2_CC_NV_READ :: nat where "TPM2_CC_NV_READ = 0x14E"
definition TPM2_CC_NV_READ_PUBLIC :: nat where "TPM2_CC_NV_READ_PUBLIC = 0x169"
definition TPM2_CC_CREATE_PRIMARY :: nat where "TPM2_CC_CREATE_PRIMARY = 0x131"
definition TPM2_CC_ECDH_ZGEN :: nat where "TPM2_CC_ECDH_ZGEN = 0x154"
definition TPM2_CC_FLUSH_CONTEXT :: nat where "TPM2_CC_FLUSH_CONTEXT = 0x165"
definition TPM2_CC_SIGN :: nat where "TPM2_CC_SIGN = 0x15D"
definition TPM2_CC_GET_RANDOM :: nat where "TPM2_CC_GET_RANDOM = 0x17B"
definition TPM2_CC_READ_PUBLIC :: nat where "TPM2_CC_READ_PUBLIC = 0x173"
definition TPM2_CC_EVICT_CONTROL :: nat where "TPM2_CC_EVICT_CONTROL = 0x120"
definition TPM2_CC_NV_DEFINE_SPACE :: nat where "TPM2_CC_NV_DEFINE_SPACE = 0x12A"
definition TPM2_CC_NV_WRITE :: nat where "TPM2_CC_NV_WRITE = 0x137"
definition TPM2_CC_HMAC :: nat where "TPM2_CC_HMAC = 0x155"
definition TPM2_CC_NV_UNDEFINE_SPACE :: nat where "TPM2_CC_NV_UNDEFINE_SPACE = 0x122"

definition TPM2_RS_PW :: nat where "TPM2_RS_PW = 0x40000009"
definition TPM2_RH_OWNER :: nat where "TPM2_RH_OWNER = 0x40000001"
definition TPM2_ST_NO_SESSIONS :: nat where "TPM2_ST_NO_SESSIONS = 0x8001"
definition TPM2_ST_SESSIONS :: nat where "TPM2_ST_SESSIONS = 0x8002"

definition TPM2_ALG_SHA256 :: nat where "TPM2_ALG_SHA256 = 0x000B"
definition TPM2_ALG_NULL :: nat where "TPM2_ALG_NULL = 0x0010"
definition TPM2_ALG_ECC :: nat where "TPM2_ALG_ECC = 0x0023"
definition TPM2_ALG_ECDH :: nat where "TPM2_ALG_ECDH = 0x0019"
definition TPM2_ALG_ECDSA :: nat where "TPM2_ALG_ECDSA = 0x0018"
definition TPM2_ALG_KEYEDHASH :: nat where "TPM2_ALG_KEYEDHASH = 0x0008"
definition TPM2_ALG_HMAC_ALG :: nat where "TPM2_ALG_HMAC_ALG = 0x0005"
definition TPM2_ECC_NIST_P256 :: nat where "TPM2_ECC_NIST_P256 = 0x0003"

definition TPM_RC_RETRY :: nat where "TPM_RC_RETRY = 0x922"
definition TPM_RETRY_MAX :: nat where "TPM_RETRY_MAX = 5"

text \<open>Written into the buffer that is given; the model gives the bytes. Larger values are cut, as by \<open>as u16\<close>, \<open>as u32\<close>.\<close>

definition pack_u16 :: "nat \<Rightarrow> bytes" where
  "pack_u16 val = be 2 val"

definition pack_u32 :: "nat \<Rightarrow> bytes" where
  "pack_u32 val = be 4 val"

text \<open>Reads of \<open>&buf[a..b]\<close>, which panic out of range.\<close>

definition slice_at :: "bytes \<Rightarrow> nat \<Rightarrow> nat \<Rightarrow> ('e, bytes) outcome" where
  "slice_at d a b = (case get_range d a b of Some s \<Rightarrow> Ret s | None \<Rightarrow> Panic)"

definition unpack_u16 :: "bytes \<Rightarrow> nat \<Rightarrow> ('e, nat) outcome" where
  "unpack_u16 d p = obind (slice_at d p (p + 2)) (\<lambda>b. Ret (be_val b))"

definition unpack_u32 :: "bytes \<Rightarrow> nat \<Rightarrow> ('e, nat) outcome" where
  "unpack_u32 d p = obind (slice_at d p (p + 4)) (\<lambda>b. Ret (be_val b))"

text \<open>The frame of a command: the size is patched in at the end; and the empty password session, with its size in front.\<close>

definition tpm_command :: "nat \<Rightarrow> nat \<Rightarrow> bytes \<Rightarrow> bytes" where
  "tpm_command tag code body = pack_u16 tag @ pack_u32 (10 + length body) @ pack_u32 code @ body"

definition auth_area :: bytes where
  "auth_area = (let session = pack_u32 TPM2_RS_PW @ pack_u16 0 @ [0] @ pack_u16 0 in pack_u32 (length session) @ session)"

text \<open>A sized buffer (\<open>TPM2B\<close>).\<close>

definition tpm2b :: "bytes \<Rightarrow> bytes" where
  "tpm2b d = pack_u16 (length d) @ d"

definition build_nv_read_public_cmd :: "nat \<Rightarrow> bytes" where
  "build_nv_read_public_cmd nv_index = tpm_command TPM2_ST_NO_SESSIONS TPM2_CC_NV_READ_PUBLIC (pack_u32 nv_index)"

definition build_nv_read_cmd :: "nat \<Rightarrow> nat \<Rightarrow> nat \<Rightarrow> bytes" where
  "build_nv_read_cmd nv_index sz offset = tpm_command TPM2_ST_SESSIONS TPM2_CC_NV_READ
     (pack_u32 TPM2_RH_OWNER @ pack_u32 nv_index @ auth_area @ pack_u16 sz @ pack_u16 offset)"

text \<open>\<open>TPM2_CreatePrimary\<close> in the owner hierarchy, with empty sensitive data, outside information and PCR selection.\<close>

definition create_primary_cmd :: "bytes \<Rightarrow> bytes" where
  "create_primary_cmd in_public = tpm_command TPM2_ST_SESSIONS TPM2_CC_CREATE_PRIMARY
     (pack_u32 TPM2_RH_OWNER @ auth_area @ [0, 4, 0, 0, 0, 0] @ tpm2b in_public @ [0, 0] @ [0, 0, 0, 0])"

definition build_create_primary_ecdh_cmd :: bytes where
  "build_create_primary_ecdh_cmd = create_primary_cmd
     (pack_u16 TPM2_ALG_ECC @ pack_u16 TPM2_ALG_SHA256 @ [0x00, 0x02, 0x04, 0x72] @ [0, 0] @
      pack_u16 TPM2_ALG_NULL @ pack_u16 TPM2_ALG_ECDH @ pack_u16 TPM2_ALG_SHA256 @ pack_u16 TPM2_ECC_NIST_P256 @
      pack_u16 TPM2_ALG_NULL @ [0, 0] @ [0, 0])"

definition build_ecdh_zgen_cmd :: "nat \<Rightarrow> bytes \<Rightarrow> bytes \<Rightarrow> bytes" where
  "build_ecdh_zgen_cmd key_handle peer_x peer_y = tpm_command TPM2_ST_SESSIONS TPM2_CC_ECDH_ZGEN
     (pack_u32 key_handle @ auth_area @ pack_u16 (2 + length peer_x + 2 + length peer_y) @ tpm2b peer_x @ tpm2b peer_y)"

definition build_flush_context_cmd :: "nat \<Rightarrow> bytes" where
  "build_flush_context_cmd h = tpm_command TPM2_ST_NO_SESSIONS TPM2_CC_FLUSH_CONTEXT (pack_u32 h)"

definition build_sign_cmd :: "nat \<Rightarrow> bytes \<Rightarrow> bytes" where
  "build_sign_cmd key_handle digest = tpm_command TPM2_ST_SESSIONS TPM2_CC_SIGN
     (pack_u32 key_handle @ auth_area @ tpm2b digest @ pack_u16 TPM2_ALG_ECDSA @ pack_u16 TPM2_ALG_SHA256 @
      pack_u16 0x8024 @ pack_u32 0x40000007 @ [0, 0])"

definition build_get_random_cmd :: "nat \<Rightarrow> bytes" where
  "build_get_random_cmd bytes_requested = tpm_command TPM2_ST_NO_SESSIONS TPM2_CC_GET_RANDOM (pack_u16 bytes_requested)"

definition build_read_public_cmd :: "nat \<Rightarrow> bytes" where
  "build_read_public_cmd h = tpm_command TPM2_ST_NO_SESSIONS TPM2_CC_READ_PUBLIC (pack_u32 h)"

definition FDO_KEY_ATTRIBUTES :: nat where
  "FDO_KEY_ATTRIBUTES = 0x2 + 0x10 + 0x20 + 0x40 + 0x80 + 0x400 + 0x40000"

definition DEVICE_KEY_AUTH_POLICY_SHA256 :: bytes where
  "DEVICE_KEY_AUTH_POLICY_SHA256 =
     [0x04, 0x8e, 0x9a, 0x3a, 0xce, 0x08, 0x58, 0x3f, 0x79, 0xf3, 0x44, 0xff, 0x78, 0x5b, 0xbe, 0xa9,
      0xf0, 0x7a, 0xc7, 0xfa, 0x33, 0x25, 0xb3, 0xd4, 0x9a, 0x21, 0xdd, 0x51, 0x94, 0xc6, 0x58, 0x50]"

definition build_create_primary_signing_cmd :: bytes where
  "build_create_primary_signing_cmd = create_primary_cmd
     (pack_u16 TPM2_ALG_ECC @ pack_u16 TPM2_ALG_SHA256 @ pack_u32 FDO_KEY_ATTRIBUTES @ tpm2b DEVICE_KEY_AUTH_POLICY_SHA256 @
      pack_u16 TPM2_ALG_NULL @ pack_u16 TPM2_ALG_ECDSA @ pack_u16 TPM2_ALG_SHA256 @ pack_u16 TPM2_ECC_NIST_P256 @
      pack_u16 TPM2_ALG_NULL @ [0, 0] @ [0, 0])"

definition build_create_primary_hmac_cmd :: bytes where
  "build_create_primary_hmac_cmd = create_primary_cmd
     (pack_u16 TPM2_ALG_KEYEDHASH @ pack_u16 TPM2_ALG_SHA256 @ pack_u32 FDO_KEY_ATTRIBUTES @ [0, 0] @
      pack_u16 TPM2_ALG_HMAC_ALG @ pack_u16 TPM2_ALG_SHA256 @ [0, 0])"

definition build_hmac_cmd :: "nat \<Rightarrow> bytes \<Rightarrow> bytes" where
  "build_hmac_cmd key_handle data = tpm_command TPM2_ST_SESSIONS TPM2_CC_HMAC
     (pack_u32 key_handle @ auth_area @ tpm2b data @ pack_u16 TPM2_ALG_SHA256)"

definition build_evict_control_cmd :: "nat \<Rightarrow> nat \<Rightarrow> bytes" where
  "build_evict_control_cmd object_handle persistent_handle = tpm_command TPM2_ST_SESSIONS TPM2_CC_EVICT_CONTROL
     (pack_u32 TPM2_RH_OWNER @ pack_u32 object_handle @ auth_area @ pack_u32 persistent_handle)"

definition build_nv_undefine_space_cmd :: "nat \<Rightarrow> bytes" where
  "build_nv_undefine_space_cmd nv_index = tpm_command TPM2_ST_SESSIONS TPM2_CC_NV_UNDEFINE_SPACE
     (pack_u32 TPM2_RH_OWNER @ pack_u32 nv_index @ auth_area)"

definition build_nv_define_space_cmd :: "nat \<Rightarrow> nat \<Rightarrow> nat \<Rightarrow> bytes" where
  "build_nv_define_space_cmd nv_index sz attributes = tpm_command TPM2_ST_SESSIONS TPM2_CC_NV_DEFINE_SPACE
     (pack_u32 TPM2_RH_OWNER @ auth_area @ [0, 0] @
      tpm2b (pack_u32 nv_index @ pack_u16 TPM2_ALG_SHA256 @ pack_u32 attributes @ [0, 0] @ pack_u16 sz))"

definition build_nv_write_cmd :: "nat \<Rightarrow> bytes \<Rightarrow> bytes" where
  "build_nv_write_cmd nv_index data = tpm_command TPM2_ST_SESSIONS TPM2_CC_NV_WRITE
     (pack_u32 TPM2_RH_OWNER @ pack_u32 nv_index @ auth_area @ tpm2b data @ [0, 0])"

section \<open>Responses\<close>

text \<open>The response code, at its fixed place.\<close>

definition response_ok :: "bytes \<Rightarrow> nat \<Rightarrow> (unit, unit) outcome" where
  "response_ok response min_len =
     (if length response < min_len then Err ()
      else obind (unpack_u32 response 6) (\<lambda>response_code. if response_code \<noteq> 0 then Err () else Ret ()))"

text \<open>A sized buffer at \<open>pos\<close>, and the position behind it; the checks are those the parsers make before each read.\<close>

definition read_tpm2b :: "bytes \<Rightarrow> nat \<Rightarrow> (unit, bytes \<times> nat) outcome" where
  "read_tpm2b response pos =
     (if length response < pos + 2 then Err ()
      else obind (unpack_u16 response pos) (\<lambda>sz.
        let pos = pos + 2 in
        if length response < pos + sz then Err ()
        else obind (slice_at response pos (pos + sz)) (\<lambda>d. Ret (d, pos + sz))))"

definition parse_nv_read_public_response :: "bytes \<Rightarrow> (unit, nat) outcome" where
  "parse_nv_read_public_response response =
     obind (response_ok response 10) (\<lambda>_.
     if length response < 28 then Err () else unpack_u16 response 24)"

definition parse_nv_read_response :: "bytes \<Rightarrow> (unit, bytes) outcome" where
  "parse_nv_read_response response =
     obind (response_ok response 10) (\<lambda>_.
     if length response < 16 then Err ()
     else obind (unpack_u32 response 10) (\<lambda>_.
       obind (read_tpm2b response 14) (\<lambda>(d, _). Ret d)))"

text \<open>\<open>TpmEcdhKeyPair\<close> and \<open>TpmSigningKey\<close>, which have the same fields.\<close>

record tpm_key =
  key_handle :: nat
  key_x :: bytes
  key_y :: bytes

definition parse_create_primary_response :: "bytes \<Rightarrow> (unit, tpm_key) outcome" where
  "parse_create_primary_response response =
     obind (response_ok response 14) (\<lambda>_.
     obind (unpack_u32 response 10) (\<lambda>h.
     let pos = 18 in
     if length response < pos + 2 then Err () else
     obind (unpack_u16 response pos) (\<lambda>public_size.
     let pos = pos + 2 in
     if length response < pos + public_size then Err () else
     let pos = pos + (2 + 2 + 4) in
     if length response < pos + 2 then Err () else
     obind (unpack_u16 response pos) (\<lambda>auth_policy_size.
     let pos = pos + 2 + auth_policy_size; pos = pos + (2 + 2 + 2 + 2 + 2) in
     obind (read_tpm2b response pos) (\<lambda>(x, pos).
     obind (read_tpm2b response pos) (\<lambda>(y, _).
     Ret \<lparr>key_handle = h, key_x = x, key_y = y\<rparr>))))))"

definition parse_ecdh_zgen_response :: "bytes \<Rightarrow> (unit, bytes) outcome" where
  "parse_ecdh_zgen_response response =
     obind (response_ok response 14) (\<lambda>_.
     let pos = 14 in
     if length response < pos + 2 then Err () else
     obind (unpack_u16 response pos) (\<lambda>_.
     obind (read_tpm2b response (pos + 2)) (\<lambda>(x, _). Ret x)))"

definition parse_sign_response :: "bytes \<Rightarrow> (unit, bytes \<times> bytes) outcome" where
  "parse_sign_response response =
     obind (response_ok response 14) (\<lambda>_.
     let pos = 14 in
     if length response < pos + 2 then Err () else
     obind (unpack_u16 response pos) (\<lambda>_.
     let pos = pos + 2 in
     if length response < pos + 2 then Err () else
     obind (unpack_u16 response pos) (\<lambda>_.
     let pos = pos + 2 in
     obind (read_tpm2b response pos) (\<lambda>(r, pos).
     obind (read_tpm2b response pos) (\<lambda>(s, _). Ret (r, s))))))"

definition parse_hmac_response :: "bytes \<Rightarrow> (unit, bytes) outcome" where
  "parse_hmac_response response =
     obind (response_ok response 14) (\<lambda>_. obind (read_tpm2b response 14) (\<lambda>(d, _). Ret d))"

text \<open>The tail of \<open>tpm_read_public\<close>. Behind the policy the offsets are not checked before \<open>scheme_alg\<close> is read.\<close>

definition parse_read_public_response :: "bytes \<Rightarrow> (unit, bytes \<times> bytes) outcome" where
  "parse_read_public_response response =
     obind (unpack_u32 response 2) (\<lambda>resp_size.
     if resp_size < 14 then Err () else
     let pos = 10 in
     if pos + 2 > length response then Err () else
     obind (unpack_u16 response pos) (\<lambda>pub_size.
     let pub_start = pos + 2; pub_end = pub_start + pub_size in
     if pub_end > length response \<or> pub_size < 14 then Err () else
     obind (unpack_u16 response pub_start) (\<lambda>alg_type.
     let pos = pub_start + 2 + 2 + 4 in
     if pos + 2 > length response then Err () else
     obind (unpack_u16 response pos) (\<lambda>auth_size.
     let pos = pos + 2 + auth_size in
     if alg_type \<noteq> TPM2_ALG_ECC then Err () else
     let pos = pos + 2 in
     obind (unpack_u16 response pos) (\<lambda>scheme_alg.
     let pos = pos + 2; pos = (if scheme_alg \<noteq> TPM2_ALG_NULL then pos + 2 else pos); pos = pos + 2 + 2 in
     if pos + 2 > pub_end then Err () else
     obind (unpack_u16 response pos) (\<lambda>x_size.
     let pos = pos + 2 in
     if pos + x_size > pub_end then Err () else
     obind (slice_at response pos (pos + x_size)) (\<lambda>x.
     let pos = pos + x_size in
     if pos + 2 > pub_end then Err () else
     obind (unpack_u16 response pos) (\<lambda>y_size.
     let pos = pos + 2 in
     if pos + y_size > pub_end then Err () else
     obind (slice_at response pos (pos + y_size)) (\<lambda>y.
     Ret (x, y))))))))))"

section \<open>Operations\<close>

text \<open>The loop over the attempts: \<open>Err(rc)\<close> carries the response code.\<close>

fun submit_attempts :: "nat \<Rightarrow> tcg2 \<Rightarrow> bytes \<Rightarrow> nat \<Rightarrow> (nat, bytes) tpm" where
  "submit_attempts 0 tcg cmd resp_size = throw 0xFFFFFFFF"
| "submit_attempts (Suc k) tcg cmd resp_size =
     bind (attempt (submit_command tcg cmd resp_size)) (\<lambda>r. case r of
       None \<Rightarrow> submit_attempts k tcg cmd resp_size
     | Some response \<Rightarrow>
         if length response < 10 then throw 0xFFFFFFFF
         else bind (lift (unpack_u32 response 6)) (\<lambda>rc.
           if rc = TPM_RC_RETRY then submit_attempts k tcg cmd resp_size
           else if rc \<noteq> 0 then throw rc
           else ret response))"

definition tpm_submit_with_retry :: "tcg2 \<Rightarrow> bytes \<Rightarrow> nat \<Rightarrow> (nat, bytes) tpm" where
  "tpm_submit_with_retry = submit_attempts TPM_RETRY_MAX"

text \<open>A command whose failure makes the caller return \<open>None\<close>.\<close>

definition tpm_call :: "tcg2 \<Rightarrow> bytes \<Rightarrow> nat \<Rightarrow> (unit, bytes) tpm" where
  "tpm_call tcg cmd resp_size = or_err (tpm_submit_with_retry tcg cmd resp_size) ()"

text \<open>The response code of a command: 0 when it succeeds.\<close>

definition attempt_code :: "(nat, 'a) tpm \<Rightarrow> ('e, nat) tpm" where
  "attempt_code m h = (case m h of (Ret _, h') \<Rightarrow> (Ret 0, h') | (Err rc, h') \<Rightarrow> (Ret rc, h') | (Panic, h') \<Rightarrow> (Panic, h')
     | (Diverge, h') \<Rightarrow> (Diverge, h'))"

text \<open>A command whose result does not matter.\<close>

definition best_effort :: "tcg2 \<Rightarrow> bytes \<Rightarrow> nat \<Rightarrow> ('e, unit) tpm" where
  "best_effort tcg cmd resp_size = bind (attempt (submit_command tcg cmd resp_size)) (\<lambda>_. ret ())"

fun random_loop :: "nat \<Rightarrow> tcg2 \<Rightarrow> nat \<Rightarrow> bytes \<Rightarrow> (unit, bytes) tpm" where
  "random_loop k tcg len out =
     (if length out < len then
        (case k of
           0 \<Rightarrow> throw ()
         | Suc k' \<Rightarrow>
             bind (tpm_call tcg (build_get_random_cmd (min (len - length out) 32)) 256) (\<lambda>response.
             if length response < 12 then throw ()
             else bind (lift (unpack_u16 response 10)) (\<lambda>n.
               if n = 0 \<or> 12 + n > length response then throw ()
               else bind (lift (slice_at response 12 (12 + n))) (\<lambda>r.
                 random_loop k' tcg len (out @ r)))))
      else ret out)"

declare random_loop.simps [simp del]

definition tpm_get_random :: "tcg2 \<Rightarrow> nat \<Rightarrow> (unit, bytes) tpm" where
  "tpm_get_random tcg len =
     bind (open_tcg tcg) (\<lambda>_.
     if len > 2 ^ 63 - 1 then panic
     else bind (random_loop 16 tcg len []) (\<lambda>out. ret (take len out)))"

definition tpm_create_ecdh_key :: "tcg2 \<Rightarrow> (unit, tpm_key) tpm" where
  "tpm_create_ecdh_key tcg =
     bind (open_tcg tcg) (\<lambda>_.
     bind (tpm_call tcg build_create_primary_ecdh_cmd 1024) (\<lambda>response.
     lift (parse_create_primary_response response)))"

definition tpm_ecdh_compute_secret :: "tcg2 \<Rightarrow> nat \<Rightarrow> bytes \<Rightarrow> bytes \<Rightarrow> (unit, bytes) tpm" where
  "tpm_ecdh_compute_secret tcg kh peer_x peer_y =
     bind (open_tcg tcg) (\<lambda>_.
     bind (tpm_call tcg (build_ecdh_zgen_cmd kh peer_x peer_y) 512) (\<lambda>response.
     lift (parse_ecdh_zgen_response response)))"

text \<open>The peer's point in the FDO format; indexing a byte panics out of range, as a slice does.\<close>

definition split_peer_key :: "bytes \<Rightarrow> (unit, bytes \<times> bytes) outcome" where
  "split_peer_key d =
     (if length d < 6 then Err ()
      else obind (unpack_u16 d 0) (\<lambda>x_len.
        let pos = 2 in
        if length d < pos + x_len + 4 then Err ()
        else obind (slice_at d pos (pos + x_len)) (\<lambda>peer_x.
          let pos = pos + x_len in
          obind (unpack_u16 d pos) (\<lambda>y_len.
          let pos = pos + 2 in
          if length d < pos + y_len then Err ()
          else obind (slice_at d pos (pos + y_len)) (\<lambda>peer_y. Ret (peer_x, peer_y))))))"

definition tpm_ecdh_derive :: "tcg2 \<Rightarrow> nat \<Rightarrow> bytes \<Rightarrow> (unit, bytes) tpm" where
  "tpm_ecdh_derive tcg kh peer_key_fdo =
     bind (lift (split_peer_key peer_key_fdo)) (\<lambda>(peer_x, peer_y).
     tpm_ecdh_compute_secret tcg kh peer_x peer_y)"

definition tpm_flush_context :: "tcg2 \<Rightarrow> nat \<Rightarrow> ('e, unit) tpm" where
  "tpm_flush_context tcg h =
     bind (attempt (open_tcg tcg)) (\<lambda>opened. case opened of
       Some _ \<Rightarrow> best_effort tcg (build_flush_context_cmd h) 32
     | None \<Rightarrow> ret ())"

definition tpm_flush_all_transient :: "tcg2 \<Rightarrow> ('e, unit) tpm" where
  "tpm_flush_all_transient tcg =
     bind (attempt (open_tcg tcg)) (\<lambda>opened. case opened of
       Some _ \<Rightarrow> bind (repeat 16 (\<lambda>i. bind (best_effort tcg (build_flush_context_cmd (0x80000000 + i)) 32) (\<lambda>_. ret (Suc i))) 0) (\<lambda>_. ret ())
     | None \<Rightarrow> ret ())"

definition tpm_read_public :: "tcg2 \<Rightarrow> nat \<Rightarrow> (unit, bytes \<times> bytes) tpm" where
  "tpm_read_public tcg h =
     bind (open_tcg tcg) (\<lambda>_.
     bind (tpm_call tcg (build_read_public_cmd h) 512) (\<lambda>response.
     lift (parse_read_public_response response)))"

definition tpm_nv_read :: "tcg2 \<Rightarrow> nat \<Rightarrow> (unit, bytes) tpm" where
  "tpm_nv_read tcg nv_index =
     bind (open_tcg tcg) (\<lambda>_.
     bind (tpm_call tcg (build_nv_read_public_cmd nv_index) 512) (\<lambda>response.
     bind (lift (parse_nv_read_public_response response)) (\<lambda>data_size.
     bind (tpm_call tcg (build_nv_read_cmd nv_index data_size 0) 1024) (\<lambda>response.
     lift (parse_nv_read_response response)))))"

definition tpm_create_and_persist_signing_key :: "tcg2 \<Rightarrow> nat \<Rightarrow> (unit, tpm_key) tpm" where
  "tpm_create_and_persist_signing_key tcg persistent_handle =
     bind (open_tcg tcg) (\<lambda>_.
     bind (best_effort tcg (build_evict_control_cmd persistent_handle persistent_handle) 64) (\<lambda>_.
     bind (tpm_call tcg build_create_primary_signing_cmd 1024) (\<lambda>response.
     bind (lift (parse_create_primary_response response)) (\<lambda>key.
     bind (attempt (tpm_call tcg (build_evict_control_cmd (key_handle key) persistent_handle) 64)) (\<lambda>persisted. case persisted of
       Some _ \<Rightarrow> ret (key\<lparr>key_handle := persistent_handle\<rparr>)
     | None \<Rightarrow> bind (best_effort tcg (build_flush_context_cmd (key_handle key)) 32) (\<lambda>_. throw ()))))))"

definition tpm_create_hmac_and_persist :: "tcg2 \<Rightarrow> bytes \<Rightarrow> nat \<Rightarrow> (unit, nat \<times> bytes) tpm" where
  "tpm_create_hmac_and_persist tcg data persistent_handle =
     bind (open_tcg tcg) (\<lambda>_.
     bind (best_effort tcg (build_evict_control_cmd persistent_handle persistent_handle) 64) (\<lambda>_.
     bind (tpm_call tcg build_create_primary_hmac_cmd 512) (\<lambda>response.
     bind (guard (\<not> length response < 14) ()) (\<lambda>_.
     bind (lift (unpack_u32 response 10)) (\<lambda>hmac_handle.
     let flush = best_effort tcg (build_flush_context_cmd hmac_handle) 32 in
     bind (attempt (tpm_call tcg (build_hmac_cmd hmac_handle data) 256)) (\<lambda>hmac_response. case hmac_response of
       None \<Rightarrow> bind flush (\<lambda>_. throw ())
     | Some hr \<Rightarrow>
         bind (attempt (lift (parse_hmac_response hr))) (\<lambda>hmac_value. case hmac_value of
           None \<Rightarrow> bind flush (\<lambda>_. throw ())
         | Some v \<Rightarrow>
             bind (attempt (tpm_call tcg (build_evict_control_cmd hmac_handle persistent_handle) 64)) (\<lambda>persisted.
             bind (case persisted of Some _ \<Rightarrow> ret () | None \<Rightarrow> flush) (\<lambda>_.
             ret (persistent_handle, v))))))))))"

definition tpm_hmac :: "tcg2 \<Rightarrow> nat \<Rightarrow> bytes \<Rightarrow> (unit, bytes) tpm" where
  "tpm_hmac tcg kh data =
     bind (open_tcg tcg) (\<lambda>_.
     bind (tpm_call tcg (build_hmac_cmd kh data) 256) (\<lambda>response.
     lift (parse_hmac_response response)))"

text \<open>The results of these are booleans.\<close>

definition succeeds :: "(unit, 'a) tpm \<Rightarrow> (unit, bool) tpm" where
  "succeeds m = bind (attempt m) (\<lambda>r. ret (r \<noteq> None))"

definition tpm_evict_control :: "tcg2 \<Rightarrow> nat \<Rightarrow> nat \<Rightarrow> (unit, bool) tpm" where
  "tpm_evict_control tcg transient_handle persistent_handle = succeeds (
     bind (open_tcg tcg) (\<lambda>_.
     tpm_call tcg (build_evict_control_cmd transient_handle persistent_handle) 64))"

definition tpm_nv_write :: "tcg2 \<Rightarrow> nat \<Rightarrow> bytes \<Rightarrow> nat \<Rightarrow> (unit, bool) tpm" where
  "tpm_nv_write tcg nv_index data attributes = succeeds (
     bind (open_tcg tcg) (\<lambda>_.
     bind (best_effort tcg (build_nv_undefine_space_cmd nv_index) 64) (\<lambda>_.
     bind (attempt_code (tpm_submit_with_retry tcg (build_nv_define_space_cmd nv_index (length data) attributes) 64)) (\<lambda>rc.
     bind (guard (rc = 0 \<or> rc = 0x14c) ()) (\<lambda>_.
     tpm_call tcg (build_nv_write_cmd nv_index data) 64)))))"

definition tpm_nv_write_in_place :: "tcg2 \<Rightarrow> nat \<Rightarrow> bytes \<Rightarrow> (unit, bool) tpm" where
  "tpm_nv_write_in_place tcg nv_index data = succeeds (
     bind (open_tcg tcg) (\<lambda>_.
     tpm_call tcg (build_nv_write_cmd nv_index data) 64))"

section \<open>Signatures\<close>

definition P256_ORDER :: bytes where
  "P256_ORDER = [0xFF, 0xFF, 0xFF, 0xFF, 0x00, 0x00, 0x00, 0x00, 0xFF, 0xFF, 0xFF, 0xFF, 0xFF, 0xFF, 0xFF, 0xFF,
     0xBC, 0xE6, 0xFA, 0xAD, 0xA7, 0x17, 0x9E, 0x84, 0xF3, 0xB9, 0xCA, 0xC2, 0xFC, 0x63, 0x25, 0x51]"

definition P256_HALF_ORDER :: bytes where
  "P256_HALF_ORDER = [0x7F, 0xFF, 0xFF, 0xFF, 0x80, 0x00, 0x00, 0x00, 0x7F, 0xFF, 0xFF, 0xFF, 0xFF, 0xFF, 0xFF, 0xFF,
     0xDE, 0x73, 0x7D, 0x56, 0xD3, 0x8B, 0xCF, 0x42, 0x79, 0xDC, 0xE5, 0x61, 0x7E, 0x31, 0x92, 0xA8]"

datatype ordering = Less | Equal | Greater

text \<open>On two arrays of the same length.\<close>

fun compare_bytes :: "bytes \<Rightarrow> bytes \<Rightarrow> ordering" where
  "compare_bytes (x # a) (y # b) = (if x < y then Less else if y < x then Greater else compare_bytes a b)"
| "compare_bytes _ _ = Equal"

text \<open>From the last byte to the first, with the borrow in a \<open>u16\<close> that wraps below zero.\<close>

fun subtract_loop :: "bytes \<Rightarrow> bytes \<Rightarrow> bytes \<times> 16 word" where
  "subtract_loop (x # a) (y # b) = (case subtract_loop a b of (result, borrow) \<Rightarrow>
     let diff = ucast x - ucast y - borrow :: 16 word in (ucast diff # result, if diff > 0xFF then 1 else 0))"
| "subtract_loop _ _ = ([], 0)"

definition subtract_bytes :: "bytes \<Rightarrow> bytes \<Rightarrow> bytes" where
  "subtract_bytes a b = fst (subtract_loop a b)"

text \<open>An integer in a 32-byte array: zeros in front, or cut in front.\<close>

definition pad32 :: "bytes \<Rightarrow> bytes" where
  "pad32 r = replicate (32 - length r) 0 @ drop (length r - 32) r"

definition low_s :: "bytes \<Rightarrow> bytes" where
  "low_s s = (if compare_bytes s P256_HALF_ORDER = Greater then subtract_bytes P256_ORDER s else s)"

definition tpm_sign_with_persistent :: "tcg2 \<Rightarrow> nat \<Rightarrow> bytes \<Rightarrow> (unit, bytes) tpm" where
  "tpm_sign_with_persistent tcg persistent_handle digest =
     bind (open_tcg tcg) (\<lambda>_.
     bind (tpm_call tcg (build_sign_cmd persistent_handle digest) 512) (\<lambda>response.
     bind (lift (parse_sign_response response)) (\<lambda>(r, s).
     ret (pad32 r @ low_s (pad32 s)))))"

definition tpm_sign_ecdsa :: "tcg2 \<Rightarrow> nat \<Rightarrow> bytes \<Rightarrow> (unit, bytes) tpm" where
  "tpm_sign_ecdsa tcg kh digest =
     bind (open_tcg tcg) (\<lambda>_.
     bind (tpm_call tcg (build_sign_cmd kh digest) 256) (\<lambda>response.
     bind (lift (parse_sign_response response)) (\<lambda>(r, s).
     ret (pad32 r @ pad32 s))))"

section \<open>Numbers\<close>

lemma compare_bytes_val:
  assumes "length a = length b"
  shows "compare_bytes a b = (if be_val a < be_val b then Less else if be_val b < be_val a then Greater else Equal)"
  using assms
proof (induction a b rule: list_induct2)
  case (Cons x a y b)
  let ?m = "256 ^ length b :: nat"
  have "be_val a < ?m" "be_val b < ?m"
    using be_val_less [of a] be_val_less [of b] Cons.hyps by simp_all
  moreover have "unat x * ?m + be_val a < unat y * ?m + be_val b" if "be_val a < ?m" "unat x < unat y"
  proof -
    have "Suc (unat x) * ?m \<le> unat y * ?m" using that(2) by (intro mult_le_mono1) simp
    with that(1) show ?thesis by simp
  qed
  moreover have "unat y * ?m + be_val b < unat x * ?m + be_val a" if "be_val b < ?m" "unat y < unat x"
  proof -
    have "Suc (unat y) * ?m \<le> unat x * ?m" using that(2) by (intro mult_le_mono1) simp
    with that(1) show ?thesis by simp
  qed
  moreover have "x = y" if "\<not> unat x < unat y" "\<not> unat y < unat x"
    using that by (simp add: word_unat_eq_iff)
  ultimately show ?case
    using Cons.hyps Cons.IH by (auto simp: word_less_nat_alt) 
qed simp

lemma borrow_step:
  fixes x y :: byte and c :: "16 word"
  assumes "c = 0 \<or> c = 1"
  defines "diff \<equiv> ucast x - ucast y - c"
  shows "uint x - uint y - uint c = uint (ucast diff :: byte) - 256 * (if diff > 0xFF then 1 else 0)"
proof -
  have x: "uint x < 256" "uint y < 256" "0 \<le> uint x" "0 \<le> uint y"
    using uint_lt2p [of x] uint_lt2p [of y] by simp_all
  have c: "0 \<le> uint c" "uint c \<le> 1" using assms(1) by auto
  have u: "uint (ucast z :: 16 word) = uint z" for z :: byte
    using uint_lt2p [of z] by (simp add: unsigned_ucast_eq take_bit_eq_mod)
  have d: "uint diff = (uint x - uint y - uint c) mod 65536"
    unfolding diff_def by (simp add: uint_word_ariths u mod_diff_left_eq)
  have b: "uint (ucast diff :: byte) = uint diff mod 256"
    by (simp add: unsigned_ucast_eq take_bit_eq_mod)
  have g: "diff > 0xFF \<longleftrightarrow> uint diff > 255" by (simp add: word_less_def)
  show ?thesis
  proof (cases "uint x - uint y - uint c < 0")
    case True
    have "(uint x - uint y - uint c) mod 65536 = (uint x - uint y - uint c + 65536) mod 65536" by simp
    also have "\<dots> = uint x - uint y - uint c + 65536"
      by (rule mod_pos_pos_trivial) (use True x c in linarith)+
    finally have wrap: "uint diff = uint x - uint y - uint c + 65536" unfolding d .
    moreover have "uint diff mod 256 = uint x - uint y - uint c + 256"
    proof -
      have "uint diff = (uint x - uint y - uint c + 256) + 255 * 256" using wrap by linarith
      then have "uint diff mod 256 = ((uint x - uint y - uint c + 256) + 255 * 256) mod 256" by (rule arg_cong)
      also have "\<dots> = (uint x - uint y - uint c + 256) mod 256" by (rule mod_mult_self1)
      also have "\<dots> = uint x - uint y - uint c + 256"
        by (rule mod_pos_pos_trivial) (use True x c in linarith)+
      finally show ?thesis .
    qed
    ultimately show ?thesis using True x c unfolding b g by simp
  next
    case False
    have pos: "uint diff = uint x - uint y - uint c"
      unfolding d by (rule mod_pos_pos_trivial) (use False x c in linarith)+
    moreover have "(uint x - uint y - uint c) mod 256 = uint x - uint y - uint c"
      by (rule mod_pos_pos_trivial) (use False x c in linarith)+
    moreover have "\<not> 255 < uint x - uint y - uint c" using x c by linarith
    ultimately show ?thesis unfolding b g by simp
  qed
qed

lemma subtract_loop_val:
  assumes "length a = length b" and "subtract_loop a b = (result, borrow)"
  shows "length result = length a \<and> (borrow = 0 \<or> borrow = 1) \<and>
    int (be_val a) - int (be_val b) = int (be_val result) - uint borrow * 256 ^ length a"
  using assms
proof (induction a b arbitrary: result borrow rule: list_induct2)
  case (Cons x a y b)
  obtain r c where r: "subtract_loop a b = (r, c)" by force
  note IH = Cons.IH [OF r]
  let ?d = "ucast x - ucast y - c :: 16 word"
  have res: "result = ucast ?d # r" "borrow = (if ?d > 0xFF then 1 else 0)"
    using Cons.prems r by (simp_all add: Let_def)
  let ?m = "256 ^ length a :: int"
  have "(uint x - uint y - uint c) * ?m = (uint (ucast ?d :: byte) - 256 * uint borrow) * ?m"
    using borrow_step [of c x y] IH res(2) by simp
  with IH show ?case
    unfolding res(1) using res(2) Cons.hyps by (auto simp: algebra_simps)
qed simp

lemma subtract_bytes_val:
  assumes "length a = length b" and "be_val b \<le> be_val a"
  shows "be_val (subtract_bytes a b) = be_val a - be_val b" and "length (subtract_bytes a b) = length a"
proof -
  obtain r c where r: "subtract_loop a b = (r, c)" by force
  note v = subtract_loop_val [OF assms(1) r]
  have "int (be_val r) < 256 ^ length a"
    using be_val_less [of r] v by (metis of_nat_less_iff of_nat_numeral of_nat_power)
  moreover have "int (be_val b) \<le> int (be_val a)" using assms(2) by simp
  ultimately have "\<not> uint c = 1" using v by (metis diff_ge_0_iff_ge diff_less_0_iff_less linorder_not_le mult_1)
  with v have "c = 0" by auto
  with v assms(2) show "be_val (subtract_bytes a b) = be_val a - be_val b" "length (subtract_bytes a b) = length a"
    by (auto simp: subtract_bytes_def r)
qed

lemma be_val_pad32: "length r \<le> 32 \<Longrightarrow> be_val (pad32 r) = be_val r"
  by (simp add: pad32_def be_val_append)

lemma length_pad32 [simp]: "length (pad32 r) = 32"
  by (simp add: pad32_def)

definition p256_n :: nat where
  "p256_n = 0xFFFFFFFF00000000FFFFFFFFFFFFFFFFBCE6FAADA7179E84F3B9CAC2FC632551"

lemma p256_orders: "be_val P256_ORDER = p256_n" "be_val P256_HALF_ORDER = p256_n div 2"
  by (simp_all add: P256_ORDER_def P256_HALF_ORDER_def p256_n_def)

lemma length_orders [simp]: "length P256_ORDER = 32" "length P256_HALF_ORDER = 32"
  by (simp_all add: P256_ORDER_def P256_HALF_ORDER_def)

lemma low_s_val:
  assumes "length s = 32" and "be_val s < p256_n"
  shows "be_val (low_s s) = (if be_val s > p256_n div 2 then p256_n - be_val s else be_val s)" and "length (low_s s) = 32"
  using assms subtract_bytes_val [of P256_ORDER s]
  by (auto simp: low_s_def compare_bytes_val p256_orders)

section \<open>Responses of a TPM\<close>

text \<open>What a TPM writes: the header, with response code 0, in front of the handles and parameters.\<close>

definition tpm_response :: "nat \<Rightarrow> bytes \<Rightarrow> bytes" where
  "tpm_response tag body = be 2 tag @ be 4 (10 + length body) @ be 4 0 @ body"

lemma unpack_at:
  "at d p (be 2 n) \<Longrightarrow> n < 2 ^ 16 \<Longrightarrow> unpack_u16 d p = Ret n"
  "at d p (be 4 n) \<Longrightarrow> n < 2 ^ 32 \<Longrightarrow> unpack_u32 d p = Ret n"
  using at_get_range [of d p "be 2 n"] at_get_range [of d p "be 4 n"]
  by (simp_all add: unpack_u16_def unpack_u32_def slice_at_def be_val_be_id)

lemma slice_at_at: "at d p bs \<Longrightarrow> slice_at d p (p + length bs) = Ret bs"
  using at_get_range [of d p bs] by (simp add: slice_at_def)

lemma read_tpm2b_at:
  assumes "at d p (tpm2b bs)" and "length bs < 2 ^ 16"
  shows "read_tpm2b d p = Ret (bs, p + 2 + length bs)"
proof -
  have a: "at d p (be 2 (length bs))" "at d (p + 2) bs"
    using assms(1) by (simp_all add: tpm2b_def pack_u16_def)
  then show ?thesis
    using at_bound [OF a(1)] at_bound [OF a(2)]
    by (simp add: read_tpm2b_def Let_def unpack_at(1) [OF a(1) assms(2)] slice_at_at [OF a(2), simplified])
qed

lemma at_tpm_response:
  assumes "at d 0 (tpm_response tag body)"
  shows "at d 10 body" and "10 + length body \<le> length d" and "unpack_u32 d 6 = Ret 0"
proof -
  have a: "at d 6 (be 4 0)" "at d 10 body"
    using assms by (simp_all add: tpm_response_def)
  from a at_bound [OF a(2)] unpack_at(2) [OF a(1)] show "at d 10 body" "10 + length body \<le> length d" "unpack_u32 d 6 = Ret 0"
    by simp_all
qed

lemma response_ok_at:
  "at d 0 (tpm_response tag body) \<Longrightarrow> n \<le> 10 + length body \<Longrightarrow> response_ok d n = Ret ()"
  using at_tpm_response(2) [of d tag body] by (simp add: response_ok_def at_tpm_response(3))

lemma parse_sign_response_at:
  assumes "at d 0 (tpm_response TPM2_ST_SESSIONS (be 4 psize @ be 2 TPM2_ALG_ECDSA @ be 2 TPM2_ALG_SHA256 @ tpm2b r @ tpm2b s @ rest))"
    and "length r < 2 ^ 16" and "length s < 2 ^ 16"
  shows "parse_sign_response d = Ret (r, s)"
proof -
  note a = at_tpm_response [OF assms(1)]
  have b: "at d 14 (be 2 TPM2_ALG_ECDSA)" "at d 16 (be 2 TPM2_ALG_SHA256)" "at d 18 (tpm2b r)" "at d (18 + 2 + length r) (tpm2b s)"
    using a(1) by (simp_all add: tpm2b_def pack_u16_def add.assoc)
  have u: "unpack_u16 d 14 = (Ret TPM2_ALG_ECDSA :: (unit, nat) outcome)" "unpack_u16 d 16 = (Ret TPM2_ALG_SHA256 :: (unit, nat) outcome)"
    using unpack_at(1) [OF b(1)] unpack_at(1) [OF b(2)] by (simp_all add: TPM2_ALG_ECDSA_def TPM2_ALG_SHA256_def)
  have "\<not> length d < 16" "\<not> length d < 18" using at_bound [OF b(1)] at_bound [OF b(2)] by simp_all
  with response_ok_at [OF assms(1), of 14] u read_tpm2b_at [OF b(3) assms(2)] read_tpm2b_at [OF b(4) assms(3)] show ?thesis
    by (simp add: parse_sign_response_def Let_def)
qed

lemma submit_now:
  assumes "tcg_submit tcg h cmd n = Some r" and "at (response_buffer n r) 0 (tpm_response tag body)"
  shows "tpm_call tcg cmd n h = (Ret (response_buffer n r), h @ [cmd])"
proof -
  have k: "TPM_RETRY_MAX = Suc 4" by (simp add: TPM_RETRY_MAX_def)
  have "\<not> length (response_buffer n r) < 10" using at_tpm_response(2) [OF assms(2)] by simp
  with assms(1) show ?thesis
    unfolding tpm_call_def tpm_submit_with_retry_def k submit_attempts.simps
    by (simp add: or_err_def attempt_def bind_def submit_command_def lift_def TPM_RC_RETRY_def at_tpm_response(3) [OF assms(2)])
qed

lemma response_buffer_at: "length r \<le> n \<Longrightarrow> at (response_buffer n r) 0 r"
  by (simp add: response_buffer_def at_def)

text \<open>C40: the signature the device sends is \<open>r || s\<close> in 64 bytes with a low \<open>s\<close>: when the TPM signs with \<open>(r, s)\<close> the
  value of the first half is \<open>r\<close>, that of the second is \<open>s\<close> or \<open>N - s\<close>, whichever is at most \<open>N/2\<close>.\<close>

theorem tpm_sign_low_s:
  assumes "tcg_open tcg h" and "tcg_submit tcg h (build_sign_cmd kh digest) 512 =
      Some (tpm_response TPM2_ST_SESSIONS (be 4 psize @ be 2 TPM2_ALG_ECDSA @ be 2 TPM2_ALG_SHA256 @ tpm2b r @ tpm2b s @ rest))"
    and "length r \<le> 32" and "length s \<le> 32" and "length rest \<le> 400" and "be_val s < p256_n"
  shows "\<exists>sig. tpm_sign_with_persistent tcg kh digest h = (Ret sig, h @ [build_sign_cmd kh digest]) \<and> length sig = 64 \<and>
    be_val (take 32 sig) = be_val r \<and>
    be_val (drop 32 sig) = (if be_val s > p256_n div 2 then p256_n - be_val s else be_val s) \<and> be_val (drop 32 sig) \<le> p256_n div 2"
proof -
  let ?r = "tpm_response TPM2_ST_SESSIONS (be 4 psize @ be 2 TPM2_ALG_ECDSA @ be 2 TPM2_ALG_SHA256 @ tpm2b r @ tpm2b s @ rest)"
  have at: "at (response_buffer 512 ?r) 0 ?r"
    by (rule response_buffer_at) (use assms(3-5) in \<open>simp add: tpm_response_def tpm2b_def pack_u16_def\<close>)
  have "tpm_sign_with_persistent tcg kh digest h = (Ret (pad32 r @ low_s (pad32 s)), h @ [build_sign_cmd kh digest])"
    using parse_sign_response_at [OF at] submit_now [OF assms(2) at] assms(1,3,4)
    by (simp add: tpm_sign_with_persistent_def bind_def open_tcg_def lift_def)
  moreover have "be_val (low_s (pad32 s)) = (if be_val s > p256_n div 2 then p256_n - be_val s else be_val s)" "length (low_s (pad32 s)) = 32"
    using low_s_val [of "pad32 s"] assms(4,6) by (simp_all add: be_val_pad32)
  moreover have "p256_n - k \<le> p256_n div 2" if "p256_n div 2 < k" for k
    using that by (simp add: p256_n_def)
  ultimately show ?thesis
    using assms(3) by (intro exI [of _ "pad32 r @ low_s (pad32 s)"]) (auto simp: be_val_pad32)
qed

definition signing_tcg :: "bytes \<Rightarrow> tcg2" where
  "signing_tcg s = \<lparr>tcg_open = (\<lambda>h. True), tcg_submit = (\<lambda>h cmd n. Some (tpm_response TPM2_ST_SESSIONS
     (be 4 8 @ be 2 TPM2_ALG_ECDSA @ be 2 TPM2_ALG_SHA256 @ tpm2b [1] @ tpm2b s @ [])))\<rparr>"

theorem tpm_sign_low_s_witness:
  "\<exists>sig. fst (tpm_sign_with_persistent (signing_tcg (be 32 (p256_n - 1))) 1 [] []) = Ret sig \<and> be_val (drop 32 sig) = 1"
proof -
  define s where "s = be 32 (p256_n - 1)"
  have s: "be_val s = p256_n - 1" "length s = 32"
    unfolding s_def by (rule be_val_be_id) (simp_all add: p256_n_def)
  have "0 < p256_n" "p256_n div 2 < p256_n - 1" "p256_n - (p256_n - 1) = 1" by (simp_all add: p256_n_def)
  with tpm_sign_low_s [of "signing_tcg s" "[]" 1 "[]" 8 "[1]" s "[]"] s show ?thesis
    unfolding s_def [symmetric] by (auto simp: signing_tcg_def)
qed

section \<open>Random bytes\<close>

lemma submit_total: "wp (tpm_call tcg cmd n) (\<lambda>response _. length response = n) (\<lambda>_ _. True) h"
proof -
  have "wp (submit_attempts k tcg cmd n) (\<lambda>response _. length response = n) (\<lambda>_ _. True) h" for k
  proof (induction k arbitrary: h)
    case (Suc k)
    have "wp (submit_command tcg cmd n) (\<lambda>r _. length r = n) (\<lambda>_ _. True) h"
      by (auto simp: wp_def submit_command_def response_buffer_def split: option.splits)
    then show ?case
      using Suc.IH by (auto elim!: wp_conseq simp: unpack_u32_def slice_at_def get_range_def)
  qed simp
  then show ?thesis by (simp add: tpm_call_def tpm_submit_with_retry_def)
qed

lemma random_loop_wp: "wp (random_loop k tcg len out) (\<lambda>r _. length r \<ge> len) (\<lambda>_ _. True) h"
proof (induction k arbitrary: out h)
  case 0
  then show ?case by (subst random_loop.simps) simp
next
  case (Suc k)
  then show ?case
    by (subst random_loop.simps)
      (auto intro!: wp_conseq [OF submit_total] simp: unpack_u16_def slice_at_def get_range_def)
qed

text \<open>\<open>tpm_get_random\<close> returns, and a success has exactly the length asked for, whatever the TPM answers; the callers copy
  the bytes into arrays of 16 bytes, which panics for another length.\<close>

theorem tpm_get_random_length:
  assumes "len < 2 ^ 63"
  shows "holds (fst (tpm_get_random tcg len h)) (\<lambda>v. length v = len) (\<lambda>_. True)"
proof -
  have "wp (random_loop 16 tcg len []) (\<lambda>r _. length r \<ge> len) (\<lambda>_ _. True) h" by (rule random_loop_wp)
  with assms show ?thesis
    by (auto simp: tpm_get_random_def holds_def wp_def bind_def open_tcg_def split: prod.splits outcome.splits)
qed

theorem tpm_get_random_length_witness: "holds (fst (tpm_get_random (signing_tcg [2]) 2 [])) (\<lambda>v. length v = 2) (\<lambda>_. True)"
  by (rule tpm_get_random_length) simp

end
