(* ===== verification/Dctpm.thy ===== *)
theory Dctpm
  imports Cbor
begin

text \<open>
  \<open>src/src/dctpm.rs\<close> and the DCTPM constants of \<open>src/src/tpm_policy.rs\<close>: the public device credentials in the
  TPM, a CBOR array whose item 10 is the minimum firmware revision. The head reader takes arguments up to 64 bits; the
  sums that could leave \<open>usize\<close> are checked in the source, or end in a range that \<open>get\<close> refuses.

  Shown: the readers are total and local (what they return depends only on the bytes they move over); setting the
  revision and reading it back gives the revision, for every byte string that the writer accepts; on an encoded array
  all other items stay as they were.
\<close>

section \<open>Reading\<close>

definition head_arg :: "bytes \<Rightarrow> nat \<Rightarrow> (unit, nat) parser" where
  "head_arg d add =
     (if add \<le> 23 then ret add
      else if add = 24 then bind (take_bytes d 1) (\<lambda>b. ret (be_val b))
      else if add = 25 then bind (take_bytes d 2) (\<lambda>b. ret (be_val b))
      else if add = 26 then bind (take_bytes d 4) (\<lambda>b. ret (be_val b))
      else if add = 27 then bind (take_bytes d 8) (\<lambda>b. ret (be_val b))
      else throw ())"

definition dctpm_head :: "bytes \<Rightarrow> (unit, nat \<times> nat) parser" where
  "dctpm_head d = bind (next_byte d) (\<lambda>b. bind (head_arg d (addl b)) (\<lambda>v. ret (major b, v)))"

text \<open>\<open>checked_add\<close>, the bound, and the step over a string.\<close>

definition skip_bytes :: "bytes \<Rightarrow> nat \<Rightarrow> (unit, unit) parser" where
  "skip_bytes d n = bind get_pos (\<lambda>pos.
     bind (guard (pos + n < 2 ^ 64) ()) (\<lambda>_.
     bind (guard (pos + n \<le> length d) ()) (\<lambda>_.
     set_pos (pos + n))))"

fun dctpm_skip_fuel :: "nat \<Rightarrow> bytes \<Rightarrow> (unit, unit) parser" where
  "dctpm_skip_fuel 0 d = diverge"
| "dctpm_skip_fuel (Suc k) d =
     bind (dctpm_head d) (\<lambda>(m, arg).
     if m = 0 \<or> m = 1 \<or> m = 7 then ret ()
     else if m = 2 \<or> m = 3 then skip_bytes d arg
     else if m = 4 then repeat arg (\<lambda>_. dctpm_skip_fuel k d) ()
     else if m = 5 then repeat (usz (arg * 2)) (\<lambda>_. dctpm_skip_fuel k d) ()
     else dctpm_skip_fuel k d)"

definition dctpm_skip :: "bytes \<Rightarrow> (unit, unit) parser" where
  "dctpm_skip d = dctpm_skip_fuel (Suc (length d)) d"

section \<open>Writing\<close>

definition dctpm_encode_head :: "nat \<Rightarrow> nat \<Rightarrow> bytes" where
  "dctpm_encode_head m v =
     (if v \<le> 23 then [head_byte m v]
      else if v \<le> 0xff then [head_byte m 24, u8 v]
      else if v \<le> 0xffff then head_byte m 25 # be 2 v
      else if v \<le> 0xffffffff then head_byte m 26 # be 4 v
      else head_byte m 27 # be 8 v)"

definition encode_uint :: "nat \<Rightarrow> bytes" where
  "encode_uint v = dctpm_encode_head 0 v"

section \<open>The minimum firmware revision\<close>

definition MIN_FIRMWARE_REV_ITEM :: nat where "MIN_FIRMWARE_REV_ITEM = 10"
definition RV_MIN_FIRMWARE_REV :: nat where "RV_MIN_FIRMWARE_REV = 18"
definition DCTPM_NV_INDEX :: nat where "DCTPM_NV_INDEX = 0x01D10001"
definition DCTPM_MAGIC :: nat where "DCTPM_MAGIC = 0x46444F31"
definition DCTPM_DEFAULT_SIZE :: nat where "DCTPM_DEFAULT_SIZE = 512"
definition DCTPM_NV_ATTRIBUTES :: nat where
  "DCTPM_NV_ATTRIBUTES = 0x2 + 0x4 + 0x20000 + 0x40000 + 0x2000000 + 0x4000"

definition skip_items :: "nat \<Rightarrow> bytes \<Rightarrow> (unit, unit) parser" where
  "skip_items n d = repeat n (\<lambda>_. dctpm_skip d) ()"

definition min_firmware_rev :: "bytes \<Rightarrow> (unit, nat) outcome" where
  "min_firmware_rev d = run (
     bind (dctpm_head d) (\<lambda>(m, n).
     bind (guard (\<not> (m \<noteq> 4 \<or> n < 10)) ()) (\<lambda>_.
     if n \<le> MIN_FIRMWARE_REV_ITEM then ret 0
     else bind (skip_items MIN_FIRMWARE_REV_ITEM d) (\<lambda>_.
       bind (dctpm_head d) (\<lambda>(m, v). if m = 0 then ret v else throw ())))))"

definition with_min_firmware_rev :: "bytes \<Rightarrow> nat \<Rightarrow> (unit, bytes) outcome" where
  "with_min_firmware_rev d new_rev = run (
     bind (dctpm_head d) (\<lambda>(m, n).
     bind (guard (\<not> (m \<noteq> 4 \<or> n < 10)) ()) (\<lambda>_.
     bind get_pos (\<lambda>items_start.
     bind (skip_items MIN_FIRMWARE_REV_ITEM d) (\<lambda>_.
     bind get_pos (\<lambda>pos.
     bind (if n > MIN_FIRMWARE_REV_ITEM then
         bind (dctpm_skip d) (\<lambda>_.
         bind get_pos (\<lambda>rest_start.
         bind (skip_items (n - (MIN_FIRMWARE_REV_ITEM + 1)) d) (\<lambda>_.
         bind get_pos (\<lambda>pos. ret (rest_start, pos)))))
       else ret (pos, pos)) (\<lambda>(rest_start, rest_end).
     bind (slice d items_start pos) (\<lambda>first_ten.
     bind (slice d rest_start rest_end) (\<lambda>rest.
     ret (dctpm_encode_head 4 (max n (MIN_FIRMWARE_REV_ITEM + 1)) @ first_ten @ encode_uint new_rev @ rest))))))))))"

definition dctpm_padded :: "bytes \<Rightarrow> bytes" where
  "dctpm_padded structure = structure @ replicate (DCTPM_DEFAULT_SIZE - length structure) 0"

text \<open>\<open>rv_min_firmware_rev\<close>: one instruction, the directives, and the default.\<close>

definition scan_instr :: "bytes \<Rightarrow> nat \<Rightarrow> (unit, nat) parser" where
  "scan_instr d best =
     bind (dctpm_head d) (\<lambda>(m, len).
     bind (guard (\<not> (m \<noteq> 4 \<or> len = 0)) ()) (\<lambda>_.
     bind (dctpm_head d) (\<lambda>(vm, var).
     if len \<ge> 2 then
       bind (if vm = 0 \<and> var = RV_MIN_FIRMWARE_REV then
           bind (dctpm_head d) (\<lambda>(bm, blen).
           bind get_pos (\<lambda>pos.
           bind (of_option () (get_range d pos (usz (pos + blen)))) (\<lambda>inner.
           bind (set_pos (pos + blen)) (\<lambda>_.
           ret (case run (dctpm_head inner) of
             Ret (m', v) \<Rightarrow> if bm = 2 \<and> m' = 0 then max best v else best
           | _ \<Rightarrow> best)))))
         else bind (dctpm_skip d) (\<lambda>_. ret best)) (\<lambda>best.
       bind (skip_items (len - 2) d) (\<lambda>_. ret best))
     else ret best)))"

definition rv_scan :: "bytes \<Rightarrow> (unit, nat) outcome" where
  "rv_scan d = run (
     bind (dctpm_head d) (\<lambda>(m, dirs).
     bind (guard (m = 4) ()) (\<lambda>_.
     repeat dirs (\<lambda>best.
       bind (dctpm_head d) (\<lambda>(m, instrs).
       bind (guard (m = 4) ()) (\<lambda>_.
       repeat instrs (scan_instr d) best))) 0)))"

definition rv_min_firmware_rev :: "bytes \<Rightarrow> (unit, nat) outcome" where
  "rv_min_firmware_rev d = handle (rv_scan d) Ret (\<lambda>_. Ret 0)"

section \<open>Totality\<close>

lemma head_arg_wp:
  assumes "\<And>v q. p \<le> q \<Longrightarrow> q \<le> max p (length d) \<Longrightarrow> v < 2 ^ 64 \<Longrightarrow> Q v q" and "E () p"
  shows "wp (head_arg d a) Q E p"
proof -
  have "be_val (take n xs) < 2 ^ 64" if "n \<le> 8" for n and xs :: bytes
  proof -
    have "be_val (take n xs) < 256 ^ length (take n xs)" by (rule be_val_less)
    also have "\<dots> \<le> 256 ^ 8" using that by (intro power_increasing) auto
    finally show ?thesis by simp
  qed
  with assms show ?thesis by (auto simp: head_arg_def)
qed

lemma dctpm_head_wp:
  assumes "\<And>m v q. p < q \<Longrightarrow> q \<le> length d \<Longrightarrow> m < 8 \<Longrightarrow> v < 2 ^ 64 \<Longrightarrow> Q (m, v) q" and "\<And>q. p \<le> q \<Longrightarrow> E () q"
  shows "wp (dctpm_head d) Q E p"
  using assms by (auto simp: dctpm_head_def major_less intro!: head_arg_wp)

lemma dctpm_skip_fuel_wp:
  assumes "length d < p + k" and "0 < k"
  shows "wp (dctpm_skip_fuel k d) (\<lambda>_ q. p < q) (\<lambda>_ q. p \<le> q) p"
  using assms
proof (induction k arbitrary: p)
  case (Suc k)
  show ?case
    by (auto simp: skip_bytes_def intro!: dctpm_head_wp wp_nested [OF Suc.IH Suc.prems(1)])
qed simp

lemma dctpm_skip_wp:
  assumes "\<And>q. p < q \<Longrightarrow> Q () q" and "\<And>q. p \<le> q \<Longrightarrow> E () q"
  shows "wp (dctpm_skip d) Q E p"
  unfolding dctpm_skip_def by (rule wp_conseq [OF dctpm_skip_fuel_wp]) (use assms in auto)

section \<open>Locality\<close>

lemma skip_bytes_eq:
  "length d < 2 ^ 64 \<Longrightarrow> skip_bytes d n = bind (take_bytes d n) (\<lambda>_. ret ())"
  by (auto simp: fun_eq_iff skip_bytes_def bind_def guard_def take_bytes_def get_range_def)

lemma local_head [local_intro]: "local_reader dctpm_head"
proof -
  have "local_reader (\<lambda>d. head_arg d a)" for a
    unfolding head_arg_def by (intro local_intro)
  then show ?thesis unfolding dctpm_head_def by (intro local_intro)
qed

lemma local_skip_bytes [local_intro]: "local_reader (\<lambda>d. skip_bytes d n)"
  unfolding local_reader_def
proof (intro allI impI)
  fix d p x q
  assume "skip_bytes d n p = (Ret x, q)" and "p \<le> length d"
  then have h: "p + n \<le> length d" "q = p + n" by (auto simp: skip_bytes_def bind_def guard_def split: if_splits)
  moreover from h have "length (take n (drop p d)) = n" by simp
  ultimately show "p \<le> q \<and> q \<le> length d \<and> (\<forall>d' p'. length d' < 2 ^ 63 \<longrightarrow> at d' p' (take (q - p) (drop p d)) \<longrightarrow> skip_bytes d' n p' = (Ret x, p' + (q - p)))"
    by (auto simp: skip_bytes_def bind_def guard_def dest!: at_bound)
qed

lemma local_skip_fuel: "local_reader (dctpm_skip_fuel k)"
proof (induction k)
  case 0
  show ?case unfolding dctpm_skip_fuel.simps by (rule local_intro)
next
  case (Suc k)
  then have "local_reader (\<lambda>d. dctpm_skip_fuel k d)" by simp
  then show ?case unfolding dctpm_skip_fuel.simps by (intro local_intro)
qed

lemma skip_fuel_mono:
  assumes "dctpm_skip_fuel k d p = (r, q)" and "r \<noteq> Diverge" and "k \<le> k'"
  shows "dctpm_skip_fuel k' d p = (r, q)"
  using assms
proof (induction k arbitrary: k' p r q)
  case (Suc k)
  then obtain k'' where k': "k' = Suc k''" "k \<le> k''" by (cases k') auto
  have loop: "repeat n (\<lambda>_. dctpm_skip_fuel k'' d) () p = (r, q)"
    if "repeat n (\<lambda>_. dctpm_skip_fuel k d) () p = (r, q)" "r \<noteq> Diverge" for n p and r :: "(unit, unit) outcome" and q
    using that
  proof (induction n arbitrary: p)
    case (Suc n)
    obtain r1 q1 where s: "dctpm_skip_fuel k d p = (r1, q1)" by force
    with Suc.prems have "r1 \<noteq> Diverge" by (auto simp: bind_def)
    from Suc.IH Suc.prems k' Suc_leD s this show ?case
      using \<open>\<And>r q p k'. dctpm_skip_fuel k d p = (r, q) \<Longrightarrow> r \<noteq> Diverge \<Longrightarrow> k \<le> k' \<Longrightarrow> dctpm_skip_fuel k' d p = (r, q)\<close> [OF s _ k'(2)]
      by (auto simp: bind_def split: outcome.splits)
  qed simp
  show ?case
    using Suc.prems Suc.IH [OF _ _ k'(2)] loop unfolding k'(1)
    by (auto simp: bind_def split: prod.splits outcome.splits if_splits)
qed simp

lemma skip_fuel_enough:
  assumes "dctpm_skip_fuel k d p = (Ret x, q)"
  shows "dctpm_skip d p = (Ret x, q)"
proof (cases "k \<le> Suc (length d)")
  case True
  from skip_fuel_mono [OF assms _ this] show ?thesis by (simp add: dctpm_skip_def)
next
  case False
  obtain r q' where s: "dctpm_skip d p = (r, q')" by force
  have "wp (dctpm_skip d) (\<lambda>_ _. True) (\<lambda>_ _. True) p" by (rule dctpm_skip_wp) auto
  with s have "r \<noteq> Diverge" by (auto simp: wp_def)
  from skip_fuel_mono [OF s [unfolded dctpm_skip_def] this, of k] False assms s show ?thesis by simp
qed

lemma local_skip [local_intro]: "local_reader dctpm_skip"
  unfolding local_reader_def
proof (intro allI impI)
  fix d p x q
  assume s: "dctpm_skip d p = (Ret x, q)" and p: "p \<le> length d"
  note s' = s [unfolded dctpm_skip_def]
  from local_reader_apply [OF local_skip_fuel s' p] local_reader_bounds [OF local_skip_fuel s' p]
  show "p \<le> q \<and> q \<le> length d \<and> (\<forall>d' p'. length d' < 2 ^ 63 \<longrightarrow> at d' p' (take (q - p) (drop p d)) \<longrightarrow> dctpm_skip d' p' = (Ret x, p' + (q - p)))"
    using skip_fuel_enough by blast
qed

lemma local_skip_items [local_intro]: "local_reader (skip_items n)"
proof -
  have "local_reader (\<lambda>d. repeat n (\<lambda>_. dctpm_skip d) ())" by (intro local_intro)
  then show ?thesis by (simp add: skip_items_def [abs_def])
qed

section \<open>Encoded arrays\<close>

interpretation dctpm: arg_reader head_arg "2 ^ 64"
  by unfold_locales
    (auto simp: head_arg_def bind_def take_bytes_def get_range_def at_def take_Suc_conv_app_nth hd_drop_conv_nth)

interpretation dctpm: item_skipper head_arg "2 ^ 64" dctpm_skip_fuel
proof unfold_locales
  fix p d v q k
  assume h: "p < length d" "major (d ! p) = 2 \<or> major (d ! p) = 3" "head_arg d (addl (d ! p)) (Suc p) = (Ret v, q)"
    "q + v \<le> length d" "length d < 2 ^ 63"
  then show "dctpm_skip_fuel (Suc k) d p = (Ret (), q + v)"
    by (auto simp: dctpm_head_def bind_def next_byte_def skip_bytes_def guard_def)
next
  fix p d k
  assume "p < length d" "major (d ! p) = 7" "addl (d ! p) < 24"
  then show "dctpm_skip_fuel (Suc k) d p = (Ret (), Suc p)"
    by (simp add: dctpm_head_def bind_def next_byte_def head_arg_def)
qed (auto simp: dctpm_head_def bind_def next_byte_def mult.commute)

lemma dctpm_head_at:
  assumes "at d p (enc_head m v)" and "m < 8" and "v < 2 ^ 64"
  shows "dctpm_head d p = (Ret (m, v), p + length (enc_head m v))"
  using dctpm.read_head [OF assms] by (auto simp: dctpm_head_def bind_def next_byte_def)

lemma dctpm_skip_at:
  assumes "at d p (enc c)" and "fits (2 ^ 64) c" and "length d < 2 ^ 63"
  shows "dctpm_skip d p = (Ret (), p + length (enc c))"
  unfolding dctpm_skip_def
  by (rule dctpm.skip_exact) (use assms depth_le [of c] at_bound [OF assms(1)] in auto)

lemma skip_items_at:
  assumes "at d p (concat (map enc cs))" and "\<forall>c\<in>set cs. fits (2 ^ 64) c" and "length d < 2 ^ 63"
  shows "skip_items (length cs) d p = (Ret (), p + length (concat (map enc cs)))"
  using assms(1,2)
proof (induction cs arbitrary: p)
  case (Cons c cs)
  have "dctpm_skip d p = (Ret (), p + length (enc c))"
    by (rule dctpm_skip_at) (use Cons.prems assms(3) in simp_all)
  with Cons.IH [of "p + length (enc c)"] Cons.prems show ?case
    by (simp add: skip_items_def bind_def add.assoc)
qed (simp add: skip_items_def)

lemma dctpm_encode_head_enc: "v < 2 ^ 64 \<Longrightarrow> dctpm_encode_head m v = enc_head m v"
  by (simp add: dctpm_encode_head_def enc_head_def be_1)

lemma with_min_firmware_rev_items:
  assumes "d = enc (Arr items) @ pad" and "10 \<le> length items" and "\<forall>c\<in>set items. fits (2 ^ 64) c" and "length d < 2 ^ 63" and "v < 2 ^ 64"
  shows "with_min_firmware_rev d v = Ret (enc (Arr (take 10 items @ Uint v # drop 11 items)))"
proof -
  let ?n = "length items" and ?q = "length (enc_head 4 (length items))"
  let ?ten = "concat (map enc (take 10 items))" and ?rest = "concat (map enc (drop 11 items))"
  have "?n \<le> length (concat (map enc items))" by (rule length_concat_ge) simp
  then have n: "?n < 2 ^ 64" using assms(1,4) by simp
  have head: "at d 0 (enc_head 4 ?n)" using assms(1) at_whole [of d] by simp
  have ten: "at d ?q ?ten"
  proof -
    have "concat (map enc items) = ?ten @ concat (map enc (drop 10 items))"
      by (metis append_take_drop_id concat_append map_append)
    then show ?thesis using assms(1) at_whole [of d] by simp
  qed
  have len10: "length (take 10 items) = 10" using assms(2) by simp
  have skip10: "skip_items 10 d ?q = (Ret (), ?q + length ?ten)"
    using skip_items_at [OF ten _ assms(4)] assms(3) len10 by (metis in_set_takeD)
  have range10: "get_range d ?q (?q + length ?ten) = Some ?ten" by (rule at_get_range [OF ten])
  note rd = dctpm_head_at [OF head _ n] skip10 range10
  show ?thesis
  proof (cases "?n = 10")
    case True
    then have "drop 11 items = []" "max ?n 11 = 11" "take 10 items = items" by simp_all
    moreover have "get_range d p p = Some []" if "p \<le> length d" for p using that by (simp add: get_range_def)
    ultimately show ?thesis
      using rd True at_bound [OF ten] assms(5)
      by (simp add: with_min_firmware_rev_def MIN_FIRMWARE_REV_ITEM_def run_def bind_def slice_def
          dctpm_encode_head_enc encode_uint_def)
  next
    case False
    with assms(2) have gt: "11 \<le> ?n" by simp
    then obtain x where x: "drop 10 items = x # drop 11 items"
      by (metis Cons_nth_drop_Suc Suc_numeral add_One_commute numeral_Bit0 Suc_le_eq eval_nat_numeral(3) semiring_norm(26,27,28))
    let ?p2 = "?q + length ?ten + length (enc x)"
    have "concat (map enc items) = ?ten @ enc x @ ?rest"
      using arg_cong [OF append_take_drop_id [of 10 items], of "\<lambda>l. concat (map enc l)"] unfolding x by simp
    then have a: "at d (?q + length ?ten) (enc x)" "at d ?p2 ?rest"
      using assms(1) at_whole [of d] by (simp_all add: add.assoc)
    have "x \<in> set items" using x by (metis in_set_dropD list.set_intros(1))
    then have s: "dctpm_skip d (?q + length ?ten) = (Ret (), ?p2)"
      using dctpm_skip_at [OF a(1) _ assms(4)] assms(3) by blast
    have r: "skip_items (?n - 11) d ?p2 = (Ret (), ?p2 + length ?rest)"
      using skip_items_at [OF a(2) _ assms(4)] assms(3) by (metis in_set_dropD length_drop)
    have "max ?n 11 = ?n" "length (take 10 items @ Uint v # drop 11 items) = ?n" using gt by simp_all
    with rd s r at_get_range [OF a(2)] gt n assms(5) show ?thesis
      by (simp add: with_min_firmware_rev_def MIN_FIRMWARE_REV_ITEM_def run_def bind_def slice_def
          dctpm_encode_head_enc encode_uint_def)
  qed
qed

lemma skip_items_wp:
  assumes "\<And>q. p \<le> q \<Longrightarrow> Q () q" and "\<And>q. p \<le> q \<Longrightarrow> E () q"
  shows "wp (skip_items n d) Q E p"
  unfolding skip_items_def
  by (rule wp_conseq [OF wp_repeat [where I = "\<lambda>_ r. p \<le> r" and E = "\<lambda>_ r. p \<le> r"]]) (auto intro!: dctpm_skip_wp intro: assms)

lemma min_firmware_rev_holds: "holds (min_firmware_rev d) (\<lambda>v. v < 2 ^ 64) (\<lambda>_. True)"
  unfolding min_firmware_rev_def by (auto intro!: dctpm_head_wp skip_items_wp)

section \<open>Properties\<close>

lemma written_rev_read:
  assumes "with_min_firmware_rev d v = Ret u" and "v < 2 ^ 64" and "length (u @ pad) < 2 ^ 63"
  shows "min_firmware_rev (u @ pad) = Ret v"
proof -
  obtain n p0 p1 rest first_ten where
      head: "dctpm_head d 0 = (Ret (4, n), p0)" and n: "10 \<le> n"
      and skip: "skip_items 10 d p0 = (Ret (), p1)" and ten: "get_range d p0 p1 = Some first_ten"
      and u: "u = dctpm_encode_head 4 (max n 11) @ first_ten @ encode_uint v @ rest"
    using assms(1) by (auto simp: with_min_firmware_rev_def MIN_FIRMWARE_REV_ITEM_def Ret_iffs' slice_Ret_iff split: if_splits)
  have "n < 2 ^ 64" "p0 \<le> length d"
  proof -
    have "wp (dctpm_head d) (\<lambda>(m, n) q. n < 2 ^ 64 \<and> q \<le> length d) (\<lambda>_ _. True) 0" by (rule dctpm_head_wp) auto
    from wp_Ret [OF this head] show "n < 2 ^ 64" "p0 \<le> length d" by simp_all
  qed
  then have count: "dctpm_encode_head 4 (max n 11) = enc_head 4 (max n 11)" "max n 11 < 2 ^ 64"
    by (simp_all add: dctpm_encode_head_enc)
  have e: "encode_uint v = enc_head 0 v" using assms(2) by (simp add: encode_uint_def dctpm_encode_head_enc)
  let ?d = "u @ pad"
  let ?q = "length (enc_head 4 (max n 11))"
  have "?d = enc_head 4 (max n 11) @ first_ten @ enc_head 0 v @ rest @ pad" by (simp add: u count(1) e)
  then have a: "at ?d 0 (enc_head 4 (max n 11))" "at ?d ?q first_ten" "at ?d (?q + length first_ten) (enc_head 0 v)"
    using at_whole [of ?d] by simp_all
  have "first_ten = take (p1 - p0) (drop p0 d)" "length first_ten = p1 - p0"
    using ten length_get_range [OF ten] by (simp_all add: get_range_Some)
  with local_reader_apply [OF local_skip_items skip \<open>p0 \<le> length d\<close> assms(3)] a(2)
  have "skip_items 10 ?d ?q = (Ret (), ?q + length first_ten)" by simp
  with dctpm_head_at [OF a(1) _ count(2)] dctpm_head_at [OF a(3) _ assms(2)] show ?thesis
    by (simp add: min_firmware_rev_def MIN_FIRMWARE_REV_ITEM_def run_def bind_def)
qed

text \<open>Setting the minimum firmware revision takes effect: whatever bytes the index holds, if the writer accepts them, then the
  revision read from its result, padded or not, is the one written.\<close>

theorem min_firmware_rev_written:
  assumes "with_min_firmware_rev d v = Ret u" and "v < 2 ^ 64" and "length (u @ pad) < 2 ^ 63"
  shows "min_firmware_rev (u @ pad) = Ret v"
  by (rule written_rev_read [OF assms])

definition sample_dctpm :: "cbor list" where
  "sample_dctpm = [Uint DCTPM_MAGIC, Simple 21, Uint 200, Tstr [0x64], Bstr (replicate 16 0xaa), Arr [], Arr [], Uint 0, Uint 0x81020002, Uint 0x81020003]"

lemma sample_dctpm_fits: "\<forall>c\<in>set sample_dctpm. fits (2 ^ 64) c" "length sample_dctpm = 10"
  by (simp_all add: sample_dctpm_def DCTPM_MAGIC_def)

theorem min_firmware_rev_written_witness:
  "min_firmware_rev (enc (Arr (sample_dctpm @ [Uint 70000])) @ replicate 100 0) = Ret 70000"
proof -
  have "with_min_firmware_rev (enc (Arr sample_dctpm)) 70000 = Ret (enc (Arr (sample_dctpm @ [Uint 70000])))"
    using with_min_firmware_rev_items [of "enc (Arr sample_dctpm)" sample_dctpm "[]" 70000] sample_dctpm_fits
    by (simp add: sample_dctpm_def enc_head_def)
  from min_firmware_rev_written [OF this, of "replicate 100 0"] show ?thesis
    by (simp add: sample_dctpm_def enc_head_def)
qed

end
