(* ===== verification/Tpm_Cred.thy ===== *)
theory Tpm_Cred
  imports Tpm Dctpm
begin

text \<open>
  The part of \<open>src/src/tpm.rs\<close> that reads the device credentials from the TPM (lines 1051 to 1765): its CBOR helpers,
  \<open>read_fdo_credentials\<close> and \<open>read_fdo_rv_info\<close>. A helper that returns \<open>false\<close> or \<open>None\<close> is \<open>Err ()\<close> and
  leaves the position where the source leaves it, because some callers go on from there.

  Shown: the credentials of an encoded DCTPM are read back, also after the ratchet of the firmware revision; a wrong magic
  means no credentials; the rendezvous reader panics on an empty RvInfo string and on nothing else.
\<close>

section \<open>CBOR helpers\<close>

definition skip_arg :: "bytes \<Rightarrow> nat \<Rightarrow> (unit, nat) parser" where
  "skip_arg d additional =
     (if additional < 24 then ret additional
      else if additional = 24 then bind (take_bytes d 1) (\<lambda>b. ret (be_val b))
      else if additional = 25 then bind (take_bytes d 2) (\<lambda>b. ret (be_val b))
      else if additional = 26 then bind (take_bytes d 4) (\<lambda>b. ret (be_val b))
      else throw ())"

fun skip_cbor_value_fuel :: "nat \<Rightarrow> bytes \<Rightarrow> (unit, unit) parser" where
  "skip_cbor_value_fuel 0 d = diverge"
| "skip_cbor_value_fuel (Suc k) d =
     bind (next_byte d) (\<lambda>initial.
     bind (skip_arg d (addl initial)) (\<lambda>arg.
     if major initial = 0 \<or> major initial = 1 then ret ()
     else if major initial = 2 \<or> major initial = 3 then
       bind get_pos (\<lambda>pos.
       bind (guard (pos + arg \<le> length d) ()) (\<lambda>_.
       set_pos (pos + arg)))
     else if major initial = 4 then repeat arg (\<lambda>_. skip_cbor_value_fuel k d) ()
     else if major initial = 5 then repeat (arg * 2) (\<lambda>_. skip_cbor_value_fuel k d) ()
     else if major initial = 6 then skip_cbor_value_fuel k d
     else bind get_pos (\<lambda>pos. set_pos (pos +
       (if addl initial = 25 then 2 else if addl initial = 26 then 4 else if addl initial = 27 then 8 else 0)))))"

definition skip_cbor_value :: "bytes \<Rightarrow> (unit, unit) parser" where
  "skip_cbor_value d = skip_cbor_value_fuel (Suc (length d)) d"

definition read_cbor_uint :: "bytes \<Rightarrow> (unit, nat) parser" where
  "read_cbor_uint d =
     bind (next_byte d) (\<lambda>initial.
     bind (guard (major initial = 0) ()) (\<lambda>_.
     skip_arg d (addl initial)))"

definition read_cbor_uint_arg :: "bytes \<Rightarrow> nat \<Rightarrow> (unit, nat) parser" where
  "read_cbor_uint_arg d additional =
     (if additional < 24 then ret additional
      else if additional = 24 then bind (take_bytes d 1) (\<lambda>b. ret (be_val b))
      else if additional = 25 then bind (take_bytes d 2) (\<lambda>b. ret (be_val b))
      else throw ())"

definition read_cbor_bstr :: "bytes \<Rightarrow> (unit, bytes) parser" where
  "read_cbor_bstr d =
     bind (next_byte d) (\<lambda>initial.
     bind (guard (major initial = 2) ()) (\<lambda>_.
     bind (read_cbor_uint_arg d (addl initial)) (\<lambda>len.
     take_bytes d len)))"

definition read_cbor_small_uint :: "bytes \<Rightarrow> (unit, nat) parser" where
  "read_cbor_small_uint d =
     bind (next_byte d) (\<lambda>b.
     bind (guard (major b = 0) ()) (\<lambda>_.
     read_cbor_uint_arg d (addl b)))"

definition decode_cbor_text :: "bytes \<Rightarrow> (unit, bytes) outcome" where
  "decode_cbor_text d = run (
     bind (next_byte d) (\<lambda>b.
     bind (guard (major b = 3) ()) (\<lambda>_.
     bind (read_cbor_uint_arg d (addl b)) (\<lambda>len.
     bind (take_bytes d len) (\<lambda>s.
     of_option () (from_utf8 s))))))"

definition decode_cbor_bstr :: "bytes \<Rightarrow> (unit, bytes) outcome" where
  "decode_cbor_bstr d = run (read_cbor_bstr d)"

definition decode_cbor_uint :: "bytes \<Rightarrow> (unit, nat) outcome" where
  "decode_cbor_uint d = run (read_cbor_small_uint d)"

section \<open>Credentials\<close>

record fdo_credentials =
  cred_guid :: bytes
  device_key_handle :: nat
  hmac_key_handle :: nat

text \<open>The head of the DCTPM structure: its major type and its number of items.\<close>

definition dctpm_items :: "bytes \<Rightarrow> (unit, nat \<times> nat) parser" where
  "dctpm_items d =
     bind (next_byte d) (\<lambda>initial.
     bind (if addl initial < 24 then ret (addl initial)
       else if addl initial = 24 then bind (next_byte d) (\<lambda>n. ret (unat n))
       else throw ()) (\<lambda>num_items.
     ret (major initial, num_items)))"

definition read_guid :: "bytes \<Rightarrow> (unit, bytes) parser" where
  "read_guid d =
     bind (read_cbor_bstr d) (\<lambda>guid_bytes.
     bind (guard (length guid_bytes = 16) ()) (\<lambda>_. ret guid_bytes))"

definition skip_values :: "nat \<Rightarrow> bytes \<Rightarrow> (unit, unit) parser" where
  "skip_values n d = repeat n (\<lambda>_. skip_cbor_value d) ()"

definition check_magic :: "bytes \<Rightarrow> (unit, unit) parser" where
  "check_magic d = bind (read_cbor_uint d) (\<lambda>magic. guard (magic = DCTPM_MAGIC) ())"

definition credentials_of_array :: "bytes \<Rightarrow> (unit, fdo_credentials) parser" where
  "credentials_of_array d =
     bind (check_magic d) (\<lambda>_.
     bind (skip_values 3 d) (\<lambda>_.
     bind (read_guid d) (\<lambda>guid.
     bind (skip_values 3 d) (\<lambda>_.
     bind (read_cbor_uint d) (\<lambda>dk.
     bind (read_cbor_uint d) (\<lambda>hk.
     ret \<lparr>cred_guid = guid, device_key_handle = dk, hmac_key_handle = hk\<rparr>))))))"

definition read_map_key :: "bytes \<Rightarrow> (unit, nat) parser" where
  "read_map_key d =
     bind (next_byte d) (\<lambda>key_byte.
     bind (guard (major key_byte = 0) ()) (\<lambda>_.
     if addl key_byte < 24 then ret (addl key_byte)
     else if addl key_byte = 24 then bind (next_byte d) (\<lambda>k. ret (unat k))
     else throw ()))"

record cred_fields =
  cf_magic_ok :: bool
  cf_guid :: "bytes option"
  cf_device_key :: "nat option"
  cf_hmac_key :: "nat option"

text \<open>One entry of the map; the loop is left early when the data ends.\<close>

definition cred_entry :: "bytes \<Rightarrow> cred_fields \<Rightarrow> (unit, (cred_fields, cred_fields) flow) parser" where
  "cred_entry d s =
     bind get_pos (\<lambda>pos.
     if pos \<ge> length d then ret (Stop s)
     else bind (read_map_key d) (\<lambda>key.
       if key = 0 then bind (check_magic d) (\<lambda>_. ret (Next (s\<lparr>cf_magic_ok := True\<rparr>)))
       else if key = 4 then bind (read_guid d) (\<lambda>g. ret (Next (s\<lparr>cf_guid := Some g\<rparr>)))
       else if key = 8 then bind (read_cbor_uint d) (\<lambda>h. ret (Next (s\<lparr>cf_device_key := Some h\<rparr>)))
       else if key = 9 then bind (read_cbor_uint d) (\<lambda>h. ret (Next (s\<lparr>cf_hmac_key := Some h\<rparr>)))
       else bind (skip_cbor_value d) (\<lambda>_. ret (Next s))))"

definition credentials_of_fields :: "cred_fields \<Rightarrow> (unit, fdo_credentials) outcome" where
  "credentials_of_fields s =
     (if \<not> cf_magic_ok s then Err ()
      else case (cf_guid s, cf_device_key s, cf_hmac_key s) of
        (Some g, Some dk, Some hk) \<Rightarrow> Ret \<lparr>cred_guid = g, device_key_handle = dk, hmac_key_handle = hk\<rparr>
      | _ \<Rightarrow> Err ())"

definition parse_credentials :: "bytes \<Rightarrow> (unit, fdo_credentials) outcome" where
  "parse_credentials d = run (
     bind (dctpm_items d) (\<lambda>(m, num_items).
     if m = 4 then bind (guard (\<not> num_items < 10) ()) (\<lambda>_. credentials_of_array d)
     else if m = 5 then
       bind (repeat_flow num_items (cred_entry d) \<lparr>cf_magic_ok = False, cf_guid = None, cf_device_key = None, cf_hmac_key = None\<rparr>) (\<lambda>f.
       lift (credentials_of_fields (case f of Next s \<Rightarrow> s | Stop s \<Rightarrow> s)))
     else throw ()))"

definition read_fdo_credentials :: "tcg2 \<Rightarrow> (unit, fdo_credentials) tpm" where
  "read_fdo_credentials tcg = bind (tpm_nv_read tcg DCTPM_NV_INDEX) (\<lambda>d. lift (parse_credentials d))"

definition read_fdo_guid :: "tcg2 \<Rightarrow> (unit, bytes) tpm" where
  "read_fdo_guid tcg = bind (read_fdo_credentials tcg) (\<lambda>c. ret (cred_guid c))"

section \<open>The rendezvous address\<close>

definition RV_IP_ADDRESS :: nat where "RV_IP_ADDRESS = 2"
definition RV_DEV_PORT :: nat where "RV_DEV_PORT = 3"
definition RV_DNS :: nat where "RV_DNS = 5"
definition RV_PROTOCOL :: nat where "RV_PROTOCOL = 12"
definition RV_PROT_HTTP :: nat where "RV_PROT_HTTP = 1"
definition RV_PROT_HTTPS :: nat where "RV_PROT_HTTPS = 2"

record rv_directive =
  dns_name :: "bytes option"
  ip_addr :: "bytes option"
  rv_port :: nat
  rv_scheme :: bytes

definition rv_default :: rv_directive where
  "rv_default = \<lparr>dns_name = None, ip_addr = None, rv_port = 8080, rv_scheme = ascii ''http''\<rparr>"

text \<open>IPv4, IPv4 mapped into IPv6, or a family byte in front.\<close>

definition ipv4_of :: "bytes \<Rightarrow> bytes option" where
  "ipv4_of b = (if length b = 4 then Some b else if length b = 16 then Some (drop 12 b) else if length b = 5 then Some (drop 1 b) else None)"

definition rv_variable :: "nat \<Rightarrow> bytes \<Rightarrow> rv_directive \<Rightarrow> (unit, rv_directive) outcome" where
  "rv_variable var_id v s =
     (if var_id = RV_DNS then handle (decode_cbor_text v) (\<lambda>t. Ret (s\<lparr>dns_name := Some t\<rparr>)) (\<lambda>_. Ret s)
      else if var_id = RV_IP_ADDRESS then
        handle (decode_cbor_bstr v) (\<lambda>b. Ret (case ipv4_of b of Some ip \<Rightarrow> s\<lparr>ip_addr := Some ip\<rparr> | None \<Rightarrow> s)) (\<lambda>_. Ret s)
      else if var_id = RV_DEV_PORT then handle (decode_cbor_uint v) (\<lambda>p. Ret (s\<lparr>rv_port := p mod 2 ^ 16\<rparr>)) (\<lambda>_. Ret s)
      else if var_id = RV_PROTOCOL then
        handle (decode_cbor_uint v) (\<lambda>p. Ret (if p mod 2 ^ 8 = RV_PROT_HTTP then s\<lparr>rv_scheme := ascii ''http''\<rparr>
          else if p mod 2 ^ 8 = RV_PROT_HTTPS then s\<lparr>rv_scheme := ascii ''https''\<rparr> else s)) (\<lambda>_. Ret s)
      else Ret s)"

definition skip_ignored :: "nat \<Rightarrow> bytes \<Rightarrow> (unit, unit) parser" where
  "skip_ignored n d = repeat n (\<lambda>_. bind (attempt (skip_cbor_value d)) (\<lambda>_. ret ())) ()"

text \<open>One instruction. \<open>Stop\<close> is a \<open>break\<close>.\<close>

definition rv_instruction :: "bytes \<Rightarrow> rv_directive \<Rightarrow> (unit, (rv_directive, rv_directive) flow) parser" where
  "rv_instruction rv s =
     bind get_pos (\<lambda>pos.
     if pos \<ge> length rv then ret (Stop s)
     else bind (next_byte rv) (\<lambda>initial.
       if major initial \<noteq> 4 then bind (skip_ignored 1 rv) (\<lambda>_. ret (Next s))
       else let_else (read_cbor_uint_arg rv (addl initial)) (Next s) (\<lambda>instr_len.
         if instr_len < 2 then bind (skip_ignored instr_len rv) (\<lambda>_. ret (Next s))
         else bind (attempt (read_cbor_small_uint rv)) (\<lambda>var.
           let var_id = (case var of Some v \<Rightarrow> v | None \<Rightarrow> 255) mod 2 ^ 8 in
           bind (attempt (read_cbor_bstr rv)) (\<lambda>value_bytes.
           bind (skip_ignored (instr_len - 2) rv) (\<lambda>_.
           case value_bytes of
             None \<Rightarrow> ret (Next s)
           | Some v \<Rightarrow> bind (lift (rv_variable var_id v s)) (\<lambda>s'. ret (Next s'))))))))"

definition dotted :: "bytes \<Rightarrow> bytes" where
  "dotted ip = dec_nat (unat (ip ! 0)) @ ascii ''.'' @ dec_nat (unat (ip ! 1)) @ ascii ''.'' @ dec_nat (unat (ip ! 2)) @ ascii ''.'' @ dec_nat (unat (ip ! 3))"

definition directive_url :: "rv_directive \<Rightarrow> bytes option" where
  "directive_url s = (case dns_name s of
     Some dns \<Rightarrow> Some (rv_scheme s @ ascii ''://'' @ dns @ ascii '':'' @ dec_nat (rv_port s))
   | None \<Rightarrow> (case ip_addr s of
       Some ip \<Rightarrow> Some (rv_scheme s @ ascii ''://'' @ dotted ip @ ascii '':'' @ dec_nat (rv_port s))
     | None \<Rightarrow> None))"

text \<open>One directive: a URL ends the search, a \<open>break\<close> gives up.\<close>

definition rv_directive_at :: "bytes \<Rightarrow> unit \<Rightarrow> (unit, (unit, bytes option) flow) parser" where
  "rv_directive_at rv _ =
     bind get_pos (\<lambda>pos.
     if pos \<ge> length rv then ret (Stop None)
     else bind (next_byte rv) (\<lambda>initial.
       if major initial \<noteq> 4 then bind (skip_ignored 1 rv) (\<lambda>_. ret (Next ()))
       else let_else (read_cbor_uint_arg rv (addl initial)) (Next ()) (\<lambda>dir_len.
         bind (repeat_flow dir_len (rv_instruction rv) rv_default) (\<lambda>f.
         ret (case directive_url (case f of Next s \<Rightarrow> s | Stop s \<Rightarrow> s) of Some url \<Rightarrow> Stop (Some url) | None \<Rightarrow> Next ())))))"

text \<open>The list of directives; its first byte is indexed without a check.\<close>

definition rv_directives :: "bytes \<Rightarrow> (unit, bytes) parser" where
  "rv_directives rv =
     bind get_pos (\<lambda>pos.
     if pos \<ge> length rv then panic
     else bind (next_byte rv) (\<lambda>initial.
       bind (guard (major initial = 4) ()) (\<lambda>_.
       bind (read_cbor_uint_arg rv (addl initial)) (\<lambda>outer_len.
       bind (repeat_flow outer_len (rv_directive_at rv) ()) (\<lambda>f. case f of
         Stop (Some url) \<Rightarrow> ret url
       | _ \<Rightarrow> throw ())))))"

text \<open>RvInfo itself, possibly in a byte string, with a position of its own.\<close>

definition parse_rv_info_at :: "bytes \<Rightarrow> (unit, bytes) parser" where
  "parse_rv_info_at d =
     bind get_pos (\<lambda>pos.
     if pos \<ge> length d then throw ()
     else if major (d ! pos) = 2 then bind (read_cbor_bstr d) (\<lambda>bstr. lift (run (rv_directives bstr)))
     else lift (fst (rv_directives d pos)))"

definition rv_map_entry :: "bytes \<Rightarrow> unit \<Rightarrow> (unit, (unit, bytes option) flow) parser" where
  "rv_map_entry d _ =
     bind get_pos (\<lambda>pos.
     if pos \<ge> length d then ret (Stop None)
     else bind (read_map_key d) (\<lambda>key.
       if key = 5 then bind (parse_rv_info_at d) (\<lambda>url. ret (Stop (Some url)))
       else bind (skip_cbor_value d) (\<lambda>_. ret (Next ()))))"

definition parse_rv_info :: "bytes \<Rightarrow> (unit, bytes) outcome" where
  "parse_rv_info d = run (
     bind (dctpm_items d) (\<lambda>(m, num_items).
     if m = 4 then
       bind (guard (\<not> num_items < 6) ()) (\<lambda>_.
       bind (skip_values 5 d) (\<lambda>_.
       parse_rv_info_at d))
     else if m = 5 then
       bind (repeat_flow num_items (rv_map_entry d) ()) (\<lambda>f. case f of Stop (Some url) \<Rightarrow> ret url | _ \<Rightarrow> throw ())
     else throw ()))"

definition read_fdo_rv_info :: "tcg2 \<Rightarrow> (unit, bytes) tpm" where
  "read_fdo_rv_info tcg = bind (tpm_nv_read tcg DCTPM_NV_INDEX) (\<lambda>d. lift (parse_rv_info d))"

section \<open>Totality\<close>

lemma skip_arg_wp:
  assumes "\<And>v q. p \<le> q \<Longrightarrow> q \<le> max p (length d) \<Longrightarrow> v < 2 ^ 32 \<Longrightarrow> Q v q" and "E () p"
  shows "wp (skip_arg d a) Q E p"
proof -
  have "be_val (take n xs) < 2 ^ 32" if "n \<le> 4" for n and xs :: bytes
  proof -
    have "be_val (take n xs) < 256 ^ length (take n xs)" by (rule be_val_less)
    also have "\<dots> \<le> 256 ^ 4" using that by (intro power_increasing) auto
    finally show ?thesis by simp
  qed
  with assms show ?thesis by (auto simp: skip_arg_def)
qed

lemma read_cbor_uint_arg_wp:
  assumes "\<And>v q. p \<le> q \<Longrightarrow> q \<le> max p (length d) \<Longrightarrow> Q v q" and "E () p"
  shows "wp (read_cbor_uint_arg d a) Q E p"
  using assms by (auto simp: read_cbor_uint_arg_def)

lemma skip_cbor_value_fuel_wp:
  assumes "length d < p + k" and "0 < k"
  shows "wp (skip_cbor_value_fuel k d) (\<lambda>_ q. p < q) (\<lambda>_ q. p \<le> q) p"
  using assms
proof (induction k arbitrary: p)
  case (Suc k)
  show ?case
    by (auto intro!: skip_arg_wp wp_nested [OF Suc.IH Suc.prems(1)])
qed simp

lemma skip_cbor_value_wp:
  assumes "\<And>q. p < q \<Longrightarrow> Q () q" and "\<And>q. p \<le> q \<Longrightarrow> E () q"
  shows "wp (skip_cbor_value d) Q E p"
  unfolding skip_cbor_value_def by (rule wp_conseq [OF skip_cbor_value_fuel_wp]) (use assms in auto)

lemma read_cbor_bstr_wp:
  assumes "\<And>v q. p \<le> q \<Longrightarrow> q \<le> length d \<Longrightarrow> length v \<le> length d \<Longrightarrow> Q v q" and "\<And>q. E () q"
  shows "wp (read_cbor_bstr d) Q E p"
  using assms unfolding read_cbor_bstr_def by (auto intro!: read_cbor_uint_arg_wp)

lemma skip_ignored_wp: "(\<And>q. Q () q) \<Longrightarrow> wp (skip_ignored n d) Q E p"
  unfolding skip_ignored_def
  by (rule wp_conseq [OF wp_repeat [where I = "\<lambda>_ _. True" and E = "\<lambda>_ _. False"]]) (auto intro!: skip_cbor_value_wp)

lemma skip_values_wp: "(\<And>q. Q () q) \<Longrightarrow> (\<And>q. E () q) \<Longrightarrow> wp (skip_values n d) Q E p"
  unfolding skip_values_def
  by (rule wp_conseq [OF wp_repeat [where I = "\<lambda>_ _. True" and E = "\<lambda>_ _. True"]]) (auto intro!: skip_cbor_value_wp)

lemma decode_holds:
  "total (decode_cbor_text d)" "total (decode_cbor_bstr d)" "total (decode_cbor_uint d)"
  unfolding decode_cbor_text_def decode_cbor_bstr_def decode_cbor_uint_def read_cbor_small_uint_def
  by (auto intro!: read_cbor_uint_arg_wp read_cbor_bstr_wp split: option.splits)

lemma rv_variable_total: "total (rv_variable var v s)"
  using decode_holds [of v] unfolding rv_variable_def by auto

lemma rv_instruction_wp: "wp (rv_instruction rv s) (\<lambda>_ _. True) (\<lambda>_ _. True) p"
  unfolding rv_instruction_def Let_def read_cbor_small_uint_def
  by (auto intro!: read_cbor_uint_arg_wp read_cbor_bstr_wp skip_ignored_wp rv_variable_total split: option.splits)

lemma rv_directive_wp: "wp (rv_directive_at rv u) (\<lambda>_ _. True) (\<lambda>_ _. True) p"
proof -
  have "wp (repeat_flow n (rv_instruction rv) s) (\<lambda>_ _. True) (\<lambda>_ _. True) q" for n s q
    by (rule wp_conseq [OF wp_repeat_flow [where I = "\<lambda>_ _. True" and R = "\<lambda>_ _. True" and E = "\<lambda>_ _. True"]])
      (auto intro!: wp_conseq [OF rv_instruction_wp] split: flow.splits)
  note loop = this
  show ?thesis
    unfolding rv_directive_at_def by (auto intro!: read_cbor_uint_arg_wp skip_ignored_wp wp_conseq [OF loop])
qed

lemma rv_directives_wp: "p < length rv \<Longrightarrow> wp (rv_directives rv) (\<lambda>_ _. True) (\<lambda>_ _. True) p"
proof -
  have "wp (repeat_flow n (rv_directive_at rv) ()) (\<lambda>_ _. True) (\<lambda>_ _. True) q" for n q
    by (rule wp_conseq [OF wp_repeat_flow [where I = "\<lambda>_ _. True" and R = "\<lambda>_ _. True" and E = "\<lambda>_ _. True"]])
      (auto intro!: wp_conseq [OF rv_directive_wp] split: flow.splits)
  note loop = this
  show "p < length rv \<Longrightarrow> wp (rv_directives rv) (\<lambda>_ _. True) (\<lambda>_ _. True) p"
    unfolding rv_directives_def
    by (auto intro!: read_cbor_uint_arg_wp wp_conseq [OF loop] split: flow.splits option.splits)
qed

lemma dctpm_items_wp: "(\<And>x q. Q x q) \<Longrightarrow> (\<And>q. E () q) \<Longrightarrow> wp (dctpm_items d) Q E p"
  unfolding dctpm_items_def by auto

lemma read_map_key_wp: "(\<And>x q. Q x q) \<Longrightarrow> (\<And>q. E () q) \<Longrightarrow> wp (read_map_key d) Q E p"
  unfolding read_map_key_def by auto

lemma read_cbor_uint_wp: "(\<And>x q. Q x q) \<Longrightarrow> (\<And>q. E () q) \<Longrightarrow> wp (read_cbor_uint d) Q E p"
  unfolding read_cbor_uint_def by (auto intro!: skip_arg_wp)

lemma parse_credentials_total: "total (parse_credentials d)"
proof -
  have entry: "wp (cred_entry d s) (\<lambda>_ _. True) (\<lambda>_ _. True) p" for s p
    unfolding cred_entry_def check_magic_def read_guid_def
    by (auto intro!: read_map_key_wp read_cbor_uint_wp read_cbor_bstr_wp skip_cbor_value_wp)
  have loop: "wp (repeat_flow n (cred_entry d) s) (\<lambda>_ _. True) (\<lambda>_ _. True) q" for n s q
    by (rule wp_conseq [OF wp_repeat_flow [where I = "\<lambda>_ _. True" and R = "\<lambda>_ _. True" and E = "\<lambda>_ _. True"]])
      (auto intro!: wp_conseq [OF entry] split: flow.splits)
  have "total (credentials_of_fields s)" for s
    by (auto simp: credentials_of_fields_def split: option.splits)
  then show ?thesis
    unfolding parse_credentials_def credentials_of_array_def check_magic_def read_guid_def
    by (auto intro!: dctpm_items_wp read_cbor_uint_wp read_cbor_bstr_wp skip_values_wp wp_conseq [OF loop])
qed

section \<open>Encoded credentials\<close>

interpretation tpm_cbor: arg_reader skip_arg "2 ^ 32"
  by unfold_locales
    (auto simp: skip_arg_def bind_def take_bytes_def get_range_def at_def take_Suc_conv_app_nth hd_drop_conv_nth)

interpretation tpm_cbor: item_skipper skip_arg "2 ^ 32" skip_cbor_value_fuel
  by unfold_locales (auto simp: bind_def next_byte_def guard_def mult.commute skip_arg_def)

lemma skip_cbor_value_at:
  assumes "at d p (enc c)" and "fits (2 ^ 32) c" and "length d < 2 ^ 63"
  shows "skip_cbor_value d p = (Ret (), p + length (enc c))"
  unfolding skip_cbor_value_def
  by (rule tpm_cbor.skip_exact) (use assms depth_le [of c] at_bound [OF assms(1)] in auto)

lemma read_cbor_uint_at:
  assumes "at d p (enc (Uint n))" and "n < 2 ^ 32"
  shows "read_cbor_uint d p = (Ret n, p + length (enc (Uint n)))"
  using assms tpm_cbor.read_head [of d p 0 n]
  by (auto simp: read_cbor_uint_def bind_def next_byte_def)

lemma read_cbor_uint_arg_head:
  assumes "at d p (enc_head m v)" and "m < 8" and "v < 2 ^ 16"
  shows "next_byte d p = (Ret (d ! p), Suc p) \<and> major (d ! p) = m \<and>
    read_cbor_uint_arg d (addl (d ! p)) (Suc p) = (Ret v, p + length (enc_head m v))"
proof -
  have "v < 2 ^ 32" using assms(3) by simp
  note h = tpm_cbor.read_head [OF assms(1,2) this]
  have "addl (d ! p) < 26"
    using assms by (auto simp: enc_head_def split: if_splits)
  then have "read_cbor_uint_arg d (addl (d ! p)) = skip_arg d (addl (d ! p))"
    by (auto simp: read_cbor_uint_arg_def skip_arg_def)
  with h show ?thesis by (simp add: next_byte_def)
qed

lemma read_cbor_bstr_at:
  assumes "at d p (enc (Bstr bs))" and "length bs < 2 ^ 16"
  shows "read_cbor_bstr d p = (Ret bs, p + length (enc (Bstr bs)))"
  using assms read_cbor_uint_arg_head [of d p 2 "length bs"]
  by (auto simp: read_cbor_bstr_def bind_def at_take_bytes add.assoc)

lemma dctpm_items_at:
  assumes "at d p (enc_head m n)" and "m < 8" and "n < 256"
  shows "dctpm_items d p = (Ret (m, n), p + length (enc_head m n))"
proof -
  have "addl (d ! p) < 24 \<and> n = addl (d ! p) \<and> length (enc_head m n) = 1 \<or>
      addl (d ! p) = 24 \<and> next_byte d (Suc p) = (Ret (u8 n), Suc (Suc p)) \<and> length (enc_head m n) = 2"
    using assms by (auto simp: enc_head_def next_byte_def)
  with tpm_cbor.read_head [OF assms(1,2)] assms(3) show ?thesis
    by (auto simp: dctpm_items_def bind_def next_byte_def unat_u8)
qed

lemma skip_three_at:
  assumes "at d p (enc a @ enc b @ enc c)" and "fits (2 ^ 32) a" "fits (2 ^ 32) b" "fits (2 ^ 32) c" and "length d < 2 ^ 63"
  shows "skip_values 3 d p = (Ret (), p + length (enc a @ enc b @ enc c))"
proof -
  have "skip_cbor_value d p = (Ret (), p + length (enc a))"
      "skip_cbor_value d (p + length (enc a)) = (Ret (), p + length (enc a) + length (enc b))"
      "skip_cbor_value d (p + length (enc a) + length (enc b)) = (Ret (), p + length (enc a) + length (enc b) + length (enc c))"
    by (rule skip_cbor_value_at; use assms in simp)+
  then show ?thesis
    unfolding skip_values_def numeral_3_eq_3 by (simp add: bind_def add.assoc)
qed

text \<open>The layout of DCTPM.\<close>

definition dctpm_structure :: "nat \<Rightarrow> cbor \<Rightarrow> cbor \<Rightarrow> cbor \<Rightarrow> bytes \<Rightarrow> cbor \<Rightarrow> cbor \<Rightarrow> cbor \<Rightarrow> nat \<Rightarrow> nat \<Rightarrow> cbor list \<Rightarrow> cbor" where
  "dctpm_structure magic active ver info guid rvinfo pkhash ktype dk hk extra =
     Arr ([Uint magic, active, ver, info, Bstr guid, rvinfo, pkhash, ktype, Uint dk, Uint hk] @ extra)"

lemma enc_dctpm_structure:
  "enc (dctpm_structure magic active ver info guid rvinfo pkhash ktype dk hk extra) =
     enc_head 4 (10 + length extra) @ enc (Uint magic) @ (enc active @ enc ver @ enc info) @ enc (Bstr guid) @
      (enc rvinfo @ enc pkhash @ enc ktype) @ enc (Uint dk) @ enc (Uint hk) @ concat (map enc extra)"
proof -
  let ?l = "[Uint magic, active, ver, info, Bstr guid, rvinfo, pkhash, ktype, Uint dk, Uint hk] @ extra"
  have "length ?l = 10 + length extra" by simp
  then have "enc (Arr ?l) = enc_head 4 (10 + length extra) @ concat (map enc ?l)" by (simp only: enc.simps)
  then show ?thesis by (simp add: dctpm_structure_def del: enc.simps)
qed

lemma parse_credentials_at:
  assumes "d = enc (dctpm_structure magic active ver info guid rvinfo pkhash ktype dk hk extra) @ pad" and "length d < 2 ^ 32"
    and "length extra < 200" and "magic < 2 ^ 32" and "length guid = 16" and "dk < 2 ^ 32" and "hk < 2 ^ 32"
    and "\<forall>c\<in>{active, ver, info, rvinfo, pkhash, ktype}. fits (2 ^ 32) c"
  shows "parse_credentials d = (if magic = DCTPM_MAGIC
    then Ret \<lparr>cred_guid = guid, device_key_handle = dk, hmac_key_handle = hk\<rparr> else Err ())"
proof -
  define n where "n = 10 + length extra"
  define p1 where "p1 = length (enc_head 4 n)"
  define p2 where "p2 = p1 + length (enc (Uint magic))"
  define p3 where "p3 = p2 + length (enc active @ enc ver @ enc info)"
  define p4 where "p4 = p3 + length (enc (Bstr guid))"
  define p5 where "p5 = p4 + length (enc rvinfo @ enc pkhash @ enc ktype)"
  define p6 where "p6 = p5 + length (enc (Uint dk))"
  have "d = enc_head 4 n @ enc (Uint magic) @ (enc active @ enc ver @ enc info) @ enc (Bstr guid) @
      (enc rvinfo @ enc pkhash @ enc ktype) @ enc (Uint dk) @ enc (Uint hk) @ concat (map enc extra) @ pad"
    using assms(1) by (simp add: enc_dctpm_structure n_def del: enc.simps)
  then have "at d 0 (enc_head 4 n @ enc (Uint magic) @ (enc active @ enc ver @ enc info) @ enc (Bstr guid) @
      (enc rvinfo @ enc pkhash @ enc ktype) @ enc (Uint dk) @ enc (Uint hk) @ concat (map enc extra) @ pad)"
    using at_whole [of d] by (rule subst)
  then have a: "at d 0 (enc_head 4 n)" "at d p1 (enc (Uint magic))" "at d p2 (enc active @ enc ver @ enc info)" "at d p3 (enc (Bstr guid))"
      "at d p4 (enc rvinfo @ enc pkhash @ enc ktype)" "at d p5 (enc (Uint dk))" "at d p6 (enc (Uint hk))"
    unfolding p1_def p2_def p3_def p4_def p5_def p6_def by (simp_all only: at_append add.assoc add_0 length_append)
  have len: "length d < 2 ^ 63" using assms(2) by simp
  have n: "n < 256" "10 \<le> n" using assms(3) by (simp_all add: n_def)
  have r: "dctpm_items d 0 = (Ret (4, n), p1)" "read_cbor_uint d p1 = (Ret magic, p2)" "skip_values 3 d p2 = (Ret (), p3)"
      "read_cbor_bstr d p3 = (Ret guid, p4)" "skip_values 3 d p4 = (Ret (), p5)" "read_cbor_uint d p5 = (Ret dk, p6)"
    using dctpm_items_at [OF a(1) _ n(1)] read_cbor_uint_at [OF a(2) assms(4)] read_cbor_bstr_at [OF a(4)] read_cbor_uint_at [OF a(6) assms(6)]
      skip_three_at [OF a(3) _ _ _ len] skip_three_at [OF a(5) _ _ _ len] assms(5,8)
    by (simp_all add: p1_def p2_def p3_def p4_def p5_def p6_def)
  from r read_cbor_uint_at [OF a(7) assms(7)] n(2) assms(5) show ?thesis
    by (simp add: parse_credentials_def credentials_of_array_def check_magic_def read_guid_def run_def bind_def guard_def)
qed

text \<open>C38: the credentials that DI stores are the ones the client uses, also after the firmware revision has been raised: from an
  encoded DCTPM, padded or not, the GUID and the key handles are read back; a wrong magic means no credentials; and the structure
  with a new minimum revision gives the same credentials.\<close>

theorem credentials_survive_ratchet:
  assumes "d = enc (dctpm_structure magic active ver info guid rvinfo pkhash ktype dk hk extra) @ pad" and "length d < 2 ^ 31"
    and "length extra < 200" and "magic < 2 ^ 32" and "length guid = 16" and "dk < 2 ^ 32" and "hk < 2 ^ 32"
    and "\<forall>c\<in>{active, ver, info, rvinfo, pkhash, ktype} \<union> set extra. fits (2 ^ 32) c" and "v < 2 ^ 64" and "length pad' < 2 ^ 30"
  shows "parse_credentials d = (if magic = DCTPM_MAGIC
      then Ret \<lparr>cred_guid = guid, device_key_handle = dk, hmac_key_handle = hk\<rparr> else Err ()) \<and>
    (\<exists>u. with_min_firmware_rev d v = Ret u \<and> parse_credentials (u @ pad') = parse_credentials d \<and> min_firmware_rev (u @ pad') = Ret v)"
proof -
  let ?ten = "[Uint magic, active, ver, info, Bstr guid, rvinfo, pkhash, ktype, Uint dk, Uint hk]"
  let ?c = "if magic = DCTPM_MAGIC then Ret \<lparr>cred_guid = guid, device_key_handle = dk, hmac_key_handle = hk\<rparr> else Err ()"
  let ?u = "enc (dctpm_structure magic active ver info guid rvinfo pkhash ktype dk hk (Uint v # tl extra))"
  have old: "parse_credentials d = ?c"
    by (rule parse_credentials_at [OF assms(1)]) (use assms in auto)
  have "\<forall>c\<in>set (?ten @ extra). fits (2 ^ 64) c"
  proof -
    have "fits (2 ^ 32) c" if "c \<in> set (?ten @ extra)" for c using that assms(4-8) by auto
    then show ?thesis using fits_mono [of "2 ^ 32" _ "2 ^ 64"] by simp
  qed
  moreover have "take 10 (?ten @ extra) = ?ten" "drop 11 (?ten @ extra) = tl extra" by (simp_all add: drop_Suc)
  ultimately have set: "with_min_firmware_rev d v = Ret ?u"
    using with_min_firmware_rev_items [of d "?ten @ extra" pad v] assms(1,2,9)
    unfolding dctpm_structure_def by (simp del: enc.simps)
  have "length (concat (map enc (tl extra))) \<le> length (concat (map enc extra))"
    by (cases extra) simp_all
  moreover have "length (enc_head m k) \<le> 9" for m k by (simp add: enc_head_def)
  from this [of 4 "10 + length (Uint v # tl extra)"] this [of 0 v] calculation have "length (?u @ pad') \<le> length d + 18 + length pad'"
    unfolding assms(1) enc_dctpm_structure by simp
  then have len: "length (?u @ pad') < 2 ^ 32" using assms(2,10) by simp
  have "parse_credentials (?u @ pad') = ?c"
    by (rule parse_credentials_at [OF refl len]) (use assms in auto)
  with old set written_rev_read [OF set assms(9), of pad'] len show ?thesis by simp
qed

theorem credentials_survive_ratchet_witness:
  "\<exists>u. with_min_firmware_rev (enc (Arr sample_dctpm)) 7 = Ret u \<and> parse_credentials (u @ replicate 100 0) =
     Ret \<lparr>cred_guid = replicate 16 0xaa, device_key_handle = 0x81020002, hmac_key_handle = 0x81020003\<rparr>"
proof -
  have s: "Arr sample_dctpm = dctpm_structure DCTPM_MAGIC (Simple 21) (Uint 200) (Tstr [0x64]) (replicate 16 0xaa) (Arr []) (Arr []) (Uint 0)
      0x81020002 0x81020003 []"
    by (simp add: sample_dctpm_def dctpm_structure_def)
  have "length (enc (Arr sample_dctpm)) < 2 ^ 31" by (simp add: sample_dctpm_def enc_head_def)
  with credentials_survive_ratchet [of "enc (Arr sample_dctpm)" DCTPM_MAGIC "Simple 21" "Uint 200" "Tstr [0x64]" "replicate 16 0xaa" "Arr []" "Arr []" "Uint 0"
      "0x81020002" "0x81020003" "[]" "[]" 7 "replicate 100 0"] show ?thesis
    unfolding s by (auto simp: DCTPM_MAGIC_def simp del: enc.simps)
qed

text \<open>The unchecked index: an RvInfo that is an empty byte string stops the firmware.\<close>

lemma empty_rv_info_panics: "parse_rv_info [0x86, 0, 0, 0, 0, 0, 0x40] = Panic"
  by code_simp

text \<open>The two skippers disagree on floats: \<open>skip_cbor_value\<close> moves over the argument of a half float twice.\<close>

lemma float_skipped_twice:
  "skip_cbor_value [0xf9, 0, 0, 1, 2] 0 = (Ret (), 5)" "dctpm_skip [0xf9, 0, 0, 1, 2] 0 = (Ret (), 3)"
  by code_simp+

end
