(* ===== verification/Di_Codec.thy ===== *)
theory Di_Codec
  imports Tpm_Cred Cose Der
begin

text \<open>
  \<open>src/src/di/mfginfo.rs\<close> and the codec of \<open>src/src/di/protocol.rs\<close>: the messages of device initialisation, the
  certificate request, and the DCTPM structure that is written to the TPM. SHA-256 is a field of \<open>crypto\<close>; encoders
  return the bytes they append.

  Shown: the answer of the manufacturer is taken apart into its fields with their exact bytes; the structure that is stored
  is the one the readers of \<open>tpm.rs\<close> and \<open>dctpm.rs\<close> expect, for a device name below 256 bytes, and not otherwise; the
  signature in the certificate request is the one the TPM made.
\<close>

section \<open>Manufacturing information\<close>

definition KEY_TYPE_SECP256R1 :: nat where "KEY_TYPE_SECP256R1 = 10"
definition KEY_ENCODING_X5CHAIN :: nat where "KEY_ENCODING_X5CHAIN = 2"

record device_mfg_info =
  key_type :: nat
  key_encoding :: nat
  csr_der :: bytes
  serial_number :: bytes
  model :: bytes

definition new_mfg_info :: "bytes \<Rightarrow> bytes \<Rightarrow> bytes \<Rightarrow> device_mfg_info" where
  "new_mfg_info sn mdl csr = \<lparr>key_type = KEY_TYPE_SECP256R1, key_encoding = KEY_ENCODING_X5CHAIN, csr_der = csr, serial_number = sn, model = mdl\<rparr>"

definition encode_bstr_into :: "bytes \<Rightarrow> bytes" where
  "encode_bstr_into d = (let len = length d in
     (if len < 24 then [0x40 OR u8 len]
      else if len < 256 then [0x58, u8 len]
      else if len < 65536 then [0x59, u8 (len div 2 ^ 8), u8 len]
      else [0x5a, u8 (len div 2 ^ 24), u8 (len div 2 ^ 16), u8 (len div 2 ^ 8), u8 len]) @ d)"

text \<open>From 65536 bytes on no head is written.\<close>

definition encode_tstr_into :: "bytes \<Rightarrow> bytes" where
  "encode_tstr_into d = (let len = length d in
     (if len < 24 then [0x60 OR u8 len]
      else if len < 256 then [0x78, u8 len]
      else if len < 65536 then [0x79, u8 (len div 2 ^ 8), u8 len]
      else []) @ d)"

definition mfg_encode_array :: "device_mfg_info \<Rightarrow> bytes" where
  "mfg_encode_array i = [0x85, u8 (key_type i), u8 (key_encoding i)] @ encode_tstr_into (serial_number i) @ encode_tstr_into (model i) @ encode_bstr_into (csr_der i)"

definition mfg_to_cbor :: "device_mfg_info \<Rightarrow> bytes" where
  "mfg_to_cbor i = encode_bstr_into (mfg_encode_array i)"

section \<open>Messages to the manufacturer\<close>

definition build_di_app_start :: "bytes \<Rightarrow> bytes" where
  "build_di_app_start mfg_info = [0x83, 0x41, 0x04, 0x80] @ mfg_info"

text \<open>The heads the file writes for strings: two bytes of length at most.\<close>

definition di_str_head :: "nat \<Rightarrow> nat \<Rightarrow> bytes" where
  "di_str_head m len =
     (if len < 24 then [head_byte m len]
      else if len < 256 then [head_byte m 24, u8 len]
      else [head_byte m 25, u8 (len div 2 ^ 8), u8 len])"

definition build_di_set_hmac :: "bytes \<Rightarrow> bytes" where
  "build_di_set_hmac hmac = [0x81, 0x82, 0x05] @ di_str_head 2 (length hmac) @ hmac"

section \<open>Reading\<close>

definition di_decode_additional :: "bytes \<Rightarrow> nat \<Rightarrow> (unit, nat) parser" where
  "di_decode_additional d additional =
     (if additional < 24 then ret additional
      else if additional = 24 then bind (take_bytes d 1) (\<lambda>b. ret (be_val b))
      else if additional = 25 then bind (take_bytes d 2) (\<lambda>b. ret (be_val b))
      else if additional = 26 then bind (take_bytes d 4) (\<lambda>b. ret (be_val b))
      else throw ())"

definition di_read_bstr :: "bytes \<Rightarrow> (unit, bytes) parser" where
  "di_read_bstr d =
     bind (next_byte d) (\<lambda>initial.
     bind (guard (major initial = 2) ()) (\<lambda>_.
     bind (di_decode_additional d (addl initial)) (\<lambda>len.
     take_bytes d len)))"

definition di_read_tstr :: "bytes \<Rightarrow> (unit, bytes) parser" where
  "di_read_tstr d =
     bind (next_byte d) (\<lambda>initial.
     bind (guard (major initial = 3) ()) (\<lambda>_.
     bind (di_decode_additional d (addl initial)) (\<lambda>len.
     bind (take_bytes d len) (\<lambda>s.
     of_option () (from_utf8 s)))))"

definition di_read_uint :: "bytes \<Rightarrow> (unit, nat) parser" where
  "di_read_uint d =
     bind (next_byte d) (\<lambda>initial.
     bind (guard (major initial = 0) ()) (\<lambda>_.
     di_decode_additional d (addl initial)))"

text \<open>A string is passed over without looking at the end of the buffer.\<close>

fun di_skip_fuel :: "nat \<Rightarrow> bytes \<Rightarrow> (unit, unit) parser" where
  "di_skip_fuel 0 d = diverge"
| "di_skip_fuel (Suc k) d =
     bind (next_byte d) (\<lambda>initial.
     bind (di_decode_additional d (addl initial)) (\<lambda>arg.
     if major initial = 0 \<or> major initial = 1 then ret ()
     else if major initial = 2 \<or> major initial = 3 then bind get_pos (\<lambda>pos. set_pos (pos + arg))
     else if major initial = 4 then repeat arg (\<lambda>_. di_skip_fuel k d) ()
     else if major initial = 5 then repeat arg (\<lambda>_. bind (di_skip_fuel k d) (\<lambda>_. di_skip_fuel k d)) ()
     else if major initial = 6 then di_skip_fuel k d
     else ret ()))"

definition di_skip :: "bytes \<Rightarrow> (unit, unit) parser" where
  "di_skip d = di_skip_fuel (Suc (length d)) d"

definition di_capture :: "bytes \<Rightarrow> (unit, bytes) parser" where
  "di_capture d = bind get_pos (\<lambda>start. bind (di_skip d) (\<lambda>_. bind get_pos (\<lambda>pos. slice d start pos)))"

record di_ov_header =
  di_guid :: bytes
  di_rv_info :: bytes
  di_device_info :: bytes
  di_pub_key :: bytes
  di_cert_chain_hash :: bytes
  raw_cbor :: bytes

definition parse_ov_header_cbor :: "bytes \<Rightarrow> (unit, di_ov_header) outcome" where
  "parse_ov_header_cbor d = run (
     bind (next_byte d) (\<lambda>initial.
     bind (guard (major initial = 4) ()) (\<lambda>_.
     bind (di_decode_additional d (addl initial)) (\<lambda>count.
     bind (guard (\<not> count < 5) ()) (\<lambda>_.
     bind (di_read_uint d) (\<lambda>_.
     bind (di_read_bstr d) (\<lambda>guid_bytes.
     bind (guard (length guid_bytes = 16) ()) (\<lambda>_.
     bind (di_capture d) (\<lambda>rv_info.
     bind (di_read_tstr d) (\<lambda>device_info.
     bind (di_capture d) (\<lambda>pub_key.
     bind (if count \<ge> 6 then
         bind get_pos (\<lambda>pos.
         if pos < length d \<and> d ! pos = 0xf6 then bind (set_pos (Suc pos)) (\<lambda>_. ret [0xf6])
         else di_capture d)
       else ret []) (\<lambda>cert_chain_hash.
     ret \<lparr>di_guid = guid_bytes, di_rv_info = rv_info, di_device_info = device_info, di_pub_key = pub_key,
       di_cert_chain_hash = cert_chain_hash, raw_cbor = d\<rparr>))))))))))))"

definition parse_di_set_credentials :: "bytes \<Rightarrow> (unit, di_ov_header) outcome" where
  "parse_di_set_credentials d = run (
     bind (next_byte d) (\<lambda>b.
     bind (guard (b = 0x83) ()) (\<lambda>_.
     bind (di_read_bstr d) (\<lambda>_.
     bind (cbor_skip d) (\<lambda>_.
     bind (di_read_bstr d) (\<lambda>ov_header_raw.
     lift (parse_ov_header_cbor ov_header_raw)))))))"

text \<open>\<open>OVHeader::to_cbor\<close>: six fields behind the head of an array of five.\<close>

definition ov_header_to_cbor :: "di_ov_header \<Rightarrow> bytes" where
  "ov_header_to_cbor v =
     [0x85, 0x18, 200, 0x50] @ di_guid v @ di_str_head 2 (length (di_rv_info v)) @ di_rv_info v
     @ di_str_head 3 (length (di_device_info v)) @ di_device_info v
     @ di_str_head 2 (length (di_pub_key v)) @ di_pub_key v
     @ di_str_head 2 (length (di_cert_chain_hash v)) @ di_cert_chain_hash v"

section \<open>Error messages of the server\<close>

text \<open>They are only logged; what matters is that decoding them cannot panic. \<open>&body[pos..]\<close> is \<open>slice_at\<close> to the end.\<close>

definition cbor_decode_uint :: "bytes \<Rightarrow> nat \<times> nat" where
  "cbor_decode_uint d = (case d of [] \<Rightarrow> (0, 0) | b # _ \<Rightarrow>
     let additional = addl b in
     if additional \<le> 23 then (additional, 1)
     else if additional = 24 then (if length d < 2 then (0, 1) else (be_val (take 1 (drop 1 d)), 2))
     else if additional = 25 then (if length d < 3 then (0, 1) else (be_val (take 2 (drop 1 d)), 3))
     else if additional = 26 then (if length d < 5 then (0, 1) else (be_val (take 4 (drop 1 d)), 5))
     else (0, 1))"

definition cbor_decode_tstr :: "bytes \<Rightarrow> (unit, bytes \<times> nat) outcome" where
  "cbor_decode_tstr d = (case d of [] \<Rightarrow> Ret ([], 0) | b # _ \<Rightarrow>
     let additional = addl b in
     case (if additional \<le> 23 then Some (additional, 1)
       else if additional = 24 then (if length d < 2 then None else Some (be_val (take 1 (drop 1 d)), 2))
       else if additional = 25 then (if length d < 3 then None else Some (be_val (take 2 (drop 1 d)), 3))
       else None) of
       None \<Rightarrow> Ret ([], 1)
     | Some (str_len, header_len) \<Rightarrow>
         if length d < header_len + str_len then Ret ([], length d)
         else obind (slice_at d header_len (header_len + str_len)) (\<lambda>s.
           Ret (case from_utf8 s of Some t \<Rightarrow> t | None \<Rightarrow> ascii ''(invalid utf8)'', header_len + str_len)))"

definition tail_from :: "bytes \<Rightarrow> nat \<Rightarrow> (unit, bytes) outcome" where
  "tail_from d p = slice_at d p (length d)"

definition decode_error_field :: "bytes \<Rightarrow> nat \<Rightarrow> (unit, nat \<times> nat) outcome" where
  "decode_error_field body pos =
     (if pos < length body then obind (tail_from body pos) (\<lambda>t. let (v, n) = cbor_decode_uint t in Ret (v, pos + n))
      else Ret (0, pos))"

definition decode_fdo_error :: "bytes \<Rightarrow> (unit, (nat \<times> nat \<times> bytes) option) outcome" where
  "decode_fdo_error body =
     (if body = [] then Ret None
      else if major (hd body) \<noteq> 4 then Ret None
      else obind (decode_error_field body 1) (\<lambda>(error_code, pos).
        obind (decode_error_field body pos) (\<lambda>(prev_msg, pos).
        obind (if pos < length body then
            (if major (body ! pos) = 3 then obind (tail_from body pos) (\<lambda>t. obind (cbor_decode_tstr t) (\<lambda>(s, _). Ret s))
             else Ret (ascii ''(not a text string)''))
          else Ret (ascii ''(missing)'')) (\<lambda>error_str.
        Ret (Some (error_code, prev_msg, error_str))))))"

section \<open>The stored credentials\<close>

text \<open>The length of the device name is written as one byte.\<close>

definition build_dctpm :: "crypto \<Rightarrow> di_ov_header \<Rightarrow> nat \<Rightarrow> nat \<Rightarrow> (unit, bytes) outcome" where
  "build_dctpm cr v dak_handle hmac_handle =
     obind (rv_min_firmware_rev (di_rv_info v)) (\<lambda>min_rev.
     let len = length (di_device_info v) in
     Ret ([0x8b, 0x1a, 0x46, 0x44, 0x4F, 0x31, 0xf5, 0x18, 200]
       @ (if len < 24 then [0x60 OR u8 len] else [0x78, u8 len]) @ di_device_info v
       @ [0x50] @ di_guid v
       @ di_rv_info v
       @ [0x82, 0x2F, 0x58, 32] @ sha256 cr (di_pub_key v)
       @ [0x00]
       @ [0x1a] @ be 4 dak_handle
       @ [0x1a] @ be 4 hmac_handle
       @ encode_uint min_rev))"

section \<open>The certificate request\<close>

definition build_x509_name_cn :: "bytes \<Rightarrow> bytes" where
  "build_x509_name_cn cn =
     (let body = [0x06, 0x03, 0x55, 0x04, 0x03] @ [0x0c, u8 (length cn)] @ cn;
          atv = [0x30, u8 (length body)] @ body;
          rdn = [0x31, u8 (length atv)] @ atv in
      [0x30, u8 (length rdn)] @ rdn)"

definition alg_id :: bytes where
  "alg_id = [0x30, 0x13, 0x06, 0x07, 0x2a, 0x86, 0x48, 0xce, 0x3d, 0x02, 0x01, 0x06, 0x08, 0x2a, 0x86, 0x48, 0xce, 0x3d, 0x03, 0x01, 0x07]"

definition build_ec_spki :: "bytes \<Rightarrow> bytes \<Rightarrow> bytes" where
  "build_ec_spki x y =
     (let point_len = 1 + length x + length y; bit_string_len = 1 + point_len; spki_len = length alg_id + 2 + bit_string_len in
      [0x30, u8 spki_len] @ alg_id @ [0x03, u8 bit_string_len, 0x00, 0x04] @ x @ y)"

definition build_csr_tbs :: "bytes \<Rightarrow> bytes \<Rightarrow> bytes \<Rightarrow> bytes" where
  "build_csr_tbs cn x y =
     (let content = [0x02, 0x01, 0x00] @ build_x509_name_cn cn @ build_ec_spki x y @ [0xa0, 0x00]; seq_len = length content in
      if seq_len < 128 then [0x30, u8 seq_len] @ content else [0x30, 0x81, u8 seq_len] @ content)"

text \<open>Leading zeros are dropped, but for the last byte; on no bytes at all the length wraps and the index panics.\<close>

fun strip_zeros :: "bytes \<Rightarrow> bytes" where
  "strip_zeros (b # c # bs) = (if b = 0 then strip_zeros (c # bs) else b # c # bs)"
| "strip_zeros bs = bs"

definition encode_integer :: "bytes \<Rightarrow> (unit, bytes) outcome" where
  "encode_integer bs =
     (if bs = [] then Panic
      else let v = strip_zeros bs; need_pad = (hd v AND 0x80 \<noteq> 0); len = length v + (if need_pad then 1 else 0) in
        Ret ([0x02, u8 len] @ (if need_pad then [0x00] else []) @ v))"

definition encode_ecdsa_signature :: "bytes \<Rightarrow> (unit, bytes) outcome" where
  "encode_ecdsa_signature sg =
     (let half = length sg div 2 in
      obind (encode_integer (take half sg)) (\<lambda>r_der.
      obind (encode_integer (drop half sg)) (\<lambda>s_der.
      Ret ([0x30, u8 (length r_der + length s_der)] @ r_der @ s_der))))"

definition sig_alg :: bytes where
  "sig_alg = [0x30, 0x0a, 0x06, 0x08, 0x2a, 0x86, 0x48, 0xce, 0x3d, 0x04, 0x03, 0x02]"

definition assemble_csr_der :: "bytes \<Rightarrow> bytes \<Rightarrow> (unit, bytes) outcome" where
  "assemble_csr_der tbs sg =
     obind (encode_ecdsa_signature sg) (\<lambda>sig_der.
     let content = tbs @ sig_alg @ [0x03, u8 (length sig_der + 1), 0x00] @ sig_der; total_len = length content in
     Ret (if total_len < 128 then [0x30, u8 total_len] @ content
       else if total_len < 256 then [0x30, 0x81, u8 total_len] @ content
       else [0x30, 0x82, u8 (total_len div 2 ^ 8), u8 total_len] @ content))"

definition generate_csr :: "crypto \<Rightarrow> tcg2 \<Rightarrow> bytes \<Rightarrow> bytes \<Rightarrow> bytes \<Rightarrow> nat \<Rightarrow> (unit, bytes) tpm" where
  "generate_csr cr tcg cn x y sign_handle =
     (let tbs = build_csr_tbs cn x y in
      bind (tpm_sign_ecdsa tcg sign_handle (sha256 cr tbs)) (\<lambda>sg.
      lift (assemble_csr_der tbs sg)))"

section \<open>Totality\<close>

lemma decode_error_field_holds: "holds (decode_error_field body pos) (\<lambda>_. True) (\<lambda>_. False)"
  by (auto simp: decode_error_field_def tail_from_def slice_at_def get_range_def split: prod.splits)

lemma decode_fdo_error_total: "holds (decode_fdo_error body) (\<lambda>_. True) (\<lambda>_. False)"
proof -
  have "holds (cbor_decode_tstr t) (\<lambda>_. True) (\<lambda>_. False)" for t
    by (cases t) (auto simp: cbor_decode_tstr_def Let_def slice_at_def get_range_def split: option.splits)
  then show ?thesis
    unfolding decode_fdo_error_def tail_from_def
    by (auto simp: slice_at_def get_range_def split: prod.splits intro!: holds_conseq [OF decode_error_field_holds])
qed

lemma rv_scan_holds: "holds (rv_scan d) (\<lambda>v. v < 2 ^ 64) (\<lambda>_. True)"
proof -
  have instr: "wp (scan_instr d best) (\<lambda>v q. v < 2 ^ 64) (\<lambda>_ _. True) p" if "best < 2 ^ 64" for best p
  proof -
    have inner: "(case run (dctpm_head inner) of Ret (m', v) \<Rightarrow> if c \<and> m' = 0 then max best v else best | _ \<Rightarrow> best) < 2 ^ 64" for inner and c :: bool
    proof -
      have "wp (dctpm_head inner) (\<lambda>(m, v) _. v < 2 ^ 64) (\<lambda>_ _. True) 0" by (rule dctpm_head_wp) auto
      with that show ?thesis by (auto simp: wp_def run_def split: prod.splits outcome.splits)
    qed
    show ?thesis
      unfolding scan_instr_def
      by (auto intro!: dctpm_head_wp dctpm_skip_wp skip_items_wp inner [simplified] that [simplified] split: option.splits)
  qed
  have dir: "wp (repeat n (scan_instr d) best) (\<lambda>v q. v < 2 ^ 64) (\<lambda>_ _. True) p" if "best < 2 ^ 64" for n best p
    by (rule wp_repeat) (use instr that in auto)
  have "wp (repeat n (\<lambda>best. bind (dctpm_head d) (\<lambda>(m, instrs). bind (guard (m = 4) ()) (\<lambda>_. repeat instrs (scan_instr d) best))) 0)
      (\<lambda>v _. v < 2 ^ 64) (\<lambda>_ _. True) p" for n p
    by (rule wp_repeat) (auto intro!: dctpm_head_wp dir [simplified])
  then show ?thesis unfolding rv_scan_def by (auto intro!: dctpm_head_wp)
qed

lemma rv_min_firmware_rev_holds: "holds (rv_min_firmware_rev d) (\<lambda>v. v < 2 ^ 64) (\<lambda>_. False)"
  using rv_scan_holds [of d] by (cases "rv_scan d") (simp_all add: rv_min_firmware_rev_def)

section \<open>Encoded answers\<close>

interpretation di_cbor: arg_reader di_decode_additional "2 ^ 32"
  by unfold_locales
    (auto simp: di_decode_additional_def bind_def take_bytes_def get_range_def at_def take_Suc_conv_app_nth hd_drop_conv_nth)

interpretation di_cbor: item_skipper di_decode_additional "2 ^ 32" di_skip_fuel
proof unfold_locales
  fix p d v q k
  assume "p < length d" "major (d ! p) = 5" "di_decode_additional d (addl (d ! p)) (Suc p) = (Ret v, q)"
  then show "di_skip_fuel (Suc k) d p = repeat (2 * v) (\<lambda>_. di_skip_fuel k d) () q"
    by (simp add: bind_def next_byte_def repeat_twice)
qed (auto simp: bind_def next_byte_def di_decode_additional_def)

lemma di_capture_at:
  assumes "at d p (enc c)" and "fits (2 ^ 32) c" and "length d < 2 ^ 63"
  shows "di_capture d p = (Ret (enc c), p + length (enc c))"
proof -
  have "di_skip d p = (Ret (), p + length (enc c))"
    unfolding di_skip_def by (rule di_cbor.skip_exact) (use assms depth_le [of c] at_bound [OF assms(1)] in auto)
  with at_get_range [OF assms(1)] show ?thesis by (simp add: di_capture_def bind_def slice_def)
qed

lemma di_read_bstr_at:
  assumes "at d p (enc (Bstr bs))" and "length bs < 2 ^ 32"
  shows "di_read_bstr d p = (Ret bs, p + length (enc (Bstr bs)))"
  using assms di_cbor.read_head [of d p 2 "length bs"]
  by (auto simp: di_read_bstr_def bind_def next_byte_def at_take_bytes add.assoc)

lemma di_read_tstr_at:
  assumes "at d p (enc (Tstr bs))" and "length bs < 2 ^ 32" and "utf8_valid bs"
  shows "di_read_tstr d p = (Ret bs, p + length (enc (Tstr bs)))"
  using assms di_cbor.read_head [of d p 3 "length bs"]
  by (auto simp: di_read_tstr_def bind_def next_byte_def at_take_bytes add.assoc from_utf8_def)

lemma di_read_uint_at:
  assumes "at d p (enc (Uint n))" and "n < 2 ^ 32"
  shows "di_read_uint d p = (Ret n, p + length (enc (Uint n)))"
  using assms di_cbor.read_head [of d p 0 n]
  by (auto simp: di_read_uint_def bind_def next_byte_def)


text \<open>The answer of the manufacturer: capability flags, vendor flags, and the header in a byte string.\<close>

definition ov_header_item :: "nat \<Rightarrow> bytes \<Rightarrow> cbor \<Rightarrow> bytes \<Rightarrow> cbor \<Rightarrow> cbor \<Rightarrow> cbor" where
  "ov_header_item ver guid rv info pk ch = Arr [Uint ver, Bstr guid, rv, Tstr info, pk, ch]"

lemma parse_di_ov_header_at:
  assumes "d = enc (ov_header_item ver guid rv info pk ch)" and "length d < 2 ^ 32" and "ver < 2 ^ 32" and "length guid = 16"
    and "fits (2 ^ 32) rv" and "fits (2 ^ 32) pk" and "fits (2 ^ 32) ch" and "utf8_valid info" and "ch = Simple 22 \<or> ch = Arr hs"
  shows "parse_ov_header_cbor d = Ret \<lparr>di_guid = guid, di_rv_info = enc rv, di_device_info = info, di_pub_key = enc pk,
    di_cert_chain_hash = enc ch, raw_cbor = d\<rparr>"
proof -
  define p1 where "p1 = length (enc_head 4 6)"
  define p2 where "p2 = p1 + length (enc (Uint ver))"
  define p3 where "p3 = p2 + length (enc (Bstr guid))"
  define p4 where "p4 = p3 + length (enc rv)"
  define p5 where "p5 = p4 + length (enc (Tstr info))"
  define p6 where "p6 = p5 + length (enc pk)"
  let ?e = "enc_head 4 6 @ enc (Uint ver) @ enc (Bstr guid) @ enc rv @ enc (Tstr info) @ enc pk @ enc ch"
  have "d = ?e" unfolding assms(1) ov_header_item_def by (simp add: numeral_eq_Suc)
  then have "at d 0 ?e" using at_whole [of d] by (rule subst)
  then have a: "at d 0 (enc_head 4 6)" "at d p1 (enc (Uint ver))" "at d p2 (enc (Bstr guid))" "at d p3 (enc rv)" "at d p4 (enc (Tstr info))"
      "at d p5 (enc pk)" "at d p6 (enc ch)"
    unfolding p1_def p2_def p3_def p4_def p5_def p6_def by (simp_all only: at_append add.assoc add_0 length_append)
  have len: "length d < 2 ^ 63" "length info < 2 ^ 32" using assms(2) at_bound [OF a(5)] by simp_all
  have r: "di_read_uint d p1 = (Ret ver, p2)" "di_read_bstr d p2 = (Ret guid, p3)" "di_capture d p3 = (Ret (enc rv), p4)"
      "di_read_tstr d p4 = (Ret info, p5)" "di_capture d p5 = (Ret (enc pk), p6)" "di_capture d p6 = (Ret (enc ch), p6 + length (enc ch))"
    using di_read_uint_at [OF a(2) assms(3)] di_read_bstr_at [OF a(3)] di_capture_at [OF a(4) assms(5) len(1)] di_read_tstr_at [OF a(5) len(2) assms(8)]
      di_capture_at [OF a(6) assms(6) len(1)] di_capture_at [OF a(7) assms(7) len(1)] assms(4)
    unfolding p2_def p3_def p4_def p5_def p6_def by simp_all
  have null: "enc (Simple 22) = [0xf6]" by (simp add: enc_head_def head_byte_plus)
  have hash: "d ! p6 = 0xf6 \<Longrightarrow> enc ch = [0xf6]"
  proof (rule ccontr)
    assume h: "d ! p6 = 0xf6" "enc ch \<noteq> [0xf6]"
    with assms(9) null have "ch = Arr hs" by auto
    with a(7) assms(7) have "major (d ! p6) = 4" using di_cbor.read_head [of d p6 4 "length hs"] by simp
    with h(1) show False by (simp add: major_eq)
  qed
  from di_cbor.read_head [OF a(1)] r hash assms(4) show ?thesis
    by (simp add: parse_ov_header_cbor_def run_def bind_def next_byte_def p1_def)
qed

lemma parse_di_set_credentials_at:
  assumes "d = enc (Arr [Bstr flags, vendor, Bstr raw]) @ trail" and "length d < 2 ^ 32" and "fits (2 ^ 32) vendor"
  shows "parse_di_set_credentials d = parse_ov_header_cbor raw"
proof -
  define p2 where "p2 = 1 + length (enc (Bstr flags))"
  define p3 where "p3 = p2 + length (enc vendor)"
  let ?e = "[0x83] @ enc (Bstr flags) @ enc vendor @ enc (Bstr raw) @ trail"
  have "enc_head 4 3 = [0x83]" by (simp add: enc_head_def head_byte_plus)
  then have "d = ?e" unfolding assms(1) by (simp add: numeral_eq_Suc)
  then have "at d 0 ?e" using at_whole [of d] by (rule subst)
  then have a: "at d 0 [0x83]" "at d 1 (enc (Bstr flags))" "at d p2 (enc vendor)" "at d p3 (enc (Bstr raw))"
    unfolding p2_def p3_def by (simp_all only: at_append add.assoc add_0 length_append list.size One_nat_def add_Suc)
  have len: "length d < 2 ^ 63" "length flags < 2 ^ 32" "length raw < 2 ^ 32" using assms(2) at_bound [OF a(2)] at_bound [OF a(4)] by simp_all
  have r: "di_read_bstr d 1 = (Ret flags, p2)" "cbor_skip d p2 = (Ret (), p3)" "fst (di_read_bstr d p3) = Ret raw"
    using di_read_bstr_at [OF a(2) len(2)] cbor_skip_at [OF a(3) assms(3) len(1)] di_read_bstr_at [OF a(4) len(3)]
    by (simp_all add: p2_def p3_def)
  then obtain q where "di_read_bstr d p3 = (Ret raw, q)" by (metis prod.collapse)
  with r a(1) show ?thesis
    by (simp add: parse_di_set_credentials_def run_def bind_def next_byte_def lift_def)
qed

text \<open>The bytes that are stored are the encoding of a DCTPM array.\<close>

lemma build_dctpm_at:
  assumes "rv_min_firmware_rev (enc rv) = Ret m" and "length (di_device_info v) < 256" and "length (di_guid v) = 16" and "di_rv_info v = enc rv"
    and "length (sha256 cr (di_pub_key v)) = 32" and "dk \<in> {2 ^ 16..<2 ^ 32}" and "hk \<in> {2 ^ 16..<2 ^ 32}"
  shows "build_dctpm cr v dk hk = Ret (enc (dctpm_structure DCTPM_MAGIC (Simple 21) (Uint 200) (Tstr (di_device_info v)) (di_guid v) rv
    (Arr [Nint 15, Bstr (sha256 cr (di_pub_key v))]) (Uint 0) dk hk [Uint m]))"
proof -
  have m: "m < 2 ^ 64" using rv_min_firmware_rev_holds [of "enc rv"] assms(1) by simp
  have heads: "enc_head 4 11 = [0x8b]" "enc_head 0 DCTPM_MAGIC = [0x1a, 0x46, 0x44, 0x4F, 0x31]" "enc_head 7 21 = [0xf5]" "enc_head 0 200 = [0x18, 200]"
      "enc_head 2 16 = [0x50]" "enc_head 4 2 = [0x82]" "enc_head 1 15 = [0x2F]" "enc_head 2 32 = [0x58, 32]" "enc_head 0 0 = [0x00]"
    by (simp_all add: enc_head_def head_byte_plus DCTPM_MAGIC_def be_4 be_1)
  have handles: "enc_head 0 dk = 0x1a # be 4 dk" "enc_head 0 hk = 0x1a # be 4 hk"
    using assms(6,7) by (simp_all add: enc_head_def head_byte_plus)
  have name: "enc_head 3 n = (if n < 24 then [0x60 OR u8 n] else [0x78, u8 n])" if "n < 256" for n
    using that by (simp add: enc_head_def head_byte_def be_1)
  have two: "enc (Arr [Nint 15, Bstr h]) = enc_head 4 2 @ enc_head 1 15 @ enc_head 2 (length h) @ h" for h
    by (simp add: numeral_eq_Suc)
  have n: "10 + length [Uint m] = 11" by simp
  show ?thesis
    unfolding enc_dctpm_structure two n build_dctpm_def Let_def
    using assms m by (simp add: heads heads(7) [unfolded One_nat_def] handles name encode_uint_def dctpm_encode_head_enc)
qed


lemma min_firmware_rev_eleven:
  assumes "length ten = 10" and "\<forall>c\<in>set (ten @ Uint m # rest). fits (2 ^ 64) c" and "length (enc (Arr (ten @ Uint m # rest)) @ pad) < 2 ^ 63"
  shows "min_firmware_rev (enc (Arr (ten @ Uint m # rest)) @ pad) = Ret m"
proof -
  let ?items = "ten @ Uint m # rest"
  have m: "m < 2 ^ 64" using assms(2) by simp
  have "with_min_firmware_rev (enc (Arr ?items) @ pad) m = Ret (enc (Arr (take 10 ?items @ Uint m # drop 11 ?items)))"
    by (rule with_min_firmware_rev_items [OF refl _ assms(2,3) m]) (simp add: assms(1))
  moreover have "take 10 ?items @ Uint m # drop 11 ?items = ?items" using assms(1) by simp
  ultimately show ?thesis using written_rev_read [OF _ m assms(3)] by metis
qed

section \<open>Properties\<close>

text \<open>C17: what device initialisation stores is what onboarding reads: from the manufacturer's answer the header is taken with its exact bytes
  (over which the HMAC is computed), and from the structure stored, padded as it is written to the index, \<open>tpm.rs\<close> reads the GUID of the answer and the
  two key handles, and \<open>dctpm.rs\<close> the minimum revision of its rendezvous information.\<close>

theorem di_credentials_usable:
  assumes "d = enc (Arr [Bstr flags, vendor, Bstr raw]) @ trail" and "raw = enc (ov_header_item ver guid rv info pk ch)" and "length d < 2 ^ 30"
    and "fits (2 ^ 32) vendor" and "ver < 2 ^ 32" and "length guid = 16" and "fits (2 ^ 32) rv" and "fits (2 ^ 32) pk" and "fits (2 ^ 32) ch"
    and "utf8_valid info" and "length info < 256" and "ch = Simple 22 \<or> ch = Arr hs" and "length (sha256 cr (enc pk)) = 32"
    and "dk \<in> {2 ^ 16..<2 ^ 32}" and "hk \<in> {2 ^ 16..<2 ^ 32}"
  shows "\<exists>v s m. parse_di_set_credentials d = Ret v \<and> raw_cbor v = raw \<and> build_dctpm cr v dk hk = Ret s \<and>
    rv_min_firmware_rev (enc rv) = Ret m \<and> min_firmware_rev (dctpm_padded s) = Ret m \<and>
    parse_credentials (dctpm_padded s) = Ret \<lparr>cred_guid = guid, device_key_handle = dk, hmac_key_handle = hk\<rparr>"
proof -
  define v where "v = \<lparr>di_guid = guid, di_rv_info = enc rv, di_device_info = info, di_pub_key = enc pk, di_cert_chain_hash = enc ch, raw_cbor = raw\<rparr>"
  have l: "length raw + length flags < 2 ^ 30" "length (enc rv) < 2 ^ 30" using assms(1-3) by (simp_all add: ov_header_item_def)
  have parse: "parse_di_set_credentials d = Ret v"
    using parse_di_set_credentials_at [OF assms(1) _ assms(4)] parse_di_ov_header_at [OF assms(2) _ assms(5-10,12)] assms(3) l by (simp add: v_def)
  obtain m where m: "rv_min_firmware_rev (enc rv) = Ret m" "m < 2 ^ 64"
    using holds_Ret [OF rv_min_firmware_rev_holds [of "enc rv"]] by blast
  let ?h = "Arr [Nint 15, Bstr (sha256 cr (enc pk))]"
  let ?c = "dctpm_structure DCTPM_MAGIC (Simple 21) (Uint 200) (Tstr info) guid rv ?h (Uint 0) dk hk [Uint m]"
  have s: "build_dctpm cr v dk hk = Ret (enc ?c)"
    using build_dctpm_at [OF m(1), of v cr dk hk] assms(6,11,13-15) by (simp add: v_def)
  obtain pad where pad: "dctpm_padded (enc ?c) = enc ?c @ pad" "length pad \<le> 512"
    by (auto simp: dctpm_padded_def DCTPM_DEFAULT_SIZE_def)
  have "length (enc_head a b) \<le> 9" for a b by (simp add: enc_head_def)
  note h = this [of 4 11] this [of 0 DCTPM_MAGIC] this [of 7 21] this [of 0 200] this [of 3 "length info"] this [of 2 16] this [of 4 2] this [of 1 15]
    this [of 2 32] this [of 0 0] this [of 0 dk] this [of 0 hk] this [of 0 m]
  have "enc ?h = enc_head 4 2 @ enc_head 1 15 @ enc_head 2 32 @ sha256 cr (enc pk)" using assms(13) by (simp add: numeral_eq_Suc)
  then have "length (enc ?c) < 2 ^ 31"
    unfolding enc_dctpm_structure using h l(2) assms(6,11,13) by simp
  then have len: "length (enc ?c @ pad) < 2 ^ 32" using pad(2) by simp
  have cred: "parse_credentials (enc ?c @ pad) = Ret \<lparr>cred_guid = guid, device_key_handle = dk, hmac_key_handle = hk\<rparr>"
    using parse_credentials_at [OF refl len] assms(6,7,11,13-15) by (simp add: DCTPM_MAGIC_def)
  let ?ten = "[Uint DCTPM_MAGIC, Simple 21, Uint 200, Tstr info, Bstr guid, rv, ?h, Uint 0, Uint dk, Uint hk]"
  have "?c = Arr (?ten @ Uint m # [])" by (simp add: dctpm_structure_def)
  moreover have "\<forall>c\<in>set (?ten @ Uint m # []). fits (2 ^ 64) c"
    using fits_mono [OF assms(7), of "2 ^ 64"] assms(6,11,13-15) m(2) by (simp add: DCTPM_MAGIC_def)
  ultimately have "min_firmware_rev (enc ?c @ pad) = Ret m"
    using min_firmware_rev_eleven [of ?ten m "[]" pad] len by simp
  with parse s m(1) cred pad(1) show ?thesis by (auto simp: v_def)
qed

theorem di_credentials_usable_witness:
  "\<exists>v s m. parse_di_set_credentials (enc (Arr [Bstr [4], Arr [], Bstr (enc (ov_header_item 200 (replicate 16 7) (Arr []) [0x64] (Uint 1) (Simple 22)))]) @ []) = Ret v \<and>
    build_dctpm toy_crypto v 0x81020002 0x81020003 = Ret s \<and>
    parse_credentials (dctpm_padded s) = Ret \<lparr>cred_guid = replicate 16 7, device_key_handle = 0x81020002, hmac_key_handle = 0x81020003\<rparr>"
proof -
  have len: "length (enc (Arr [Bstr [4], Arr [], Bstr (enc (ov_header_item 200 (replicate 16 7) (Arr []) [0x64] (Uint 1) (Simple 22)))]) @ []) < 2 ^ 30"
    by (simp add: ov_header_item_def enc_head_def)
  have u: "utf8_valid [0x64]" by (simp add: in_range_def)
  have "length (sha256 toy_crypto (enc (Uint 1))) = 32" by (simp add: toy_crypto_def)
  with di_credentials_usable [OF refl refl len, where cr = toy_crypto and dk = "0x81020002" and hk = "0x81020003" and hs = "[]"] u
  show ?thesis by (simp del: enc.simps) blast
qed

text \<open>Signatures: leading zeros are dropped and a sign byte is added, which does not change the value.\<close>

lemma strip_zeros_val: "be_val (strip_zeros bs) = be_val bs" "length (strip_zeros bs) \<le> length bs" "bs \<noteq> [] \<Longrightarrow> strip_zeros bs \<noteq> []"
  by (induction bs rule: strip_zeros.induct) auto

lemma encode_integer_tlv:
  assumes "bs \<noteq> []" and "length bs \<le> 32"
  shows "\<exists>v. encode_integer bs = Ret (tlv 0x02 v) \<and> be_val v = be_val bs \<and> length v \<le> 33"
proof -
  let ?v = "strip_zeros bs"
  let ?p = "if hd ?v AND 0x80 \<noteq> 0 then [0] else [] :: bytes"
  have "length (?p @ ?v) \<le> 33" "length (?p @ ?v) < 128" using strip_zeros_val(2) [of bs] assms(2) by auto
  moreover have "be_val (?p @ ?v) = be_val bs" using strip_zeros_val(1) [of bs] by (simp add: be_val_append)
  ultimately show ?thesis
    using assms(1) by (intro exI [of _ "?p @ ?v"]) (auto simp: encode_integer_def Let_def tlv_def der_len_def be_1)
qed

lemma tlv_one_byte_length: "length c < 128 \<Longrightarrow> tlv t c = [t, u8 (length c)] @ c"
  by (simp add: tlv_def der_len_def be_1)

text \<open>The signature in the certificate request is the one the TPM made: the DER form the device writes is converted by the
  verifier's side of this program back to the same 64 bytes.\<close>

theorem csr_signature_roundtrip:
  assumes "length sg = 64"
  shows "\<exists>der. encode_ecdsa_signature sg = Ret der \<and> ecdsa_der_to_rs der = Ret sg"
proof -
  let ?r = "take 32 sg" and ?s = "drop 32 sg"
  have "?r \<noteq> []" "?s \<noteq> []" "length ?r \<le> 32" "length ?s \<le> 32" using assms by auto
  then obtain r s where r: "encode_integer ?r = Ret (tlv 0x02 r)" "be_val r = be_val ?r" "length r \<le> 33"
      and s: "encode_integer ?s = Ret (tlv 0x02 s)" "be_val s = be_val ?s" "length s \<le> 33"
    using encode_integer_tlv by metis
  let ?c = "tlv 0x02 r @ tlv 0x02 s"
  have short: "length ?c < 128" using r(3) s(3) by (simp add: tlv_def der_len_def)
  have "encode_ecdsa_signature sg = Ret (tlv 0x30 ?c)"
    unfolding tlv_one_byte_length [OF short] using r(1) s(1) short assms by (simp add: encode_ecdsa_signature_def Let_def)
  moreover have "ecdsa_der_to_rs (tlv 0x30 ?c) = Ret (be 32 (be_val r) @ be 32 (be_val s))"
    by (rule ecdsa_der_to_rs_at [OF refl]) (use short in \<open>simp add: tlv_one_byte_length\<close>)
  moreover have "be 32 (be_val ?r) = ?r" "be 32 (be_val ?s) = ?s" using be_be_val [of ?r] be_be_val [of ?s] assms by simp_all
  ultimately show ?thesis using r(2) s(2) by (metis append_take_drop_id)
qed

theorem csr_signature_roundtrip_witness:
  "\<exists>der. encode_ecdsa_signature (replicate 64 0x80) = Ret der \<and> ecdsa_der_to_rs der = Ret (replicate 64 0x80)"
  by (rule csr_signature_roundtrip) simp

text \<open>
  Where the code leaves its formats. A device name of 256 bytes is announced with length 0 in the stored structure; the skipper
  passes over a string that is longer than the answer, and the slice behind it panics; and the encoder of the header announces
  five items for six.
\<close>

lemma long_device_name:
  assumes "length (di_device_info v) = 256" and "rv_min_firmware_rev (di_rv_info v) = Ret m"
  shows "\<exists>rest. build_dctpm cr v dk hk = Ret ([0x8b, 0x1a, 0x46, 0x44, 0x4F, 0x31, 0xf5, 0x18, 200, 0x78, 0] @ di_device_info v @ rest)"
  using assms by (simp add: build_dctpm_def Let_def)

lemma overlong_item_panics: "fst (di_capture [0x43, 1] 0) = Panic"
  by (simp add: di_capture_def di_skip_def bind_def next_byte_def di_decode_additional_def major_eq addl_eq slice_def get_range_def)

lemma ov_header_array_of_five:
  assumes "length g = 16" and "length rv < 24" and "length info < 24" and "length pk < 24" and "length ch < 24"
  shows "ov_header_to_cbor \<lparr>di_guid = g, di_rv_info = rv, di_device_info = info, di_pub_key = pk, di_cert_chain_hash = ch, raw_cbor = r\<rparr> =
    0x85 # enc (Uint 200) @ enc (Bstr g) @ enc (Bstr rv) @ enc (Tstr info) @ enc (Bstr pk) @ enc (Bstr ch)"
  using assms by (simp add: ov_header_to_cbor_def di_str_head_def enc_head_def be_1 head_byte_def)

end
