(* ===== verification/Rv_Parse.thy ===== *)
theory Rv_Parse
  imports Tpm_Cred
begin

text \<open>
  \<open>src/src/rv_firmware/rv_parse.rs\<close>: where to find a firmware update. The file reads the same DCTPM structure as
  \<open>tpm.rs\<close> with helpers of its own and extracts, beside the server address, the firmware path, explicit URLs and the
  minimum revision.

  Shown: the reader ends on every input and panics at most on an empty RvInfo string; from an encoded DCTPM it computes
  what the instructions say, one after the other; it disagrees with \<open>dctpm.rs\<close> about several minimum revisions.
\<close>

section \<open>CBOR helpers\<close>

definition rvf_uint_arg :: "bytes \<Rightarrow> nat \<Rightarrow> (unit, nat) parser" where
  "rvf_uint_arg d additional =
     (if additional < 24 then ret additional
      else if additional = 24 then bind (take_bytes d 1) (\<lambda>b. ret (be_val b))
      else if additional = 25 then bind (take_bytes d 2) (\<lambda>b. ret (be_val b))
      else if additional = 26 then bind (take_bytes d 4) (\<lambda>b. ret (be_val b))
      else throw ())"

definition rvf_uint_at :: "bytes \<Rightarrow> (unit, nat) parser" where
  "rvf_uint_at d =
     bind (next_byte d) (\<lambda>b.
     bind (guard (major b = 0) ()) (\<lambda>_.
     rvf_uint_arg d (addl b)))"

fun rvf_skip_fuel :: "nat \<Rightarrow> bytes \<Rightarrow> (unit, unit) parser" where
  "rvf_skip_fuel 0 d = diverge"
| "rvf_skip_fuel (Suc k) d =
     bind (next_byte d) (\<lambda>b.
     bind (rvf_uint_arg d (addl b)) (\<lambda>arg.
     if major b = 0 \<or> major b = 1 then ret ()
     else if major b = 2 \<or> major b = 3 then
       bind get_pos (\<lambda>pos.
       bind (guard (\<not> pos + arg > length d) ()) (\<lambda>_.
       set_pos (pos + arg)))
     else if major b = 4 then repeat arg (\<lambda>_. rvf_skip_fuel k d) ()
     else if major b = 5 then repeat (arg * 2) (\<lambda>_. rvf_skip_fuel k d) ()
     else if major b = 6 then rvf_skip_fuel k d
     else ret ()))"

definition rvf_skip :: "bytes \<Rightarrow> (unit, unit) parser" where
  "rvf_skip d = rvf_skip_fuel (Suc (length d)) d"

text \<open>\<open>for _ in 0..n { skip_cbor_value(data, pos); }\<close>, the results ignored.\<close>

definition rvf_skip_ignored :: "nat \<Rightarrow> bytes \<Rightarrow> (unit, unit) parser" where
  "rvf_skip_ignored n d = repeat n (\<lambda>_. bind (attempt (rvf_skip d)) (\<lambda>_. ret ())) ()"

text \<open>A byte string; anything else is passed over, a text string without a bound, and gives \<open>None\<close>.\<close>

definition rvf_bstr_raw :: "bytes \<Rightarrow> (unit, bytes) parser" where
  "rvf_bstr_raw d =
     bind (next_byte d) (\<lambda>b.
     if major b \<noteq> 2 then
       bind (rvf_uint_arg d (addl b)) (\<lambda>arg.
       bind (if major b = 3 then bind get_pos (\<lambda>pos. set_pos (pos + arg))
         else if major b = 4 then rvf_skip_ignored arg d
         else if major b = 5 then rvf_skip_ignored (arg * 2) d
         else ret ()) (\<lambda>_. throw ()))
     else bind (rvf_uint_arg d (addl b)) (\<lambda>len. take_bytes d len))"

definition rvf_decode_text :: "bytes \<Rightarrow> (unit, bytes) outcome" where
  "rvf_decode_text d = run (
     bind (next_byte d) (\<lambda>b.
     bind (guard (major b = 3) ()) (\<lambda>_.
     bind (rvf_uint_arg d (addl b)) (\<lambda>len.
     bind (take_bytes d len) (\<lambda>s.
     of_option () (from_utf8 s))))))"

definition rvf_decode_bstr :: "bytes \<Rightarrow> (unit, bytes) outcome" where
  "rvf_decode_bstr d = run (
     bind (next_byte d) (\<lambda>b.
     bind (guard (major b = 2) ()) (\<lambda>_.
     bind (rvf_uint_arg d (addl b)) (\<lambda>len.
     take_bytes d len))))"

definition rvf_decode_uint :: "bytes \<Rightarrow> (unit, nat) outcome" where
  "rvf_decode_uint d = run (rvf_uint_at d)"

section \<open>Firmware information\<close>

definition RV_FIRMWARE_PATH :: nat where "RV_FIRMWARE_PATH = 16"
definition RV_FIRMWARE_URL :: nat where "RV_FIRMWARE_URL = 17"
definition DEFAULT_FIRMWARE_PATH :: bytes where "DEFAULT_FIRMWARE_PATH = ascii ''fdo-firmware''"
definition DEFAULT_FIRMWARE_FILENAME :: bytes where "DEFAULT_FIRMWARE_FILENAME = ascii ''payload.cose''"

record rv_firmware_info =
  firmware_urls :: "bytes list"
  firmware_path :: "bytes option"
  info_min_rev :: "nat option"
  server_url :: "bytes option"

definition firmware_url :: "rv_firmware_info \<Rightarrow> bytes option" where
  "firmware_url i = (case firmware_urls i of
     url # _ \<Rightarrow> Some url
   | [] \<Rightarrow> (case server_url i of
       Some base \<Rightarrow> Some (base @ ascii ''/'' @ (case firmware_path i of Some p \<Rightarrow> p | None \<Rightarrow> DEFAULT_FIRMWARE_PATH) @ ascii ''/'' @ DEFAULT_FIRMWARE_FILENAME)
     | None \<Rightarrow> None))"

definition no_info :: rv_firmware_info where
  "no_info = \<lparr>firmware_urls = [], firmware_path = None, info_min_rev = None, server_url = None\<rparr>"

type_synonym rvf_state = "rv_directive \<times> rv_firmware_info"

text \<open>The value of one instruction; values that do not decode change nothing.\<close>

definition rvf_variable :: "nat \<Rightarrow> bytes \<Rightarrow> rvf_state \<Rightarrow> (unit, rvf_state) outcome" where
  "rvf_variable var_id v s = (case s of (r, i) \<Rightarrow>
     if var_id = RV_DNS then handle (rvf_decode_text v) (\<lambda>t. Ret (r\<lparr>dns_name := Some t\<rparr>, i)) (\<lambda>_. Ret s)
     else if var_id = RV_IP_ADDRESS then
       handle (rvf_decode_bstr v) (\<lambda>b. Ret (case ipv4_of b of Some ip \<Rightarrow> r\<lparr>ip_addr := Some ip\<rparr> | None \<Rightarrow> r, i)) (\<lambda>_. Ret s)
     else if var_id = RV_DEV_PORT then handle (rvf_decode_uint v) (\<lambda>p. Ret (r\<lparr>rv_port := p mod 2 ^ 16\<rparr>, i)) (\<lambda>_. Ret s)
     else if var_id = RV_PROTOCOL then
       handle (rvf_decode_uint v) (\<lambda>p. Ret (if p mod 2 ^ 8 = RV_PROT_HTTP then r\<lparr>rv_scheme := ascii ''http''\<rparr>
         else if p mod 2 ^ 8 = RV_PROT_HTTPS then r\<lparr>rv_scheme := ascii ''https''\<rparr> else r, i)) (\<lambda>_. Ret s)
     else if var_id = RV_FIRMWARE_PATH then handle (rvf_decode_text v) (\<lambda>t. Ret (r, i\<lparr>firmware_path := Some t\<rparr>)) (\<lambda>_. Ret s)
     else if var_id = RV_FIRMWARE_URL then handle (rvf_decode_text v) (\<lambda>t. Ret (r, i\<lparr>firmware_urls := firmware_urls i @ [t]\<rparr>)) (\<lambda>_. Ret s)
     else if var_id = RV_MIN_FIRMWARE_REV then handle (rvf_decode_uint v) (\<lambda>n. Ret (r, i\<lparr>info_min_rev := Some n\<rparr>)) (\<lambda>_. Ret s)
     else Ret s)"

text \<open>One instruction; \<open>Stop\<close> is a \<open>break\<close>.\<close>

definition rvf_instruction :: "bytes \<Rightarrow> rvf_state \<Rightarrow> (unit, (rvf_state, rvf_state) flow) parser" where
  "rvf_instruction rv s =
     bind get_pos (\<lambda>pos.
     if pos \<ge> length rv then ret (Stop s)
     else bind (next_byte rv) (\<lambda>initial.
       if major initial \<noteq> 4 then bind (rvf_skip_ignored 1 rv) (\<lambda>_. ret (Next s))
       else bind (rvf_uint_arg rv (addl initial)) (\<lambda>instr_len.
         if instr_len < 2 then bind (rvf_skip_ignored instr_len rv) (\<lambda>_. ret (Next s))
         else bind (attempt (rvf_uint_at rv)) (\<lambda>var.
           let var_id = (case var of Some v \<Rightarrow> v | None \<Rightarrow> 255) mod 2 ^ 8 in
           bind (attempt (rvf_bstr_raw rv)) (\<lambda>value_bytes.
           bind (rvf_skip_ignored (instr_len - 2) rv) (\<lambda>_.
           case value_bytes of
             None \<Rightarrow> ret (Next s)
           | Some v \<Rightarrow> bind (lift (rvf_variable var_id v s)) (\<lambda>s'. ret (Next s'))))))))"

text \<open>The end of a directive: the first address found is kept.\<close>

definition close_directive :: "rvf_state \<Rightarrow> rv_firmware_info" where
  "close_directive s = (case s of (r, i) \<Rightarrow> if server_url i = None then i\<lparr>server_url := directive_url r\<rparr> else i)"

definition rvf_directive :: "bytes \<Rightarrow> rv_firmware_info \<Rightarrow> (unit, (rv_firmware_info, rv_firmware_info) flow) parser" where
  "rvf_directive rv i =
     bind get_pos (\<lambda>pos.
     if pos \<ge> length rv then ret (Stop i)
     else bind (next_byte rv) (\<lambda>initial.
       if major initial \<noteq> 4 then bind (rvf_skip_ignored 1 rv) (\<lambda>_. ret (Next i))
       else bind (rvf_uint_arg rv (addl initial)) (\<lambda>dir_len.
         bind (repeat_flow dir_len (rvf_instruction rv) (rv_default, i)) (\<lambda>f.
         ret (Next (close_directive (case f of Next s \<Rightarrow> s | Stop s \<Rightarrow> s)))))))"

definition usable_info :: "rv_firmware_info \<Rightarrow> (unit, rv_firmware_info) outcome" where
  "usable_info i = (if server_url i \<noteq> None \<or> firmware_urls i \<noteq> [] then Ret i else Err ())"

definition rvf_directives :: "bytes \<Rightarrow> (unit, rv_firmware_info) parser" where
  "rvf_directives rv =
     bind get_pos (\<lambda>pos.
     if pos \<ge> length rv then panic
     else bind (next_byte rv) (\<lambda>initial.
       bind (guard (major initial = 4) ()) (\<lambda>_.
       bind (rvf_uint_arg rv (addl initial)) (\<lambda>outer_len.
       bind (repeat_flow outer_len (rvf_directive rv) no_info) (\<lambda>f.
       lift (usable_info (case f of Next i \<Rightarrow> i | Stop i \<Rightarrow> i)))))))"

definition parse_rv_firmware_info_at :: "bytes \<Rightarrow> (unit, rv_firmware_info) parser" where
  "parse_rv_firmware_info_at d =
     bind get_pos (\<lambda>pos.
     if pos \<ge> length d then throw ()
     else if major (d ! pos) = 2 then bind (rvf_bstr_raw d) (\<lambda>bstr. lift (run (rvf_directives bstr)))
     else lift (fst (rvf_directives d pos)))"

definition rvf_map_entry :: "bytes \<Rightarrow> unit \<Rightarrow> (unit, (unit, rv_firmware_info option) flow) parser" where
  "rvf_map_entry d _ =
     bind get_pos (\<lambda>pos.
     if pos \<ge> length d then ret (Stop None)
     else bind (rvf_uint_at d) (\<lambda>key.
       if key = 5 then bind (parse_rv_firmware_info_at d) (\<lambda>i. ret (Stop (Some i)))
       else bind (rvf_skip_ignored 1 d) (\<lambda>_. ret (Next ()))))"

text \<open>The head of the structure is read as in \<open>tpm.rs\<close>.\<close>

definition parse_rv_firmware_info :: "bytes \<Rightarrow> (unit, rv_firmware_info) outcome" where
  "parse_rv_firmware_info d = run (
     bind (dctpm_items d) (\<lambda>(m, num_items).
     if m = 4 then
       bind (guard (\<not> num_items < 6) ()) (\<lambda>_.
       bind (repeat 5 (\<lambda>_. rvf_skip d) ()) (\<lambda>_.
       parse_rv_firmware_info_at d))
     else if m = 5 then
       bind (repeat_flow num_items (rvf_map_entry d) ()) (\<lambda>f. case f of Stop (Some i) \<Rightarrow> ret i | _ \<Rightarrow> throw ())
     else throw ()))"

section \<open>Totality\<close>

lemma rvf_uint_arg_eq: "rvf_uint_arg = skip_arg"
  by (simp add: fun_eq_iff rvf_uint_arg_def skip_arg_def)

lemmas rvf_uint_arg_wp = skip_arg_wp [folded rvf_uint_arg_eq]

lemma rvf_skip_fuel_wp:
  assumes "length d < p + k" and "0 < k"
  shows "wp (rvf_skip_fuel k d) (\<lambda>_ q. p < q) (\<lambda>_ q. p \<le> q) p"
  using assms
proof (induction k arbitrary: p)
  case (Suc k)
  show ?case
    by (auto intro!: rvf_uint_arg_wp wp_nested [OF Suc.IH Suc.prems(1)])
qed simp

lemma rvf_skip_wp:
  assumes "\<And>q. p < q \<Longrightarrow> Q () q" and "\<And>q. p \<le> q \<Longrightarrow> E () q"
  shows "wp (rvf_skip d) Q E p"
  unfolding rvf_skip_def by (rule wp_conseq [OF rvf_skip_fuel_wp]) (use assms in auto)

lemma rvf_skip_ignored_wp: "(\<And>q. Q () q) \<Longrightarrow> wp (rvf_skip_ignored n d) Q E p"
  unfolding rvf_skip_ignored_def
  by (rule wp_conseq [OF wp_repeat [where I = "\<lambda>_ _. True" and E = "\<lambda>_ _. False"]]) (auto intro!: rvf_skip_wp)

lemma rvf_bstr_raw_wp:
  assumes "\<And>v q. Q v q" and "\<And>q. E () q"
  shows "wp (rvf_bstr_raw d) Q E p"
  using assms unfolding rvf_bstr_raw_def by (auto intro!: rvf_uint_arg_wp rvf_skip_ignored_wp)

lemma rvf_decode_holds:
  "total (rvf_decode_text d)" "total (rvf_decode_bstr d)" "total (rvf_decode_uint d)"
  unfolding rvf_decode_text_def rvf_decode_bstr_def rvf_decode_uint_def rvf_uint_at_def
  by (auto intro!: rvf_uint_arg_wp split: option.splits)

lemma rvf_variable_holds: "holds (rvf_variable var v s) (\<lambda>_. True) (\<lambda>_. False)"
  using rvf_decode_holds [of v] unfolding rvf_variable_def by (cases s) auto

lemma rvf_instruction_wp: "wp (rvf_instruction rv s) (\<lambda>_ _. True) (\<lambda>_ _. True) p"
  unfolding rvf_instruction_def Let_def rvf_uint_at_def
  by (auto intro!: rvf_uint_arg_wp rvf_bstr_raw_wp rvf_skip_ignored_wp holds_conseq [OF rvf_variable_holds] split: option.splits)

lemma wp_repeat_flow_True:
  assumes "\<And>s p. wp (body s) (\<lambda>_ _. True) (\<lambda>_ _. True) p"
  shows "wp (repeat_flow n body s) (\<lambda>_ _. True) (\<lambda>_ _. True) p"
  by (rule wp_conseq [OF wp_repeat_flow [where I = "\<lambda>_ _. True" and R = "\<lambda>_ _. True" and E = "\<lambda>_ _. True"]])
    (auto intro!: wp_conseq [OF assms] split: flow.splits)

lemma rvf_directive_wp: "wp (rvf_directive rv i) (\<lambda>_ _. True) (\<lambda>_ _. True) p"
  unfolding rvf_directive_def
  by (auto intro!: rvf_uint_arg_wp rvf_skip_ignored_wp wp_conseq [OF wp_repeat_flow_True] rvf_instruction_wp)

lemma rvf_directives_wp: "p < length rv \<Longrightarrow> wp (rvf_directives rv) (\<lambda>_ _. True) (\<lambda>_ _. True) p"
  unfolding rvf_directives_def
  by (auto simp: usable_info_def intro!: rvf_uint_arg_wp wp_conseq [OF wp_repeat_flow_True] rvf_directive_wp)

section \<open>Encoded information\<close>

interpretation rvf: arg_reader rvf_uint_arg "2 ^ 32"
  unfolding rvf_uint_arg_eq by (rule tpm_cbor.arg_reader_axioms)

interpretation rvf: item_skipper rvf_uint_arg "2 ^ 32" rvf_skip_fuel
  by unfold_locales (auto simp: bind_def next_byte_def guard_def mult.commute rvf_uint_arg_def)

lemma rvf_skip_at:
  assumes "at d p (enc c)" and "fits (2 ^ 32) c" and "length d < 2 ^ 63"
  shows "rvf_skip d p = (Ret (), p + length (enc c))"
  unfolding rvf_skip_def
  by (rule rvf.skip_exact) (use assms depth_le [of c] at_bound [OF assms(1)] in auto)

lemma rvf_bstr_raw_at:
  assumes "at d p (enc (Bstr bs))" and "length bs < 2 ^ 32"
  shows "rvf_bstr_raw d p = (Ret bs, p + length (enc (Bstr bs)))"
  using assms rvf.read_head [of d p 2 "length bs"]
  by (auto simp: rvf_bstr_raw_def bind_def next_byte_def at_take_bytes add.assoc)

lemma rvf_uint_at_at:
  assumes "at d p (enc (Uint n))" and "n < 2 ^ 32"
  shows "rvf_uint_at d p = (Ret n, p + length (enc (Uint n)))"
  using assms rvf.read_head [of d p 0 n]
  by (auto simp: rvf_uint_at_def bind_def next_byte_def)

text \<open>An RvInfo as data: directives, each a list of variables with their encoded values, and what the code makes of it.\<close>

definition rv_instr_item :: "nat \<times> bytes \<Rightarrow> cbor" where
  "rv_instr_item x = Arr [Uint (fst x), Bstr (snd x)]"

definition rv_info_item :: "(nat \<times> bytes) list list \<Rightarrow> cbor" where
  "rv_info_item dirs = Arr (map (\<lambda>dir. Arr (map rv_instr_item dir)) dirs)"

definition rvf_apply :: "nat \<times> bytes \<Rightarrow> rvf_state \<Rightarrow> rvf_state" where
  "rvf_apply x s = (case rvf_variable (fst x) (snd x) s of Ret s' \<Rightarrow> s' | _ \<Rightarrow> s)"

definition rvf_apply_directive :: "(nat \<times> bytes) list \<Rightarrow> rv_firmware_info \<Rightarrow> rv_firmware_info" where
  "rvf_apply_directive dir i = close_directive (fold rvf_apply dir (rv_default, i))"

lemma rvf_variable_apply: "rvf_variable (fst x) (snd x) s = Ret (rvf_apply x s)"
  using rvf_variable_holds [of "fst x" "snd x" s] by (cases "rvf_variable (fst x) (snd x) s") (auto simp: rvf_apply_def)

lemma repeat_flow_fold:
  assumes "\<And>x p s. x \<in> set xs \<Longrightarrow> at d p (e x) \<Longrightarrow> body s p = (Ret (Next (f x s)), p + length (e x))"
    and "at d p (concat (map e xs))"
  shows "repeat_flow (length xs) body s p = (Ret (Next (fold f xs s)), p + length (concat (map e xs)))"
  using assms
proof (induction xs arbitrary: p s)
  case (Cons x xs)
  from Cons.prems have "body s p = (Ret (Next (f x s)), p + length (e x))" by simp
  moreover have "repeat_flow (length xs) body (f x s) (p + length (e x)) = (Ret (Next (fold f xs (f x s))), p + length (e x) + length (concat (map e xs)))"
    by (rule Cons.IH) (use Cons.prems in simp_all)
  ultimately show ?case by (simp add: bind_def add.assoc)
qed simp

lemma rvf_instruction_at:
  assumes "at rv p (enc (rv_instr_item x))" and "fst x < 256" and "length (snd x) < 2 ^ 32"
  shows "rvf_instruction rv s p = (Ret (Next (rvf_apply x s)), p + length (enc (rv_instr_item x)))"
proof -
  let ?a = "length (enc_head 4 2)"
  have e: "enc (rv_instr_item x) = enc_head 4 2 @ enc (Uint (fst x)) @ enc (Bstr (snd x))" by (simp add: rv_instr_item_def eval_nat_numeral)
  then have a: "at rv p (enc_head 4 2)" "at rv (p + ?a) (enc (Uint (fst x)))" "at rv (p + ?a + length (enc (Uint (fst x)))) (enc (Bstr (snd x)))"
    using assms(1) by (simp_all del: enc.simps)
  from rvf.read_head [OF a(1)] rvf_uint_at_at [OF a(2)] rvf_bstr_raw_at [OF a(3) assms(3)] assms(2) show ?thesis
    unfolding e by (simp add: rvf_instruction_def bind_def next_byte_def attempt_def lift_def rvf_skip_ignored_def rvf_variable_apply add.assoc Let_def del: enc.simps)
qed

abbreviation good_directive :: "(nat \<times> bytes) list \<Rightarrow> bool" where
  "good_directive dir \<equiv> length dir < 2 ^ 32 \<and> (\<forall>x\<in>set dir. fst x < 256 \<and> length (snd x) < 2 ^ 32)"

lemma rvf_directive_at:
  assumes "at rv p (enc (Arr (map rv_instr_item dir)))" and "good_directive dir"
  shows "rvf_directive rv i p = (Ret (Next (rvf_apply_directive dir i)), p + length (enc (Arr (map rv_instr_item dir))))"
proof -
  let ?h = "enc_head 4 (length dir)"
  let ?b = "concat (map (\<lambda>x. enc (rv_instr_item x)) dir)"
  have e: "enc (Arr (map rv_instr_item dir)) = ?h @ ?b" by (simp add: comp_def)
  have a: "at rv p ?h" "at rv (p + length ?h) ?b" using assms(1) unfolding e by simp_all
  have "repeat_flow (length dir) (rvf_instruction rv) s (p + length ?h) = (Ret (Next (fold rvf_apply dir s)), p + length ?h + length ?b)" for s
    by (rule repeat_flow_fold [OF _ a(2)]) (use assms(2) in \<open>simp add: rvf_instruction_at\<close>)
  with rvf.read_head [OF a(1)] assms(2) show ?thesis
    unfolding e by (simp add: rvf_directive_def bind_def next_byte_def rvf_apply_directive_def add.assoc)
qed

lemma rvf_directives_at:
  assumes "at rv p (enc (rv_info_item dirs))" and "length dirs < 2 ^ 32" and "\<forall>dir\<in>set dirs. good_directive dir"
  shows "fst (rvf_directives rv p) = usable_info (fold rvf_apply_directive dirs no_info)"
proof -
  let ?h = "enc_head 4 (length dirs)"
  let ?b = "concat (map (\<lambda>dir. enc (Arr (map rv_instr_item dir))) dirs)"
  have e: "enc (rv_info_item dirs) = ?h @ ?b" by (simp add: rv_info_item_def comp_def)
  have a: "at rv p ?h" "at rv (p + length ?h) ?b" using assms(1) unfolding e by simp_all
  have "repeat_flow (length dirs) (rvf_directive rv) i (p + length ?h) = (Ret (Next (fold rvf_apply_directive dirs i)), p + length ?h + length ?b)" for i
    by (rule repeat_flow_fold [OF _ a(2)]) (use assms(3) in \<open>simp add: rvf_directive_at del: enc.simps\<close>)
  with rvf.read_head [OF a(1)] assms(2) show ?thesis
    by (simp add: rvf_directives_def bind_def next_byte_def lift_def)
qed

lemma rvf_info_at:
  assumes "at d p (enc c)" and "c = rv_info_item dirs \<or> c = Bstr (enc (rv_info_item dirs))" and "length d < 2 ^ 32"
    and "length dirs < 2 ^ 32" and "\<forall>dir\<in>set dirs. good_directive dir"
  shows "fst (parse_rv_firmware_info_at d p) = usable_info (fold rvf_apply_directive dirs no_info)"
  using assms(2)
proof
  assume c: "c = rv_info_item dirs"
  with assms(1) have "at d p (enc_head 4 (length dirs))" by (simp add: rv_info_item_def)
  with rvf.read_head [OF this] assms(4) rvf_directives_at [of d p dirs] assms(1,5) c show ?thesis
    by (simp add: parse_rv_firmware_info_at_def bind_def lift_def)
next
  assume c: "c = Bstr (enc (rv_info_item dirs))"
  let ?r = "enc (rv_info_item dirs)"
  from c assms(1) have a: "at d p (enc (Bstr ?r))" by simp
  then have l: "length ?r < 2 ^ 32" using at_bound [OF a] assms(3) by simp
  from a have "at d p (enc_head 2 (length ?r))" by simp
  from rvf.read_head [OF this _ l] rvf_bstr_raw_at [OF a l] rvf_directives_at [OF at_whole assms(4,5)] show ?thesis
    by (simp add: parse_rv_firmware_info_at_def bind_def lift_def run_def del: enc.simps)
qed

lemma rv_firmware_info_read:
  assumes "d = enc (dctpm_structure magic active ver info guid c pkhash ktype dk hk extra) @ pad" and "length d < 2 ^ 32" and "length extra < 200"
    and "magic < 2 ^ 32" and "\<forall>x\<in>{active, ver, info}. fits (2 ^ 32) x" and "c = rv_info_item dirs \<or> c = Bstr (enc (rv_info_item dirs))"
    and "length dirs < 2 ^ 32" and "\<forall>dir\<in>set dirs. good_directive dir"
  shows "parse_rv_firmware_info d = usable_info (fold rvf_apply_directive dirs no_info)"
proof -
  define n where "n = 10 + length extra"
  define p1 where "p1 = length (enc_head 4 n)"
  define p2 where "p2 = p1 + length (enc (Uint magic))"
  define p3 where "p3 = p2 + length (enc active)"
  define p4 where "p4 = p3 + length (enc ver)"
  define p5 where "p5 = p4 + length (enc info)"
  define p6 where "p6 = p5 + length (enc (Bstr guid))"
  let ?e = "enc_head 4 n @ enc (Uint magic) @ enc active @ enc ver @ enc info @ enc (Bstr guid) @ enc c @
      enc pkhash @ enc ktype @ enc (Uint dk) @ enc (Uint hk) @ concat (map enc extra) @ pad"
  have "d = ?e" using assms(1) by (simp add: enc_dctpm_structure n_def del: enc.simps)
  then have "at d 0 ?e" using at_whole [of d] by (rule subst)
  then have a: "at d 0 (enc_head 4 n)" "at d p1 (enc (Uint magic))" "at d p2 (enc active)" "at d p3 (enc ver)" "at d p4 (enc info)"
      "at d p5 (enc (Bstr guid))" "at d p6 (enc c)"
    unfolding p1_def p2_def p3_def p4_def p5_def p6_def by (simp_all only: at_append add.assoc add_0 length_append)
  have len: "length d < 2 ^ 63" "length guid < 2 ^ 32" using assms(2) at_bound [OF a(6)] by simp_all
  have n: "n < 256" "6 \<le> n" using assms(3) by (simp_all add: n_def)
  have s: "rvf_skip d p1 = (Ret (), p2)" "rvf_skip d p2 = (Ret (), p3)" "rvf_skip d p3 = (Ret (), p4)" "rvf_skip d p4 = (Ret (), p5)"
      "rvf_skip d p5 = (Ret (), p6)"
    using rvf_skip_at [OF a(2) _ len(1)] rvf_skip_at [OF a(3) _ len(1)] rvf_skip_at [OF a(4) _ len(1)] rvf_skip_at [OF a(5) _ len(1)]
      rvf_skip_at [OF a(6) _ len(1)] assms(4,5) len(2)
    unfolding p2_def p3_def p4_def p5_def p6_def by simp_all
  have five: "5 = Suc (Suc (Suc (Suc (Suc 0))))" by simp
  have "repeat 5 (\<lambda>_. rvf_skip d) () p1 = (Ret (), p6)"
    unfolding five by (simp add: bind_def s)
  with dctpm_items_at [OF a(1) _ n(1)] n(2) rvf_info_at [OF a(7) assms(6,2,7,8)] show ?thesis
    by (simp add: parse_rv_firmware_info_def run_def bind_def p1_def)
qed


text \<open>An explicit URL and two minimum revisions.\<close>

definition sample_rv :: "(nat \<times> bytes) list list" where
  "sample_rv = [[(17, [0x62, 0x66, 0x77]), (18, [7]), (18, [5])]]"

lemma sample_rv_info:
  fixes i defines "i \<equiv> fold rvf_apply_directive sample_rv no_info"
  shows "usable_info i = Ret i" "firmware_url i = Some [0x66, 0x77]" "info_min_rev i = Some 5"
proof -
  have d: "rvf_decode_text [0x62, 0x66, 0x77] = Ret [0x66, 0x77]" "rvf_decode_uint [7] = Ret 7" "rvf_decode_uint [5] = Ret 5"
    by (simp_all add: rvf_decode_text_def rvf_decode_uint_def rvf_uint_at_def run_def bind_def next_byte_def major_eq addl_eq guard_def rvf_uint_arg_def
        take_bytes_def get_range_def from_utf8_def in_range_def)
  have "i = \<lparr>firmware_urls = [[0x66, 0x77]], firmware_path = None, info_min_rev = Some 5, server_url = None\<rparr>"
    by (simp add: i_def sample_rv_def rvf_apply_directive_def rvf_apply_def rvf_variable_def d no_info_def close_directive_def rv_default_def directive_url_def
        RV_DNS_def RV_IP_ADDRESS_def RV_DEV_PORT_def RV_PROTOCOL_def RV_FIRMWARE_PATH_def RV_FIRMWARE_URL_def RV_MIN_FIRMWARE_REV_def)
  then show "usable_info i = Ret i" "firmware_url i = Some [0x66, 0x77]" "info_min_rev i = Some 5"
    by (simp_all add: usable_info_def firmware_url_def)
qed

definition sample_rv_dctpm :: "cbor list" where
  "sample_rv_dctpm = [Uint DCTPM_MAGIC, Simple 21, Uint 200, Tstr [0x64], Bstr (replicate 16 0xaa), Bstr (enc (rv_info_item sample_rv)), Arr [], Uint 0, Uint 1, Uint 2]"

lemma sample_rv_dctpm_structure:
  "Arr sample_rv_dctpm = dctpm_structure DCTPM_MAGIC (Simple 21) (Uint 200) (Tstr [0x64]) (replicate 16 0xaa) (Bstr (enc (rv_info_item sample_rv))) (Arr []) (Uint 0) 1 2 []"
  by (simp add: sample_rv_dctpm_def dctpm_structure_def)

lemma sample_rv_good: "\<forall>dir\<in>set sample_rv. good_directive dir" "length sample_rv < 2 ^ 32"
  by (simp_all add: sample_rv_def)

lemma length_sample_rv_dctpm: "length (enc (Arr sample_rv_dctpm)) \<le> 100"
  by (simp add: sample_rv_dctpm_def sample_rv_def rv_info_item_def rv_instr_item_def enc_head_def DCTPM_MAGIC_def)

lemma sample_rv_read: "parse_rv_firmware_info (enc (Arr sample_rv_dctpm) @ replicate 400 0) = Ret (fold rvf_apply_directive sample_rv no_info)"
  using rv_firmware_info_read [OF arg_cong [OF sample_rv_dctpm_structure, of "\<lambda>c. enc c @ replicate 400 0"], of sample_rv]
    sample_rv_good sample_rv_info length_sample_rv_dctpm
  by (simp add: DCTPM_MAGIC_def del: enc.simps)


text \<open>
  The two readers of the minimum revision disagree: \<open>dctpm.rs\<close> takes the highest, this file the last, and it does not see a
  revision that needs 64 bits.
\<close>

lemma min_rev_disagreement:
  "rv_min_firmware_rev [0x81, 0x82, 0x82, 18, 0x41, 7, 0x82, 18, 0x41, 5] = Ret 7"
  "info_min_rev (fold rvf_apply_directive sample_rv no_info) = Some 5"
proof -
  show "rv_min_firmware_rev [0x81, 0x82, 0x82, 18, 0x41, 7, 0x82, 18, 0x41, 5] = Ret 7"
    by (simp add: rv_min_firmware_rev_def rv_scan_def scan_instr_def RV_MIN_FIRMWARE_REV_def dctpm_head_def head_arg_def repeat_eval
        skip_items_def bind_def next_byte_def run_def major_eq addl_eq guard_def get_range_def)
  show "info_min_rev (fold rvf_apply_directive sample_rv no_info) = Some 5" by (rule sample_rv_info)
qed

lemma min_rev_64_bits_ignored: "rvf_decode_uint (enc (Uint (2 ^ 32))) = Err ()"
  by (simp add: enc_head_def be_numeral rvf_decode_uint_def rvf_uint_at_def rvf_uint_arg_def run_def bind_def next_byte_def guard_def addl_eq unat_head_byte head_byte_plus)

lemma empty_rv_firmware_info_panics: "parse_rv_firmware_info [0x86, 0, 0, 0, 0, 0, 0x40] = Panic"
  by code_simp

end
