(* ===== verification/Fw_Verify.thy ===== *)
theory Fw_Verify
  imports Cose
begin

text \<open>
  \<open>src/src/rv_firmware/cose_verify.rs\<close> and \<open>platform_key.rs\<close>: verification of a firmware image that was
  downloaded before onboarding. The file has CBOR helpers of its own, whose arguments have up to 64 bits; sums of
  \<open>usize\<close> wrap as in a release build. SHA-2 and ECDSA are the fields of \<open>crypto\<close>. The messages of
  \<open>ParseError\<close> are left out.

  Shown: an accepted image is part of a payload signed with the platform key, is made for this architecture and has the
  hash that the payload declares; on an encoded envelope the decision is the expected one, check by check; and two
  downloads, which need no signature, that stop the firmware.
\<close>

section \<open>Constants\<close>

definition FW_MAGIC :: nat where "FW_MAGIC = 0x46444F46"
definition COSE_ALG_SHA256 :: int where "COSE_ALG_SHA256 = -16"
definition COSE_ALG_SHA384 :: int where "COSE_ALG_SHA384 = -43"

definition PLATFORM_KEY_X :: bytes where
  "PLATFORM_KEY_X = [0xac, 0xfd, 0xac, 0xd2, 0x1a, 0x2c, 0x6a, 0x8c, 0xba, 0x1b, 0x0f, 0x2c, 0x51, 0xa1, 0x6a, 0x18,
     0x00, 0x64, 0xbe, 0xc9, 0x25, 0xe2, 0x32, 0x5a, 0x8a, 0x7e, 0x05, 0xb7, 0x05, 0xd6, 0xc5, 0x64]"

definition PLATFORM_KEY_Y :: bytes where
  "PLATFORM_KEY_Y = [0xb1, 0x9c, 0xf3, 0xd6, 0x88, 0x24, 0x93, 0xe3, 0xaf, 0x16, 0x6b, 0x75, 0xd1, 0xcd, 0x13, 0xda,
     0x83, 0x14, 0x28, 0x9b, 0xde, 0x0f, 0xd9, 0xf9, 0x82, 0x3a, 0xbc, 0x3d, 0x4a, 0x7f, 0xea, 0x0b]"

section \<open>CBOR helpers\<close>

definition fw_read_uint_arg :: "bytes \<Rightarrow> nat \<Rightarrow> (unit, nat) parser" where
  "fw_read_uint_arg d additional =
     (if additional < 24 then ret additional
      else if additional = 24 then bind (take_bytes d 1) (\<lambda>b. ret (be_val b))
      else if additional = 25 then bind (take_bytes d 2) (\<lambda>b. ret (be_val b))
      else if additional = 26 then bind (take_bytes d 4) (\<lambda>b. ret (be_val b))
      else if additional = 27 then bind (take_bytes d 8) (\<lambda>b. ret (be_val b))
      else throw ())"

text \<open>The recursion over tags moves forward by at least one byte each time.\<close>

fun fw_read_uint_value_fuel :: "nat \<Rightarrow> bytes \<Rightarrow> (unit, nat) parser" where
  "fw_read_uint_value_fuel 0 d = diverge"
| "fw_read_uint_value_fuel (Suc k) d =
     bind (next_byte d) (\<lambda>b.
     if major b = 6 then bind (fw_read_uint_arg d (addl b)) (\<lambda>_. fw_read_uint_value_fuel k d)
     else bind (guard (major b = 0) ()) (\<lambda>_. fw_read_uint_arg d (addl b)))"

definition fw_read_uint_value :: "bytes \<Rightarrow> (unit, nat) parser" where
  "fw_read_uint_value d = fw_read_uint_value_fuel (Suc (length d)) d"

text \<open>\<open>n as i64\<close> for \<open>n: usize\<close>.\<close>

definition as_i64 :: "nat \<Rightarrow> int" where
  "as_i64 n = sint (of_nat n :: 64 word)"

definition fw_read_int_value :: "bytes \<Rightarrow> (unit, int) parser" where
  "fw_read_int_value d =
     bind (next_byte d) (\<lambda>b.
     bind (fw_read_uint_arg d (addl b)) (\<lambda>v.
     if major b = 0 then ret (as_i64 v)
     else if major b = 1 then ret (-1 - as_i64 v)
     else throw ()))"

text \<open>A string: the end is compared after the sum has wrapped, and the slice panics when it did.\<close>

definition fw_read_str :: "nat \<Rightarrow> bytes \<Rightarrow> (unit, bytes) parser" where
  "fw_read_str m d =
     bind (next_byte d) (\<lambda>b.
     bind (guard (major b = m) ()) (\<lambda>_.
     bind (fw_read_uint_arg d (addl b)) (\<lambda>len.
     bind get_pos (\<lambda>pos.
     let e = usz (pos + len) in
     bind (guard (\<not> e > length d) ()) (\<lambda>_.
     bind (slice d pos e) (\<lambda>s.
     bind (set_pos e) (\<lambda>_.
     ret s)))))))"

definition fw_read_bstr :: "bytes \<Rightarrow> (unit, bytes) parser" where
  "fw_read_bstr = fw_read_str 2"

definition fw_read_tstr :: "bytes \<Rightarrow> (unit, bytes) parser" where
  "fw_read_tstr d =
     bind (next_byte d) (\<lambda>b.
     bind (guard (major b = 3) ()) (\<lambda>_.
     bind (fw_read_uint_arg d (addl b)) (\<lambda>len.
     bind get_pos (\<lambda>pos.
     let e = usz (pos + len) in
     bind (guard (\<not> e > length d) ()) (\<lambda>_.
     bind (slice d pos e) (\<lambda>s.
     bind (of_option () (from_utf8 s)) (\<lambda>t.
     bind (set_pos e) (\<lambda>_.
     ret t))))))))"

fun fw_skip_fuel :: "nat \<Rightarrow> bytes \<Rightarrow> (unit, unit) parser" where
  "fw_skip_fuel 0 d = diverge"
| "fw_skip_fuel (Suc k) d =
     bind (next_byte d) (\<lambda>b.
     bind (fw_read_uint_arg d (addl b)) (\<lambda>arg.
     if major b = 0 \<or> major b = 1 \<or> major b = 7 then ret ()
     else if major b = 2 \<or> major b = 3 then
       bind get_pos (\<lambda>pos.
       bind (guard (\<not> usz (pos + arg) > length d) ()) (\<lambda>_.
       set_pos (usz (pos + arg))))
     else if major b = 4 then repeat arg (\<lambda>_. fw_skip_fuel k d) ()
     else if major b = 5 then repeat (usz (arg * 2)) (\<lambda>_. fw_skip_fuel k d) ()
     else fw_skip_fuel k d))"

text \<open>
  A call that is nested deeper than there are positions in the buffer has an ancestor at its own position, and such a
  recursion does not end: the fuel tells exactly the runs that end from those that do not.
\<close>

definition fw_skip :: "bytes \<Rightarrow> (unit, unit) parser" where
  "fw_skip d = fw_skip_fuel (Suc (Suc (length d))) d"

definition fw_bstr_header :: "nat \<Rightarrow> bytes" where
  "fw_bstr_header len =
     (if len < 24 then [0x40 OR u8 len]
      else if len < 256 then [0x58, u8 len]
      else if len < 65536 then [0x59, u8 (len div 2 ^ 8), u8 len]
      else [0x5a, u8 (len div 2 ^ 24), u8 (len div 2 ^ 16), u8 (len div 2 ^ 8), u8 len])"

section \<open>The envelope\<close>

record fw_sign1 =
  fw_algorithm :: int
  fw_protected :: bytes
  fw_payload :: bytes
  fw_signature :: bytes

definition fw_protected_alg :: "bytes \<Rightarrow> (unit, int) outcome" where
  "fw_protected_alg header = run (
     let_else (next_byte header) 0 (\<lambda>b.
     if major b \<noteq> 5 then ret 0 else
     let_else (fw_read_uint_arg header (addl b)) 0 (\<lambda>map_len.
     end_loop (repeat_flow map_len (\<lambda>_.
       bind (attempt (fw_read_int_value header)) (\<lambda>key.
       bind (attempt (fw_read_int_value header)) (\<lambda>val.
       ret (case (key, val) of
         (Some k, Some v) \<Rightarrow> if k = 1 then Stop (as_i32 v) else Next ()
       | _ \<Rightarrow> Next ())))) ())
     (\<lambda>_. ret 0))))"

text \<open>A wrong tag is only logged.\<close>

definition fw_parse_sign1 :: "bytes \<Rightarrow> (unit, fw_sign1) outcome" where
  "fw_parse_sign1 d = run (
     bind (peek_byte d) (\<lambda>b.
     bind (if major b = 6 then bind (next_byte d) (\<lambda>_. bind (fw_read_uint_arg d (addl b)) (\<lambda>_. ret ())) else ret ()) (\<lambda>_.
     bind (next_byte d) (\<lambda>b.
     bind (guard (major b = 4) ()) (\<lambda>_.
     bind (fw_read_uint_arg d (addl b)) (\<lambda>arr_len.
     bind (guard (arr_len = 4) ()) (\<lambda>_.
     bind (fw_read_bstr d) (\<lambda>prot.
     bind (lift (fw_protected_alg prot)) (\<lambda>alg.
     bind (fw_skip d) (\<lambda>_.
     bind (peek_byte d) (\<lambda>payload_byte.
     bind (if payload_byte = 0xf6 then bind (next_byte d) (\<lambda>_. ret []) else fw_read_bstr d) (\<lambda>pay.
     bind (fw_read_bstr d) (\<lambda>sg.
     ret \<lparr>fw_algorithm = alg, fw_protected = prot, fw_payload = pay, fw_signature = sg\<rparr>)))))))))))))"

definition fw_verify_ecdsa_p256 :: "crypto \<Rightarrow> bytes \<Rightarrow> bytes \<Rightarrow> bool" where
  "fw_verify_ecdsa_p256 cr message sg =
     (if length sg \<noteq> 64 then False
      else case ec_key cr (0x04 # PLATFORM_KEY_X @ PLATFORM_KEY_Y) of None \<Rightarrow> False
      | Some vk \<Rightarrow>
        (case ec_sig cr sg of None \<Rightarrow> False
         | Some s \<Rightarrow> ec_verify cr vk message s))"

definition fw_sig_structure :: "bytes \<Rightarrow> bytes \<Rightarrow> bytes" where
  "fw_sig_structure prot pay =
     [0x84, 0x6A] @ ascii ''Signature1'' @ fw_bstr_header (length prot) @ prot @ [0x40] @ fw_bstr_header (length pay) @ pay"

definition fw_verify_signature :: "crypto \<Rightarrow> fw_sign1 \<Rightarrow> bool" where
  "fw_verify_signature cr s1 =
     fw_verify_ecdsa_p256 cr (fw_sig_structure (fw_protected s1) (fw_payload s1)) (fw_signature s1)"

section \<open>The payload\<close>

record firmware_payload =
  fp_magic :: nat
  fp_version :: nat
  platform_type :: bytes
  architecture :: bytes
  image_type :: nat
  timestamp :: nat
  firmware_rev :: nat
  build_id :: "bytes option"
  image_hash :: bytes
  image_hash_type :: int
  image_offset :: nat
  image_size :: nat

definition fw_read_hash :: "bytes \<Rightarrow> (unit, int \<times> bytes) parser" where
  "fw_read_hash d =
     bind (next_byte d) (\<lambda>b.
     bind (guard (major b = 4) ()) (\<lambda>_.
     bind (fw_read_uint_arg d (addl b)) (\<lambda>hl.
     bind (guard (hl = 2) ()) (\<lambda>_.
     bind (fw_read_int_value d) (\<lambda>ht.
     bind (fw_read_bstr d) (\<lambda>hv.
     ret (as_i32 ht, hv)))))))"

definition fw_read_build_id :: "bytes \<Rightarrow> (unit, bytes option) parser" where
  "fw_read_build_id d =
     bind (peek_byte d) (\<lambda>b.
     if b = 0xf6 then bind (next_byte d) (\<lambda>_. ret None)
     else bind (fw_read_tstr d) (\<lambda>t. ret (Some t)))"

definition parse_firmware_payload :: "bytes \<Rightarrow> (unit, firmware_payload) outcome" where
  "parse_firmware_payload d = run (
     bind (next_byte d) (\<lambda>b.
     bind (guard (major b = 4) ()) (\<lambda>_.
     bind (fw_read_uint_arg d (addl b)) (\<lambda>arr_len.
     bind (guard (arr_len = 10) ()) (\<lambda>_.
     bind (fw_read_uint_value d) (\<lambda>magic.
     bind (guard (magic mod 2 ^ 32 = FW_MAGIC) ()) (\<lambda>_.
     bind (fw_read_uint_value d) (\<lambda>ver.
     bind (fw_read_tstr d) (\<lambda>platform.
     bind (fw_read_tstr d) (\<lambda>arch.
     bind (fw_read_uint_value d) (\<lambda>itype.
     bind (fw_read_uint_value d) (\<lambda>ts.
     bind (fw_read_uint_value d) (\<lambda>frev.
     bind (fw_read_build_id d) (\<lambda>build.
     bind (fw_read_hash d) (\<lambda>(ht, hv).
     bind (next_byte d) (\<lambda>b.
     bind (guard (major b = 2) ()) (\<lambda>_.
     bind (fw_read_uint_arg d (addl b)) (\<lambda>isize.
     bind get_pos (\<lambda>ioff.
     ret \<lparr>fp_magic = magic mod 2 ^ 32, fp_version = ver mod 2 ^ 32, platform_type = platform, architecture = arch,
       image_type = itype mod 2 ^ 32, timestamp = ts, firmware_rev = frev, build_id = build, image_hash = hv,
       image_hash_type = ht, image_offset = ioff, image_size = isize\<rparr>)))))))))))))))))))"

datatype hash_check = HashOk | HashMismatch | HashUnsupported int

definition verify_image_hash :: "crypto \<Rightarrow> firmware_payload \<Rightarrow> bytes \<Rightarrow> hash_check" where
  "verify_image_hash cr pl img =
     (if image_hash pl = [] then HashMismatch
      else if image_hash_type pl \<noteq> COSE_ALG_SHA256 \<and> image_hash_type pl \<noteq> COSE_ALG_SHA384 then HashUnsupported (image_hash_type pl)
      else let computed = (if image_hash_type pl = COSE_ALG_SHA256 then sha256 cr img else sha384 cr img) in
        if length computed \<noteq> length (image_hash pl) then HashMismatch
        else if computed \<noteq> image_hash pl then HashMismatch
        else HashOk)"

datatype verify_result =
    Verified firmware_payload bytes
  | ParseError
  | SignatureInvalid
  | UnsupportedAlgorithm int
  | ArchitectureMismatch bytes
  | ImageHashMismatch
  | UnsupportedHashAlgorithm int

definition verify_firmware :: "crypto \<Rightarrow> bytes \<Rightarrow> (unit, verify_result) outcome" where
  "verify_firmware cr signed_data =
     handle (fw_parse_sign1 signed_data) (\<lambda>s1.
     if fw_algorithm s1 \<noteq> COSE_ALG_ES256 then Ret (UnsupportedAlgorithm (fw_algorithm s1))
     else if \<not> fw_verify_signature cr s1 then Ret SignatureInvalid
     else handle (parse_firmware_payload (fw_payload s1)) (\<lambda>pl.
       if architecture pl \<noteq> ascii ''x86_64'' then Ret (ArchitectureMismatch (architecture pl))
       else let e = usz (image_offset pl + image_size pl) in
       if e > length (fw_payload s1) then Ret ParseError
       else case get_range (fw_payload s1) (image_offset pl) e of
         None \<Rightarrow> Panic
       | Some img \<Rightarrow>
         (case verify_image_hash cr pl img of
            HashOk \<Rightarrow> Ret (Verified pl img)
          | HashMismatch \<Rightarrow> Ret ImageHashMismatch
          | HashUnsupported alg \<Rightarrow> Ret (UnsupportedHashAlgorithm alg)))
     (\<lambda>_. Ret ParseError))
     (\<lambda>_. Ret ParseError)"

section \<open>Encoded items\<close>

interpretation fw_cbor: arg_reader fw_read_uint_arg "2 ^ 64"
  by unfold_locales
    (auto simp: fw_read_uint_arg_def bind_def take_bytes_def get_range_def at_def take_Suc_conv_app_nth hd_drop_conv_nth)

interpretation fw_cbor: item_skipper fw_read_uint_arg "2 ^ 64" fw_skip_fuel
proof unfold_locales
  fix p d k
  assume "p < length d" "major (d ! p) = 7" "addl (d ! p) < 24"
  then show "fw_skip_fuel (Suc k) d p = (Ret (), Suc p)"
    by (simp add: bind_def next_byte_def fw_read_uint_arg_def)
qed (auto simp: bind_def next_byte_def guard_def mult.commute)

lemma fw_skip_at:
  assumes "at d p (enc c)" and "fits (2 ^ 64) c" and "length d < 2 ^ 63"
  shows "fw_skip d p = (Ret (), p + length (enc c))"
  unfolding fw_skip_def
  by (rule fw_cbor.skip_exact) (use assms depth_le [of c] at_bound [OF assms(1)] in auto)

lemma fw_read_uint_value_at:
  assumes "at d p (enc (Uint n))" and "n < 2 ^ 64"
  shows "fw_read_uint_value d p = (Ret n, p + length (enc (Uint n)))"
  using assms fw_cbor.read_head [of d p 0 n]
  by (auto simp: fw_read_uint_value_def bind_def next_byte_def)

lemma as_i64_small: "n < 2 ^ 63 \<Longrightarrow> as_i64 n = int n"
  by (simp add: as_i64_def sint_uint unsigned_of_nat take_bit_nat_eq_self signed_take_bit_int_eq_self take_bit_int_eq_self)

lemma fw_read_int_value_at:
  "at d p (enc (Uint n)) \<Longrightarrow> n < 2 ^ 63 \<Longrightarrow> fw_read_int_value d p = (Ret (int n), p + length (enc (Uint n)))"
  "at d p (enc (Nint n)) \<Longrightarrow> n < 2 ^ 63 \<Longrightarrow> fw_read_int_value d p = (Ret (-1 - int n), p + length (enc (Nint n)))"
  using fw_cbor.read_head [of d p 0 n] fw_cbor.read_head [of d p 1 n]
  by (auto simp: fw_read_int_value_def bind_def next_byte_def as_i64_small)

lemma fw_read_str_at:
  assumes "at d p (enc_head m (length bs) @ bs)" and "m < 8" and "length d < 2 ^ 63"
  shows "fw_read_str m d p = (Ret bs, p + length (enc_head m (length bs) @ bs))"
proof -
  have a: "at d p (enc_head m (length bs))" "at d (p + length (enc_head m (length bs))) bs" using assms(1) by simp_all
  note b = at_bound [OF a(2)]
  with assms(3) have "length bs < 2 ^ 64" by simp
  from fw_cbor.read_head [OF a(1) assms(2) this] at_get_range [OF a(2)] b assms(3) show ?thesis
    by (auto simp: fw_read_str_def bind_def next_byte_def slice_def add.assoc Let_def)
qed

lemma fw_read_bstr_at:
  "at d p (enc (Bstr bs)) \<Longrightarrow> length d < 2 ^ 63 \<Longrightarrow> fw_read_bstr d p = (Ret bs, p + length (enc (Bstr bs)))"
  using fw_read_str_at [of d p 2 bs] by (simp add: fw_read_bstr_def)

lemma fw_read_tstr_at:
  assumes "at d p (enc (Tstr bs))" and "length d < 2 ^ 63" and "utf8_valid bs"
  shows "fw_read_tstr d p = (Ret bs, p + length (enc (Tstr bs)))"
proof -
  have a: "at d p (enc_head 3 (length bs))" "at d (p + length (enc_head 3 (length bs))) bs" using assms(1) by simp_all
  note b = at_bound [OF a(2)]
  with assms(2) have "length bs < 2 ^ 64" by simp
  from fw_cbor.read_head [OF a(1) _ this] at_get_range [OF a(2)] b assms(2,3) show ?thesis
    by (auto simp: fw_read_tstr_def bind_def next_byte_def slice_def add.assoc Let_def from_utf8_def)
qed


section \<open>Encoded envelopes\<close>

lemma fw_protected_alg_at:
  assumes "header = enc (Dict ((Uint 1, Nint a) # kvs))" and "a < 2 ^ 31" and "length header < 2 ^ 63"
  shows "fw_protected_alg header = Ret (-1 - int a)"
proof -
  let ?h = "enc_head 5 (Suc (length kvs))"
  have "header = ?h @ enc (Uint 1) @ enc (Nint a) @ concat (map (\<lambda>(k, v). enc k @ enc v) kvs)"
    using assms(1) by simp
  then have at: "at header 0 ?h" "at header (length ?h) (enc (Uint 1))" "at header (length ?h + length (enc (Uint 1))) (enc (Nint a))"
    using at_whole [of header] by (simp_all del: enc.simps)
  have "length kvs \<le> length (concat (map (\<lambda>(k, v). enc k @ enc v) kvs))" by (rule length_concat_ge) (simp add: case_prod_beta)
  then have n: "Suc (length kvs) < 2 ^ 64" using assms(1,3) by simp
  have i: "as_i32 (-1 - int a) = -1 - int a"
    unfolding as_i32_def sint_sbintrunc' using assms(2) by (simp add: signed_take_bit_int_eq_self)
  from fw_cbor.read_head [OF at(1) _ n] fw_read_int_value_at(1) [OF at(2)] fw_read_int_value_at(2) [OF at(3)] assms(2) i show ?thesis
    by (simp add: fw_protected_alg_def loop_defs next_byte_def)
qed

lemma fw_parse_sign1_at:
  assumes "d = tag @ enc (Arr [Bstr prot, un, Bstr pay, Bstr sg]) @ trail" and "tag = [] \<or> tag = enc_head 6 t \<and> t < 2 ^ 64"
    and "fits (2 ^ 64) un" and "length d < 2 ^ 63" and "fw_protected_alg prot = Ret alg"
  shows "fw_parse_sign1 d = Ret \<lparr>fw_algorithm = alg, fw_protected = prot, fw_payload = pay, fw_signature = sg\<rparr>"
proof -
  define p0 where "p0 = length tag"
  define p1 where "p1 = p0 + length (enc_head 4 4)"
  define p2 where "p2 = p1 + length (enc (Bstr prot))"
  define p3 where "p3 = p2 + length (enc un)"
  define p4 where "p4 = p3 + length (enc (Bstr pay))"
  have "d = tag @ enc_head 4 4 @ enc (Bstr prot) @ enc un @ enc (Bstr pay) @ enc (Bstr sg) @ trail"
    using assms(1) by (simp add: eval_nat_numeral)
  then have "at d 0 (tag @ enc_head 4 4 @ enc (Bstr prot) @ enc un @ enc (Bstr pay) @ enc (Bstr sg) @ trail)"
    using at_whole [of d] by (rule subst)
  then have a: "at d 0 tag" "at d p0 (enc_head 4 4)" "at d p1 (enc (Bstr prot))" "at d p2 (enc un)" "at d p3 (enc (Bstr pay))"
      "at d p4 (enc (Bstr sg))"
    unfolding p0_def p1_def p2_def p3_def p4_def by (simp_all only: at_append add.assoc add_0 length_append)
  have h: "p0 < length d" "major (d ! p0) = 4" "fw_read_uint_arg d (addl (d ! p0)) (Suc p0) = (Ret 4, p1)"
    using fw_cbor.read_head [OF a(2)] by (simp_all add: p1_def)
  have r: "fw_read_bstr d p1 = (Ret prot, p2)" "fw_skip d p2 = (Ret (), p3)" "fw_read_bstr d p3 = (Ret pay, p4)"
      "fw_read_bstr d p4 = (Ret sg, p4 + length (enc (Bstr sg)))"
    using fw_read_bstr_at [OF a(3) assms(4)] fw_skip_at [OF a(4) assms(3,4)] fw_read_bstr_at [OF a(5) assms(4)] fw_read_bstr_at [OF a(6) assms(4)]
    by (simp_all add: p2_def p3_def p4_def)
  have b: "p3 < length d" "d ! p3 \<noteq> 0xf6"
  proof -
    have "at d p3 (enc_head 2 (length pay))" using a(5) by simp
    moreover have "length pay < 2 ^ 64" using at_bound [OF a(5)] assms(4) by simp
    ultimately have m: "p3 < length d" "major (d ! p3) = 2" using fw_cbor.read_head [of d p3 2 "length pay"] by simp_all
    have "major 0xf6 = 7" by (simp add: major_eq)
    with m show "p3 < length d" "d ! p3 \<noteq> 0xf6" by auto
  qed
  have step: "bind (peek_byte d) (\<lambda>b. bind (if major b = 6 then bind (next_byte d) (\<lambda>_. bind (fw_read_uint_arg d (addl b)) (\<lambda>_. ret ())) else ret ()) f) 0
      = f () p0" for f :: "unit \<Rightarrow> (unit, fw_sign1) parser"
    using assms(2)
  proof
    assume "tag = []"
    with h show ?thesis by (simp add: bind_def peek_byte_def p0_def)
  next
    assume t: "tag = enc_head 6 t \<and> t < 2 ^ 64"
    with fw_cbor.read_head [of d 0 6 t] a(1) show ?thesis by (simp add: bind_def peek_byte_def next_byte_def p0_def)
  qed
  show ?thesis
    unfolding fw_parse_sign1_def run_def step
    using h r b assms(5) by (simp add: bind_def next_byte_def peek_byte_def lift_def split: prod.splits)
qed


text \<open>The payload with its fields, and the build id as a string or \<open>null\<close>.\<close>

definition fw_payload_item :: "nat \<Rightarrow> nat \<Rightarrow> bytes \<Rightarrow> bytes \<Rightarrow> nat \<Rightarrow> nat \<Rightarrow> nat \<Rightarrow> bytes option \<Rightarrow> nat \<Rightarrow> bytes \<Rightarrow> bytes \<Rightarrow> cbor" where
  "fw_payload_item magic ver platform arch itype ts frev build h hv img =
     Arr [Uint magic, Uint ver, Tstr platform, Tstr arch, Uint itype, Uint ts, Uint frev,
       (case build of Some t \<Rightarrow> Tstr t | None \<Rightarrow> Simple 22), Arr [Nint h, Bstr hv], Bstr img]"

lemma fw_read_build_id_at:
  assumes "at d p (enc (case build of Some t \<Rightarrow> Tstr t | None \<Rightarrow> Simple 22))" and "length d < 2 ^ 63"
    and "\<And>t. build = Some t \<Longrightarrow> utf8_valid t"
  shows "fw_read_build_id d p = (Ret build, p + length (enc (case build of Some t \<Rightarrow> Tstr t | None \<Rightarrow> Simple 22)))"
proof (cases build)
  case None
  have "head_byte 7 22 = 0xf6" by (simp add: head_byte_plus)
  with None assms show ?thesis by (auto simp: fw_read_build_id_def bind_def peek_byte_def next_byte_def enc_head_def)
next
  case (Some t)
  with assms have a: "at d p (enc (Tstr t))" "utf8_valid t" by simp_all
  have "length t < 2 ^ 64" using at_bound [OF a(1)] assms(2) by simp
  with a(1) have m: "p < length d" "major (d ! p) = 3" using fw_cbor.read_head [of d p 3 "length t"] by simp_all
  have "major 0xf6 = 7" by (simp add: major_eq)
  with m have "d ! p \<noteq> 0xf6" by auto
  with m fw_read_tstr_at [OF a(1) assms(2) a(2)] Some show ?thesis
    by (simp add: fw_read_build_id_def bind_def peek_byte_def del: enc.simps)
qed

lemma fw_read_hash_at:
  assumes "at d p (enc (Arr [Nint h, Bstr hv]))" and "length d < 2 ^ 63" and "h < 2 ^ 31"
  shows "fw_read_hash d p = (Ret (-1 - int h, hv), p + length (enc (Arr [Nint h, Bstr hv])))"
proof -
  let ?a = "length (enc_head 4 2)"
  have e: "enc (Arr [Nint h, Bstr hv]) = enc_head 4 2 @ enc (Nint h) @ enc (Bstr hv)" by (simp add: eval_nat_numeral)
  then have a: "at d p (enc_head 4 2)" "at d (p + ?a) (enc (Nint h))" "at d (p + ?a + length (enc (Nint h))) (enc (Bstr hv))"
    using assms(1) by (simp_all del: enc.simps)
  have i: "as_i32 (-1 - int h) = -1 - int h"
    unfolding as_i32_def sint_sbintrunc' using assms(3) by (simp add: signed_take_bit_int_eq_self)
  from fw_cbor.read_head [OF a(1)] fw_read_int_value_at(2) [OF a(2)] fw_read_bstr_at [OF a(3) assms(2)] assms(3) i show ?thesis
    unfolding e by (simp add: fw_read_hash_def bind_def next_byte_def add.assoc del: enc.simps)
qed

lemma parse_firmware_payload_at:
  assumes "d = enc (fw_payload_item magic ver platform arch itype ts frev build h hv img)" and "length d < 2 ^ 63"
    and "magic < 2 ^ 32" "ver < 2 ^ 32" "itype < 2 ^ 32" "ts < 2 ^ 64" "frev < 2 ^ 64" "h < 2 ^ 31"
    and "utf8_valid platform" "utf8_valid arch" "\<And>t. build = Some t \<Longrightarrow> utf8_valid t"
  shows "parse_firmware_payload d = (if magic = FW_MAGIC then Ret \<lparr>fp_magic = magic, fp_version = ver, platform_type = platform,
      architecture = arch, image_type = itype, timestamp = ts, firmware_rev = frev, build_id = build, image_hash = hv,
      image_hash_type = -1 - int h, image_offset = length d - length img, image_size = length img\<rparr> else Err ())"
proof -
  let ?b = "case build of Some t \<Rightarrow> Tstr t | None \<Rightarrow> Simple 22"
  define p0 where "p0 = length (enc_head 4 10)"
  define p1 where "p1 = p0 + length (enc (Uint magic))"
  define p2 where "p2 = p1 + length (enc (Uint ver))"
  define p3 where "p3 = p2 + length (enc (Tstr platform))"
  define p4 where "p4 = p3 + length (enc (Tstr arch))"
  define p5 where "p5 = p4 + length (enc (Uint itype))"
  define p6 where "p6 = p5 + length (enc (Uint ts))"
  define p7 where "p7 = p6 + length (enc (Uint frev))"
  define p8 where "p8 = p7 + length (enc ?b)"
  define p9 where "p9 = p8 + length (enc (Arr [Nint h, Bstr hv]))"
  define p10 where "p10 = p9 + length (enc_head 2 (length img))"
  let ?e = "enc_head 4 10 @ enc (Uint magic) @ enc (Uint ver) @ enc (Tstr platform) @ enc (Tstr arch) @ enc (Uint itype) @ enc (Uint ts) @
      enc (Uint frev) @ enc ?b @ enc (Arr [Nint h, Bstr hv]) @ enc_head 2 (length img) @ img"
  have e: "d = ?e"
    unfolding assms(1) fw_payload_item_def by (simp add: numeral_eq_Suc)
  then have "at d 0 ?e" using at_whole [of d] by (rule subst)
  then have a: "at d 0 (enc_head 4 10)" "at d p0 (enc (Uint magic))" "at d p1 (enc (Uint ver))" "at d p2 (enc (Tstr platform))"
      "at d p3 (enc (Tstr arch))" "at d p4 (enc (Uint itype))" "at d p5 (enc (Uint ts))" "at d p6 (enc (Uint frev))" "at d p7 (enc ?b)"
      "at d p8 (enc (Arr [Nint h, Bstr hv]))" "at d p9 (enc_head 2 (length img))"
    unfolding p0_def p1_def p2_def p3_def p4_def p5_def p6_def p7_def p8_def p9_def
    by (simp_all only: at_append add.assoc add_0 length_append)
  have off: "p10 = length d - length img"
    unfolding e p0_def p1_def p2_def p3_def p4_def p5_def p6_def p7_def p8_def p9_def p10_def by (simp del: enc.simps)
  have "length img < 2 ^ 64" using assms(2) e by simp
  note i = fw_cbor.read_head [OF a(11) _ this]
  have s: "n < 2 ^ 32 \<Longrightarrow> n < 2 ^ 64" for n :: nat by simp
  have r: "0 < length d \<and> major (d ! 0) = 4 \<and> fw_read_uint_arg d (addl (d ! 0)) (Suc 0) = (Ret 10, p0)"
      "fw_read_uint_value d p0 = (Ret magic, p1)" "fw_read_uint_value d p1 = (Ret ver, p2)" "fw_read_tstr d p2 = (Ret platform, p3)"
      "fw_read_tstr d p3 = (Ret arch, p4)" "fw_read_uint_value d p4 = (Ret itype, p5)" "fw_read_uint_value d p5 = (Ret ts, p6)"
      "fw_read_uint_value d p6 = (Ret frev, p7)" "fw_read_build_id d p7 = (Ret build, p8)" "fw_read_hash d p8 = (Ret (-1 - int h, hv), p9)"
    using fw_cbor.read_head [OF a(1)] fw_read_uint_value_at [OF a(2) s [OF assms(3)]] fw_read_uint_value_at [OF a(3) s [OF assms(4)]]
      fw_read_tstr_at [OF a(4) assms(2,9)] fw_read_tstr_at [OF a(5) assms(2,10)] fw_read_uint_value_at [OF a(6) s [OF assms(5)]]
      fw_read_uint_value_at [OF a(7) assms(6)] fw_read_uint_value_at [OF a(8) assms(7)] fw_read_build_id_at [OF a(9) assms(2,11)]
      fw_read_hash_at [OF a(10) assms(2,8)]
    unfolding p0_def p1_def p2_def p3_def p4_def p5_def p6_def p7_def p8_def p9_def by (simp_all del: enc.simps)
  have m: "magic mod 2 ^ 32 = magic" "ver mod 2 ^ 32 = ver" "itype mod 2 ^ 32 = itype" using assms(3-5) by simp_all
  show ?thesis
    unfolding parse_firmware_payload_def run_def off [symmetric]
    using r i by (simp add: bind_def next_byte_def m [simplified] p10_def)
qed


section \<open>Properties\<close>

text \<open>Both implementations of COSE in the program sign the same bytes, here with an empty external AAD.\<close>

lemma fw_sig_structure_cose:
  assumes "length prot < 2 ^ 32" and "length pay < 2 ^ 32"
  shows "fw_sig_structure prot pay = build_sig_structure prot [] pay"
proof -
  have "fw_bstr_header n = encode_head 2 n" if "n < 2 ^ 32" for n
    using that by (auto simp: fw_bstr_header_def encode_head_def head_byte_def)
  moreover have "encode_head 2 0 = [0x40]" by (simp add: encode_head_def head_byte_def)
  ultimately show ?thesis
    using assms by (simp add: fw_sig_structure_def build_sig_structure_def encode_bstr_def)
qed

lemma get_range_at: "get_range d a b = Some s \<Longrightarrow> at d a s"
  by (auto simp: get_range_Some at_def)

lemma fw_read_bstr_range: "fw_read_bstr d p = (Ret s, q) \<Longrightarrow> \<exists>i. at d i s"
  by (auto simp: fw_read_bstr_def fw_read_str_def Ret_iffs Let_def dest: get_range_at split: if_splits)

lemma fw_parse_sign1_range:
  assumes "fw_parse_sign1 d = Ret s1"
  shows "\<exists>i. at d i (fw_protected s1)" and "\<exists>i. at d i (fw_payload s1)" and "\<exists>i. at d i (fw_signature s1)"
proof -
  have "\<exists>i. at d i []" by (rule exI [of _ 0]) simp
  with assms show "\<exists>i. at d i (fw_protected s1)" "\<exists>i. at d i (fw_payload s1)" "\<exists>i. at d i (fw_signature s1)"
    by (auto simp: fw_parse_sign1_def Ret_iffs' dest!: fw_read_bstr_range split: if_splits)
qed

lemma verify_firmware_at:
  assumes "d = enc (Tag 18 (Arr [Bstr prot, un, Bstr pay, Bstr sg]))" and "prot = enc (Dict ((Uint 1, Nint a) # kvs))"
    and "pay = enc (fw_payload_item magic ver platform arch itype ts frev build h hv img)" and "fits (2 ^ 64) un" and "length d < 2 ^ 32"
    and "a < 2 ^ 31" and "magic < 2 ^ 32" and "ver < 2 ^ 32" and "itype < 2 ^ 32" and "ts < 2 ^ 64" and "frev < 2 ^ 64" and "h < 2 ^ 31"
    and "utf8_valid platform" and "utf8_valid arch" and "build \<noteq> None \<longrightarrow> utf8_valid (the build)"
  shows "verify_firmware cr d =
    (if a \<noteq> 6 then Ret (UnsupportedAlgorithm (-1 - int a))
     else if \<not> fw_verify_ecdsa_p256 cr (build_sig_structure prot [] pay) sg then Ret SignatureInvalid
     else if magic \<noteq> FW_MAGIC then Ret ParseError
     else if arch \<noteq> ascii ''x86_64'' then Ret (ArchitectureMismatch arch)
     else if hv = [] then Ret ImageHashMismatch
     else if h \<noteq> 15 \<and> h \<noteq> 42 then Ret (UnsupportedHashAlgorithm (-1 - int h))
     else if hv \<noteq> (if h = 15 then sha256 cr img else sha384 cr img) then Ret ImageHashMismatch
     else Ret (Verified \<lparr>fp_magic = magic, fp_version = ver, platform_type = platform, architecture = arch, image_type = itype,
       timestamp = ts, firmware_rev = frev, build_id = build, image_hash = hv, image_hash_type = -1 - int h,
       image_offset = length pay - length img, image_size = length img\<rparr> img))"
proof -
  have d: "d = enc_head 6 18 @ enc (Arr [Bstr prot, un, Bstr pay, Bstr sg]) @ []" using assms(1) by simp
  then have len: "length d < 2 ^ 63" "length prot < 2 ^ 32" "length pay < 2 ^ 32" using assms(5) by simp_all
  have alg: "fw_protected_alg prot = Ret (-1 - int a)" by (rule fw_protected_alg_at [OF assms(2,6)]) (use len in simp)
  have "fw_parse_sign1 d = Ret \<lparr>fw_algorithm = -1 - int a, fw_protected = prot, fw_payload = pay, fw_signature = sg\<rparr>"
    by (rule fw_parse_sign1_at [OF d _ assms(4) len(1) alg, of 18]) simp
  moreover have "parse_firmware_payload pay = (if magic = FW_MAGIC then Ret \<lparr>fp_magic = magic, fp_version = ver, platform_type = platform,
      architecture = arch, image_type = itype, timestamp = ts, firmware_rev = frev, build_id = build, image_hash = hv,
      image_hash_type = -1 - int h, image_offset = length pay - length img, image_size = length img\<rparr> else Err ())"
    by (rule parse_firmware_payload_at [OF assms(3)]) (use assms(7-15) len in auto)
  moreover have "\<exists>xs. pay = xs @ img"
    unfolding assms(3) fw_payload_item_def by (auto intro: exI [of _ "_ @ _"])
  then obtain xs where xs: "pay = xs @ img" by blast
  then have "get_range pay (length pay - length img) (usz (length pay - length img + length img)) = Some img"
    using len by (simp add: get_range_def)
  moreover have "-1 - int a = -7 \<longleftrightarrow> a = 6" "-1 - int h = -16 \<longleftrightarrow> h = 15" "-1 - int h = -43 \<longleftrightarrow> h = 42" by linarith+
  ultimately show ?thesis
    using len xs by (auto simp: verify_firmware_def COSE_ALG_ES256_def COSE_ALG_SHA256_def COSE_ALG_SHA384_def fw_verify_signature_def
        fw_sig_structure_cose verify_image_hash_def Let_def)
qed


definition sample_firmware :: "bytes \<Rightarrow> cbor" where
  "sample_firmware img = fw_payload_item FW_MAGIC 1 (ascii ''dell'') (ascii ''x86_64'') 0 0 7 None 15 (be 32 (be_val img)) img"

definition sample_envelope :: "bytes \<Rightarrow> cbor" where
  "sample_envelope img = Tag 18 (Arr [Bstr (enc (Dict [(Uint 1, Nint 6)])), Dict [], Bstr (enc (sample_firmware img)), Bstr (replicate 64 0xac)])"

lemma sample_signature: "fw_verify_ecdsa_p256 toy_crypto m (replicate 64 0xac)"
  by (simp add: fw_verify_ecdsa_p256_def toy_crypto_def PLATFORM_KEY_X_def)

lemma length_sample_envelope: "length (enc (sample_envelope [1, 2])) < 2 ^ 32"
  by (simp add: sample_envelope_def sample_firmware_def fw_payload_item_def enc_head_def ascii_def FW_MAGIC_def)

lemma sample_accepted:
  "\<exists>pl. verify_firmware toy_crypto (enc (sample_envelope [1, 2])) = Ret (Verified pl [1, 2]) \<and> firmware_rev pl = 7"
proof -
  have u: "utf8_valid (ascii ''dell'')" "utf8_valid (ascii ''x86_64'')" by code_simp+
  let ?prot = "enc (Dict [(Uint 1, Nint 6)])" and ?pay = "enc (sample_firmware [1, 2])"
  have e: "enc (sample_envelope [1, 2]) = enc (Tag 18 (Arr [Bstr ?prot, Dict [], Bstr ?pay, Bstr (replicate 64 0xac)]))"
    by (simp only: sample_envelope_def)
  have "sha256 toy_crypto [1, 2] = be 32 (be_val [1, 2])" by (simp add: toy_crypto_def)
  with verify_firmware_at [OF e refl sample_firmware_def [THEN arg_cong], of toy_crypto] length_sample_envelope u sample_signature
  show ?thesis by (simp add: FW_MAGIC_def del: enc.simps)
qed

text \<open>Numbers fit 64 bits.\<close>

lemma fw_read_uint_arg_less: "fw_read_uint_arg d a p = (Ret v, q) \<Longrightarrow> v < 2 ^ 64"
proof -
  have "be_val (take n xs) < 2 ^ 64" if "n \<le> 8" for n and xs :: bytes
  proof -
    have "be_val (take n xs) < 256 ^ length (take n xs)" by (rule be_val_less)
    also have "\<dots> \<le> 256 ^ 8" using that by (intro power_increasing) auto
    finally show ?thesis by simp
  qed
  then show "fw_read_uint_arg d a p = (Ret v, q) \<Longrightarrow> v < 2 ^ 64"
    by (auto simp: fw_read_uint_arg_def Ret_iffs split: if_splits)
qed

lemma fw_read_uint_value_less: "fw_read_uint_value d p = (Ret v, q) \<Longrightarrow> v < 2 ^ 64"
proof -
  have "fw_read_uint_value_fuel k d p = (Ret v, q) \<Longrightarrow> v < 2 ^ 64" for k p
    by (induction k arbitrary: p) (auto simp: Ret_iffs dest: fw_read_uint_arg_less split: if_splits)
  then show "fw_read_uint_value d p = (Ret v, q) \<Longrightarrow> v < 2 ^ 64" unfolding fw_read_uint_value_def by blast
qed

lemma verified_rev_less: "verify_firmware cr d = Ret (Verified pl img) \<Longrightarrow> firmware_rev pl < 2 ^ 64"
proof -
  have "parse_firmware_payload x = Ret pl \<Longrightarrow> firmware_rev pl < 2 ^ 64" for x
    by (auto simp: parse_firmware_payload_def Ret_iffs' dest: fw_read_uint_value_less)
  then show "verify_firmware cr d = Ret (Verified pl img) \<Longrightarrow> firmware_rev pl < 2 ^ 64"
    by (auto simp: verify_firmware_def handle_Ret_iff Let_def split: if_splits option.splits hash_check.splits)
qed

text \<open>C37: an image is accepted only if it is authentic: it stands in a payload inside the download, the platform key has signed
  that payload, the payload is made for this architecture, and the image has the SHA-256 or SHA-384 hash the payload declares.\<close>

theorem verified_firmware_authentic:
  assumes "verify_firmware cr d = Ret (Verified pl img)" and "length d < 2 ^ 32"
  shows "\<exists>prot pay sg vk s i. at d i pay \<and> length sg = 64 \<and> ec_key cr (0x04 # PLATFORM_KEY_X @ PLATFORM_KEY_Y) = Some vk \<and>
    ec_sig cr sg = Some s \<and> ec_verify cr vk (build_sig_structure prot [] pay) s \<and> parse_firmware_payload pay = Ret pl \<and>
    at pay (image_offset pl) img \<and> architecture pl = ascii ''x86_64'' \<and> image_hash pl \<noteq> [] \<and>
    (image_hash_type pl = -16 \<and> image_hash pl = sha256 cr img \<or> image_hash_type pl = -43 \<and> image_hash pl = sha384 cr img)"
proof -
  obtain s1 where s1: "fw_parse_sign1 d = Ret s1" "fw_verify_signature cr s1" "parse_firmware_payload (fw_payload s1) = Ret pl"
      and arch: "architecture pl = ascii ''x86_64''"
      and img: "get_range (fw_payload s1) (image_offset pl) (usz (image_offset pl + image_size pl)) = Some img"
      and hash: "verify_image_hash cr pl img = HashOk"
    using assms(1) by (auto simp: verify_firmware_def handle_Ret_iff Let_def split: if_splits option.splits hash_check.splits)
  note range = fw_parse_sign1_range [OF s1(1)]
  from range(1,2) obtain i j where ij: "at d i (fw_protected s1)" "at d j (fw_payload s1)" by blast
  have len: "length (fw_protected s1) < 2 ^ 32" "length (fw_payload s1) < 2 ^ 32"
    using at_bound [OF ij(1)] at_bound [OF ij(2)] assms(2) by simp_all
  from s1(2) obtain vk s where "length (fw_signature s1) = 64" "ec_key cr (0x04 # PLATFORM_KEY_X @ PLATFORM_KEY_Y) = Some vk"
      "ec_sig cr (fw_signature s1) = Some s" "ec_verify cr vk (build_sig_structure (fw_protected s1) [] (fw_payload s1)) s"
    by (auto simp: fw_verify_signature_def fw_verify_ecdsa_p256_def fw_sig_structure_cose [OF len] split: if_splits option.splits)
  moreover have "at (fw_payload s1) (image_offset pl) img" using img by (rule get_range_at)
  moreover have "image_hash pl \<noteq> []" "image_hash_type pl = -16 \<and> image_hash pl = sha256 cr img \<or> image_hash_type pl = -43 \<and> image_hash pl = sha384 cr img"
    using hash by (auto simp: verify_image_hash_def Let_def COSE_ALG_SHA256_def COSE_ALG_SHA384_def split: if_splits)
  ultimately show ?thesis using ij(2) s1(3) arch by blast
qed

theorem verified_firmware_authentic_witness:
  "\<exists>pl pay i. verify_firmware toy_crypto (enc (sample_envelope [1, 2])) = Ret (Verified pl [1, 2]) \<and>
     at (enc (sample_envelope [1, 2])) i pay \<and> parse_firmware_payload pay = Ret pl"
proof -
  obtain pl where v: "verify_firmware toy_crypto (enc (sample_envelope [1, 2])) = Ret (Verified pl [1, 2])"
    using sample_accepted by blast
  from verified_firmware_authentic [OF v length_sample_envelope] v show ?thesis by blast
qed

text \<open>The decision on an encoded firmware envelope, in the order of the checks: algorithm, signature of the platform key, magic,
  architecture, hash; the accepted image and revision are the encoded ones.\<close>

theorem verify_firmware_decision:
  assumes "d = enc (Tag 18 (Arr [Bstr prot, un, Bstr pay, Bstr sg]))" and "prot = enc (Dict ((Uint 1, Nint a) # kvs))"
    and "pay = enc (fw_payload_item magic ver platform arch itype ts frev build h hv img)" and "fits (2 ^ 64) un" and "length d < 2 ^ 32"
    and "a < 2 ^ 31" and "magic < 2 ^ 32" and "ver < 2 ^ 32" and "itype < 2 ^ 32" and "ts < 2 ^ 64" and "frev < 2 ^ 64" and "h < 2 ^ 31"
    and "utf8_valid platform" and "utf8_valid arch" and "build \<noteq> None \<longrightarrow> utf8_valid (the build)"
  shows "verify_firmware cr d =
    (if a \<noteq> 6 then Ret (UnsupportedAlgorithm (-1 - int a))
     else if \<not> fw_verify_ecdsa_p256 cr (build_sig_structure prot [] pay) sg then Ret SignatureInvalid
     else if magic \<noteq> FW_MAGIC then Ret ParseError
     else if arch \<noteq> ascii ''x86_64'' then Ret (ArchitectureMismatch arch)
     else if hv = [] then Ret ImageHashMismatch
     else if h \<noteq> 15 \<and> h \<noteq> 42 then Ret (UnsupportedHashAlgorithm (-1 - int h))
     else if hv \<noteq> (if h = 15 then sha256 cr img else sha384 cr img) then Ret ImageHashMismatch
     else Ret (Verified \<lparr>fp_magic = magic, fp_version = ver, platform_type = platform, architecture = arch, image_type = itype,
       timestamp = ts, firmware_rev = frev, build_id = build, image_hash = hv, image_hash_type = -1 - int h,
       image_offset = length pay - length img, image_size = length img\<rparr> img))"
  by (rule verify_firmware_at [OF assms])

theorem verify_firmware_decision_witness:
  "\<exists>pl. verify_firmware toy_crypto (enc (sample_envelope [1, 2])) = Ret (Verified pl [1, 2]) \<and> firmware_rev pl = 7"
proof -
  have u: "utf8_valid (ascii ''dell'')" "utf8_valid (ascii ''x86_64'')" by code_simp+
  let ?prot = "enc (Dict [(Uint 1, Nint 6)])" and ?pay = "enc (sample_firmware [1, 2])"
  have e: "enc (sample_envelope [1, 2]) = enc (Tag 18 (Arr [Bstr ?prot, Dict [], Bstr ?pay, Bstr (replicate 64 0xac)]))"
    by (simp only: sample_envelope_def)
  have "sha256 toy_crypto [1, 2] = be 32 (be_val [1, 2])" by (simp add: toy_crypto_def)
  with verify_firmware_decision [OF e refl sample_firmware_def [THEN arg_cong], of toy_crypto] length_sample_envelope u sample_signature
  show ?thesis by (simp add: FW_MAGIC_def del: enc.simps)
qed

text \<open>Downloads that need no signature: a length that wraps the end of a slice below its start, and an unprotected header whose
  first element wraps the position back to the header itself.\<close>

lemmas fw_eval = next_byte_def peek_byte_def major_eq addl_eq fw_read_uint_arg_def fw_read_bstr_def fw_read_str_def bind_def guard_def run_def
  take_bytes_def get_range_def slice_def usz_def Let_def be_val_def

lemma verify_firmware_panics: "verify_firmware cr [0x84, 0x5b, 0xff, 0xff, 0xff, 0xff, 0xff, 0xff, 0xff, 0xff] = Panic"
proof -
  have "fw_parse_sign1 [0x84, 0x5b, 0xff, 0xff, 0xff, 0xff, 0xff, 0xff, 0xff, 0xff] = Panic"
    by (simp add: fw_parse_sign1_def fw_eval)
  then show ?thesis by (simp add: verify_firmware_def)
qed

definition fw_loop :: bytes where
  "fw_loop = [0x84, 0x40, 0x82, 0x5b, 0xff, 0xff, 0xff, 0xff, 0xff, 0xff, 0xff, 0xf6]"

lemma fw_skip_diverges: "fst (fw_skip_fuel k fw_loop 2) = Diverge"
proof (induction k)
  case (Suc k)
  have arr: "next_byte fw_loop 2 = (Ret 0x82, 3)" "fw_read_uint_arg fw_loop (addl 0x82) 3 = (Ret 2, 3)" "major 0x82 = 4"
    by (simp_all add: fw_loop_def fw_eval)
  have bstr: "fw_skip_fuel (Suc j) fw_loop 3 = (Ret (), 2)" for j
  proof -
    have "next_byte fw_loop 3 = (Ret 0x5b, 4)" "fw_read_uint_arg fw_loop (addl 0x5b) 4 = (Ret (2 ^ 64 - 10), 12)" "major 0x5b = 2" "length fw_loop = 12"
      by (simp_all add: fw_loop_def fw_eval)
    then show ?thesis by (simp add: bind_def usz_def guard_def)
  qed
  have "fw_skip_fuel (Suc k) fw_loop 2 = bind (fw_skip_fuel k fw_loop) (repeat 1 (\<lambda>_. fw_skip_fuel k fw_loop)) 3"
    using arr by (simp add: bind_def repeat_eval [of 2])
  also have "fst \<dots> = Diverge"
  proof (cases k)
    case (Suc j)
    with bstr [of j] Suc.IH show ?thesis
      by (cases "fw_skip_fuel k fw_loop 2") (simp add: bind_def)
  qed (simp add: bind_def)
  finally show ?case .
qed simp

text \<open>A download of twelve bytes, which needs no signature, sends the verification into a recursion without end.\<close>

theorem verify_firmware_diverges: "verify_firmware cr fw_loop = Diverge"
proof -
  have "fw_protected_alg [] = Ret 0" by (simp add: fw_protected_alg_def run_def let_else_apply next_byte_def)
  moreover have "peek_byte fw_loop 0 = (Ret 0x84, 0)" "next_byte fw_loop 0 = (Ret 0x84, 1)" "major 0x84 = 4"
      "fw_read_uint_arg fw_loop (addl 0x84) 1 = (Ret 4, 1)" "fw_read_bstr fw_loop 1 = (Ret [], 2)"
    by (simp_all add: fw_loop_def fw_eval)
  moreover obtain q where "fw_skip fw_loop 2 = (Diverge, q)"
    using fw_skip_diverges by (metis fw_skip_def prod.collapse)
  ultimately have "fw_parse_sign1 fw_loop = Diverge" by (simp add: fw_parse_sign1_def run_def bind_def lift_def)
  then show ?thesis by (simp add: verify_firmware_def)
qed

end
