(* ===== verification/Anti_Rollback.thy ===== *)
theory Anti_Rollback
  imports Rv_Parse Fw_Verify
begin

text \<open>
  \<open>src/src/rv_firmware/anti_rollback.rs\<close> and \<open>mod.rs\<close>: the minimum firmware revision kept in the TPM, and the delivery
  of firmware before onboarding, which ties the reader of the firmware information, the verification and the ratchet
  together. The delivery is that of a build without the feature \<open>di\<close>, whose block runs device initialisation first. The
  HTTP client is a function of the URL; starting the image is recorded in the result.

  What the code relies on in a TPM is the predicate \<open>nv_device\<close>: the index can be read, reading changes nothing, and a write
  of the size of the index replaces its contents. Over such a TPM the ratchet refines a counter that only grows.
\<close>

section \<open>The ratchet\<close>

definition stored_rev :: "bytes \<Rightarrow> (unit, nat) outcome" where
  "stored_rev d = handle (min_firmware_rev d) Ret (\<lambda>_. Ret 0)"

definition read_firmware_rev_counter :: "tcg2 \<Rightarrow> (unit, nat) tpm" where
  "read_firmware_rev_counter tcg =
     bind (attempt (tpm_nv_read tcg DCTPM_NV_INDEX)) (\<lambda>r. case r of
       Some d \<Rightarrow> lift (stored_rev d)
     | None \<Rightarrow> ret 0)"

definition update_firmware_rev_counter :: "tcg2 \<Rightarrow> nat \<Rightarrow> (unit, bool) tpm" where
  "update_firmware_rev_counter tcg new_rev =
     (if new_rev = 0 then ret True
      else bind (attempt (tpm_nv_read tcg DCTPM_NV_INDEX)) (\<lambda>r. case r of
        None \<Rightarrow> ret False
      | Some d \<Rightarrow>
          bind (lift (stored_rev d)) (\<lambda>current.
          if new_rev \<le> current then ret True
          else bind (attempt (lift (with_min_firmware_rev d new_rev))) (\<lambda>u. case u of
            None \<Rightarrow> ret False
          | Some updated \<Rightarrow>
              if length updated \<le> length d then
                tpm_nv_write_in_place tcg DCTPM_NV_INDEX (updated @ replicate (length d - length updated) 0)
              else tpm_nv_write tcg DCTPM_NV_INDEX (dctpm_padded updated) DCTPM_NV_ATTRIBUTES))))"

definition check_firmware_rev :: "tcg2 \<Rightarrow> nat \<Rightarrow> nat option \<Rightarrow> (unit, bool) tpm" where
  "check_firmware_rev tcg rv rv_min_rev =
     bind (read_firmware_rev_counter tcg) (\<lambda>persisted.
     let rv_min = (case rv_min_rev of Some m \<Rightarrow> m | None \<Rightarrow> 0);
         effective_min = max persisted rv_min in
     if effective_min = 0 then ret True
     else if rv < effective_min then ret False
     else ret True)"

section \<open>Delivery\<close>

datatype delivery_result = Chainloaded | NoUpdate | DeliveryError

text \<open>Step 4b: the check, and the ratchet after it; a failed write is only logged.\<close>

definition admit_revision :: "tcg2 \<Rightarrow> nat \<Rightarrow> nat option \<Rightarrow> (unit, bool) tpm" where
  "admit_revision tcg rv rv_min_rev =
     bind (check_firmware_rev tcg rv rv_min_rev) (\<lambda>ok.
     if \<not> ok then ret False
     else bind (if rv > 0 then update_firmware_rev_counter tcg rv else ret True) (\<lambda>_. ret True))"

text \<open>The result, and the image that was started, if any; \<open>chainload\<close> tells whether it returned without error.\<close>

definition check_and_deliver ::
    "crypto \<Rightarrow> (bytes \<Rightarrow> bytes option) \<Rightarrow> (bytes \<Rightarrow> bool) \<Rightarrow> tcg2 \<Rightarrow> (unit, delivery_result \<times> bytes option) tpm" where
  "check_and_deliver cr http_get chainload tcg =
     bind (attempt (tpm_nv_read tcg DCTPM_NV_INDEX)) (\<lambda>r. case r of
       None \<Rightarrow> ret (NoUpdate, None)
     | Some dctpm_data \<Rightarrow>
         bind (attempt (lift (parse_rv_firmware_info dctpm_data))) (\<lambda>i. case i of
           None \<Rightarrow> ret (NoUpdate, None)
         | Some rv_info \<Rightarrow>
             (case firmware_url rv_info of
                None \<Rightarrow> ret (NoUpdate, None)
              | Some url \<Rightarrow>
                  (case http_get url of
                     None \<Rightarrow> ret (DeliveryError, None)
                   | Some signed_data \<Rightarrow>
                       bind (lift (verify_firmware cr signed_data)) (\<lambda>v. case v of
                         Verified pl img \<Rightarrow>
                           bind (admit_revision tcg (firmware_rev pl) (info_min_rev rv_info)) (\<lambda>ok.
                           if \<not> ok then ret (DeliveryError, None)
                           else ret (if chainload img then Chainloaded else DeliveryError, Some img))
                       | _ \<Rightarrow> ret (DeliveryError, None))))))"

section \<open>The TPM\<close>

text \<open>
  The documented behaviour of a TPM whose DCTPM index holds \<open>nv h\<close> after the commands \<open>h\<close>: the public area (without a
  policy) gives the size, NV_Read gives the contents, both leave them alone, and NV_Write of as many bytes replaces them.
\<close>

definition nv_public :: "nat \<Rightarrow> bytes" where
  "nv_public n = be 2 14 @ be 4 DCTPM_NV_INDEX @ be 2 TPM2_ALG_SHA256 @ be 4 DCTPM_NV_ATTRIBUTES @ be 2 0 @ be 2 n @ be 2 0"

definition nv_device :: "tcg2 \<Rightarrow> (bytes list \<Rightarrow> bytes) \<Rightarrow> bool" where
  "nv_device tcg nv \<longleftrightarrow> (\<forall>h. tcg_open tcg h \<and> length (nv h) \<le> 1000 \<and>
     tcg_submit tcg h (build_nv_read_public_cmd DCTPM_NV_INDEX) 512 = Some (tpm_response TPM2_ST_NO_SESSIONS (nv_public (length (nv h)))) \<and>
     nv (h @ [build_nv_read_public_cmd DCTPM_NV_INDEX]) = nv h \<and>
     tcg_submit tcg h (build_nv_read_cmd DCTPM_NV_INDEX (length (nv h)) 0) 1024 =
       Some (tpm_response TPM2_ST_SESSIONS (be 4 (2 + length (nv h)) @ tpm2b (nv h) @ [0, 0, 0, 0, 0])) \<and>
     nv (h @ [build_nv_read_cmd DCTPM_NV_INDEX (length (nv h)) 0]) = nv h \<and>
     (\<forall>d. length d = length (nv h) \<longrightarrow>
       tcg_submit tcg h (build_nv_write_cmd DCTPM_NV_INDEX d) 64 = Some (tpm_response TPM2_ST_SESSIONS (be 4 0 @ [0, 0, 0, 0, 0])) \<and>
       nv (h @ [build_nv_write_cmd DCTPM_NV_INDEX d]) = d))"

lemma parse_nv_read_public_at:
  assumes "at d 0 (tpm_response TPM2_ST_NO_SESSIONS (nv_public n))" and "n < 2 ^ 16"
  shows "parse_nv_read_public_response d = Ret n"
proof -
  note a = at_tpm_response [OF assms(1)]
  have "at d 24 (be 2 n)" using a(1) by (simp add: nv_public_def)
  with a(2) response_ok_at [OF assms(1), of 10] unpack_at(1) [OF this assms(2)] show ?thesis
    by (simp add: parse_nv_read_public_response_def nv_public_def)
qed

lemma parse_nv_read_at:
  assumes "at d 0 (tpm_response TPM2_ST_SESSIONS (be 4 k @ tpm2b bs @ rest))" and "length bs < 2 ^ 16" and "k < 2 ^ 32"
  shows "parse_nv_read_response d = Ret bs"
proof -
  note a = at_tpm_response [OF assms(1)]
  have b: "at d 10 (be 4 k)" "at d 14 (tpm2b bs)" using a(1) by simp_all
  from a(2) response_ok_at [OF assms(1), of 10] read_tpm2b_at [OF b(2) assms(2)] show ?thesis
    by (simp add: parse_nv_read_response_def tpm2b_def pack_u16_def unpack_at(2) [OF b(1) assms(3)])
qed

lemma nv_read_device:
  assumes "nv_device tcg nv"
  shows "\<exists>h'. tpm_nv_read tcg DCTPM_NV_INDEX h = (Ret (nv h), h') \<and> nv h' = nv h"
proof -
  let ?pub = "build_nv_read_public_cmd DCTPM_NV_INDEX" and ?n = "length (nv h)"
  let ?rd = "build_nv_read_cmd DCTPM_NV_INDEX ?n 0" and ?h1 = "h @ [build_nv_read_public_cmd DCTPM_NV_INDEX]"
  let ?r1 = "tpm_response TPM2_ST_NO_SESSIONS (nv_public ?n)"
  let ?r2 = "tpm_response TPM2_ST_SESSIONS (be 4 (2 + ?n) @ tpm2b (nv h) @ [0, 0, 0, 0, 0])"
  have 1: "tcg_open tcg h" "?n \<le> 1000" "tcg_submit tcg h ?pub 512 = Some ?r1" "nv ?h1 = nv h"
    using assms unfolding nv_device_def by blast+
  have 2: "tcg_submit tcg ?h1 ?rd 1024 = Some ?r2" "nv (?h1 @ [?rd]) = nv h"
    using assms 1(4) unfolding nv_device_def by metis+
  have a1: "at (response_buffer 512 ?r1) 0 ?r1"
    by (rule response_buffer_at) (simp add: tpm_response_def nv_public_def)
  have a2: "at (response_buffer 1024 ?r2) 0 ?r2"
    by (rule response_buffer_at) (use 1(2) in \<open>simp add: tpm_response_def tpm2b_def pack_u16_def\<close>)
  from submit_now [OF 1(3) a1] submit_now [OF 2(1) a2] parse_nv_read_public_at [OF a1] parse_nv_read_at [OF a2] 1(1,2) 2(2) show ?thesis
    by (simp add: tpm_nv_read_def bind_def open_tcg_def lift_def)
qed

lemma nv_write_device:
  assumes "nv_device tcg nv" and "length d = length (nv h)"
  shows "\<exists>h'. tpm_nv_write_in_place tcg DCTPM_NV_INDEX d h = (Ret True, h') \<and> nv h' = d"
proof -
  let ?w = "build_nv_write_cmd DCTPM_NV_INDEX d" and ?r = "tpm_response TPM2_ST_SESSIONS (be 4 0 @ [0, 0, 0, 0, 0])"
  have 1: "tcg_open tcg h" "tcg_submit tcg h ?w 64 = Some ?r" "nv (h @ [?w]) = d"
    using assms unfolding nv_device_def by blast+
  have a: "at (response_buffer 64 ?r) 0 ?r" by (rule response_buffer_at) (simp add: tpm_response_def)
  from submit_now [OF 1(2) a] 1 show ?thesis
    by (simp add: tpm_nv_write_in_place_def succeeds_def attempt_def bind_def open_tcg_def)
qed


section \<open>The counter\<close>

text \<open>The contents of the index: a DCTPM array with minimum revision \<open>m\<close> and room for a revision of any size.\<close>

definition rev_image :: "bytes \<Rightarrow> nat \<Rightarrow> bool" where
  "rev_image d m \<longleftrightarrow> min_firmware_rev d = Ret m \<and> (\<exists>items pad. d = enc (Arr items) @ pad \<and> 10 \<le> length items \<and>
     (\<forall>c\<in>set items. fits (2 ^ 64) c) \<and> length (enc (Arr (take 10 items @ Uint (2 ^ 64 - 1) # drop 11 items))) \<le> length d)"

lemma rev_image_write:
  assumes "rev_image d m" and "v < 2 ^ 64" and "length d < 2 ^ 63"
  shows "\<exists>u. with_min_firmware_rev d v = Ret u \<and> length u \<le> length d \<and> rev_image (u @ replicate (length d - length u) 0) v"
proof -
  obtain items pad where d: "d = enc (Arr items) @ pad" "10 \<le> length items" "\<forall>c\<in>set items. fits (2 ^ 64) c"
      and room: "length (enc (Arr (take 10 items @ Uint (2 ^ 64 - 1) # drop 11 items))) \<le> length d"
    using assms(1) unfolding rev_image_def by blast
  let ?items = "take 10 items @ Uint v # drop 11 items"
  let ?u = "enc (Arr ?items)" and ?pad = "replicate (length d - length (enc (Arr ?items))) 0 :: bytes"
  have w: "with_min_firmware_rev d v = Ret ?u" by (rule with_min_firmware_rev_items [OF d assms(3,2)])
  have "length (enc_head 0 v) \<le> length (enc_head 0 (2 ^ 64 - 1))" by (simp add: enc_head_def)
  then have le: "length ?u \<le> length d" using room by simp
  then have len: "length (?u @ ?pad) = length d" by simp
  have "min_firmware_rev (?u @ ?pad) = Ret v" by (rule written_rev_read [OF w assms(2)]) (use len assms(3) in simp)
  moreover have "take 10 ?items = take 10 items" "drop 11 ?items = drop 11 items" "10 \<le> length ?items" using d(2) by simp_all
  moreover have "\<forall>c\<in>set ?items. fits (2 ^ 64) c" using d(3) assms(2) by (auto dest: in_set_takeD in_set_dropD)
  ultimately have "rev_image (?u @ ?pad) v"
    unfolding rev_image_def using room len by (intro conjI exI [of _ ?items] exI [of _ ?pad]) (simp_all del: enc.simps)
  with w le show ?thesis by blast
qed

lemma rev_image_less: "rev_image d m \<Longrightarrow> m < 2 ^ 64"
  using min_firmware_rev_holds [of d] by (simp add: rev_image_def)

lemma nv_length: "nv_device tcg nv \<Longrightarrow> length (nv h) < 2 ^ 63"
  unfolding nv_device_def by (rule le_less_trans [of _ 1000]) simp_all

lemma update_device:
  assumes "nv_device tcg nv" and "rev_image (nv h) m" and "v < 2 ^ 64"
  shows "\<exists>h'. update_firmware_rev_counter tcg v h = (Ret True, h') \<and> rev_image (nv h') (max m v)"
proof (cases "v \<le> m")
  case True
  obtain h' where "tpm_nv_read tcg DCTPM_NV_INDEX h = (Ret (nv h), h')" "nv h' = nv h" using nv_read_device [OF assms(1)] by blast
  with True assms(2) show ?thesis
    by (auto simp: update_firmware_rev_counter_def bind_def attempt_def lift_def stored_rev_def rev_image_def max_def)
next
  case False
  obtain h1 where h1: "tpm_nv_read tcg DCTPM_NV_INDEX h = (Ret (nv h), h1)" "nv h1 = nv h" using nv_read_device [OF assms(1)] by blast
  obtain u where u: "with_min_firmware_rev (nv h) v = Ret u" "length u \<le> length (nv h)"
      "rev_image (u @ replicate (length (nv h) - length u) 0) v"
    using rev_image_write [OF assms(2,3) nv_length [OF assms(1)]] by blast
  obtain h2 where h2: "tpm_nv_write_in_place tcg DCTPM_NV_INDEX (u @ replicate (length (nv h) - length u) 0) h1 = (Ret True, h2)"
      "nv h2 = u @ replicate (length (nv h) - length u) 0"
    using nv_write_device [OF assms(1), of "u @ replicate (length (nv h) - length u) 0" h1] h1(2) u(2) by auto
  from False assms(2) have "stored_rev (nv h) = Ret m" "max m v = v" "v \<noteq> 0" by (simp_all add: stored_rev_def rev_image_def)
  with h1 h2 u False show ?thesis
    by (simp add: update_firmware_rev_counter_def bind_def attempt_def lift_def)
qed

lemma check_device:
  assumes "nv_device tcg nv" and "rev_image (nv h) m"
  shows "\<exists>h'. check_firmware_rev tcg v rv_min h = (Ret (max m (case rv_min of Some n \<Rightarrow> n | None \<Rightarrow> 0) \<le> v), h') \<and> nv h' = nv h"
proof -
  obtain h1 where "tpm_nv_read tcg DCTPM_NV_INDEX h = (Ret (nv h), h1)" "nv h1 = nv h" using nv_read_device [OF assms(1)] by blast
  with assms(2) show ?thesis
    by (auto simp: check_firmware_rev_def read_firmware_rev_counter_def bind_def attempt_def lift_def stored_rev_def rev_image_def Let_def)
qed

text \<open>The specification: a counter that admits a revision that is not below it, nor below the minimum offered with it, and follows the
  admitted revisions upwards.\<close>

fun ratchet :: "(nat \<times> nat option) list \<Rightarrow> nat \<Rightarrow> bool list \<times> nat" where
  "ratchet [] m = ([], m)"
| "ratchet ((v, rv_min) # offers) m =
     (let ok = (max m (case rv_min of Some n \<Rightarrow> n | None \<Rightarrow> 0) \<le> v);
          (oks, m') = ratchet offers (if ok then max m v else m) in (ok # oks, m'))"

text \<open>The program over a sequence of boots, each offering one revision.\<close>

fun admit_all :: "tcg2 \<Rightarrow> (nat \<times> nat option) list \<Rightarrow> (unit, bool list) tpm" where
  "admit_all tcg [] = ret []"
| "admit_all tcg ((v, rv_min) # offers) =
     bind (admit_revision tcg v rv_min) (\<lambda>ok. bind (admit_all tcg offers) (\<lambda>oks. ret (ok # oks)))"

lemma admit_device:
  fixes rv_min :: "nat option" and m v :: nat
  defines "ok \<equiv> max m (case rv_min of Some n \<Rightarrow> n | None \<Rightarrow> 0) \<le> v"
  assumes "nv_device tcg nv" and "rev_image (nv h) m" and "v < 2 ^ 64"
  shows "\<exists>h'. admit_revision tcg v rv_min h = (Ret ok, h') \<and> rev_image (nv h') (if ok then max m v else m)"
proof -
  obtain h1 where h1: "check_firmware_rev tcg v rv_min h = (Ret ok, h1)" "nv h1 = nv h"
    using check_device [OF assms(2,3)] unfolding ok_def by blast
  with update_device [OF assms(2), of h1 m v] assms(3,4) show ?thesis
    by (cases ok) (auto simp: admit_revision_def bind_def)
qed

text \<open>C15: the ratchet in the TPM refines the counter: over any sequence of boots, whatever revisions the servers offer, the program admits
  exactly the revisions the counter admits, and the TPM then holds the counter's value. An admitted revision is never below an earlier one.\<close>

theorem anti_rollback_refines:
  assumes "nv_device tcg nv" and "rev_image (nv h) m" and "\<forall>x\<in>set offers. fst x < 2 ^ 64"
  shows "(\<exists>h'. admit_all tcg offers h = (Ret (fst (ratchet offers m)), h') \<and> rev_image (nv h') (snd (ratchet offers m))) \<and>
    sorted (m # map fst (map fst (filter snd (zip offers (fst (ratchet offers m))))))"
  using assms(2,3)
proof (induction offers arbitrary: h m)
  case (Cons x offers)
  obtain v rv_min where x: "x = (v, rv_min)" by force
  define ok where "ok \<longleftrightarrow> max m (case rv_min of Some n \<Rightarrow> n | None \<Rightarrow> 0) \<le> v"
  let ?m = "if ok then max m v else m"
  obtain h1 where h1: "admit_revision tcg v rv_min h = (Ret ok, h1)" "rev_image (nv h1) ?m"
    using admit_device [OF assms(1) Cons.prems(1), of v rv_min] Cons.prems(2) unfolding ok_def x by auto
  have r: "fst (ratchet (x # offers) m) = ok # fst (ratchet offers ?m)" "snd (ratchet (x # offers) m) = snd (ratchet offers ?m)"
    by (simp_all add: x ok_def Let_def case_prod_beta)
  from Cons.IH [OF h1(2)] Cons.prems(2) obtain h2 where
      h2: "admit_all tcg offers h1 = (Ret (fst (ratchet offers ?m)), h2)" "rev_image (nv h2) (snd (ratchet offers ?m))"
      and s: "sorted (?m # map fst (map fst (filter snd (zip offers (fst (ratchet offers ?m))))))" by auto
  have "admit_all tcg (x # offers) h = (Ret (fst (ratchet (x # offers) m)), h2)"
    unfolding r using h1(1) h2(1) by (simp add: x bind_def)
  moreover have "sorted (m # map fst (map fst (filter snd (zip (x # offers) (fst (ratchet (x # offers) m))))))"
  proof -
    let ?xs = "map fst (map fst (filter snd (zip offers (fst (ratchet offers ?m)))))"
    have e: "map fst (map fst (filter snd (zip (x # offers) (fst (ratchet (x # offers) m))))) = (if ok then v # ?xs else ?xs)"
      unfolding r by (simp add: x)
    have up: "sorted (m # (if ok then v # ys else ys))" if "sorted (?m # ys)" for ys
      using that by (auto simp: ok_def)
    show ?thesis unfolding e by (rule up) (rule s)
  qed
  ultimately show ?case using h2(2) r(2) by auto
qed simp


text \<open>A TPM with one index, as a function of the commands: only NV_Write changes the contents.\<close>

definition command_code :: "bytes \<Rightarrow> bytes" where
  "command_code c = take 4 (drop 6 c)"

definition sample_nv :: "bytes \<Rightarrow> bytes list \<Rightarrow> bytes" where
  "sample_nv = foldl (\<lambda>s c. if command_code c = be 4 TPM2_CC_NV_WRITE then take (length s) (drop 33 c) else s)"

definition sample_tcg :: "bytes \<Rightarrow> tcg2" where
  "sample_tcg s = \<lparr>tcg_open = (\<lambda>h. True), tcg_submit = (\<lambda>h c n. let d = sample_nv s h in
     if command_code c = be 4 TPM2_CC_NV_READ_PUBLIC then Some (tpm_response TPM2_ST_NO_SESSIONS (nv_public (length d)))
     else if command_code c = be 4 TPM2_CC_NV_READ then
       Some (tpm_response TPM2_ST_SESSIONS (be 4 (2 + length d) @ tpm2b d @ [0, 0, 0, 0, 0]))
     else Some (tpm_response TPM2_ST_SESSIONS (be 4 0 @ [0, 0, 0, 0, 0])))\<rparr>"

lemma command_codes:
  "command_code (build_nv_read_public_cmd i) = be 4 TPM2_CC_NV_READ_PUBLIC" "command_code (build_nv_read_cmd i n k) = be 4 TPM2_CC_NV_READ"
  "command_code (build_nv_write_cmd i d) = be 4 TPM2_CC_NV_WRITE" "take (length d) (drop 33 (build_nv_write_cmd i d)) = d"
  by (simp_all add: command_code_def build_nv_read_public_cmd_def build_nv_read_cmd_def build_nv_write_cmd_def tpm_command_def pack_u16_def pack_u32_def
      auth_area_def tpm2b_def)

lemma sample_device:
  assumes "length s \<le> 1000"
  shows "nv_device (sample_tcg s) (sample_nv s)"
proof -
  have codes: "be 4 TPM2_CC_NV_READ_PUBLIC \<noteq> be 4 TPM2_CC_NV_WRITE" "be 4 TPM2_CC_NV_READ \<noteq> be 4 TPM2_CC_NV_WRITE"
      "be 4 TPM2_CC_NV_READ \<noteq> be 4 TPM2_CC_NV_READ_PUBLIC"
    by (simp_all add: TPM2_CC_NV_READ_PUBLIC_def TPM2_CC_NV_WRITE_def TPM2_CC_NV_READ_def be_4)
  have len: "length (sample_nv s h) \<le> 1000" for h
    using assms by (induction h rule: rev_induct) (auto simp: sample_nv_def)
  have step: "sample_nv s (h @ [c]) = (if command_code c = be 4 TPM2_CC_NV_WRITE then take (length (sample_nv s h)) (drop 33 c) else sample_nv s h)" for h c
    by (simp add: sample_nv_def)
  show ?thesis
    unfolding nv_device_def using codes codes(1,2) [symmetric] len by (auto simp: step sample_tcg_def command_codes Let_def) (metis command_codes(4))
qed

lemma ten_items_rev_image:
  assumes "length items = 10" and "\<forall>c\<in>set items. fits (2 ^ 64) c"
  shows "rev_image (enc (Arr items) @ replicate 400 0) 0"
proof -
  let ?d = "enc (Arr items) @ replicate 400 0"
  have "at ?d 0 (enc_head 4 10)" using assms(1) at_whole [of ?d] by simp
  then have "min_firmware_rev ?d = Ret 0"
    using dctpm_head_at [of ?d 0 4 10] by (simp add: min_firmware_rev_def run_def bind_def MIN_FIRMWARE_REV_ITEM_def)
  moreover have "length (enc (Arr (take 10 items @ Uint (2 ^ 64 - 1) # drop 11 items))) \<le> length ?d"
    using assms(1) by (simp add: enc_head_def)
  ultimately show ?thesis
    unfolding rev_image_def using assms by (intro conjI exI [of _ items] exI [of _ "replicate 400 0"]) auto
qed

theorem anti_rollback_refines_witness:
  "fst (admit_all (sample_tcg (enc (Arr sample_dctpm) @ replicate 400 0)) [(5, None), (7, Some 6), (5, None), (8, Some 9)] []) = Ret [True, True, False, False]"
proof -
  let ?d = "enc (Arr sample_dctpm) @ replicate 400 0"
  have "length ?d \<le> 1000" by (simp add: sample_dctpm_def enc_head_def DCTPM_MAGIC_def)
  from anti_rollback_refines [OF sample_device [OF this], of "[]" 0 "[(5, None), (7, Some 6), (5, None), (8, Some 9)]"] ten_items_rev_image [of sample_dctpm] sample_dctpm_fits show ?thesis
    by (auto simp: sample_nv_def Let_def)
qed

text \<open>What a delivery that starts an image has done.\<close>

lemma started_image:
  assumes "check_and_deliver cr http_get chainload tcg h = (Ret (res, Some img), h')" and "tpm_nv_read tcg DCTPM_NV_INDEX h = (Ret nv, h1)"
  shows "\<exists>i url d pl. parse_rv_firmware_info nv = Ret i \<and> firmware_url i = Some url \<and> http_get url = Some d \<and>
    verify_firmware cr d = Ret (Verified pl img) \<and> admit_revision tcg (firmware_rev pl) (info_min_rev i) h1 = (Ret True, h') \<and>
    res = (if chainload img then Chainloaded else DeliveryError)"
proof (cases "parse_rv_firmware_info nv")
  case (Ret i)
  note run = assms [unfolded check_and_deliver_def] Ret
  show ?thesis
  proof (cases "firmware_url i")
    case (Some url)
    show ?thesis
    proof (cases "http_get url")
      case d: (Some d)
      show ?thesis
      proof (cases "verify_firmware cr d")
        case v: (Ret v)
        show ?thesis
          using run Some d v by (cases v) (auto simp: bind_def attempt_def lift_def split: prod.splits outcome.splits if_splits)
      qed (use run Some d in \<open>simp_all add: bind_def attempt_def lift_def\<close>)
    qed (use run Some in \<open>simp add: bind_def attempt_def lift_def\<close>)
  qed (use run in \<open>simp add: bind_def attempt_def lift_def\<close>)
qed (use assms in \<open>simp_all add: check_and_deliver_def bind_def attempt_def lift_def\<close>)

text \<open>C14: an image is started only if the platform key signed it and its revision is not below the one in the TPM; the TPM then holds at least
  that revision, so no later delivery starts an older image. On such a TPM every delivery that returns an image behaves so.\<close>

theorem delivery_authentic_and_current:
  assumes "nv_device tcg nv" and "rev_image (nv h) m" and "check_and_deliver cr http_get chainload tcg h = (Ret (res, Some img), h')"
  shows "\<exists>url d pl. http_get url = Some d \<and> verify_firmware cr d = Ret (Verified pl img) \<and>
    m \<le> firmware_rev pl \<and> rev_image (nv h') (firmware_rev pl) \<and> (res = Chainloaded \<longleftrightarrow> chainload img)"
proof -
  obtain h1 where h1: "tpm_nv_read tcg DCTPM_NV_INDEX h = (Ret (nv h), h1)" "nv h1 = nv h" using nv_read_device [OF assms(1)] by blast
  from started_image [OF assms(3) h1(1)] obtain i url d pl where "parse_rv_firmware_info (nv h) = Ret i" and
      d: "http_get url = Some d" and v: "verify_firmware cr d = Ret (Verified pl img)"
      and a: "admit_revision tcg (firmware_rev pl) (info_min_rev i) h1 = (Ret True, h')" and res: "res = (if chainload img then Chainloaded else DeliveryError)"
    by auto
  have less: "firmware_rev pl < 2 ^ 64" using verified_rev_less [OF v] .
  from admit_device [OF assms(1), of h1 m "firmware_rev pl" "info_min_rev i"] a h1(2) assms(2) less
  have "max m (case info_min_rev i of Some n \<Rightarrow> n | None \<Rightarrow> 0) \<le> firmware_rev pl" "rev_image (nv h') (max m (firmware_rev pl))"
    by (auto split: if_splits)
  with d v res show ?thesis by (intro exI [of _ url] exI [of _ d] exI [of _ pl]) (auto simp: max_def split: if_splits)
qed


theorem delivery_authentic_and_current_witness:
  "\<exists>h' pl. check_and_deliver toy_crypto (\<lambda>_. Some (enc (sample_envelope [1, 2]))) (\<lambda>_. True)
      (sample_tcg (enc (Arr sample_rv_dctpm) @ replicate 400 0)) [] = (Ret (Chainloaded, Some [1, 2]), h') \<and>
    verify_firmware toy_crypto (enc (sample_envelope [1, 2])) = Ret (Verified pl [1, 2]) \<and>
    rev_image (sample_nv (enc (Arr sample_rv_dctpm) @ replicate 400 0) h') (firmware_rev pl)"
proof -
  let ?d = "enc (Arr sample_rv_dctpm) @ replicate 400 0" and ?get = "\<lambda>_. Some (enc (sample_envelope [1, 2]))"
  let ?i = "fold rvf_apply_directive sample_rv no_info"
  have dev: "nv_device (sample_tcg ?d) (sample_nv ?d)" by (rule sample_device) (use length_sample_rv_dctpm in simp)
  have "\<forall>c\<in>set sample_rv_dctpm. fits (2 ^ 64) c" "length sample_rv_dctpm = 10"
    using length_sample_rv_dctpm by (simp_all add: sample_rv_dctpm_def DCTPM_MAGIC_def)
  then have img: "rev_image (sample_nv ?d []) 0" using ten_items_rev_image [of sample_rv_dctpm] by (simp add: sample_nv_def)
  obtain h1 where h1: "tpm_nv_read (sample_tcg ?d) DCTPM_NV_INDEX [] = (Ret ?d, h1)" "sample_nv ?d h1 = ?d"
    using nv_read_device [OF dev, of "[]"] by (auto simp: sample_nv_def)
  obtain pl where pl: "verify_firmware toy_crypto (enc (sample_envelope [1, 2])) = Ret (Verified pl [1, 2])" "firmware_rev pl = 7"
    using sample_accepted by blast
  obtain h2 where h2: "admit_revision (sample_tcg ?d) 7 (info_min_rev ?i) h1 = (Ret True, h2)"
    using admit_device [OF dev, of h1 0 7 "info_min_rev ?i"] img h1(2) sample_rv_info(3) by (auto simp: sample_nv_def)
  have run: "check_and_deliver toy_crypto ?get (\<lambda>_. True) (sample_tcg ?d) [] = (Ret (Chainloaded, Some [1, 2]), h2)"
    using h1(1) h2 pl sample_rv_read sample_rv_info(2)
    by (simp add: check_and_deliver_def bind_def attempt_def lift_def)
  from delivery_authentic_and_current [OF dev img run] run pl show ?thesis by auto
qed

text \<open>
  Without such a TPM the check is open: when the index cannot be read at the moment of the check, the minimum is 0 and every
  revision passes.
\<close>

lemma unreadable_index_admits:
  assumes "tpm_nv_read tcg DCTPM_NV_INDEX h = (Err (), h1)"
  shows "fst (check_firmware_rev tcg v None h) = Ret True"
  using assms by (simp add: check_firmware_rev_def read_firmware_rev_counter_def bind_def attempt_def Let_def)

end
