(* ===== verification/Di.thy ===== *)
theory Di
  imports Di_Codec Anti_Rollback Device_Env
begin

text \<open>
  The driver of \<open>src/src/di/protocol.rs\<close>: device initialisation, from the creation of the keys in the TPM to the
  storage of the credentials. A run is a computation over a trace of the TPM commands and the messages posted; the
  answers of the manufacturer's server are a function \<open>http\<close> of the trace and the message, those of the TPM a
  function of the commands before, as in \<open>tpm.rs\<close>. An early return with a status is \<open>throw\<close>.

  Shown: the index with the credentials is only touched after the manufacturer has acknowledged the HMAC over exactly the
  header it sent, and success means that the structure built from that header was written.
\<close>

section \<open>The driver\<close>

datatype status = SUCCESS | NOT_FOUND | DEVICE_ERROR | PROTOCOL_ERROR

definition MSG_TYPE_DI_APP_START :: nat where "MSG_TYPE_DI_APP_START = 10"
definition MSG_TYPE_DI_SET_CREDENTIALS :: nat where "MSG_TYPE_DI_SET_CREDENTIALS = 11"
definition MSG_TYPE_DI_SET_HMAC :: nat where "MSG_TYPE_DI_SET_HMAC = 12"
definition MSG_TYPE_DI_DONE :: nat where "MSG_TYPE_DI_DONE = 13"
definition DI_MSG_TYPE_ERROR :: nat where "DI_MSG_TYPE_ERROR = 255"
definition FDO_DAK_HANDLE :: nat where "FDO_DAK_HANDLE = 0x81020002"
definition FDO_HMAC_HANDLE :: nat where "FDO_HMAC_HANDLE = 0x81020003"
definition FDO_NV_INDEX_DCTPM :: nat where "FDO_NV_INDEX_DCTPM = 0x01D10001"

datatype di_event =
    Command bytes
  | DiPost bytes bytes nat "bytes option" \<comment> \<open>URL, body, message type, session token\<close>

type_synonym di_server = "di_event list \<Rightarrow> bytes \<Rightarrow> bytes \<Rightarrow> nat \<Rightarrow> bytes option \<Rightarrow> http_post_response option"
type_synonym ('e, 'a) di = "(di_event list, 'e, 'a) comp"

text \<open>The commands of a trace, and an operation of \<open>tpm.rs\<close> within one.\<close>

fun commands :: "di_event list \<Rightarrow> bytes list" where
  "commands [] = []"
| "commands (Command c # w) = c # commands w"
| "commands (DiPost _ _ _ _ # w) = commands w"

definition on_tpm :: "('e, 'a) tpm \<Rightarrow> ('e, 'a) di" where
  "on_tpm m w = (case m (commands w) of (r, h) \<Rightarrow> (r, w @ map Command (drop (length (commands w)) h)))"

definition get_di_server_url :: "bytes option \<Rightarrow> bytes option" where
  "get_di_server_url cli_url = (case cli_url of Some url \<Rightarrow> Some url | None \<Rightarrow> Some (ascii ''http://_fdo._tcp:8080''))"

definition get_device_serial :: bytes where
  "get_device_serial = ascii ''UEFI-DI-TEST-001''"

definition get_device_model :: bytes where
  "get_device_model = ascii ''FDO UEFI Reference Device''"

text \<open>The two message types that are sent have two digits.\<close>

definition di_url :: "bytes \<Rightarrow> nat \<Rightarrow> bytes" where
  "di_url server msg_type = server @ ascii ''/fdo/200/msg/'' @ dec_nat msg_type"

definition send_di_message :: "di_server \<Rightarrow> bytes \<Rightarrow> nat \<Rightarrow> bytes \<Rightarrow> bytes option \<Rightarrow> (unit, nat \<times> bytes \<times> bytes option) di" where
  "send_di_message http server msg_type body auth_token w =
     (let w' = w @ [DiPost (di_url server msg_type) body msg_type auth_token] in
      case http w (di_url server msg_type) body msg_type auth_token of
        None \<Rightarrow> (Err (), w')
      | Some resp \<Rightarrow>
          let response_type = (case resp_message_type resp of Some t \<Rightarrow> t | None \<Rightarrow> (msg_type + 1) mod 256) in
          if response_type = DI_MSG_TYPE_ERROR then bind (lift (decode_fdo_error (resp_body resp))) (\<lambda>_. throw ()) w'
          else (Ret (response_type, resp_body resp, resp_auth_token resp), w'))"

text \<open>The first 20 bytes of the session token are logged: a panic when they end within a character.\<close>

definition log_token :: "bytes option \<Rightarrow> ('e, unit) di" where
  "log_token token = (case token of
     None \<Rightarrow> ret ()
   | Some t \<Rightarrow> if length t \<le> 20 \<or> (t ! 20) AND 0xC0 \<noteq> 0x80 then ret () else panic)"

text \<open>Steps 0 to 9: the header received, after DIDone.\<close>

definition di_exchange :: "crypto \<Rightarrow> tcg2 \<Rightarrow> di_server \<Rightarrow> bytes option \<Rightarrow> (status, di_ov_header) di" where
  "di_exchange cr tcg http cli_url =
     bind (on_tpm (tpm_flush_all_transient tcg)) (\<lambda>_.
     bind (of_option NOT_FOUND (get_di_server_url cli_url)) (\<lambda>mfg_server_url.
     bind (or_err (on_tpm (tpm_create_and_persist_signing_key tcg FDO_DAK_HANDLE)) DEVICE_ERROR) (\<lambda>key.
     bind (attempt (on_tpm (generate_csr cr tcg get_device_serial (key_x key) (key_y key) (key_handle key)))) (\<lambda>csr. case csr of
       None \<Rightarrow> bind (on_tpm (tpm_flush_context tcg (key_handle key))) (\<lambda>_. throw DEVICE_ERROR)
     | Some csr_bytes \<Rightarrow>
         let mfg_info_cbor = mfg_to_cbor (new_mfg_info get_device_serial get_device_model csr_bytes) in
         bind (or_err (send_di_message http mfg_server_url MSG_TYPE_DI_APP_START (build_di_app_start mfg_info_cbor) None) PROTOCOL_ERROR)
           (\<lambda>(msg_type, body, token).
         bind (guard (msg_type = MSG_TYPE_DI_SET_CREDENTIALS) PROTOCOL_ERROR) (\<lambda>_.
         bind (log_token token) (\<lambda>_.
         bind (or_err (lift (parse_di_set_credentials body)) PROTOCOL_ERROR) (\<lambda>ov_header.
         bind (or_err (on_tpm (tpm_create_hmac_and_persist tcg (raw_cbor ov_header) FDO_HMAC_HANDLE)) DEVICE_ERROR) (\<lambda>(_, hmac_value).
         bind (or_err (send_di_message http mfg_server_url MSG_TYPE_DI_SET_HMAC (build_di_set_hmac hmac_value) token) PROTOCOL_ERROR)
           (\<lambda>(msg_type, _, _).
         bind (guard (msg_type = MSG_TYPE_DI_DONE) PROTOCOL_ERROR) (\<lambda>_.
         ret ov_header)))))))))))"

text \<open>Step 11.\<close>

definition store_credentials :: "crypto \<Rightarrow> tcg2 \<Rightarrow> di_ov_header \<Rightarrow> (status, unit) di" where
  "store_credentials cr tcg ov_header =
     bind (or_err (lift (build_dctpm cr ov_header FDO_DAK_HANDLE FDO_HMAC_HANDLE)) DEVICE_ERROR) (\<lambda>dctpm.
     bind (or_err (on_tpm (tpm_nv_write tcg FDO_NV_INDEX_DCTPM (dctpm_padded dctpm) DCTPM_NV_ATTRIBUTES)) DEVICE_ERROR) (\<lambda>ok.
     guard ok DEVICE_ERROR))"

definition returned_status :: "(status, unit) di \<Rightarrow> ('e, status) di" where
  "returned_status m w = (case m w of
     (Ret _, w') \<Rightarrow> (Ret SUCCESS, w') | (Err s, w') \<Rightarrow> (Ret s, w') | (Panic, w') \<Rightarrow> (Panic, w') | (Diverge, w') \<Rightarrow> (Diverge, w'))"

definition run_di_protocol :: "crypto \<Rightarrow> tcg2 \<Rightarrow> di_server \<Rightarrow> bytes option \<Rightarrow> ('e, status) di" where
  "run_di_protocol cr tcg http cli_url = returned_status (bind (di_exchange cr tcg http cli_url) (store_credentials cr tcg))"

section \<open>What is added to a history\<close>

text \<open>A computation over a list that only appends elements with a property.\<close>

definition appends :: "('x \<Rightarrow> bool) \<Rightarrow> ('x list, 'e, 'a) comp \<Rightarrow> bool" where
  "appends P m \<longleftrightarrow> (\<forall>h. \<exists>xs. snd (m h) = h @ xs \<and> list_all P xs)"

named_theorems appends_intro

lemma appends_basic [appends_intro]: "appends P (ret x)" "appends P (throw e)" "appends P panic" "appends P diverge" "appends P (lift r)" "appends P (of_option e y)"
    "appends P (guard c e)"
  by (auto simp: appends_def lift_def of_option_def guard_def split: option.split)

lemma appends_bind [appends_intro]:
  assumes "appends P m" and "\<And>x. appends P (f x)"
  shows "appends P (bind m f)"
  unfolding appends_def
proof
  fix h
  obtain r xs where m: "m h = (r, h @ xs)" "list_all P xs"
    using assms(1) unfolding appends_def by (metis prod.collapse)
  show "\<exists>xs. snd (bind m f h) = h @ xs \<and> list_all P xs"
  proof (cases r)
    case (Ret x)
    obtain ys where "snd (f x (h @ xs)) = (h @ xs) @ ys" "list_all P ys" using assms(2) unfolding appends_def by blast
    with m Ret show ?thesis by (intro exI [of _ "xs @ ys"]) (simp add: bind_def)
  qed (use m in \<open>auto simp: bind_def\<close>)
qed

lemma appends_same_state:
  assumes "appends P m" and "\<And>h. snd (m' h) = snd (m h)"
  shows "appends P m'"
  using assms by (simp add: appends_def)

lemma appends_attempt [appends_intro]:
  assumes "appends P m"
  shows "appends P (attempt m)" "appends P (or_err m e)"
  by (rule appends_same_state [OF assms], simp add: attempt_def or_err_def split: prod.split outcome.split)+

lemma appends_succeeds [appends_intro]: "appends P m \<Longrightarrow> appends P (succeeds m)"
  unfolding succeeds_def by (intro appends_intro)

lemma appends_attempt_code [appends_intro]: "appends P m \<Longrightarrow> appends P (attempt_code m)"
  by (erule appends_same_state) (simp add: attempt_code_def split: prod.split outcome.split)

lemma appends_repeat [appends_intro]: "(\<And>s. appends P (body s)) \<Longrightarrow> appends P (repeat n body s)"
  by (induction n arbitrary: s) (auto intro: appends_intro)

lemma appends_open [appends_intro]: "appends P (open_tcg tcg)"
  by (simp add: appends_def open_tcg_def)

lemma appends_submit: "P cmd \<Longrightarrow> appends P (submit_command tcg cmd n)"
  by (simp add: appends_def submit_command_def split: option.split)

lemma appends_best_effort [appends_intro]: "P cmd \<Longrightarrow> appends P (best_effort tcg cmd n)"
  unfolding best_effort_def by (intro appends_intro appends_submit)

lemma appends_retry [appends_intro]: "P cmd \<Longrightarrow> appends P (tpm_submit_with_retry tcg cmd n)" "P cmd \<Longrightarrow> appends P (tpm_call tcg cmd n)"
proof -
  have "P cmd \<Longrightarrow> appends P (submit_attempts k tcg cmd n)" for k
    by (induction k) (auto intro!: appends_intro appends_submit split: option.split)
  then show "P cmd \<Longrightarrow> appends P (tpm_submit_with_retry tcg cmd n)" by (simp add: tpm_submit_with_retry_def)
  then show "P cmd \<Longrightarrow> appends P (tpm_call tcg cmd n)" unfolding tpm_call_def by (intro appends_intro)
qed

section \<open>The index is touched last\<close>

text \<open>The commands that change an index: its removal, its definition and a write.\<close>

definition changes_nv :: "bytes \<Rightarrow> bool" where
  "changes_nv c \<longleftrightarrow> command_code c \<in> {be 4 TPM2_CC_NV_UNDEFINE_SPACE, be 4 TPM2_CC_NV_DEFINE_SPACE, be 4 TPM2_CC_NV_WRITE}"

lemma codes_keep_nv:
  "\<not> changes_nv (build_flush_context_cmd k)" "\<not> changes_nv (build_evict_control_cmd k k')" "\<not> changes_nv (build_hmac_cmd k d)"
  "\<not> changes_nv build_create_primary_signing_cmd" "\<not> changes_nv build_create_primary_hmac_cmd" "\<not> changes_nv (build_sign_cmd k d)"
  by (simp_all add: changes_nv_def command_code_def build_flush_context_cmd_def build_evict_control_cmd_def build_hmac_cmd_def
      build_create_primary_signing_cmd_def build_create_primary_hmac_cmd_def create_primary_cmd_def build_sign_cmd_def tpm_command_def
      pack_u16_def pack_u32_def be_4 TPM2_CC_NV_UNDEFINE_SPACE_def TPM2_CC_NV_DEFINE_SPACE_def TPM2_CC_NV_WRITE_def
      TPM2_CC_FLUSH_CONTEXT_def TPM2_CC_EVICT_CONTROL_def TPM2_CC_HMAC_def TPM2_CC_CREATE_PRIMARY_def TPM2_CC_SIGN_def)

lemma keep_nv:
  "appends (\<lambda>c. \<not> changes_nv c) (tpm_flush_all_transient tcg)" "appends (\<lambda>c. \<not> changes_nv c) (tpm_flush_context tcg k)"
  "appends (\<lambda>c. \<not> changes_nv c) (tpm_create_and_persist_signing_key tcg k)" "appends (\<lambda>c. \<not> changes_nv c) (tpm_create_hmac_and_persist tcg d k)"
  "appends (\<lambda>c. \<not> changes_nv c) (generate_csr cr tcg cn x y k)"
  unfolding tpm_flush_all_transient_def tpm_flush_context_def tpm_create_and_persist_signing_key_def tpm_create_hmac_and_persist_def
    generate_csr_def tpm_sign_ecdsa_def tpm_sign_with_persistent_def Let_def
  by (auto intro!: appends_intro codes_keep_nv split: option.split prod.split)

fun quiet :: "di_event \<Rightarrow> bool" where
  "quiet (Command c) \<longleftrightarrow> \<not> changes_nv c"
| "quiet (DiPost _ _ _ _) \<longleftrightarrow> True"

lemma appends_on_tpm [appends_intro]:
  assumes "appends (\<lambda>c. \<not> changes_nv c) m"
  shows "appends quiet (on_tpm m)"
  unfolding appends_def
proof
  fix w
  obtain r cs where "m (commands w) = (r, commands w @ cs)" "list_all (\<lambda>c. \<not> changes_nv c) cs"
    using assms unfolding appends_def by (metis prod.collapse)
  then show "\<exists>xs. snd (on_tpm m w) = w @ xs \<and> list_all quiet xs"
    by (intro exI [of _ "map Command cs"]) (simp add: on_tpm_def list_all_iff)
qed

lemma appends_send [appends_intro]: "appends quiet (send_di_message http server t body token)"
  by (auto simp: appends_def send_di_message_def Let_def bind_def lift_def split: option.split outcome.split)

lemma di_exchange_quiet: "appends quiet (di_exchange cr tcg http cli_url)"
  unfolding di_exchange_def Let_def log_token_def
  by (auto intro!: appends_intro keep_nv split: option.split prod.split)

text \<open>An early return never has the status of success.\<close>

definition avoids :: "'e \<Rightarrow> ('w, 'e, 'a) comp \<Rightarrow> bool" where
  "avoids e m \<longleftrightarrow> (\<forall>w. fst (m w) \<noteq> Err e)"

named_theorems avoids_intro

lemma avoids_basic [avoids_intro]: "avoids e (ret x)" "e' \<noteq> e \<Longrightarrow> avoids e (throw e')" "avoids e panic" "e' \<noteq> e \<Longrightarrow> avoids e (of_option e' y)"
    "e' \<noteq> e \<Longrightarrow> avoids e (guard c e')" "e' \<noteq> e \<Longrightarrow> avoids e (or_err m e')" "avoids e (attempt m)"
  by (auto simp: avoids_def of_option_def guard_def or_err_def attempt_def split: option.split prod.split outcome.split)

lemma avoids_bind [avoids_intro]: "avoids e m \<Longrightarrow> (\<And>x. avoids e (f x)) \<Longrightarrow> avoids e (bind m f)"
  by (auto simp: avoids_def bind_def split: prod.split outcome.split) (metis fst_conv)

lemma avoids_on_tpm: "avoids e m \<Longrightarrow> avoids e (on_tpm m)"
  by (auto simp: avoids_def on_tpm_def split: prod.split) (metis fst_conv)

lemma avoids_flush [avoids_intro]: "avoids e (on_tpm (tpm_flush_all_transient tcg))" "avoids e (on_tpm (tpm_flush_context tcg k))"
proof -
  have rep: "(\<And>s. avoids e (body s)) \<Longrightarrow> avoids e (repeat n body s)" for n body and s :: nat
    by (induction n arbitrary: s) (auto intro: avoids_intro)
  show "avoids e (on_tpm (tpm_flush_all_transient tcg))" "avoids e (on_tpm (tpm_flush_context tcg k))"
    unfolding tpm_flush_all_transient_def tpm_flush_context_def best_effort_def
    by (auto intro!: avoids_on_tpm avoids_intro rep split: option.split)
qed

lemma di_exchange_error: "avoids SUCCESS (di_exchange cr tcg http cli_url)"
  unfolding di_exchange_def Let_def log_token_def
  by (auto intro!: avoids_intro split: option.split prod.split)

text \<open>
  What was done when the exchange is complete: the header came in answer to DIAppStart, the TPM computed the HMAC over its
  bytes, and that HMAC was posted with the session token of the first answer and acknowledged.
\<close>

definition acknowledged :: "tcg2 \<Rightarrow> di_server \<Rightarrow> di_ov_header \<Rightarrow> di_event list \<Rightarrow> bool" where
  "acknowledged tcg http v w \<longleftrightarrow> (\<exists>server app resp w1 w2 k hmac resp2.
     http w1 (di_url server MSG_TYPE_DI_APP_START) app MSG_TYPE_DI_APP_START None = Some resp \<and>
     parse_di_set_credentials (resp_body resp) = Ret v \<and>
     on_tpm (tpm_create_hmac_and_persist tcg (raw_cbor v) FDO_HMAC_HANDLE)
       (w1 @ [DiPost (di_url server MSG_TYPE_DI_APP_START) app MSG_TYPE_DI_APP_START None]) = (Ret (k, hmac), w2) \<and>
     http w2 (di_url server MSG_TYPE_DI_SET_HMAC) (build_di_set_hmac hmac) MSG_TYPE_DI_SET_HMAC (resp_auth_token resp) = Some resp2 \<and>
     resp_message_type resp2 \<in> {None, Some MSG_TYPE_DI_DONE} \<and>
     w = w2 @ [DiPost (di_url server MSG_TYPE_DI_SET_HMAC) (build_di_set_hmac hmac) MSG_TYPE_DI_SET_HMAC (resp_auth_token resp)])"

lemma send_Ret:
  assumes "send_di_message http server t body token w = (Ret (t', b, token'), w')"
  shows "\<exists>resp. http w (di_url server t) body t token = Some resp \<and> b = resp_body resp \<and> token' = resp_auth_token resp \<and>
    t' = (case resp_message_type resp of Some n \<Rightarrow> n | None \<Rightarrow> (t + 1) mod 256) \<and> w' = w @ [DiPost (di_url server t) body t token]"
  using assms
  by (auto simp: send_di_message_def Let_def bind_def lift_def split: option.splits if_splits outcome.splits)

lemma log_token_Ret: "log_token token w = (Ret u, w') \<Longrightarrow> w' = w"
  by (auto simp: log_token_def split: option.splits if_splits)

lemma di_exchange_acknowledged:
  assumes "di_exchange cr tcg http cli_url w = (Ret v, w')"
  shows "acknowledged tcg http v w'"
proof -
  obtain server app w1 w2 w3 w4 w5 t body token body' token' k hmac where
      s1: "send_di_message http server MSG_TYPE_DI_APP_START app None w1 = (Ret (t, body, token), w2)"
      and lg: "log_token token w2 = (Ret () :: (status, unit) outcome, w3)" and v: "parse_di_set_credentials body = Ret v"
      and hm: "on_tpm (tpm_create_hmac_and_persist tcg (raw_cbor v) FDO_HMAC_HANDLE) w3 = (Ret (k, hmac), w4)"
      and s2: "send_di_message http server MSG_TYPE_DI_SET_HMAC (build_di_set_hmac hmac) token w4 = (Ret (MSG_TYPE_DI_DONE, body', token'), w')"
    using assms unfolding di_exchange_def Let_def
    by (auto simp: Ret_iffs lift_def split: option.splits prod.splits)
  from send_Ret [OF s1] log_token_Ret [OF lg] v hm send_Ret [OF s2] show ?thesis
    unfolding acknowledged_def by (fastforce split: option.splits)
qed

text \<open>C16: device initialisation changes no index of the TPM before the manufacturer has acknowledged the HMAC, which the TPM computed over
  exactly the header bytes it received; after that it writes the padded structure built from that header, and it reports success
  exactly when that write succeeded. A run that ends earlier, by an error or a panic, leaves the index alone and does not report success.\<close>

theorem di_stores_acknowledged_credentials:
  "case run_di_protocol cr tcg http cli_url w of (r :: ('a, status) outcome, w') \<Rightarrow>
     (\<exists>ev. w' = w @ ev \<and> list_all quiet ev \<and> r \<noteq> Ret SUCCESS) \<or>
     (\<exists>ev v s res. list_all quiet ev \<and> acknowledged tcg http v (w @ ev) \<and>
        build_dctpm cr v FDO_DAK_HANDLE FDO_HMAC_HANDLE = Ret s \<and>
        on_tpm (tpm_nv_write tcg FDO_NV_INDEX_DCTPM (dctpm_padded s) DCTPM_NV_ATTRIBUTES) (w @ ev) = (res, w') \<and>
        (r = Ret SUCCESS \<longleftrightarrow> res = Ret True))"
proof -
  obtain o1 ev where ex: "di_exchange cr tcg http cli_url w = (o1, w @ ev)" and q: "list_all quiet ev"
    using di_exchange_quiet [of cr tcg http cli_url] unfolding appends_def by (metis prod.collapse)
  show ?thesis
  proof (cases o1)
    case (Ret v)
    have ack: "acknowledged tcg http v (w @ ev)" using di_exchange_acknowledged ex Ret by blast
    obtain m where "rv_min_firmware_rev (di_rv_info v) = Ret m" using holds_Ret [OF rv_min_firmware_rev_holds] by blast
    then obtain s where s: "build_dctpm cr v FDO_DAK_HANDLE FDO_HMAC_HANDLE = Ret s" by (auto simp: build_dctpm_def Let_def)
    obtain res w2 where nv: "on_tpm (tpm_nv_write tcg FDO_NV_INDEX_DCTPM (dctpm_padded s) DCTPM_NV_ATTRIBUTES) (w @ ev) = (res, w2)"
      by fastforce
    from ex Ret s nv have "\<exists>r :: ('a, status) outcome. run_di_protocol cr tcg http cli_url w = (r, w2) \<and> (r = Ret SUCCESS \<longleftrightarrow> res = Ret True)"
      by (cases res) (auto simp: run_di_protocol_def returned_status_def store_credentials_def bind_def or_err_def lift_def guard_def)
    then obtain r :: "('a, status) outcome" where r: "run_di_protocol cr tcg http cli_url w = (r, w2)" "r = Ret SUCCESS \<longleftrightarrow> res = Ret True" by blast
    show ?thesis unfolding r(1) prod.case using q ack s nv r(2) by blast
  next
    case (Err e)
    with ex have "e \<noteq> SUCCESS" using di_exchange_error [of cr tcg http cli_url] unfolding avoids_def by (metis fst_conv)
    with ex q Err show ?thesis by (auto simp: run_di_protocol_def returned_status_def bind_def)
  qed (use ex q in \<open>auto simp: run_di_protocol_def returned_status_def bind_def\<close>)
qed

section \<open>Delivery with self-provisioning\<close>

text \<open>
  The block at the start of \<open>check_and_deliver\<close> in a build with the feature \<open>di\<close>: a device without credentials runs device
  initialisation, at most three times, and goes on only when it succeeded. \<open>False\<close> is the early return of \<open>NoUpdate\<close>.
\<close>

fun di_attempts :: "nat \<Rightarrow> crypto \<Rightarrow> tcg2 \<Rightarrow> di_server \<Rightarrow> (unit, bool) di" where
  "di_attempts 0 cr tcg http = ret False"
| "di_attempts (Suc n) cr tcg http =
     bind (run_di_protocol cr tcg http None) (\<lambda>s.
     if s = SUCCESS then ret True
     else if s = NOT_FOUND then ret False
     else di_attempts n cr tcg http)"

definition ensure_credentials :: "crypto \<Rightarrow> tcg2 \<Rightarrow> di_server \<Rightarrow> (unit, bool) di" where
  "ensure_credentials cr tcg http =
     bind (attempt (on_tpm (tpm_nv_read tcg FDO_NV_INDEX_DCTPM))) (\<lambda>r. case r of
       Some _ \<Rightarrow> ret True
     | None \<Rightarrow> di_attempts 3 cr tcg http)"

definition check_and_deliver_di ::
    "crypto \<Rightarrow> (bytes \<Rightarrow> bytes option) \<Rightarrow> (bytes \<Rightarrow> bool) \<Rightarrow> tcg2 \<Rightarrow> di_server \<Rightarrow> (unit, delivery_result \<times> bytes option) di" where
  "check_and_deliver_di cr get chainload tcg http =
     bind (ensure_credentials cr tcg http) (\<lambda>go.
     if go then on_tpm (check_and_deliver cr get chainload tcg) else ret (NoUpdate, None))"

text \<open>Only a device that has credentials, or has just stored some, can start an image.\<close>

lemma di_attempts_success:
  "di_attempts n cr tcg http w = (Ret True, w') \<Longrightarrow>
   \<exists>w1. run_di_protocol cr tcg http None w1 = (Ret SUCCESS :: (unit, status) outcome, w')"
  by (induction n arbitrary: w) (auto simp: Ret_iffs split: if_splits)

lemma delivery_has_credentials:
  assumes "check_and_deliver_di cr get chainload tcg http w = (Ret (res, Some img), w')"
  shows "\<exists>w2. on_tpm (check_and_deliver cr get chainload tcg) w2 = (Ret (res, Some img), w') \<and>
    ((\<exists>d. on_tpm (tpm_nv_read tcg FDO_NV_INDEX_DCTPM) w = (Ret d, w2)) \<or>
     (\<exists>w1. run_di_protocol cr tcg http None w1 = (Ret SUCCESS :: (unit, status) outcome, w2)))"
  using assms unfolding check_and_deliver_di_def ensure_credentials_def
  by (auto simp: Ret_iffs split: if_splits option.splits dest: di_attempts_success)

end
