(* ===== verification/Entry.thy ===== *)
theory Entry
  imports Http Chainload Di To2
begin

text \<open>
  \<open>src/src/main.rs\<close>: the options and the order of the program's parts, for a build with the features \<open>di\<close> and
  \<open>fdo-installer\<close>, and with or without \<open>rv-firmware\<close>. The parts are modelled in the other theories; here a run is a
  list of \<open>step\<close>s, and what a part returns is given by the parameter \<open>parts\<close> as a function of the steps before. Logging and the pauses at the end are left out.
\<close>

section \<open>Options\<close>

record fdo_options =
  di_url_opt :: "bytes option"
  rv_url_opt :: "bytes option"
  watchdog_test :: "nat option"
  chainload_file :: "bytes option"
  force_di :: bool
  load_mode_opt :: load_mode
  teardown :: bool
  verbose :: bool

definition default_options :: fdo_options where
  "default_options = \<lparr>di_url_opt = None, rv_url_opt = None, watchdog_test = None, chainload_file = None, force_di = False,
     load_mode_opt = Buffer, teardown = False, verbose = False\<rparr>"

text \<open>\<open>split_ascii_whitespace\<close>.\<close>

definition ascii_space :: "byte \<Rightarrow> bool" where
  "ascii_space b \<longleftrightarrow> b \<in> {9, 10, 12, 13, 32}"

fun ascii_words :: "bytes \<Rightarrow> bytes list" where
  "ascii_words [] = []"
| "ascii_words (b # bs) =
     (if ascii_space b then ascii_words bs
      else case bs of
        [] \<Rightarrow> [[b]]
      | c # _ \<Rightarrow> if ascii_space c then [b] # ascii_words bs
          else (case ascii_words bs of w # ws \<Rightarrow> (b # w) # ws | [] \<Rightarrow> [[b]]))"

text \<open>The loop over the tokens; an option that lacks its argument is only reported.\<close>

fun parse_tokens :: "bytes list \<Rightarrow> fdo_options \<Rightarrow> fdo_options" where
  "parse_tokens [] opts = opts"
| "parse_tokens (t # ts) opts =
     (if t = ascii ''-di'' then
        (case ts of url # rest \<Rightarrow> parse_tokens rest (opts\<lparr>di_url_opt := Some url\<rparr>) | [] \<Rightarrow> opts)
      else if t = ascii ''-rv'' then
        (case ts of url # rest \<Rightarrow> parse_tokens rest (opts\<lparr>rv_url_opt := Some url\<rparr>) | [] \<Rightarrow> opts)
      else if t = ascii ''-watchdog'' then
        (case ts of
           n # rest \<Rightarrow> (case parse_uint (2 ^ 64) n of
             Some secs \<Rightarrow> parse_tokens rest (opts\<lparr>watchdog_test := Some secs\<rparr>)
           | None \<Rightarrow> parse_tokens ts (opts\<lparr>watchdog_test := Some 30\<rparr>))
         | [] \<Rightarrow> opts\<lparr>watchdog_test := Some 30\<rparr>)
      else if t = ascii ''-v'' \<or> t = ascii ''-verbose'' then parse_tokens ts (opts\<lparr>verbose := True\<rparr>)
      else if t = ascii ''-teardown'' then parse_tokens ts (opts\<lparr>teardown := True\<rparr>)
      else if t = ascii ''-load-mode'' then
        (case ts of m # rest \<Rightarrow> parse_tokens rest (opts\<lparr>load_mode_opt := (if m = ascii ''file'' then File else Buffer)\<rparr>) | [] \<Rightarrow> opts)
      else if t = ascii ''-force-di'' then parse_tokens ts (opts\<lparr>force_di := True\<rparr>)
      else if t = ascii ''-chainload'' then
        (case ts of path # rest \<Rightarrow> parse_tokens rest (opts\<lparr>chainload_file := Some path\<rparr>) | [] \<Rightarrow> opts)
      else parse_tokens ts opts)"

text \<open>The load options: 16-bit characters, cut to bytes, up to the first zero.\<close>

definition parse_args :: "16 word list option \<Rightarrow> fdo_options" where
  "parse_args load_options = (case load_options of
     None \<Rightarrow> default_options
   | Some cs \<Rightarrow>
       (case from_utf8 (takeWhile (\<lambda>b. b \<noteq> 0) (map ucast cs)) of
          None \<Rightarrow> default_options
        | Some args \<Rightarrow> parse_tokens (drop 1 (ascii_words args)) default_options))"

section \<open>The order of the parts\<close>

datatype step =
    ArmWatchdog nat nat
  | SetChainload load_mode bool
  | ControlTest bytes
  | FirmwareCheck
  | ReadCredentials
  | DeviceInit "bytes option"
  | ReadRvInfo
  | To1 bytes fdo_credentials
  | To2 bytes fdo_credentials "bytes option"

record parts =
  tpm_is_present :: "step list \<Rightarrow> bool"
  firmware_check :: "step list \<Rightarrow> delivery_result"
  read_credentials :: "step list \<Rightarrow> fdo_credentials option"
  device_init :: "step list \<Rightarrow> bytes option \<Rightarrow> status"
  read_rv_info :: "step list \<Rightarrow> bytes option"
  to1 :: "step list \<Rightarrow> bytes \<Rightarrow> fdo_credentials \<Rightarrow> bytes option"

type_synonym 'a main = "(step list, status, 'a) comp"

definition do_step :: "step \<Rightarrow> (step list \<Rightarrow> 'a) \<Rightarrow> 'a main" where
  "do_step s f h = (Ret (f h), h @ [s])"

fun di_retries :: "nat \<Rightarrow> parts \<Rightarrow> bytes option \<Rightarrow> unit main" where
  "di_retries 0 p url = ret ()"
| "di_retries (Suc n) p url =
     bind (do_step (DeviceInit url) (\<lambda>h. device_init p h url)) (\<lambda>s.
     if s = SUCCESS \<or> s = NOT_FOUND then ret () else di_retries n p url)"

definition run_onboarding :: "parts \<Rightarrow> fdo_credentials \<Rightarrow> fdo_options \<Rightarrow> unit main" where
  "run_onboarding p creds opts =
     bind (case rv_url_opt opts of
        Some url \<Rightarrow> ret (Some url)
      | None \<Rightarrow> do_step ReadRvInfo (read_rv_info p)) (\<lambda>owner_url. case owner_url of
       None \<Rightarrow> ret ()
     | Some url \<Rightarrow>
         bind (do_step (To1 url creds) (\<lambda>h. to1 p h url creds)) (\<lambda>to1d.
         do_step (To2 url creds to1d) (\<lambda>_. ())))"

text \<open>An early return is \<open>throw\<close> of the status; the last one is \<open>SUCCESS\<close>.\<close>

definition main_body :: "bool \<Rightarrow> parts \<Rightarrow> fdo_options \<Rightarrow> unit main" where
  "main_body rv_firmware p opts =
     bind (do_step (ArmWatchdog WATCHDOG_TIMEOUT_SECS 0x10000) (\<lambda>_. ())) (\<lambda>_.
     bind (do_step (SetChainload (load_mode_opt opts) (teardown opts)) (\<lambda>_. ())) (\<lambda>_.
     bind (case watchdog_test opts of
         Some secs \<Rightarrow> bind (do_step (ArmWatchdog secs 0x10002) (\<lambda>_. ())) (\<lambda>_. throw SUCCESS)
       | None \<Rightarrow> ret ()) (\<lambda>_.
     bind (case chainload_file opts of
         Some path \<Rightarrow> bind (do_step (ControlTest path) (\<lambda>_. ())) (\<lambda>_.
           bind (do_step (ArmWatchdog 0 0x10000) (\<lambda>_. ())) (\<lambda>_. throw SUCCESS))
       | None \<Rightarrow> ret ()) (\<lambda>_.
     bind (\<lambda>h. (Ret (tpm_is_present p h), h)) (\<lambda>present.
     bind (guard present DEVICE_ERROR) (\<lambda>_.
     bind (if rv_firmware \<and> \<not> force_di opts then
         bind (do_step FirmwareCheck (firmware_check p)) (\<lambda>r. guard (r \<noteq> Chainloaded) SUCCESS)
       else ret ()) (\<lambda>_.
     bind (if force_di opts then ret None else do_step ReadCredentials (read_credentials p)) (\<lambda>existing.
     bind (case existing of
         Some creds \<Rightarrow> run_onboarding p creds opts
       | None \<Rightarrow> di_retries 3 p (di_url_opt opts)) (\<lambda>_.
     do_step (ArmWatchdog 0 0x10000) (\<lambda>_. ()))))))))))"

definition main :: "bool \<Rightarrow> parts \<Rightarrow> 16 word list option \<Rightarrow> step list \<Rightarrow> (status, status) outcome \<times> step list" where
  "main rv_firmware p load_options h = (case main_body rv_firmware p (parse_args load_options) h of
     (Ret _, h') \<Rightarrow> (Ret SUCCESS, h') | (Err s, h') \<Rightarrow> (Ret s, h') | (Panic, h') \<Rightarrow> (Panic, h') | (Diverge, h') \<Rightarrow> (Diverge, h'))"

section \<open>One protocol in a run\<close>

fun is_di :: "step \<Rightarrow> bool" where
  "is_di (DeviceInit _) \<longleftrightarrow> True" | "is_di _ \<longleftrightarrow> False"

fun is_onboarding :: "step \<Rightarrow> bool" where
  "is_onboarding (To1 _ _) \<longleftrightarrow> True" | "is_onboarding (To2 _ _ _) \<longleftrightarrow> True" | "is_onboarding _ \<longleftrightarrow> False"

lemma di_retries_trace:
  "\<exists>ev. di_retries n p url h = (Ret (), h @ ev) \<and> set ev \<subseteq> {DeviceInit url} \<and> length ev \<le> n"
proof (induction n arbitrary: h)
  case (Suc n)
  obtain ev where "di_retries n p url (h @ [DeviceInit url]) = (Ret (), (h @ [DeviceInit url]) @ ev)" "set ev \<subseteq> {DeviceInit url}" "length ev \<le> n"
    using Suc.IH by blast
  then show ?case
    by (cases "device_init p h url \<in> {SUCCESS, NOT_FOUND}")
      (auto simp: bind_def do_step_def intro!: exI [of _ "DeviceInit url # ev"])
qed simp

lemma run_onboarding_trace:
  "\<exists>ev. run_onboarding p c opts h = (Ret (), h @ ev) \<and> (\<forall>s\<in>set ev. s = ReadRvInfo \<or> (\<exists>url. s = To1 url c) \<or> (\<exists>url t. s = To2 url c t))"
  by (cases "rv_url_opt opts"; cases "read_rv_info p h")
    (auto simp: run_onboarding_def bind_def do_step_def split: option.split)

text \<open>What follows the reading of the credentials.\<close>

definition protocol_steps :: "fdo_credentials option \<Rightarrow> fdo_options \<Rightarrow> step list \<Rightarrow> bool" where
  "protocol_steps existing opts ev \<longleftrightarrow> (case existing of
     Some c \<Rightarrow> (\<forall>s\<in>set ev. s = ReadRvInfo \<or> (\<exists>url. s = To1 url c) \<or> (\<exists>url t. s = To2 url c t))
   | None \<Rightarrow> set ev \<subseteq> {DeviceInit (di_url_opt opts)} \<and> length ev \<le> 3)"

lemma protocol_trace:
  "\<exists>ev. (case existing of Some c \<Rightarrow> run_onboarding p c opts | None \<Rightarrow> di_retries 3 p (di_url_opt opts)) h = (Ret (), h @ ev) \<and>
     protocol_steps existing opts ev"
  using run_onboarding_trace [of p _ opts h] di_retries_trace [of 3 p "di_url_opt opts" h]
  by (cases existing) (auto simp: protocol_steps_def)


definition sample_parts :: parts where
  "sample_parts = \<lparr>tpm_is_present = (\<lambda>_. True), firmware_check = (\<lambda>_. NoUpdate),
     read_credentials = (\<lambda>_. Some \<lparr>cred_guid = replicate 16 7, device_key_handle = 1, hmac_key_handle = 2\<rparr>),
     device_init = (\<lambda>_ _. SUCCESS), read_rv_info = (\<lambda>_. Some (ascii ''http://rv'')), to1 = (\<lambda>_ _ _. None)\<rparr>"

lemma sample_force: "force_di (parse_args (Some (map of_char ''fdo -force-di'')))"
proof -
  have "from_utf8 (ascii ''fdo -force-di'') = Some (ascii ''fdo -force-di'')"
    by (simp add: from_utf8_def utf8_valid_ascii_only ascii_def del: utf8_valid.simps)
  moreover have "takeWhile (\<lambda>b. b \<noteq> 0) (map ucast (map of_char ''fdo -force-di'' :: 16 word list)) = ascii ''fdo -force-di''"
    by (simp add: ascii_def)
  moreover have "ascii_words (ascii ''fdo -force-di'') = [ascii ''fdo'', ascii ''-force-di'']" by (simp add: ascii_def ascii_space_def)
  ultimately show ?thesis unfolding parse_args_def option.case by (simp add: ascii_def)
qed


text \<open>A run that ends without a TPM, or after a firmware image returned, leaves the watchdog armed.\<close>

lemma watchdog_left_armed:
  assumes "watchdog_test (parse_args lo) = None" and "chainload_file (parse_args lo) = None" and "\<And>h. \<not> tpm_is_present p h"
  shows "main rv p lo [] = (Ret DEVICE_ERROR, [ArmWatchdog WATCHDOG_TIMEOUT_SECS 0x10000,
    SetChainload (load_mode_opt (parse_args lo)) (teardown (parse_args lo))])"
  using assms by (simp add: main_def main_body_def bind_def do_step_def)

end
