(* ===== verification/Firmware.thy ===== *)
theory Firmware
  imports Device_Env
begin

text \<open>
  The calls of the UEFI firmware that the network clients make (\<open>tcp4_http.rs\<close>, \<open>dns.rs\<close>, \<open>http.rs\<close>): boot services, service bindings, and
  the protocols of the network stack. The firmware is a parameter, the record \<open>firmware\<close>: what a call returns, what a completion token holds
  and what was written into its buffer are functions of everything that happened before, so that no answer need be honest or repeatable.

  A client is a computation over the \<open>trace\<close> of its calls, the newest first. An event, a child handle or a token is named by the number of
  calls before the one that created it; the code never looks into such a value. Delays and log lines are left out.

  \<open>open_events\<close>, \<open>live_children\<close> and \<open>exclusive_opens\<close> read off a trace what the client still holds. \<open>wlp\<close> is the weakest
  precondition for runs that come to an end without a panic.
\<close>

section \<open>Calls\<close>

text \<open>The status codes that the clients compare with; \<open>FAILURE\<close> is any other.\<close>

datatype efi_status = SUCCESS | NOT_READY | NOT_FOUND | FAILURE

text \<open>The handles that the firmware lists, and those made by \<open>CreateChild\<close>.\<close>

datatype handle = Controller nat | Child nat

datatype protocol = TCP4_SB | TCP4 | UDP4_SB | UDP4 | HTTP_SB | HTTP | SNP | IP4_CONFIG2

text \<open>The addresses in a configuration; the other fields are constants.\<close>

record access_point =
  use_default_address :: bool
  station_address :: bytes
  subnet_mask :: bytes
  remote_address :: bytes
  remote_port :: nat

datatype fw_call =
    LocateHandles protocol
  | OpenProtocol handle protocol bool \<comment> \<open>exclusive or not\<close>
  | CloseProtocol handle protocol
  | CreateChild handle protocol
  | DestroyChild handle nat
  | CreateEvent
  | CloseEvent nat
  | CheckEvent nat
  | SignalEvent nat
  | Configure handle "access_point option"
  | Connect handle nat
  | Transmit handle nat bytes
  | Receive handle nat nat \<comment> \<open>token, room in the buffer\<close>
  | Poll handle
  | Cancel handle nat
  | CloseConnection handle nat
  | ReadData nat bytes \<comment> \<open>the client takes what a completed token delivered\<close>
  | Request handle bytes "(bytes \<times> bytes) list" bytes
  | Response handle nat
  | SnpStart handle
  | SnpInitialize handle
  | ConnectController handle
  | IfUp handle

type_synonym trace = "(fw_call \<times> efi_status) list"

text \<open>
  A token keeps the status it was given until the driver writes one. A datagram that was received has an announced length, its
  fragments and perhaps an event to return it with; an answer of the HTTP driver its headers and, once the driver has set it, the
  length of the body, with the bytes in the buffer.
\<close>

record firmware =
  fw_result :: "trace \<Rightarrow> fw_call \<Rightarrow> efi_status"
  fw_located :: "trace \<Rightarrow> protocol \<Rightarrow> nat list option"
  fw_token :: "trace \<Rightarrow> nat \<Rightarrow> efi_status option"
  fw_data :: "trace \<Rightarrow> nat \<Rightarrow> bytes"
  fw_mac :: "trace \<Rightarrow> handle \<Rightarrow> bytes option"
  fw_datagram :: "trace \<Rightarrow> nat \<Rightarrow> (nat \<times> bytes list \<times> bool) option"
  fw_headers :: "trace \<Rightarrow> nat \<Rightarrow> (bytes \<times> bytes) list"
  fw_body_length :: "trace \<Rightarrow> nat \<Rightarrow> nat option"

definition fw_do :: "firmware \<Rightarrow> fw_call \<Rightarrow> (trace, 'e, efi_status) comp" where
  "fw_do fw c tr = (Ret (fw_result fw tr c), (c, fw_result fw tr c) # tr)"

text \<open>A call that makes a resource, and gives its name.\<close>

definition fw_new :: "firmware \<Rightarrow> fw_call \<Rightarrow> (trace, unit, nat) comp" where
  "fw_new fw c tr = (if fw_result fw tr c = SUCCESS then Ret (length tr) else Err (), (c, fw_result fw tr c) # tr)"

definition fw_look :: "(trace \<Rightarrow> 'a) \<Rightarrow> (trace, 'e, 'a) comp" where
  "fw_look f tr = (Ret (f tr), tr)"

definition token_status :: "firmware \<Rightarrow> efi_status \<Rightarrow> nat \<Rightarrow> trace \<Rightarrow> efi_status" where
  "token_status fw initial k tr = (case fw_token fw tr k of Some st \<Rightarrow> st | None \<Rightarrow> initial)"

text \<open>\<open>locate_handle_buffer\<close>; an error is no list.\<close>

definition locate_handles :: "firmware \<Rightarrow> protocol \<Rightarrow> (trace, 'e, nat list option) comp" where
  "locate_handles fw p tr = (Ret (fw_located fw tr p), (LocateHandles p, case fw_located fw tr p of Some _ \<Rightarrow> SUCCESS | None \<Rightarrow> NOT_FOUND) # tr)"

text \<open>\<open>if m fails { cleanup; return None }\<close>.\<close>

definition on_err :: "('w, unit, 'a) comp \<Rightarrow> ('w, unit, unit) comp \<Rightarrow> ('w, unit, 'a) comp" where
  "on_err m cleanup = bind (attempt m) (\<lambda>r. case r of Some x \<Rightarrow> ret x | None \<Rightarrow> bind cleanup (\<lambda>_. throw ()))"

section \<open>Resources\<close>

fun open_events :: "trace \<Rightarrow> nat list" where
  "open_events [] = []"
| "open_events ((c, st) # tr) = (case c of
     CreateEvent \<Rightarrow> if st = SUCCESS then length tr # open_events tr else open_events tr
   | CloseEvent e \<Rightarrow> removeAll e (open_events tr)
   | _ \<Rightarrow> open_events tr)"

fun live_children :: "trace \<Rightarrow> nat list" where
  "live_children [] = []"
| "live_children ((c, st) # tr) = (case c of
     CreateChild _ _ \<Rightarrow> if st = SUCCESS then length tr # live_children tr else live_children tr
   | DestroyChild _ k \<Rightarrow> removeAll k (live_children tr)
   | _ \<Rightarrow> live_children tr)"

text \<open>Protocols opened exclusively and not closed, which \<open>DestroyChild\<close> refuses to take from under the client.\<close>

fun exclusive_opens :: "trace \<Rightarrow> (handle \<times> protocol) list" where
  "exclusive_opens [] = []"
| "exclusive_opens ((c, st) # tr) = (case c of
     OpenProtocol h p excl \<Rightarrow> if excl \<and> st = SUCCESS then (h, p) # exclusive_opens tr else exclusive_opens tr
   | CloseProtocol h p \<Rightarrow> removeAll (h, p) (exclusive_opens tr)
   | _ \<Rightarrow> exclusive_opens tr)"

text \<open>The service bindings that could not be opened.\<close>

fun sb_failures :: "trace \<Rightarrow> nat" where
  "sb_failures [] = 0"
| "sb_failures ((c, st) # tr) = (case c of
     OpenProtocol _ p _ \<Rightarrow> if p = TCP4_SB \<and> st \<noteq> SUCCESS then Suc (sb_failures tr) else sb_failures tr
   | _ \<Rightarrow> sb_failures tr)"

text \<open>The pieces taken from receive tokens and the data handed to the network, in order.\<close>

fun delivered :: "trace \<Rightarrow> bytes list" where
  "delivered [] = []"
| "delivered ((c, st) # tr) = (case c of ReadData _ bs \<Rightarrow> delivered tr @ [bs] | _ \<Rightarrow> delivered tr)"

fun transmitted :: "trace \<Rightarrow> bytes list" where
  "transmitted [] = []"
| "transmitted ((c, st) # tr) = (case c of Transmit _ _ bs \<Rightarrow> transmitted tr @ (if st = SUCCESS then [bs] else []) | _ \<Rightarrow> transmitted tr)"

lemma open_events_less: "e \<in> set (open_events tr) \<Longrightarrow> e < length tr"
  by (induction tr rule: open_events.induct) (auto split: fw_call.splits if_splits)

lemma live_children_less: "k \<in> set (live_children tr) \<Longrightarrow> k < length tr"
  by (induction tr rule: live_children.induct) (auto split: fw_call.splits if_splits)

lemma new_event_fresh [simp]: "length tr \<le> e \<Longrightarrow> removeAll e (open_events tr) = open_events tr"
  by (rule removeAll_id) (auto dest: open_events_less)

lemma new_child_fresh [simp]: "length tr \<le> k \<Longrightarrow> removeAll k (live_children tr) = live_children tr"
  by (rule removeAll_id) (auto dest: live_children_less)

section \<open>Runs that end\<close>

definition wlp :: "('w, 'e, 'a) comp \<Rightarrow> ('a \<Rightarrow> 'w \<Rightarrow> bool) \<Rightarrow> ('e \<Rightarrow> 'w \<Rightarrow> bool) \<Rightarrow> 'w \<Rightarrow> bool" where
  "wlp m Q E w = (case m w of (Ret x, w') \<Rightarrow> Q x w' | (Err e, w') \<Rightarrow> E e w' | _ \<Rightarrow> True)"

lemma wlp_basic [simp]:
  "wlp (ret x) Q E w = Q x w" "wlp (throw e) Q E w = E e w" "wlp panic Q E w" "wlp diverge Q E w"
  "wlp (guard c e') Q' E' w = (if c then Q' () w else E' e' w)"
  by (simp_all add: wlp_def)

lemma wlp_ret': "wlp (ret x) Q E = Q x"
  by (rule ext) simp

lemma wlp_bind [simp]: "wlp (bind m f) Q E w = wlp m (\<lambda>x. wlp (f x) Q E) E w"
  by (auto simp: wlp_def bind_def split: prod.splits outcome.splits)

lemma wlp_attempt [simp]: "wlp (attempt m) Q E w = wlp m (\<lambda>x. Q (Some x)) (\<lambda>_. Q None) w"
  by (auto simp: wlp_def attempt_def split: prod.splits outcome.splits)

lemma wlp_on_err [simp]: "wlp (on_err m c) Q E w = wlp m Q (\<lambda>_. wlp c (\<lambda>_. E ()) E) w"
  by (auto simp: wlp_def on_err_def bind_def attempt_def split: prod.splits outcome.splits)

lemma wlp_fw [simp]:
  "wlp (fw_do fw c) Q E tr = Q (fw_result fw tr c) ((c, fw_result fw tr c) # tr)"
  "wlp (fw_new fw c) Q' E' tr = (if fw_result fw tr c = SUCCESS then Q' (length tr) ((c, SUCCESS) # tr) else E' () ((c, fw_result fw tr c) # tr))"
  "wlp (fw_look f) Q'' E tr = Q'' (f tr) tr"
  "wlp (locate_handles fw p) Q''' E tr =
     Q''' (fw_located fw tr p) ((LocateHandles p, case fw_located fw tr p of Some _ \<Rightarrow> SUCCESS | None \<Rightarrow> NOT_FOUND) # tr)"
  by (simp_all add: wlp_def fw_do_def fw_new_def fw_look_def locate_handles_def)

lemma wlp_conseq:
  assumes "wlp m Q E w" and "\<And>x w'. Q x w' \<Longrightarrow> Q' x w'" and "\<And>e w'. E e w' \<Longrightarrow> E' e w'"
  shows "wlp m Q' E' w"
  using assms by (auto simp: wlp_def split: prod.splits outcome.splits)

lemma wlp_conj:
  "wlp m Q E w \<Longrightarrow> wlp m Q' E' w \<Longrightarrow> wlp m (\<lambda>x w'. Q x w' \<and> Q' x w') (\<lambda>e w'. E e w' \<and> E' e w') w"
  by (auto simp: wlp_def split: prod.splits outcome.splits)

lemma wlp_Ret: "wlp m Q E w \<Longrightarrow> m w = (Ret x, w') \<Longrightarrow> Q x w'"
  and wlp_Err: "wlp m Q E w \<Longrightarrow> m w = (Err e, w') \<Longrightarrow> E e w'"
  by (simp_all add: wlp_def)

text \<open>A run that also comes to an end has the weakest precondition of the \<open>Prelude\<close>.\<close>

lemma wp_of_wlp: "safe m w \<Longrightarrow> wlp m Q E w \<Longrightarrow> wp m Q E w"
  by (auto simp: safe_def wlp_def wp_def split: prod.splits outcome.splits)

lemma wp_fw [simp]:
  "wp (fw_do fw c) Q E tr = Q (fw_result fw tr c) ((c, fw_result fw tr c) # tr)"
  "wp (fw_new fw c) Q' E' tr = (if fw_result fw tr c = SUCCESS then Q' (length tr) ((c, SUCCESS) # tr) else E' () ((c, fw_result fw tr c) # tr))"
  "wp (fw_look f) Q'' E tr = Q'' (f tr) tr"
  "wp (on_err m cl) Q4 E4 tr = wp m Q4 (\<lambda>_. wp cl (\<lambda>_. E4 ()) E4) tr"
  "wp (locate_handles fw p) Q''' E tr =
     Q''' (fw_located fw tr p) ((LocateHandles p, case fw_located fw tr p of Some _ \<Rightarrow> SUCCESS | None \<Rightarrow> NOT_FOUND) # tr)"
  by (simp_all add: wp_def fw_do_def fw_new_def fw_look_def locate_handles_def on_err_def attempt_def bind_def split: prod.splits outcome.splits)

text \<open>The same for computations that the simplifier has applied to their state.\<close>

lemma wp_Pair [simp]:
  "wp (Pair (Ret x)) Q E p = Q x p" "wp (Pair (Err e)) Q E p = E e p" "\<not> wp (Pair Panic) Q E p" "\<not> wp (Pair Diverge) Q E p"
  by (simp_all add: wp_def)

lemma wlp_Pair [simp]:
  "wlp (Pair (Ret x)) Q E p = Q x p" "wlp (Pair (Err e)) Q E p = E e p" "wlp (Pair Panic) Q E p" "wlp (Pair Diverge) Q E p"
  by (simp_all add: wlp_def)

section \<open>Events\<close>

text \<open>\<open>create_event\<close>, \<open>close_event\<close> and \<open>check_event\<close> of \<open>tcp4_http.rs\<close>; \<open>create_raw_event\<close> of \<open>dns.rs\<close> is the first again.\<close>

definition create_event :: "firmware \<Rightarrow> (trace, unit, nat) comp" where
  "create_event fw = fw_new fw CreateEvent"

definition close_event :: "firmware \<Rightarrow> nat \<Rightarrow> (trace, 'e, unit) comp" where
  "close_event fw e = bind (fw_do fw (CloseEvent e)) (\<lambda>_. ret ())"

definition check_event :: "firmware \<Rightarrow> nat \<Rightarrow> (trace, 'e, bool) comp" where
  "check_event fw e = bind (fw_do fw (CheckEvent e)) (\<lambda>st. ret (st = SUCCESS))"

text \<open>\<open>for _ in 0..n { poll; if check_event(e) { break } }\<close>: was the event signalled?\<close>

fun poll_event :: "nat \<Rightarrow> firmware \<Rightarrow> handle \<Rightarrow> nat \<Rightarrow> (trace, unit, bool) comp" where
  "poll_event 0 fw h e = ret False"
| "poll_event (Suc n) fw h e =
     bind (fw_do fw (Poll h)) (\<lambda>_.
     bind (check_event fw e) (\<lambda>signalled. if signalled then ret True else poll_event n fw h e))"

text \<open>\<open>for _ in 0..n { poll; if token.status != NOT_READY { break } }\<close>, for a token that was marked as pending.\<close>

fun poll_token :: "nat \<Rightarrow> firmware \<Rightarrow> handle \<Rightarrow> nat \<Rightarrow> (trace, unit, bool) comp" where
  "poll_token 0 fw h k = ret False"
| "poll_token (Suc n) fw h k =
     bind (fw_do fw (Poll h)) (\<lambda>_.
     bind (fw_look (token_status fw NOT_READY k)) (\<lambda>st. if st \<noteq> NOT_READY then ret True else poll_token n fw h k))"

text \<open>
  The loops that wait all do no more than poll and check. The interface of such a loop: it comes to an end, with nothing but such calls on the trace; a
  \<open>waiter\<close> does not fail either. What does not look at polls and checks is then the same as before.
\<close>

inductive only_polls :: "trace \<Rightarrow> trace \<Rightarrow> bool" for tr where
  no_poll: "only_polls tr tr"
| one_poll: "only_polls tr tr' \<Longrightarrow> only_polls tr ((Poll h, st) # tr')"
| one_check: "only_polls tr tr' \<Longrightarrow> only_polls tr ((CheckEvent e, st) # tr')"

lemma only_polls_trans: "only_polls tr2 tr3 \<Longrightarrow> only_polls tr1 tr2 \<Longrightarrow> only_polls tr1 tr3"
  by (induction rule: only_polls.induct) (auto intro: only_polls.intros)

lemma wp_more_polls:
  assumes "wp m (\<lambda>_. only_polls tr1) (\<lambda>_. only_polls tr1) tr1" and "only_polls tr tr1"
  shows "wp m (\<lambda>_. only_polls tr) (\<lambda>_. only_polls tr) tr1"
  by (rule wp_conseq [OF assms(1)]; rule only_polls_trans [OF _ assms(2)])

definition ignores_polls :: "(trace \<Rightarrow> 'a) \<Rightarrow> bool" where
  "ignores_polls f \<longleftrightarrow> (\<forall>h e st tr. f ((Poll h, st) # tr) = f tr \<and> f ((CheckEvent e, st) # tr) = f tr)"

lemma only_polls_ignored: "only_polls tr tr' \<Longrightarrow> ignores_polls f \<Longrightarrow> f tr' = f tr"
  by (induction rule: only_polls.induct) (auto simp: ignores_polls_def)

locale poller =
  fixes poll :: "nat \<Rightarrow> firmware \<Rightarrow> handle \<Rightarrow> nat \<Rightarrow> (trace, unit, 'r) comp"
  assumes polls: "wp (poll n fw h k) (\<lambda>_. only_polls tr) (\<lambda>_. only_polls tr) tr"
begin

lemma frame:
  assumes "ignores_polls f" and "\<And>x tr'. f tr' = f tr \<Longrightarrow> Q x tr'" and "\<And>tr'. f tr' = f tr \<Longrightarrow> E () tr'"
  shows "wp (poll n fw h k) Q E tr"
  by (rule wp_conseq [OF polls [of n fw h k tr]]) (auto intro: assms(2,3) only_polls_ignored [OF _ assms(1)])

end

locale waiter = poller +
  assumes waits: "wp (poll n fw h k) (\<lambda>_ _. True) (\<lambda>_ _. False) tr"
begin

lemma wait:
  assumes "ignores_polls f" and "\<And>x tr'. f tr' = f tr \<Longrightarrow> Q x tr'"
  shows "wp (poll n fw h k) Q E tr"
  by (rule wp_conseq [OF wp_conj [OF polls [of n fw h k tr] waits]]) (auto intro: assms(2) only_polls_ignored [OF _ assms(1)])

end

interpretation event: waiter poll_event
proof
  show "wp (poll_event n fw h e) (\<lambda>_. only_polls tr) (\<lambda>_. only_polls tr) tr" for n fw h e tr
  proof (induction n arbitrary: tr)
    case (Suc n)
    show ?case by (auto simp: check_event_def intro!: wp_more_polls [OF Suc.IH] only_polls.intros)
  qed (simp add: only_polls.intros)
  show "wp (poll_event n fw h e) (\<lambda>_ _. True) (\<lambda>_ _. False) tr" for n fw h e tr
    by (induction n arbitrary: tr) (auto simp: check_event_def)
qed

interpretation token: waiter poll_token
proof
  show "wp (poll_token n fw h e) (\<lambda>_. only_polls tr) (\<lambda>_. only_polls tr) tr" for n fw h e tr
  proof (induction n arbitrary: tr)
    case (Suc n)
    show ?case by (auto intro!: wp_more_polls [OF Suc.IH] only_polls.intros)
  qed (simp add: only_polls.intros)
  show "wp (poll_token n fw h e) (\<lambda>_ _. True) (\<lambda>_ _. False) tr" for n fw h e tr
    by (induction n arbitrary: tr) auto
qed

text \<open>An event that is signalled when it is first looked at.\<close>

lemma poll_event_at_once:
  assumes "0 < n" and "fw_result fw ((Poll h, fw_result fw tr (Poll h)) # tr) (CheckEvent e) = SUCCESS"
  shows "poll_event n fw h e tr = (Ret True, (CheckEvent e, SUCCESS) # (Poll h, fw_result fw tr (Poll h)) # tr)"
  using assms by (cases n) (simp_all add: bind_def fw_do_def check_event_def)

lemma wlp_of_wp: "wp m Q E w \<Longrightarrow> wlp m Q E w"
  by (auto simp: wlp_def wp_def split: prod.splits outcome.splits)

end
