(* ===== verification/Udp4.thy ===== *)
theory Udp4
  imports Firmware Dns
begin

text \<open>
  The exchange of a DNS query over the firmware's UDP protocol, \<open>udp4_dns_query\<close> of \<open>src/src/dns.rs\<close>, and with it the parameter \<open>udp\<close> of the
  theory \<open>Dns\<close>: a query is answered as the firmware answers it after the queries that were sent before.

  Shown: a query always comes back, and hands back the child handle it made on every path; the two events it makes are never closed.
\<close>

section \<open>One query\<close>

definition DNS_PORT :: nat where "DNS_PORT = 53"
definition MAX_DNS_RESPONSE :: nat where "MAX_DNS_RESPONSE = 512"

definition open_udp4_sb :: "firmware \<Rightarrow> handle \<Rightarrow> (trace, unit, unit) comp" where
  "open_udp4_sb fw sb = bind (fw_do fw (OpenProtocol sb UDP4_SB False)) (\<lambda>st. guard (st = SUCCESS) ())"

definition open_udp4_protocol :: "firmware \<Rightarrow> nat \<Rightarrow> (trace, unit, unit) comp" where
  "open_udp4_protocol fw child = bind (fw_do fw (OpenProtocol (Child child) UDP4 False)) (\<lambda>st. guard (st = SUCCESS) ())"

definition udp4_config :: "bytes \<Rightarrow> access_point" where
  "udp4_config server = \<lparr>use_default_address = True, station_address = [0, 0, 0, 0], subnet_mask = [0, 0, 0, 0],
     remote_address = server, remote_port = DNS_PORT\<rparr>"

text \<open>Up to the receive call: every failure ends the query.\<close>

definition udp4_send :: "firmware \<Rightarrow> nat \<Rightarrow> bytes \<Rightarrow> bytes \<Rightarrow> (trace, unit, nat) comp" where
  "udp4_send fw child query server =
     bind (open_udp4_protocol fw child) (\<lambda>_.
     bind (fw_do fw (Configure (Child child) (Some (udp4_config server)))) (\<lambda>st.
     bind (guard (st = SUCCESS) ()) (\<lambda>_.
     bind (create_event fw) (\<lambda>tx_event.
     bind (create_event fw) (\<lambda>rx_event.
     bind (fw_do fw (Transmit (Child child) tx_event query)) (\<lambda>st.
     bind (guard (st = SUCCESS) ()) (\<lambda>_.
     bind (poll_token 100 fw (Child child) tx_event) (\<lambda>_.
     bind (fw_look (token_status fw NOT_READY tx_event)) (\<lambda>st.
     bind (guard (st = SUCCESS) ()) (\<lambda>_.
     bind (fw_do fw (Receive (Child child) rx_event 0)) (\<lambda>st.
     bind (guard (st = SUCCESS) ()) (\<lambda>_.
     ret rx_event))))))))))))"

text \<open>The bytes of a datagram from its fragments: the length of each is only compared with the bound when there is one.\<close>

definition datagram_bytes :: "bytes list \<Rightarrow> bytes" where
  "datagram_bytes frags =
     (if length frags = 1 then (if 0 < length (hd frags) \<and> length (hd frags) \<le> MAX_DNS_RESPONSE then hd frags else [])
      else concat frags)"

definition udp4_take :: "firmware \<Rightarrow> nat \<Rightarrow> nat \<Rightarrow> bool \<Rightarrow> (trace, unit, bytes option) comp" where
  "udp4_take fw child rx_event received =
     bind (fw_look (\<lambda>tr. (token_status fw NOT_READY rx_event tr, fw_datagram fw tr rx_event))) (\<lambda>(st, packet).
     case (if received \<and> st = SUCCESS then packet else None) of
       Some (data_len, frags, recycle) \<Rightarrow>
         if length frags > 0 \<and> data_len > 0 \<and> data_len \<le> MAX_DNS_RESPONSE then
           bind (if recycle then bind (fw_do fw (SignalEvent rx_event)) (\<lambda>_. ret ()) else ret ()) (\<lambda>_. ret (Some (datagram_bytes frags)))
         else ret None
     | None \<Rightarrow> bind (if received then ret () else bind (fw_do fw (Cancel (Child child) rx_event)) (\<lambda>_. ret ())) (\<lambda>_. ret None))"

definition udp4_dns_query_on_handle :: "firmware \<Rightarrow> handle \<Rightarrow> bytes \<Rightarrow> bytes \<Rightarrow> (trace, unit, bytes) comp" where
  "udp4_dns_query_on_handle fw sb query server =
     bind (open_udp4_sb fw sb) (\<lambda>_.
     bind (fw_new fw (CreateChild sb UDP4_SB)) (\<lambda>child.
     bind (on_err (udp4_send fw child query server) (bind (fw_do fw (DestroyChild sb child)) (\<lambda>_. ret ()))) (\<lambda>rx_event.
     bind (poll_token 300 fw (Child child) rx_event) (\<lambda>received.
     bind (udp4_take fw child rx_event received) (\<lambda>result.
     bind (fw_do fw (Configure (Child child) None)) (\<lambda>_.
     bind (fw_do fw (DestroyChild sb child)) (\<lambda>_.
     of_option () result)))))))"

fun query_handles :: "firmware \<Rightarrow> bytes \<Rightarrow> bytes \<Rightarrow> nat list \<Rightarrow> (trace, unit, bytes) comp" where
  "query_handles fw query server [] = throw ()"
| "query_handles fw query server (h # hs) =
     bind (attempt (udp4_dns_query_on_handle fw (Controller h) query server)) (\<lambda>r. case r of
       Some resp \<Rightarrow> ret resp
     | None \<Rightarrow> query_handles fw query server hs)"

definition udp4_dns_query :: "firmware \<Rightarrow> bytes \<Rightarrow> bytes \<Rightarrow> (trace, unit, bytes) comp" where
  "udp4_dns_query fw query server =
     bind (locate_handles fw UDP4_SB) (\<lambda>hs. case hs of
       None \<Rightarrow> throw ()
     | Some sb_handles \<Rightarrow> query_handles fw query server sb_handles)"

section \<open>The transport of the resolver\<close>

definition udp_replay :: "firmware \<Rightarrow> (bytes \<times> bytes) list \<Rightarrow> trace \<Rightarrow> trace" where
  "udp_replay fw sent tr = fold (\<lambda>(query, server) tr. snd (udp4_dns_query fw query server tr)) sent tr"

definition udp_of :: "firmware \<Rightarrow> trace \<Rightarrow> udp" where
  "udp_of fw tr sent query server = (case fst (udp4_dns_query fw query server (udp_replay fw sent tr)) of Ret r \<Rightarrow> Some r | _ \<Rightarrow> None)"

text \<open>\<open>dns_resolve\<close> on the firmware; \<open>dns_sent\<close> is what this call has sent.\<close>

definition dns_resolve_fw :: "firmware \<Rightarrow> bytes \<Rightarrow> dns_state \<Rightarrow> (trace, 'e, bytes option \<times> dns_state) comp" where
  "dns_resolve_fw fw hostname s tr =
     (case dns_resolve (udp_of fw tr) hostname (s\<lparr>dns_sent := []\<rparr>) of (ip, s') \<Rightarrow>
        (Ret (ip, s'), udp_replay fw (dns_sent s') tr))"

section \<open>What a query leaves behind\<close>

text \<open>The part of a trace that polling and the datagram do not touch, and the events a query has made.\<close>

definition udp_frame :: "trace \<Rightarrow> nat list \<times> nat list \<times> nat \<times> (handle \<times> protocol) list \<times> bytes list" where
  "udp_frame tr = (open_events tr, live_children tr, sb_failures tr, exclusive_opens tr, delivered tr)"

lemma ignores_polls_udp_frame: "ignores_polls udp_frame"
  by (simp add: ignores_polls_def udp_frame_def)

lemma wp_poll_frame:
  "(\<And>x tr'. udp_frame tr' = udp_frame tr \<Longrightarrow> Q x tr') \<Longrightarrow> wp (poll_token n fw h k) Q E tr"
  using ignores_polls_udp_frame by (rule token.wait)

text \<open>\<open>holds_events tr es tr'\<close>: of what there was before \<open>tr\<close>, \<open>tr'\<close> holds the events \<open>es\<close> more, and nothing else.\<close>

definition holds_events :: "trace \<Rightarrow> nat list \<Rightarrow> trace \<Rightarrow> bool" where
  "holds_events tr es tr' \<longleftrightarrow> udp_frame tr' = (es @ open_events tr, live_children tr, sb_failures tr, exclusive_opens tr, delivered tr)"

lemma wp_udp4_send:
  "wp (udp4_send fw child query server)
     (\<lambda>rx tr'. \<exists>tx. holds_events tr [rx, tx] tr') (\<lambda>_ tr'. \<exists>es. length es \<le> 2 \<and> holds_events tr es tr') tr"
proof -
  have none: "holds_events tr [] tr' \<Longrightarrow> \<exists>es. length es \<le> 2 \<and> holds_events tr es tr'"
    and one: "holds_events tr [a] tr' \<Longrightarrow> \<exists>es. length es \<le> 2 \<and> holds_events tr es tr'"
    and two: "holds_events tr [a, b] tr' \<Longrightarrow> \<exists>es. length es \<le> 2 \<and> holds_events tr es tr'" for a b tr'
    by (metis le_SucI length_Cons list.size(3) numeral_2_eq_2 order_refl zero_le)+
  show ?thesis
    unfolding udp4_send_def open_udp4_protocol_def create_event_def
    by (auto simp: udp_frame_def holds_events_def intro!: wp_poll_frame none one two)
qed

lemma wp_udp4_take:
  "(\<And>result tr'. udp_frame tr' = udp_frame tr \<Longrightarrow> Q result tr') \<Longrightarrow> wp (udp4_take fw child rx received) Q E tr"
  by (auto simp: udp4_take_def udp_frame_def split: option.split)

lemma wp_udp4_on_handle:
  "wp (udp4_dns_query_on_handle fw sb query server)
     (\<lambda>_ tr'. \<exists>rx tx. holds_events tr [rx, tx] tr') (\<lambda>_ tr'. \<exists>es. length es \<le> 2 \<and> holds_events tr es tr') tr"
proof -
  have none: "holds_events tr [] tr' \<Longrightarrow> \<exists>es. length es \<le> 2 \<and> holds_events tr es tr'" for tr' by force
  define tr0 where "tr0 = (OpenProtocol sb UDP4_SB False, SUCCESS) # tr"
  define tr1 where "tr1 = (CreateChild sb UDP4_SB, SUCCESS) # tr0"
  have destroyed: "holds_events tr es ((DestroyChild sb (length tr0), st) # tr')" if "holds_events tr1 es tr'" for es st tr'
    using that by (simp add: holds_events_def udp_frame_def tr1_def) (simp add: tr0_def)
  have last: "wp (bind (poll_token 300 fw (Child (length tr0)) rx) (\<lambda>received.
       bind (udp4_take fw (length tr0) rx received) (\<lambda>result.
       bind (fw_do fw (Configure (Child (length tr0)) None)) (\<lambda>_.
       bind (fw_do fw (DestroyChild sb (length tr0))) (\<lambda>_. of_option () result)))))
     (\<lambda>_ tr'. \<exists>rx tx. holds_events tr [rx, tx] tr') (\<lambda>_ tr'. \<exists>es. length es \<le> 2 \<and> holds_events tr es tr') tr2"
    if "holds_events tr1 [rx, tx] tr2" for rx tx tr2
  proof -
    have fin: "\<exists>rx tx. holds_events tr [rx, tx] ((DestroyChild sb (length tr0), st) # (Configure (Child (length tr0)) None, st') # tr')"
      if "udp_frame tr' = udp_frame tr3" "udp_frame tr3 = udp_frame tr2" for tr' tr3 st st'
      using that \<open>holds_events tr1 [rx, tx] tr2\<close> by (intro exI destroyed) (simp add: holds_events_def udp_frame_def)
    have "\<exists>es. length es \<le> 2 \<and> holds_events tr es tr'" if "\<exists>rx tx. holds_events tr [rx, tx] tr'" for tr'
      using that by (auto intro: exI [of _ "[_, _]"])
    with fin show ?thesis by (auto intro!: wp_poll_frame wp_udp4_take split: option.split)
  qed
  have "wp (on_err (udp4_send fw (length tr0) query server) (bind (fw_do fw (DestroyChild sb (length tr0))) (\<lambda>_. ret ())))
      (\<lambda>rx tr'. \<exists>tx. holds_events tr1 [rx, tx] tr') (\<lambda>_ tr'. \<exists>es. length es \<le> 2 \<and> holds_events tr es tr') tr1"
    by (auto intro!: wp_conseq [OF wp_udp4_send]) (blast intro: destroyed)
  then have "wp (bind (on_err (udp4_send fw (length tr0) query server) (bind (fw_do fw (DestroyChild sb (length tr0))) (\<lambda>_. ret ()))) (\<lambda>rx.
       bind (poll_token 300 fw (Child (length tr0)) rx) (\<lambda>received.
       bind (udp4_take fw (length tr0) rx received) (\<lambda>result.
       bind (fw_do fw (Configure (Child (length tr0)) None)) (\<lambda>_.
       bind (fw_do fw (DestroyChild sb (length tr0))) (\<lambda>_. of_option () result))))))
     (\<lambda>_ tr'. \<exists>rx tx. holds_events tr [rx, tx] tr') (\<lambda>_ tr'. \<exists>es. length es \<le> 2 \<and> holds_events tr es tr') tr1"
    unfolding wp_bind [of "on_err _ _"] by (rule wp_conseq) (use last in blast, assumption)
  then show ?thesis
    unfolding udp4_dns_query_on_handle_def open_udp4_sb_def tr1_def
    by (auto simp: tr0_def holds_events_def udp_frame_def intro!: none)
qed

lemma wp_query_handles:
  "wp (query_handles fw query server hs)
     (\<lambda>_ tr'. \<exists>es. 2 \<le> length es \<and> length es \<le> 2 * length hs \<and> holds_events tr es tr')
     (\<lambda>_ tr'. \<exists>es. length es \<le> 2 * length hs \<and> holds_events tr es tr') tr"
proof (induction hs arbitrary: tr)
  case Nil
  then show ?case by (auto simp: holds_events_def udp_frame_def)
next
  case (Cons h hs)
  have more: "holds_events tr (es' @ es) tr'' \<and> length es' \<le> length (es' @ es) \<and> length (es' @ es) \<le> 2 * length (h # hs)"
    if "holds_events tr es tr'" "length es \<le> 2" "holds_events tr' es' tr''" "length es' \<le> 2 * length hs" for es es' tr' tr''
    using that by (simp add: holds_events_def udp_frame_def)
  have "wp (query_handles fw query server hs)
      (\<lambda>_ tr''. \<exists>es. 2 \<le> length es \<and> length es \<le> 2 * length (h # hs) \<and> holds_events tr es tr'')
      (\<lambda>_ tr''. \<exists>es. length es \<le> 2 * length (h # hs) \<and> holds_events tr es tr'') tr'"
    if "length es \<le> 2" "holds_events tr es tr'" for es tr'
    by (rule wp_conseq [OF Cons.IH]; elim exE conjE; drule (1) more [OF that(2,1)]) (blast intro: order_trans)+
  moreover have "\<exists>es. 2 \<le> length es \<and> length es \<le> 2 * length (h # hs) \<and> holds_events tr es tr'"
    if "\<exists>rx tx. holds_events tr [rx, tx] tr'" for tr'
    using that by (auto intro: exI [of _ "[_, _]"])
  ultimately show ?case
    unfolding query_handles.simps wp_bind wp_attempt option.case wp_ret
    by (intro wp_conseq [OF wp_udp4_on_handle]) blast+
qed

text \<open>C26: a DNS query over the firmware comes back whatever the firmware answers, without a panic or a loop without end, and destroys every
  child handle it made, on success and on failure. But the two events of an exchange are never closed: an answered query leaves at least two
  open events behind.\<close>

theorem udp4_dns_query_resources:
  "wp (udp4_dns_query fw query server)
     (\<lambda>_ tr'. live_children tr' = live_children tr \<and> length (open_events tr) + 2 \<le> length (open_events tr'))
     (\<lambda>_ tr'. live_children tr' = live_children tr) tr"
  unfolding udp4_dns_query_def
  by (auto split: option.split simp: holds_events_def udp_frame_def intro!: wp_conseq [OF wp_query_handles])

lemma udp4_query_answered:
  assumes "udp_of fw tr sent query server = Some r"
  shows "length (open_events (udp_replay fw sent tr)) + 2 \<le> length (open_events (udp_replay fw (sent @ [(query, server)]) tr))"
proof -
  obtain tr' where "udp4_dns_query fw query server (udp_replay fw sent tr) = (Ret r, tr')"
    using assms by (cases "udp4_dns_query fw query server (udp_replay fw sent tr)") (auto simp: udp_of_def split: outcome.splits)
  moreover have "wp (udp4_dns_query fw query server) (\<lambda>_ tr'. length (open_events (udp_replay fw sent tr)) + 2 \<le> length (open_events tr'))
      (\<lambda>_ _. True) (udp_replay fw sent tr)"
    unfolding udp4_dns_query_def
    by (auto split: option.split simp: holds_events_def udp_frame_def intro!: wp_conseq [OF wp_query_handles])
  ultimately show ?thesis by (auto dest: wp_Ret simp: udp_replay_def)
qed

text \<open>So a name that is resolved by \<open>n\<close> queries leaves \<open>2 n\<close> events.\<close>

lemma chase_cnames_leak:
  "chase_cnames k (udp_of fw tr) server name s = (Some ip, s') \<Longrightarrow>
   \<exists>qs. dns_sent s' = dns_sent s @ qs \<and> length (open_events (udp_replay fw (dns_sent s) tr)) + 2 * length qs
     \<le> length (open_events (udp_replay fw (dns_sent s') tr))"
proof (induction k arbitrary: name s)
  case (Suc k)
  obtain r s1 where q: "dns_query (udp_of fw tr) server name s = (Some r, s1)"
    using Suc.prems by (cases "dns_query (udp_of fw tr) server name s"; cases "fst (dns_query (udp_of fw tr) server name s)") auto
  then obtain query where s1: "dns_sent s1 = dns_sent s @ [(query, server)]" "udp_of fw tr (dns_sent s) query server = Some r"
    by (auto simp: dns_query_def Let_def)
  have step: "length (open_events (udp_replay fw (dns_sent s) tr)) + 2 \<le> length (open_events (udp_replay fw (dns_sent s1) tr))"
    using udp4_query_answered [OF s1(2)] s1(1) by simp
  show ?case
  proof (cases "s' = s1")
    case True
    with s1(1) step show ?thesis by auto
  next
    case False
    with Suc.prems q obtain t where "chase_cnames k (udp_of fw tr) server t s1 = (Some ip, s')" by (auto split: option.splits)
    from Suc.IH [OF this] step s1(1) show ?thesis by auto
  qed
qed simp

lemma dns_resolve_leaks:
  assumes "dns_resolve_fw fw hostname s tr = (Ret (Some ip, s'), tr')"
  shows "length (open_events tr) + 2 * length (dns_sent s') \<le> length (open_events tr')"
  using assms
  by (auto simp: dns_resolve_fw_def dns_resolve_def cache_result_def Let_def udp_replay_def
      split: if_splits option.splits prod.splits dest!: chase_cnames_leak)

lemma udp_replay_delivered: "delivered (udp_replay fw sent tr) = delivered tr"
proof (induction sent arbitrary: tr)
  case (Cons qs sent)
  obtain query server where qs: "qs = (query, server)" by fastforce
  have "wp (udp4_dns_query fw query server) (\<lambda>_ tr'. delivered tr' = delivered tr) (\<lambda>_ tr'. delivered tr' = delivered tr) tr"
    unfolding udp4_dns_query_def
    by (auto split: option.split simp: holds_events_def udp_frame_def intro!: wp_conseq [OF wp_query_handles])
  then have "delivered (snd (udp4_dns_query fw query server tr)) = delivered tr"
    by (auto simp: wp_def split: prod.splits outcome.splits)
  with Cons.IH [of "snd (udp4_dns_query fw query server tr)"] qs show ?case by (simp add: udp_replay_def)
qed (simp add: udp_replay_def)

text \<open>A single fragment is bounded; several are not, whatever length the datagram announces.\<close>

lemma datagram_bound: "length frags = 1 \<Longrightarrow> length (datagram_bytes frags) \<le> MAX_DNS_RESPONSE"
  by (simp add: datagram_bytes_def)

lemma datagram_of_fragments_unbounded: "length (datagram_bytes [replicate n 0, [0]]) = n + 1"
  by (simp add: datagram_bytes_def)

end
