(* ===== verification/Tcp4.thy ===== *)
theory Tcp4
  imports Udp4 Http
begin

text \<open>
  \<open>src/src/tcp4_http.rs\<close> down to the firmware: children of the TCP service binding, the connection over one of the network interfaces, the
  transmission of a request and the loop that receives its answer, each with the events and tokens it makes. The parts above it, which
  read an URL or an answer, are those of the theory \<open>Http\<close>.

  Shown: a request hands back what it made, on every path; its result is that of \<open>Http.tcp4_http_post\<close> on the pieces the firmware delivered;
  the loop ends when each piece has a byte at least and fits into the buffer.
\<close>

section \<open>Children and connections\<close>

definition STATIC_IP :: bytes where "STATIC_IP = [192, 168, 200, 26]"
definition STATIC_SUBNET :: bytes where "STATIC_SUBNET = [255, 255, 255, 0]"

definition find_tcp4_service_bindings :: "firmware \<Rightarrow> (trace, 'e, nat list) comp" where
  "find_tcp4_service_bindings fw = bind (locate_handles fw TCP4_SB) (\<lambda>hs. ret (case hs of Some handles \<Rightarrow> handles | None \<Rightarrow> []))"

definition create_tcp4_child :: "firmware \<Rightarrow> handle \<Rightarrow> (trace, unit, nat) comp" where
  "create_tcp4_child fw sb =
     bind (fw_do fw (OpenProtocol sb TCP4_SB False)) (\<lambda>st.
     bind (guard (st = SUCCESS) ()) (\<lambda>_.
     fw_new fw (CreateChild sb TCP4_SB)))"

definition open_tcp4 :: "firmware \<Rightarrow> nat \<Rightarrow> (trace, unit, unit) comp" where
  "open_tcp4 fw child = bind (fw_do fw (OpenProtocol (Child child) TCP4 True)) (\<lambda>st. guard (st = SUCCESS) ())"

definition destroy_tcp4_child :: "firmware \<Rightarrow> handle \<Rightarrow> nat \<Rightarrow> (trace, 'e, unit) comp" where
  "destroy_tcp4_child fw sb child =
     bind (fw_do fw (OpenProtocol sb TCP4_SB False)) (\<lambda>st.
     if st = SUCCESS then bind (fw_do fw (DestroyChild sb child)) (\<lambda>_. ret ()) else ret ())"

text \<open>An interface whose address cannot be read counts as one that has an address.\<close>

definition has_nonzero_mac :: "firmware \<Rightarrow> handle \<Rightarrow> (trace, 'e, bool) comp" where
  "has_nonzero_mac fw h =
     bind (fw_do fw (OpenProtocol h SNP False)) (\<lambda>st.
     if st \<noteq> SUCCESS then ret True
     else bind (fw_look (\<lambda>tr. fw_mac fw tr h)) (\<lambda>mode. case mode of
       None \<Rightarrow> ret True
     | Some mac \<Rightarrow> ret (\<not> list_all (\<lambda>b. b = 0) mac)))"

definition tcp4_config :: "bool \<Rightarrow> bytes \<Rightarrow> nat \<Rightarrow> access_point" where
  "tcp4_config use_dhcp ip port = \<lparr>use_default_address = use_dhcp,
     station_address = (if use_dhcp then [0, 0, 0, 0] else STATIC_IP), subnet_mask = (if use_dhcp then [0, 0, 0, 0] else STATIC_SUBNET),
     remote_address = ip, remote_port = port\<rparr>"

text \<open>The handshake, with an event of its own.\<close>

definition tcp4_connect :: "firmware \<Rightarrow> nat \<Rightarrow> (trace, unit, unit) comp" where
  "tcp4_connect fw child =
     bind (create_event fw) (\<lambda>connect_event.
     bind (fw_do fw (Connect (Child child) connect_event)) (\<lambda>st.
     if st \<noteq> SUCCESS then bind (close_event fw connect_event) (\<lambda>_. throw ())
     else
       bind (poll_event 500 fw (Child child) connect_event) (\<lambda>signalled.
       bind (fw_look (token_status fw NOT_READY connect_event)) (\<lambda>st.
       bind (close_event fw connect_event) (\<lambda>_.
       guard (signalled \<and> st = SUCCESS) ())))))"

definition try_connect_on_handle :: "firmware \<Rightarrow> bool \<Rightarrow> handle \<Rightarrow> bytes \<Rightarrow> nat \<Rightarrow> (trace, unit, nat) comp" where
  "try_connect_on_handle fw use_dhcp sb ip port =
     bind (create_tcp4_child fw sb) (\<lambda>child.
     on_err
       (bind (open_tcp4 fw child) (\<lambda>_.
        bind (fw_do fw (Configure (Child child) (Some (tcp4_config use_dhcp ip port)))) (\<lambda>st.
        bind (guard (st = SUCCESS) ()) (\<lambda>_.
        bind (tcp4_connect fw child) (\<lambda>_.
        ret child)))))
       (destroy_tcp4_child fw sb child))"

text \<open>The interfaces: the cached one, then the others in order. \<open>idx as i8\<close> is what is cached.\<close>

definition as_i8 :: "nat \<Rightarrow> int" where
  "as_i8 n = (int n + 128) mod 256 - 128"

fun scan_handles :: "firmware \<Rightarrow> bool \<Rightarrow> bytes \<Rightarrow> nat \<Rightarrow> int \<Rightarrow> nat \<Rightarrow> nat list \<Rightarrow> (trace, unit, nat \<times> handle \<times> int) comp" where
  "scan_handles fw use_dhcp ip port cached idx [] = throw ()"
| "scan_handles fw use_dhcp ip port cached idx (h # hs) =
     (if cached \<ge> 0 \<and> idx = nat cached then scan_handles fw use_dhcp ip port cached (Suc idx) hs
      else bind (has_nonzero_mac fw (Controller h)) (\<lambda>mac.
        if \<not> mac then scan_handles fw use_dhcp ip port cached (Suc idx) hs
        else bind (attempt (try_connect_on_handle fw use_dhcp (Controller h) ip port)) (\<lambda>conn. case conn of
          Some child \<Rightarrow> ret (child, Controller h, as_i8 idx)
        | None \<Rightarrow> scan_handles fw use_dhcp ip port cached (Suc idx) hs)))"

definition connect_any :: "firmware \<Rightarrow> bool \<Rightarrow> bytes \<Rightarrow> nat \<Rightarrow> int \<Rightarrow> nat list \<Rightarrow> (trace, unit, nat \<times> handle \<times> int) comp" where
  "connect_any fw use_dhcp ip port cached hs =
     bind (if cached \<ge> 0 \<and> nat cached < length hs
           then attempt (try_connect_on_handle fw use_dhcp (Controller (hs ! nat cached)) ip port) else ret None) (\<lambda>conn. case conn of
       Some child \<Rightarrow> ret (child, Controller (hs ! nat cached), cached)
     | None \<Rightarrow> scan_handles fw use_dhcp ip port cached 0 hs)"

section \<open>The exchange\<close>

definition tcp4_transmit :: "firmware \<Rightarrow> nat \<Rightarrow> bytes \<Rightarrow> (trace, unit, unit) comp" where
  "tcp4_transmit fw child send_buf =
     bind (create_event fw) (\<lambda>tx_event.
     bind (fw_do fw (Transmit (Child child) tx_event send_buf)) (\<lambda>st.
     if st \<noteq> SUCCESS then bind (close_event fw tx_event) (\<lambda>_. throw ())
     else
       bind (poll_event 1000 fw (Child child) tx_event) (\<lambda>signalled.
       bind (fw_look (token_status fw NOT_READY tx_event)) (\<lambda>st.
       bind (close_event fw tx_event) (\<lambda>_.
       guard (signalled \<and> st = SUCCESS) ())))))"

text \<open>What a receive token delivered, if it completed well.\<close>

definition read_data :: "firmware \<Rightarrow> nat \<Rightarrow> (trace, 'e, bytes option) comp" where
  "read_data fw rx tr = (if token_status fw NOT_READY rx tr = SUCCESS
     then (Ret (Some (fw_data fw tr rx)), (ReadData rx (fw_data fw tr rx), SUCCESS) # tr) else (Ret None, tr))"

text \<open>
  The loop. \<open>buf\<close> is what was received, \<open>cap\<close> the size of the buffer, which grows by \<open>grow\<close> when it is full. A driver that reports
  more than there was room for makes the slice behind it panic. There is no bound on the rounds, so that the loop has fuel.
\<close>

fun tcp4_receive :: "nat \<Rightarrow> firmware \<Rightarrow> nat \<Rightarrow> nat \<Rightarrow> nat \<Rightarrow> bytes \<Rightarrow> (trace, unit, bytes) comp" where
  "tcp4_receive 0 fw child grow cap buf = diverge"
| "tcp4_receive (Suc fuel) fw child grow cap buf =
     (if length buf > MAX_RESPONSE_BYTES then ret buf
      else bind (attempt (create_event fw)) (\<lambda>evt. case evt of
        None \<Rightarrow> ret buf
      | Some rx_event \<Rightarrow>
          let cap' = (if cap - length buf = 0 then cap + grow else cap); remaining = cap' - length buf in
          bind (fw_do fw (Receive (Child child) rx_event remaining)) (\<lambda>st.
          if st \<noteq> SUCCESS then bind (close_event fw rx_event) (\<lambda>_. ret buf)
          else
            bind (poll_event 1000 fw (Child child) rx_event) (\<lambda>signalled.
            bind (if signalled then read_data fw rx_event else ret None) (\<lambda>chunk.
            bind (close_event fw rx_event) (\<lambda>_. case chunk of
              None \<Rightarrow> ret buf
            | Some bs \<Rightarrow>
                if length bs > remaining then panic
                else if response_complete (buf @ bs) then ret (buf @ bs)
                else tcp4_receive fuel fw child grow cap' (buf @ bs)))))))"

definition tcp4_close :: "firmware \<Rightarrow> nat \<Rightarrow> (trace, unit, unit) comp" where
  "tcp4_close fw child =
     bind (attempt (create_event fw)) (\<lambda>evt. case evt of
       None \<Rightarrow> ret ()
     | Some e \<Rightarrow>
         bind (fw_do fw (CloseConnection (Child child) e)) (\<lambda>_.
         bind (poll_event 100 fw (Child child) e) (\<lambda>_.
         close_event fw e)))"

definition tcp4_exchange :: "nat \<Rightarrow> firmware \<Rightarrow> handle \<Rightarrow> nat \<Rightarrow> nat \<Rightarrow> nat \<Rightarrow> bytes \<Rightarrow> (trace, unit, bytes) comp" where
  "tcp4_exchange fuel fw sb child grow cap request =
     bind (on_err (tcp4_transmit fw child request) (destroy_tcp4_child fw sb child)) (\<lambda>_.
     bind (tcp4_receive fuel fw child grow cap []) (\<lambda>buf.
     bind (tcp4_close fw child) (\<lambda>_.
     bind (destroy_tcp4_child fw sb child) (\<lambda>_.
     ret buf))))"

text \<open>A request to an address: the bytes received, and the interface to try first the next time.\<close>

definition tcp4_request :: "nat \<Rightarrow> firmware \<Rightarrow> bool \<Rightarrow> nat \<Rightarrow> nat \<Rightarrow> bytes \<Rightarrow> nat \<Rightarrow> bytes \<Rightarrow> int \<Rightarrow> (trace, unit, bytes option \<times> int) comp" where
  "tcp4_request fuel fw use_dhcp grow cap ip port request cached =
     bind (find_tcp4_service_bindings fw) (\<lambda>sb_handles.
     if sb_handles = [] then ret (None, cached)
     else bind (attempt (connect_any fw use_dhcp ip port cached sb_handles)) (\<lambda>conn. case conn of
       None \<Rightarrow> ret (None, cached)
     | Some (child, sb, cached') \<Rightarrow>
         bind (attempt (tcp4_exchange fuel fw sb child grow cap request)) (\<lambda>buf. ret (buf, cached'))))"

section \<open>POST and GET\<close>

definition parse_url_fw :: "firmware \<Rightarrow> bytes \<Rightarrow> dns_state \<Rightarrow> (trace, 'e, (bytes \<times> nat \<times> bytes) option \<times> dns_state) comp" where
  "parse_url_fw fw url s tr = (case parse_url (udp_of fw tr) url (s\<lparr>dns_sent := []\<rparr>) of (target, s') \<Rightarrow>
     (Ret (target, s'), udp_replay fw (dns_sent s') tr))"

definition tcp4_post :: "nat \<Rightarrow> firmware \<Rightarrow> bool \<Rightarrow> bytes \<Rightarrow> bytes \<Rightarrow> bytes option \<Rightarrow> int \<Rightarrow> dns_state \<Rightarrow> (trace, unit, http_post_response option \<times> int \<times> dns_state) comp" where
  "tcp4_post fuel fw use_dhcp url body auth_token cached s =
     bind (parse_url_fw fw url s) (\<lambda>(target, s'). case target of
       None \<Rightarrow> ret (None, cached, s')
     | Some (ip, port, path) \<Rightarrow>
         bind (tcp4_request fuel fw use_dhcp 65536 131072 ip port (post_request path (url_hostname url) auth_token body) cached) (\<lambda>(buf, cached').
         ret (case buf of None \<Rightarrow> None | Some buf \<Rightarrow> if buf = [] then None else parse_http_response buf, cached', s')))"

definition tcp4_get :: "nat \<Rightarrow> firmware \<Rightarrow> bool \<Rightarrow> bytes \<Rightarrow> int \<Rightarrow> dns_state \<Rightarrow> (trace, unit, bytes option \<times> int \<times> dns_state) comp" where
  "tcp4_get fuel fw use_dhcp url cached s =
     bind (parse_url_fw fw url s) (\<lambda>(target, s'). case target of
       None \<Rightarrow> ret (None, cached, s')
     | Some (ip, port, path) \<Rightarrow>
         bind (tcp4_request fuel fw use_dhcp (1024 * 1024) (1024 * 1024) ip port (get_request path (url_hostname url)) cached) (\<lambda>(buf, cached').
         ret (case buf of None \<Rightarrow> None | Some buf \<Rightarrow> if buf = [] then None else get_body buf, cached', s')))"

section \<open>What a request leaves behind\<close>

definition tcp_frame :: "trace \<Rightarrow> nat list \<times> nat list \<times> nat \<times> (handle \<times> protocol) list \<times> bytes list \<times> bytes list" where
  "tcp_frame tr = (open_events tr, live_children tr, sb_failures tr, exclusive_opens tr, delivered tr, transmitted tr)"

lemma ignores_polls_tcp_frame: "ignores_polls tcp_frame"
  by (simp add: ignores_polls_def tcp_frame_def)

lemma wp_poll_tcp: "(\<And>x tr'. tcp_frame tr' = tcp_frame tr \<Longrightarrow> Q x tr') \<Longrightarrow> wp (poll_event n fw h e) Q E tr"
  using ignores_polls_tcp_frame by (rule event.wait)

text \<open>
  \<open>returned tr tr'\<close>: the events are those of before, and there is no child more than service bindings failed to open when one was to
  be destroyed.
\<close>

definition returned :: "trace \<Rightarrow> trace \<Rightarrow> bool" where
  "returned tr tr' \<longleftrightarrow> open_events tr' = open_events tr \<and>
     length (live_children tr') + sb_failures tr \<le> length (live_children tr) + sb_failures tr'"

lemma returned_trans: "returned tr1 tr2 \<Longrightarrow> returned tr2 tr3 \<Longrightarrow> returned tr1 tr3"
  by (simp add: returned_def)

text \<open>The same, with nothing sent or received.\<close>

definition quiet :: "trace \<Rightarrow> trace \<Rightarrow> bool" where
  "quiet tr tr' \<longleftrightarrow> returned tr tr' \<and> delivered tr' = delivered tr \<and> transmitted tr' = transmitted tr"

lemma quiet_refl: "quiet tr tr" and quiet_trans: "quiet tr1 tr2 \<Longrightarrow> quiet tr2 tr3 \<Longrightarrow> quiet tr1 tr3"
  by (auto simp: quiet_def returned_def)

definition connected :: "nat \<Rightarrow> trace \<Rightarrow> trace \<Rightarrow> bool" where
  "connected child tr tr' \<longleftrightarrow> tcp_frame tr' = (open_events tr, child # live_children tr, sb_failures tr, (Child child, TCP4) # exclusive_opens tr, delivered tr, transmitted tr)"

lemmas tcp_defs = create_event_def close_event_def create_tcp4_child_def open_tcp4_def destroy_tcp4_child_def

lemma wp_tcp4_connect:
  "wp (tcp4_connect fw child) (\<lambda>_ tr'. tcp_frame tr' = tcp_frame tr) (\<lambda>_ tr'. tcp_frame tr' = tcp_frame tr) tr"
  by (auto simp: tcp4_connect_def tcp_defs tcp_frame_def intro!: wp_poll_tcp)

lemma wp_tcp4_transmit:
  "wp (tcp4_transmit fw child buf)
     (\<lambda>_ tr'. tcp_frame tr' = (open_events tr, live_children tr, sb_failures tr, exclusive_opens tr, delivered tr, transmitted tr @ [buf]))
     (\<lambda>_ tr'. \<exists>sent. tcp_frame tr' = (open_events tr, live_children tr, sb_failures tr, exclusive_opens tr, delivered tr, transmitted tr @ sent) \<and>
        (sent = [] \<or> sent = [buf])) tr"
  by (auto simp: tcp4_transmit_def tcp_defs tcp_frame_def intro!: wp_poll_tcp)

lemma wp_tcp4_close:
  "wp (tcp4_close fw child) (\<lambda>_ tr'. tcp_frame tr' = tcp_frame tr) E tr"
  by (auto simp: tcp4_close_def tcp_defs tcp_frame_def intro!: wp_poll_tcp)

lemma wp_try_connect:
  "wp (try_connect_on_handle fw use_dhcp sb ip port) (\<lambda>child. connected child tr) (\<lambda>_ tr'. quiet tr tr') tr"
  unfolding try_connect_on_handle_def
  by (auto simp: tcp_defs quiet_def returned_def connected_def tcp_frame_def intro!: wp_conseq [OF wp_tcp4_connect])

text \<open>Connections that failed come before the one that is made.\<close>

definition connected_after :: "trace \<Rightarrow> nat \<times> handle \<times> int \<Rightarrow> trace \<Rightarrow> bool" where
  "connected_after tr conn tr' \<longleftrightarrow> (\<exists>tr1. quiet tr tr1 \<and> connected (fst conn) tr1 tr')"

lemma wp_nonzero_mac: "(\<And>x tr'. tcp_frame tr' = tcp_frame tr \<Longrightarrow> Q x tr') \<Longrightarrow> wp (has_nonzero_mac fw h) Q E tr"
  by (auto simp: has_nonzero_mac_def tcp_frame_def split: option.split)

lemma quiet_frame: "tcp_frame tr' = tcp_frame tr \<Longrightarrow> quiet tr tr'"
  by (simp add: tcp_frame_def quiet_def returned_def)

lemma connected_later: "quiet tr tr1 \<Longrightarrow> connected_after tr1 conn tr' \<Longrightarrow> connected_after tr conn tr'"
  unfolding connected_after_def by (metis quiet_trans)

lemma wp_scan_handles:
  "wp (scan_handles fw use_dhcp ip port cached idx hs) (connected_after tr) (\<lambda>_ tr'. quiet tr tr') tr"
proof (induction hs arbitrary: idx tr)
  case (Cons h hs)
  let ?E = "\<lambda>_ tr'. quiet tr tr'"
  have next_handle: "wp (scan_handles fw use_dhcp ip port cached (Suc idx) hs) (connected_after tr) ?E tr1" if "?E () tr1" for tr1
    by (rule wp_conseq [OF Cons.IH]) (use that connected_later quiet_trans in blast)+
  have here: "wp (try_connect_on_handle fw use_dhcp (Controller h) ip port) (\<lambda>child. connected_after tr (child, Controller h, as_i8 idx))
      (\<lambda>_. wp (scan_handles fw use_dhcp ip port cached (Suc idx) hs) (connected_after tr) ?E) tr1" if "?E () tr1" for tr1
    by (rule wp_conseq [OF wp_try_connect])
      (use that in \<open>auto simp: connected_after_def intro!: next_handle intro: quiet_trans\<close>)
  show ?case
    using next_handle here quiet_refl
    by (auto simp: wp_ret' intro!: wp_nonzero_mac dest!: quiet_frame)
qed (simp add: quiet_refl)

lemma wp_connect_any:
  "wp (connect_any fw use_dhcp ip port cached hs) (connected_after tr) (\<lambda>_ tr'. quiet tr tr') tr"
proof -
  have "wp (scan_handles fw use_dhcp ip port cached 0 hs) (connected_after tr) (\<lambda>_ tr'. quiet tr tr') tr1"
    if "quiet tr tr1" for tr1
    by (rule wp_conseq [OF wp_scan_handles]) (use that connected_later quiet_trans in blast)+
  with quiet_refl show ?thesis
    unfolding connect_any_def
    by (auto intro!: wp_conseq [OF wp_try_connect] exI [of _ tr] simp: connected_after_def)
qed

section \<open>The loop\<close>

lemma wlp_poll_tcp: "(\<And>x tr'. tcp_frame tr' = tcp_frame tr \<Longrightarrow> Q x tr') \<Longrightarrow> wlp (poll_event n fw h e) Q E tr"
  by (rule wlp_of_wp) (rule wp_poll_tcp)

text \<open>A run of the loop takes pieces and puts them together as \<open>receive\<close> does.\<close>

definition received_from :: "trace \<Rightarrow> bytes \<Rightarrow> bytes \<Rightarrow> trace \<Rightarrow> bool" where
  "received_from tr buf out tr' \<longleftrightarrow> (\<exists>chunks. out = receive chunks buf \<and>
     tcp_frame tr' = (open_events tr, live_children tr, sb_failures tr, exclusive_opens tr, delivered tr @ chunks, transmitted tr))"

lemma wlp_read_data:
  "wlp (read_data fw rx) Q E tr = (if token_status fw NOT_READY rx tr = SUCCESS
     then Q (Some (fw_data fw tr rx)) ((ReadData rx (fw_data fw tr rx), SUCCESS) # tr) else Q None tr)"
  by (simp add: wlp_def read_data_def)

lemma wlp_tcp4_receive: "wlp (tcp4_receive fuel fw child grow cap buf) (received_from tr buf) (\<lambda>_ _. False) tr"
proof (induction fuel arbitrary: cap buf tr)
  case (Suc fuel)
  have none: "received_from tr buf buf tr'" if "tcp_frame tr' = tcp_frame tr" for tr'
    using that unfolding received_from_def by (intro exI [of _ "[]"]) (simp add: tcp_frame_def)
  have last: "received_from tr buf (buf @ bs) tr'"
    if "length buf \<le> MAX_RESPONSE_BYTES" "response_complete (buf @ bs)"
      "tcp_frame tr' = (open_events tr, live_children tr, sb_failures tr, exclusive_opens tr, delivered tr @ [bs], transmitted tr)" for tr' bs
    using that unfolding received_from_def by (intro exI [of _ "[bs]"]) simp
  have more: "wlp (tcp4_receive fuel fw child grow cap' (buf @ bs)) (received_from tr buf) (\<lambda>_ _. False) tr'"
    if "length buf \<le> MAX_RESPONSE_BYTES" "\<not> response_complete (buf @ bs)"
      "tcp_frame tr' = (open_events tr, live_children tr, sb_failures tr, exclusive_opens tr, delivered tr @ [bs], transmitted tr)" for tr' bs cap'
  proof (rule wlp_conseq [OF Suc.IH])
    fix out tr'' assume "received_from tr' (buf @ bs) out tr''"
    then obtain chunks where "out = receive chunks (buf @ bs)"
        "tcp_frame tr'' = (open_events tr', live_children tr', sb_failures tr', exclusive_opens tr', delivered tr' @ chunks, transmitted tr')"
      unfolding received_from_def by blast
    with that show "received_from tr buf out tr''"
      unfolding received_from_def by (intro exI [of _ "bs # chunks"]) (simp add: tcp_frame_def)
  qed simp
  show ?case
    by (auto simp: tcp_defs Let_def tcp_frame_def wlp_read_data intro!: wlp_poll_tcp none last more split: option.split)
qed simp

section \<open>A request\<close>

text \<open>The bytes of an answer, if there is one, and what was sent for it.\<close>

definition answered :: "bytes \<Rightarrow> trace \<Rightarrow> bytes option \<Rightarrow> trace \<Rightarrow> bool" where
  "answered request tr buf tr' \<longleftrightarrow> returned tr tr' \<and> (\<exists>chunks sent. delivered tr' = delivered tr @ chunks \<and> transmitted tr' = transmitted tr @ sent \<and>
     (case buf of None \<Rightarrow> chunks = [] \<and> (sent = [] \<or> sent = [request]) | Some b \<Rightarrow> b = receive chunks [] \<and> sent = [request]))"

lemma wp_destroy_tcp4_child:
  assumes "open_events tr = open_events tr0" and "live_children tr = child # live_children tr0" and "sb_failures tr = sb_failures tr0"
    and "\<And>tr'. returned tr0 tr' \<Longrightarrow> delivered tr' = delivered tr \<Longrightarrow> transmitted tr' = transmitted tr \<Longrightarrow> Q () tr'"
  shows "wp (destroy_tcp4_child fw sb child) Q E tr"
  unfolding destroy_tcp4_child_def using assms(1-3) by (auto simp: returned_def le_SucI length_removeAll_less_eq le_diff_conv intro!: assms(4) order_trans [OF length_removeAll_less_eq])

lemma wlp_tcp4_exchange:
  assumes "connected child tr0 tr"
  shows "wlp (tcp4_exchange fuel fw sb child grow cap request) (\<lambda>buf. answered request tr0 (Some buf)) (\<lambda>_. answered request tr0 None) tr"
proof -
  have c: "open_events tr = open_events tr0" "live_children tr = child # live_children tr0" "sb_failures tr = sb_failures tr0"
      "delivered tr = delivered tr0" "transmitted tr = transmitted tr0"
    using assms by (simp_all add: connected_def tcp_frame_def)
  have closed: "wlp (bind (tcp4_close fw child) (\<lambda>_. bind (destroy_tcp4_child fw sb child) (\<lambda>_. ret (receive chunks []))))
      (\<lambda>buf. answered request tr0 (Some buf)) E tr2"
    if "tcp_frame tr2 = (open_events tr, live_children tr, sb_failures tr, exclusive_opens tr, delivered tr @ chunks, transmitted tr @ [request])"
    for tr2 E chunks
    by (rule wlp_of_wp) (use that c in \<open>auto simp: tcp_frame_def answered_def intro!: wp_conseq [OF wp_tcp4_close] wp_destroy_tcp4_child [of _ tr0]\<close>)
  have rest: "wlp (bind (tcp4_receive fuel fw child grow cap []) (\<lambda>buf. bind (tcp4_close fw child) (\<lambda>_. bind (destroy_tcp4_child fw sb child) (\<lambda>_. ret buf))))
      (\<lambda>buf. answered request tr0 (Some buf)) (\<lambda>_. answered request tr0 None) tr1"
    if "tcp_frame tr1 = (open_events tr, live_children tr, sb_failures tr, exclusive_opens tr, delivered tr, transmitted tr @ [request])" for tr1
    unfolding wlp_bind [of "tcp4_receive _ _ _ _ _ _"]
    by (rule wlp_conseq [OF wlp_tcp4_receive]) (use that in \<open>auto simp: received_from_def tcp_frame_def simp del: wlp_bind intro!: closed\<close>)
  have "wlp (on_err (tcp4_transmit fw child request) (destroy_tcp4_child fw sb child))
      (\<lambda>_ tr'. tcp_frame tr' = (open_events tr, live_children tr, sb_failures tr, exclusive_opens tr, delivered tr, transmitted tr @ [request]))
      (\<lambda>_. answered request tr0 None) tr"
    by (rule wlp_of_wp) (use c in \<open>auto simp: tcp_frame_def answered_def intro!: wp_conseq [OF wp_tcp4_transmit] wp_destroy_tcp4_child [of _ tr0]\<close>)
  then show ?thesis
    unfolding tcp4_exchange_def wlp_bind [of "on_err _ _"] by (rule wlp_conseq) (use rest in auto)
qed

lemma wlp_tcp4_request:
  "wlp (tcp4_request fuel fw use_dhcp grow cap ip port request cached) (\<lambda>(buf, _). answered request tr buf) (\<lambda>_ _. False) tr"
proof -
  have later: "answered request tr buf tr'" if "quiet tr tr1" "answered request tr1 buf tr'" for buf tr1 tr'
    using that unfolding answered_def quiet_def by (auto intro: returned_trans)
  have failed_early: "answered request tr None tr'" if "quiet tr tr'" for tr'
    using that by (simp add: answered_def quiet_def)
  have connected_to: "wlp (tcp4_exchange fuel fw sb child grow cap request) (\<lambda>buf. answered request tr (Some buf)) (\<lambda>_. answered request tr None) tr2"
    if conn: "connected_after tr1 (child, sb, c) tr2" and q: "quiet tr tr1" for child sb c tr1 tr2
  proof -
    obtain tr3 where "quiet tr1 tr3" "connected child tr3 tr2" using conn unfolding connected_after_def fst_conv by blast
    then show ?thesis
      by (intro wlp_conseq [OF wlp_tcp4_exchange [of child tr3]]) (auto intro: later quiet_trans q)
  qed
  have find: "quiet tr ((LocateHandles p, st) # tr)" for p st by (simp add: quiet_def returned_def)
  show ?thesis
    unfolding tcp4_request_def find_tcp4_service_bindings_def
    by (auto simp: wlp_ret' intro!: wlp_of_wp [THEN wlp_conseq, OF wp_connect_any] failed_early find connected_to [OF _ find]
        intro: quiet_trans [OF find] split: option.split)
qed


lemma tcp4_request_pieces:
  assumes "tcp4_request fuel fw use_dhcp grow cap ip port request cached tr = (Ret (buf, cached'), tr')"
  obtains chunks where "delivered tr' = delivered tr @ chunks" and "case buf of None \<Rightarrow> chunks = [] | Some b \<Rightarrow> b = receive chunks []"
proof -
  have "answered request tr buf tr'" using wlp_Ret [OF wlp_tcp4_request assms] unfolding prod.case .
  then show ?thesis unfolding answered_def by (cases buf) (auto intro: that)
qed

lemma tcp4_post_abstract:
  assumes "tcp4_post fuel fw use_dhcp url body token cached s tr = (Ret (resp, cached', s'), tr')"
  shows "\<exists>answer. tcp4_http_post (\<lambda>_ _ _. answer) (udp_of fw tr) url body token (s\<lparr>dns_sent := []\<rparr>) = (resp, s') \<and>
    delivered tr' = delivered tr @ (case answer of Some chunks \<Rightarrow> chunks | None \<Rightarrow> [])"
proof -
  obtain target where p: "parse_url (udp_of fw tr) url (s\<lparr>dns_sent := []\<rparr>) = (target, s')"
    using assms by (auto simp: tcp4_post_def parse_url_fw_def Ret_iffs split: option.splits prod.splits)
  show ?thesis
  proof (cases target)
    case None
    with assms p show ?thesis
      by (intro exI [of _ None]) (auto simp: tcp4_post_def tcp4_http_post_def parse_url_fw_def bind_def udp_replay_delivered)
  next
    case (Some t)
    obtain ip port path where t: "t = (ip, port, path)" by (cases t)
    let ?request = "post_request path (url_hostname url) token body"
    define tr1 where "tr1 = udp_replay fw (dns_sent s') tr"
    obtain buf where r: "tcp4_request fuel fw use_dhcp 65536 131072 ip port ?request cached tr1 = (Ret (buf, cached'), tr')"
        "resp = (case buf of None \<Rightarrow> None | Some b \<Rightarrow> if b = [] then None else parse_http_response b)"
      using assms p Some t by (auto simp: tr1_def tcp4_post_def parse_url_fw_def Ret_iffs)
    obtain chunks where "delivered tr' = delivered tr1 @ chunks" "case buf of None \<Rightarrow> chunks = [] | Some b \<Rightarrow> b = receive chunks []"
      using tcp4_request_pieces [OF r(1)] .
    with p Some t r(2) show ?thesis
      by (intro exI [of _ "map_option (\<lambda>_. chunks) buf"], cases buf)
        (simp_all add: tcp4_http_post_def tr1_def udp_replay_delivered)
  qed
qed

text \<open>C23: what a POST over TCP returns is what the abstract client (\<open>Http.tcp4_http_post\<close>) returns for the pieces that the firmware delivered,
  with the name resolved over the firmware's UDP; an error on the way is an answer that does not come.\<close>

theorem tcp4_post_refines:
  assumes "tcp4_post fuel fw use_dhcp url body token cached s tr = (Ret (resp, cached', s'), tr')"
  shows "\<exists>answer. tcp4_http_post (\<lambda>_ _ _. answer) (udp_of fw tr) url body token (s\<lparr>dns_sent := []\<rparr>) = (resp, s') \<and>
    delivered tr' = delivered tr @ (case answer of Some chunks \<Rightarrow> chunks | None \<Rightarrow> [])"
  using tcp4_post_abstract [OF assms] .

lemma tcp4_get_refines:
  assumes "tcp4_get fuel fw use_dhcp url cached s tr = (Ret (resp, cached', s'), tr')"
  shows "\<exists>answer. tcp4_http_get (\<lambda>_ _ _. answer) (udp_of fw tr) url (s\<lparr>dns_sent := []\<rparr>) = (resp, s') \<and>
    delivered tr' = delivered tr @ (case answer of Some chunks \<Rightarrow> chunks | None \<Rightarrow> [])"
proof -
  obtain target where p: "parse_url (udp_of fw tr) url (s\<lparr>dns_sent := []\<rparr>) = (target, s')"
    using assms by (auto simp: tcp4_get_def parse_url_fw_def Ret_iffs split: option.splits prod.splits)
  show ?thesis
  proof (cases target)
    case None
    with assms p show ?thesis
      by (intro exI [of _ None]) (auto simp: tcp4_get_def tcp4_http_get_def parse_url_fw_def bind_def udp_replay_delivered)
  next
    case (Some t)
    obtain ip port path where t: "t = (ip, port, path)" by (cases t)
    define tr1 where "tr1 = udp_replay fw (dns_sent s') tr"
    obtain buf where r: "tcp4_request fuel fw use_dhcp (1024 * 1024) (1024 * 1024) ip port (get_request path (url_hostname url)) cached tr1 = (Ret (buf, cached'), tr')"
        "resp = (case buf of None \<Rightarrow> None | Some b \<Rightarrow> if b = [] then None else get_body b)"
      using assms p Some t by (auto simp: tr1_def tcp4_get_def parse_url_fw_def Ret_iffs)
    obtain chunks where "delivered tr' = delivered tr1 @ chunks" "case buf of None \<Rightarrow> chunks = [] | Some b \<Rightarrow> b = receive chunks []"
      using tcp4_request_pieces [OF r(1)] .
    with p Some t r(2) show ?thesis
      by (intro exI [of _ "map_option (\<lambda>_. chunks) buf"], cases buf)
        (simp_all add: tcp4_http_get_def tr1_def udp_replay_delivered)
  qed
qed

section \<open>The end of the loop\<close>

text \<open>The room announced by the last call for a token; a driver that fills the buffer it is given with one byte at least.\<close>

fun rx_room :: "trace \<Rightarrow> nat \<Rightarrow> nat option" where
  "rx_room [] rx = None"
| "rx_room ((c, st) # tr) rx = (case c of Receive _ k room \<Rightarrow> if k = rx then Some room else rx_room tr rx | _ \<Rightarrow> rx_room tr rx)"

definition fills_buffers :: "firmware \<Rightarrow> bool" where
  "fills_buffers fw \<longleftrightarrow> (\<forall>tr rx room. rx_room tr rx = Some room \<longrightarrow> 0 < room \<longrightarrow> token_status fw NOT_READY rx tr = SUCCESS \<longrightarrow>
     0 < length (fw_data fw tr rx) \<and> length (fw_data fw tr rx) \<le> room)"

lemma wp_poll_room: "(\<And>x tr'. rx_room tr' = rx_room tr \<Longrightarrow> Q x tr') \<Longrightarrow> wp (poll_event n fw h e) Q E tr"
  by (rule event.wait [where f = rx_room]) (auto simp: ignores_polls_def fun_eq_iff)

lemma wp_read_data:
  "wp (read_data fw rx) Q E tr = (if token_status fw NOT_READY rx tr = SUCCESS
     then Q (Some (fw_data fw tr rx)) ((ReadData rx (fw_data fw tr rx), SUCCESS) # tr) else Q None tr)"
  by (simp add: wp_def read_data_def)

lemma wp_tcp4_receive:
  assumes "fills_buffers fw" and "0 < grow"
  shows "length buf \<le> cap \<Longrightarrow> MAX_RESPONSE_BYTES + 2 \<le> length buf + fuel \<Longrightarrow> 0 < fuel \<Longrightarrow>
    wp (tcp4_receive fuel fw child grow cap buf) (\<lambda>_ _. True) (\<lambda>_ _. False) tr"
proof (induction fuel arbitrary: cap buf tr)
  case (Suc fuel)
  define cap' where "cap' = (if cap - length buf = 0 then cap + grow else cap)"
  have room: "0 < cap' - length buf" "length buf \<le> cap'" using Suc.prems(1) assms(2) by (auto simp: cap'_def)
  have piece: "0 < length (fw_data fw tr' rx) \<and> length (fw_data fw tr' rx) \<le> cap' - length buf"
    if "token_status fw NOT_READY rx tr' = SUCCESS" "rx_room tr' rx = Some (cap' - length buf)" for rx tr'
    using assms(1) that room(1) unfolding fills_buffers_def by blast
  have more: "wp (tcp4_receive fuel fw child grow cap' (buf @ fw_data fw tr' rx)) (\<lambda>_ _. True) (\<lambda>_ _. False) tr''"
    if "token_status fw NOT_READY rx tr' = SUCCESS" "rx_room tr' rx = Some (cap' - length buf)" "length buf \<le> MAX_RESPONSE_BYTES" for rx tr' tr''
    using piece [OF that(1,2)] that(3) room Suc.prems by (intro Suc.IH) (auto simp del: length_greater_0_conv)
  show ?case
    unfolding tcp4_receive.simps cap'_def [symmetric] Let_def
    by (auto simp: tcp_defs wp_read_data split: option.split intro!: wp_poll_room more) (drule piece, simp, simp)+
qed simp

lemma safe_tcp4_post:
  assumes "fills_buffers fw" and "MAX_RESPONSE_BYTES + 2 \<le> fuel"
  shows "wp (tcp4_post fuel fw use_dhcp url body token cached s) (\<lambda>_ _. True) (\<lambda>_ _. False) tr"
proof -
  have receive: "wp (tcp4_receive fuel fw child 65536 131072 []) (\<lambda>_ _. True) (\<lambda>_ _. False) tr" for child tr
    by (rule wp_tcp4_receive [OF assms(1)]) (use assms(2) in \<open>simp_all add: MAX_RESPONSE_BYTES_def\<close>)
  have exchange: "wp (tcp4_exchange fuel fw sb child 65536 131072 request) (\<lambda>_ _. True) (\<lambda>_ _. True) tr" for sb child request tr
    unfolding tcp4_exchange_def
    by (auto simp: destroy_tcp4_child_def intro!: wp_conseq [OF wp_tcp4_transmit] wp_conseq [OF receive] wp_conseq [OF wp_tcp4_close])
  have "wp (tcp4_request fuel fw use_dhcp 65536 131072 ip port request cached) (\<lambda>_ _. True) (\<lambda>_ _. False) tr" for ip port request tr
    unfolding tcp4_request_def find_tcp4_service_bindings_def
    by (auto simp: wp_ret' intro!: wp_conseq [OF wp_connect_any] exchange)
  then show ?thesis
    unfolding tcp4_post_def
    by (auto simp: wp_def [of "parse_url_fw _ _ _"] parse_url_fw_def split: prod.split option.split intro!: wp_conseq [where E' = "\<lambda>_ _. False"])
qed

text \<open>A POST over TCP comes back, with or without an answer, if the driver delivers at least one byte with every receive it completes, and
  no more than it was given room for: the loop that receives has no bound on its rounds, but the answer has one. 512 MiB and two rounds are
  enough.\<close>

theorem tcp4_post_returns:
  assumes "fills_buffers fw" and "MAX_RESPONSE_BYTES + 2 \<le> fuel"
  shows "\<exists>resp cached' s' tr'. tcp4_post fuel fw use_dhcp url body token cached s tr = (Ret (resp, cached', s'), tr')"
  using safe_tcp4_post [OF assms, of use_dhcp url body token cached s tr]
  by (cases "tcp4_post fuel fw use_dhcp url body token cached s tr") (auto simp: wp_def split: outcome.splits)

text \<open>Without that, it need not: a driver that completes every receive with nothing keeps the loop going.\<close>

lemma empty_pieces_forever:
  assumes "\<And>tr c. fw_result fw tr c = SUCCESS" and "\<And>tr k. token_status fw NOT_READY k tr = SUCCESS" and "\<And>tr k. fw_data fw tr k = []"
    and "length buf \<le> MAX_RESPONSE_BYTES" and "\<not> response_complete buf"
  shows "fst (tcp4_receive fuel fw child grow cap buf tr) = Diverge"
proof (induction fuel arbitrary: cap tr)
  case (Suc fuel)
  with assms show ?case
    by (simp add: bind_def attempt_def create_event_def close_event_def fw_new_def fw_do_def read_data_def poll_event_at_once Let_def)
qed simp

text \<open>
  The child is destroyed while its protocol is still open exclusively, for which \<open>http.rs\<close> says that \<open>DestroyChild\<close> fails; nothing in
  \<open>tcp4_http.rs\<close> closes a protocol.
\<close>

lemma tcp4_child_open_when_destroyed:
  assumes "connected child tr0 tr"
  shows "wlp (tcp4_exchange fuel fw sb child grow cap request) (\<lambda>_ tr'. (Child child, TCP4) \<in> set (exclusive_opens tr'))
    (\<lambda>_ tr'. (Child child, TCP4) \<in> set (exclusive_opens tr')) tr"
proof -
  have c: "(Child child, TCP4) \<in> set (exclusive_opens tr)" using assms by (simp add: connected_def tcp_frame_def)
  have recv: "wlp (tcp4_receive fuel fw child grow cap []) (\<lambda>_ tr'. exclusive_opens tr' = exclusive_opens tr1) (\<lambda>_ _. False) tr1" for tr1
    by (rule wlp_conseq [OF wlp_tcp4_receive]) (auto simp: received_from_def tcp_frame_def)
  show ?thesis
    unfolding tcp4_exchange_def
    by (auto simp: destroy_tcp4_child_def tcp_frame_def c
        intro!: wlp_of_wp [THEN wlp_conseq, OF wp_tcp4_transmit] wlp_conseq [OF recv] wlp_of_wp [THEN wlp_conseq, OF wp_tcp4_close])
qed

section \<open>A sample run\<close>

definition sample_fw :: "bytes \<Rightarrow> firmware" where
  "sample_fw answer = \<lparr>fw_result = (\<lambda>_ _. SUCCESS), fw_located = (\<lambda>_ _. Some [0]), fw_token = (\<lambda>_ _. Some SUCCESS),
     fw_data = (\<lambda>tr rx. case rx_room tr rx of Some room \<Rightarrow> take room answer | None \<Rightarrow> answer), fw_mac = (\<lambda>_ _. None),
     fw_datagram = (\<lambda>_ _. None), fw_headers = (\<lambda>_ _. []), fw_body_length = (\<lambda>_ _. None)\<rparr>"

lemma sample_fills: "answer \<noteq> [] \<Longrightarrow> fills_buffers (sample_fw answer)"
  by (simp add: fills_buffers_def sample_fw_def)

theorem tcp4_post_returns_witness:
  "\<exists>resp cached' s' tr'. tcp4_post (MAX_RESPONSE_BYTES + 2) (sample_fw [0x48]) True (ascii ''http://10.0.0.1:8080/fdo'') [0x80] None (-1) start_dns [] =
     (Ret (resp, cached', s'), tr')"
  by (rule tcp4_post_returns) (simp_all add: sample_fills)

lemma sample_answer:
  "response_complete (sample_headers @ [1, 2, 3])" "length sample_headers \<le> 100"
  "parse_http_response (sample_headers @ [1, 2, 3]) = Some \<lparr>resp_body = [1, 2, 3], resp_auth_token = None, resp_message_type = Some 61\<rparr>"
proof -
  show len: "length sample_headers \<le> 100" by (simp add: sample_headers_def CRLF_def)
  have block: "header_block sample_headers (length [1, 2, 3 :: byte])" using sample_block by (simp add: numeral_3_eq_3)
  show "response_complete (sample_headers @ [1, 2, 3])" using header_block_take(1) [OF block, of "[1, 2, 3]"] len by simp
  show "parse_http_response (sample_headers @ [1, 2, 3]) = Some \<lparr>resp_body = [1, 2, 3], resp_auth_token = None, resp_message_type = Some 61\<rparr>"
    by (rule parse_header_block [OF block sample_fold])
qed

text \<open>A firmware that does what it is asked over TCP, and delivers \<open>answer\<close>; what it makes of other calls is open.\<close>

definition serves_tcp :: "firmware \<Rightarrow> bytes \<Rightarrow> bool" where
  "serves_tcp fw answer \<longleftrightarrow> (\<forall>tr c. (\<forall>h n. c \<noteq> Response h n) \<longrightarrow> fw_result fw tr c = SUCCESS) \<and> (\<forall>tr p. fw_located fw tr p = Some [0]) \<and>
     (\<forall>tr k. (CreateEvent, SUCCESS) \<in> set tr \<longrightarrow> fw_token fw tr k = Some SUCCESS) \<and> (\<forall>tr h. fw_mac fw tr h = None) \<and>
     (\<forall>tr k room. rx_room tr k = Some room \<longrightarrow> fw_data fw tr k = take room answer)"

lemma sample_request:
  assumes "serves_tcp fw answer" and "response_complete answer" and "length answer \<le> 131072"
  shows "\<exists>tr'. tcp4_request (Suc n) fw use_dhcp 65536 131072 ip port request (-1) tr = (Ret (Some answer, 0), tr') \<and>
    delivered tr' = delivered tr @ [answer] \<and> transmitted tr' = transmitted tr @ [request] \<and> set tr \<subseteq> set tr'"
proof -
  have fw: "(\<forall>h n. c \<noteq> Response h n) \<Longrightarrow> fw_result fw tr c = SUCCESS" "fw_located fw tr p = Some [0]"
    "(CreateEvent, SUCCESS) \<in> set tr \<Longrightarrow> fw_token fw tr k = Some SUCCESS" "fw_mac fw tr h = None"
    "rx_room tr k = Some room \<Longrightarrow> fw_data fw tr k = take room answer" for tr c p k h room
    using assms(1) unfolding serves_tcp_def by blast+
  note run = bind_def attempt_def on_err_def fw_new_def fw_do_def fw_look_def locate_handles_def check_event_def tcp_defs
    read_data_def poll_event_at_once Let_def token_status_def
  show ?thesis
    by (simp add: tcp4_request_def find_tcp4_service_bindings_def connect_any_def has_nonzero_mac_def try_connect_on_handle_def tcp4_connect_def
        tcp4_exchange_def tcp4_transmit_def tcp4_close_def as_i8_def run fw assms(2))
      (use assms(2,3) in auto)
qed

lemma sample_serves_tcp: "serves_tcp (sample_fw answer) answer"
  by (simp add: serves_tcp_def sample_fw_def)

theorem tcp4_post_refines_witness:
  "\<exists>answer tr'. tcp4_http_post (\<lambda>_ _ _. answer) (udp_of (sample_fw (sample_headers @ [1, 2, 3])) []) (ascii ''http://10.0.0.1:8080/fdo'') [0x80] None start_dns =
     (Some \<lparr>resp_body = [1, 2, 3], resp_auth_token = None, resp_message_type = Some 61\<rparr>, start_dns) \<and>
   delivered tr' = (case answer of Some chunks \<Rightarrow> chunks | None \<Rightarrow> []) \<and> delivered tr' = [sample_headers @ [1, 2, 3]]"
proof -
  have s: "start_dns\<lparr>dns_sent := []\<rparr> = start_dns" "dns_sent start_dns = []" by (simp_all add: start_dns_def)
  have "length (sample_headers @ [1, 2, 3]) \<le> 131072" using sample_answer(2) by simp
  from sample_request [OF sample_serves_tcp sample_answer(1) this, of 1 True "[10, 0, 0, 1]" 8080 _ "[]"] obtain tr' where r: "tcp4_request 2 (sample_fw (sample_headers @ [1, 2, 3])) True 65536 131072 [10, 0, 0, 1] 8080
      (post_request (ascii ''/fdo'') (url_hostname (ascii ''http://10.0.0.1:8080/fdo'')) None [0x80]) (-1) [] = (Ret (Some (sample_headers @ [1, 2, 3]), 0), tr')"
    and d: "delivered tr' = [sample_headers @ [1, 2, 3]]"
    by (auto simp: numeral_2_eq_2)
  have "tcp4_post 2 (sample_fw (sample_headers @ [1, 2, 3])) True (ascii ''http://10.0.0.1:8080/fdo'') [0x80] None (-1) start_dns [] =
      (Ret (Some \<lparr>resp_body = [1, 2, 3], resp_auth_token = None, resp_message_type = Some 61\<rparr>, 0, start_dns), tr')"
    by (simp add: tcp4_post_def parse_url_fw_def s sample_url bind_def r sample_answer(3) udp_replay_def)
  from tcp4_post_refines [OF this] obtain answer where "tcp4_http_post (\<lambda>_ _ _. answer) (udp_of (sample_fw (sample_headers @ [1, 2, 3])) [])
      (ascii ''http://10.0.0.1:8080/fdo'') [0x80] None start_dns = (Some \<lparr>resp_body = [1, 2, 3], resp_auth_token = None, resp_message_type = Some 61\<rparr>, start_dns)"
      "delivered tr' = (case answer of Some chunks \<Rightarrow> chunks | None \<Rightarrow> [])" by (auto simp: s)
  with d show ?thesis by (intro exI [of _ answer] exI [of _ tr']) simp
qed

end
