(* ===== verification/Http_Uefi.thy ===== *)
theory Http_Uefi
  imports Firmware Http
begin

text \<open>
  \<open>src/src/http.rs\<close> down to the firmware: starting the network interface and the IP stack, and a POST over \<open>EFI_HTTP_PROTOCOL\<close> with its child
  handle, its request and response tokens and the loop that collects the body. A token of this protocol has no event; it is named by
  the call that queued it. The two flags of the file are passed and returned.

  Shown: an answer has at most 128 KiB; the child handle is destroyed exactly when there is an answer, so that every failure after its
  creation leaks it; the loop ends; a read that never completes is counted as if it had filled the buffer.
\<close>

section \<open>The network interface\<close>

text \<open>\<open>ScopedProtocol::drop\<close>: the protocol is closed, and a firmware that refuses makes it panic.\<close>

definition drop_protocol :: "firmware \<Rightarrow> handle \<Rightarrow> protocol \<Rightarrow> (trace, 'e, unit) comp" where
  "drop_protocol fw h p = bind (fw_do fw (CloseProtocol h p)) (\<lambda>st. if st = SUCCESS then ret () else panic)"

fun start_snp_handles :: "firmware \<Rightarrow> nat list \<Rightarrow> (trace, unit, nat) comp" where
  "start_snp_handles fw [] = throw ()"
| "start_snp_handles fw (h # hs) =
     bind (fw_do fw (OpenProtocol (Controller h) SNP True)) (\<lambda>st.
     if st \<noteq> SUCCESS then start_snp_handles fw hs
     else
       bind (fw_do fw (SnpStart (Controller h))) (\<lambda>_.
       bind (fw_do fw (SnpInitialize (Controller h))) (\<lambda>_.
       bind (drop_protocol fw (Controller h) SNP) (\<lambda>_.
       ret h))))"

definition start_snp_interface :: "firmware \<Rightarrow> (trace, unit, nat) comp" where
  "start_snp_interface fw = bind (locate_handles fw SNP) (\<lambda>hs. case hs of None \<Rightarrow> throw () | Some snp_handles \<Rightarrow> start_snp_handles fw snp_handles)"

definition connect_network_controller :: "firmware \<Rightarrow> nat \<Rightarrow> (trace, 'e, bool) comp" where
  "connect_network_controller fw h = bind (fw_do fw (ConnectController (Controller h))) (\<lambda>st. ret (st = SUCCESS))"

text \<open>The interface is started once; \<open>Err ()\<close> is the early return for an empty list.\<close>

definition init_snp :: "firmware \<Rightarrow> nat list \<Rightarrow> bool \<Rightarrow> (trace, unit, bool) comp" where
  "init_snp fw snp_handles snp_initialized =
     (if snp_initialized then bind (guard (snp_handles \<noteq> []) ()) (\<lambda>_. ret True)
      else
        bind (attempt (start_snp_interface fw)) (\<lambda>started.
        bind (case started of Some h \<Rightarrow> ret h | None \<Rightarrow> bind (guard (snp_handles \<noteq> []) ()) (\<lambda>_. ret (hd snp_handles))) (\<lambda>h.
        bind (connect_network_controller fw h) (\<lambda>_.
        ret True))))"

definition find_http_nic :: "firmware \<Rightarrow> bool \<Rightarrow> (trace, unit, nat option \<times> bool) comp" where
  "find_http_nic fw snp_initialized =
     bind (locate_handles fw SNP) (\<lambda>hs. case hs of
       None \<Rightarrow> ret (None, snp_initialized)
     | Some snp_handles \<Rightarrow>
         bind (attempt (init_snp fw snp_handles snp_initialized)) (\<lambda>r. case r of
           None \<Rightarrow> ret (None, snp_initialized)
         | Some initialized \<Rightarrow>
             bind (locate_handles fw IP4_CONFIG2) (\<lambda>_.
             bind (locate_handles fw TCP4_SB) (\<lambda>_.
             bind (locate_handles fw HTTP_SB) (\<lambda>hs.
             ret (case hs of Some (h # _) \<Rightarrow> Some h | _ \<Rightarrow> None, initialized))))))"

definition configure_network :: "firmware \<Rightarrow> nat \<Rightarrow> bool \<Rightarrow> (trace, 'e, bool) comp" where
  "configure_network fw nic network_configured =
     (if network_configured then ret True
      else bind (fw_do fw (OpenProtocol (Controller nic) IP4_CONFIG2 False)) (\<lambda>st.
        if st \<noteq> SUCCESS then ret False
        else bind (fw_do fw (IfUp (Controller nic))) (\<lambda>st. ret (st = SUCCESS))))"

section \<open>A POST\<close>

definition http_config :: access_point where
  "http_config = \<lparr>use_default_address = True, station_address = [0, 0, 0, 0], subnet_mask = [0, 0, 0, 0], remote_address = [], remote_port = 0\<rparr>"

text \<open>The headers are C strings, which end at the first NUL.\<close>

definition c_str :: "bytes \<Rightarrow> bytes" where
  "c_str s = takeWhile (\<lambda>b. b \<noteq> 0) s"

definition request_headers :: "bytes \<Rightarrow> bytes \<Rightarrow> bytes option \<Rightarrow> (bytes \<times> bytes) list" where
  "request_headers url body auth_token =
     [(ascii ''Host'', c_str (url_hostname url)), (ascii ''Content-Type'', ascii ''application/cbor''), (ascii ''Content-Length'', dec_nat (length body))]
     @ (case auth_token of Some token \<Rightarrow> [(ascii ''Authorization'', c_str (ascii ''Bearer '' @ token))] | None \<Rightarrow> [])"

fun await_request :: "nat \<Rightarrow> firmware \<Rightarrow> handle \<Rightarrow> nat \<Rightarrow> (trace, unit, unit) comp" where
  "await_request 0 fw h k = ret ()"
| "await_request (Suc n) fw h k =
     bind (fw_do fw (Poll h)) (\<lambda>poll_status.
     bind (fw_look (token_status fw NOT_READY k)) (\<lambda>st.
     if st = SUCCESS then ret ()
     else if st \<noteq> NOT_READY then throw ()
     else if poll_status \<noteq> SUCCESS \<and> poll_status \<noteq> NOT_READY then ret ()
     else await_request n fw h k))"

definition http_request :: "firmware \<Rightarrow> nat \<Rightarrow> bytes \<Rightarrow> bytes \<Rightarrow> bytes option \<Rightarrow> (trace, unit, unit) comp" where
  "http_request fw child url body auth_token =
     bind (guard (ucs2_string url) ()) (\<lambda>_.
     bind (fw_look length) (\<lambda>k.
     bind (fw_do fw (Request (Child child) url (request_headers url body auth_token) body)) (\<lambda>st.
     bind (guard (st = SUCCESS) ()) (\<lambda>_.
     bind (fw_look (token_status fw NOT_READY k)) (\<lambda>st.
     if st = NOT_READY then await_request 3000 fw (Child child) k else ret ())))))"

text \<open>The token of a response is marked as complete when it is queued, and nothing is made of a wait that runs out.\<close>

fun await_response :: "nat \<Rightarrow> firmware \<Rightarrow> handle \<Rightarrow> nat \<Rightarrow> (trace, unit, unit) comp" where
  "await_response 0 fw h k = ret ()"
| "await_response (Suc n) fw h k =
     bind (fw_do fw (Poll h)) (\<lambda>_.
     bind (fw_look (token_status fw SUCCESS k)) (\<lambda>st.
     if st = SUCCESS then ret () else if st \<noteq> NOT_READY then throw () else await_response n fw h k))"

text \<open>A buffer of \<open>n\<close> bytes filled with \<open>b\<close>, after the driver has written to it from its start.\<close>

definition written_over :: "nat \<Rightarrow> byte \<Rightarrow> bytes \<Rightarrow> bytes" where
  "written_over n b bs = take n (bs @ replicate n b)"

definition RX_SENTINEL :: byte where "RX_SENTINEL = 0xA5"

fun drain_wait :: "nat \<Rightarrow> firmware \<Rightarrow> handle \<Rightarrow> nat \<Rightarrow> (trace, unit, unit) comp" where
  "drain_wait 0 fw h k = ret ()"
| "drain_wait (Suc n) fw h k =
     bind (fw_look (token_status fw NOT_READY k)) (\<lambda>st.
     if st \<noteq> NOT_READY then ret ()
     else bind (fw_do fw (Poll h)) (\<lambda>_. drain_wait n fw h k))"

text \<open>
  One read of the rest of the body: \<open>None\<close> when the call fails. The length is what the token's message says when the wait is over, which is
  the size that was asked for as long as the driver has not changed it.
\<close>

definition drain_read :: "firmware \<Rightarrow> nat \<Rightarrow> nat \<Rightarrow> (trace, unit, bytes option) comp" where
  "drain_read fw child want =
     bind (fw_look length) (\<lambda>k.
     bind (fw_do fw (Response (Child child) want)) (\<lambda>st.
     if st \<noteq> SUCCESS \<and> st \<noteq> NOT_READY then ret None
     else
       bind (drain_wait (MAX_DRAIN_IDLE + 1) fw (Child child) k) (\<lambda>_.
       bind (fw_look (\<lambda>tr. (case fw_body_length fw tr k of Some n \<Rightarrow> n | None \<Rightarrow> want, fw_data fw tr k))) (\<lambda>(got, bs).
       bind (guard (got \<le> want) ()) (\<lambda>_.
       ret (Some (take got (written_over want RX_SENTINEL bs))))))))"

fun http_drain :: "nat \<Rightarrow> firmware \<Rightarrow> nat \<Rightarrow> nat \<Rightarrow> nat \<Rightarrow> bytes \<Rightarrow> (trace, unit, bytes) comp" where
  "http_drain 0 fw child cl idle body = diverge"
| "http_drain (Suc fuel) fw child cl idle body =
     (if length body < cl \<and> length body < RX_BODY_SIZE then
        bind (drain_read fw child (min (RX_BODY_SIZE - length body) (cl - length body))) (\<lambda>r. case r of
          None \<Rightarrow> ret body
        | Some got \<Rightarrow>
            if got = [] then (if idle + 1 > MAX_DRAIN_IDLE then ret body else http_drain fuel fw child cl (idle + 1) body)
            else http_drain fuel fw child cl 0 (body @ got))
      else ret body)"

definition http_response :: "nat \<Rightarrow> firmware \<Rightarrow> nat \<Rightarrow> (trace, unit, http_post_response) comp" where
  "http_response fuel fw child =
     bind (fw_look length) (\<lambda>k.
     bind (fw_do fw (Response (Child child) RX_BODY_SIZE)) (\<lambda>st.
     bind (if st = SUCCESS then ret () else await_response 3000 fw (Child child) k) (\<lambda>_.
     bind (fw_look (\<lambda>tr. (fw_headers fw tr k,
         take (case fw_body_length fw tr k of Some n \<Rightarrow> n | None \<Rightarrow> RX_BODY_SIZE) (written_over RX_BODY_SIZE 0 (fw_data fw tr k))))) (\<lambda>(headers, first).
     case fold uefi_header headers (None, None, None) of (token, msg_type, content_length) \<Rightarrow>
       bind (case content_length of Some cl \<Rightarrow> http_drain fuel fw child cl 0 first | None \<Rightarrow> ret first) (\<lambda>rx_body.
       ret (uefi_answer token msg_type rx_body))))))"

text \<open>The binding is opened exclusively and kept (\<open>ManuallyDrop\<close>); the child is only destroyed at the end.\<close>

definition http_exchange :: "nat \<Rightarrow> firmware \<Rightarrow> handle \<Rightarrow> bytes \<Rightarrow> bytes \<Rightarrow> bytes option \<Rightarrow> (trace, unit, http_post_response) comp" where
  "http_exchange fuel fw nic url body auth_token =
     bind (fw_do fw (OpenProtocol nic HTTP_SB True)) (\<lambda>st.
     bind (guard (st = SUCCESS) ()) (\<lambda>_.
     bind (fw_new fw (CreateChild nic HTTP_SB)) (\<lambda>child.
     bind (fw_do fw (OpenProtocol (Child child) HTTP True)) (\<lambda>st.
     bind (guard (st = SUCCESS) ()) (\<lambda>_.
     bind (fw_do fw (Configure (Child child) (Some http_config))) (\<lambda>st.
     bind (guard (st = SUCCESS) ()) (\<lambda>_.
     bind (http_request fw child url body auth_token) (\<lambda>_.
     bind (http_response fuel fw child) (\<lambda>resp.
     bind (fw_do fw (CloseProtocol (Child child) HTTP)) (\<lambda>_.
     bind (fw_do fw (DestroyChild nic child)) (\<lambda>_.
     ret resp)))))))))))"

definition http_post_internal ::
    "nat \<Rightarrow> firmware \<Rightarrow> bytes \<Rightarrow> bytes \<Rightarrow> bytes option \<Rightarrow> bool \<times> bool \<Rightarrow> (trace, unit, http_post_response option \<times> bool \<times> bool) comp" where
  "http_post_internal fuel fw url body auth_token flags = (case flags of (snp_initialized, network_configured) \<Rightarrow>
     bind (find_http_nic fw snp_initialized) (\<lambda>(nic, snp'). case nic of
       None \<Rightarrow> ret (None, snp', network_configured)
     | Some nic \<Rightarrow>
         bind (configure_network fw nic network_configured) (\<lambda>configured.
         bind (attempt (http_exchange fuel fw (Controller nic) url body auth_token)) (\<lambda>resp.
         ret (resp, snp', configured)))))"

text \<open>A download: the interface is found and configured in the same way; the rest is the library's (see \<open>Http.uefi_http_get\<close>).\<close>

definition http_get_on_nic ::
    "firmware \<Rightarrow> (nat \<Rightarrow> (nat \<times> bytes) option) \<Rightarrow> (bytes \<Rightarrow> (bytes \<times> bytes) option) list \<Rightarrow> bool \<times> bool \<Rightarrow> (trace, unit, bytes option \<times> bool \<times> bool) comp" where
  "http_get_on_nic fw first calls flags = (case flags of (snp_initialized, network_configured) \<Rightarrow>
     bind (find_http_nic fw snp_initialized) (\<lambda>(nic, snp'). case nic of
       None \<Rightarrow> ret (None, snp', network_configured)
     | Some nic \<Rightarrow>
         bind (configure_network fw nic network_configured) (\<lambda>configured.
         ret (uefi_http_get (first nic) calls, snp', configured))))"

section \<open>What a POST leaves behind\<close>

fun created :: "trace \<Rightarrow> nat" where
  "created [] = 0"
| "created ((c, st) # tr) = (case c of CreateChild _ _ \<Rightarrow> if st = SUCCESS then Suc (created tr) else created tr | _ \<Rightarrow> created tr)"

definition http_frame :: "trace \<Rightarrow> nat list \<times> nat list \<times> nat" where
  "http_frame tr = (open_events tr, live_children tr, created tr)"

interpretation request: poller await_request
proof
  show "wp (await_request n fw h k) (\<lambda>_. only_polls tr) (\<lambda>_. only_polls tr) tr" for n fw h k tr
  proof (induction n arbitrary: tr)
    case (Suc n)
    show ?case by (auto intro!: wp_more_polls [OF Suc.IH] only_polls.intros)
  qed (simp add: only_polls.intros)
qed

interpretation response: poller await_response
proof
  show "wp (await_response n fw h k) (\<lambda>_. only_polls tr) (\<lambda>_. only_polls tr) tr" for n fw h k tr
  proof (induction n arbitrary: tr)
    case (Suc n)
    show ?case by (auto intro!: wp_more_polls [OF Suc.IH] only_polls.intros)
  qed (simp add: only_polls.intros)
qed

interpretation drain: waiter drain_wait
proof
  show "wp (drain_wait n fw h k) (\<lambda>_. only_polls tr) (\<lambda>_. only_polls tr) tr" for n fw h k tr
  proof (induction n arbitrary: tr)
    case (Suc n)
    show ?case by (auto intro!: wp_more_polls [OF Suc.IH] only_polls.intros)
  qed (simp add: only_polls.intros)
  show "wp (drain_wait n fw h k) (\<lambda>_ _. True) (\<lambda>_ _. False) tr" for n fw h k tr
    by (induction n arbitrary: tr) auto
qed

lemma ignores_polls_http_frame: "ignores_polls http_frame"
  by (simp add: ignores_polls_def http_frame_def)

lemmas wp_await = request.frame [OF ignores_polls_http_frame] response.frame [OF ignores_polls_http_frame] drain.wait [OF ignores_polls_http_frame]

lemma wp_http_request:
  "wp (http_request fw child url body token) (\<lambda>_ tr'. http_frame tr' = http_frame tr) (\<lambda>_ tr'. http_frame tr' = http_frame tr) tr"
proof -
  have "http_frame ((Request h u hs b, st) # tr) = http_frame tr" for h u hs b st tr by (simp add: http_frame_def)
  then show ?thesis by (auto simp: http_request_def intro!: wp_await(1))
qed

lemma wp_drain_read:
  "wp (drain_read fw child want) (\<lambda>r tr'. http_frame tr' = http_frame tr \<and> (\<forall>got. r = Some got \<longrightarrow> length got \<le> want))
     (\<lambda>_ tr'. http_frame tr' = http_frame tr) tr"
proof -
  have "http_frame ((Response h n, st) # tr) = http_frame tr" for h n st tr by (simp add: http_frame_def)
  then show ?thesis
    by (auto simp: drain_read_def written_over_def simp del: drain_wait.simps intro!: wp_await(3))
qed

text \<open>The loop: a read either moves forward or counts as idle, so that it ends; it reads as \<open>drain\<close> does and stays in the buffer.\<close>

definition drain_fuel :: "nat \<Rightarrow> nat \<Rightarrow> nat" where
  "drain_fuel room idle = room * (MAX_DRAIN_IDLE + 1) + (MAX_DRAIN_IDLE - idle)"

lemma drain_fuel_less: "idle < MAX_DRAIN_IDLE \<Longrightarrow> drain_fuel room (Suc idle) < drain_fuel room idle"
  "room' < room \<Longrightarrow> drain_fuel room' 0 < drain_fuel room idle"
proof -
  show "idle < MAX_DRAIN_IDLE \<Longrightarrow> drain_fuel room (Suc idle) < drain_fuel room idle" by (simp add: drain_fuel_def)
  assume "room' < room"
  then have "Suc room' * (MAX_DRAIN_IDLE + 1) \<le> room * (MAX_DRAIN_IDLE + 1)" by (intro mult_le_mono1) simp
  then show "drain_fuel room' 0 < drain_fuel room idle" by (simp add: drain_fuel_def)
qed

lemma wp_http_drain:
  "drain_fuel (RX_BODY_SIZE - length body) idle < fuel \<Longrightarrow> length body \<le> RX_BODY_SIZE \<Longrightarrow>
   wp (http_drain fuel fw child cl idle body)
     (\<lambda>out tr'. http_frame tr' = http_frame tr \<and> length out \<le> RX_BODY_SIZE \<and> (\<exists>answers. drain cl answers idle body = Some out))
     (\<lambda>_ tr'. http_frame tr' = http_frame tr) tr"
proof (induction fuel arbitrary: idle body tr)
  case (Suc fuel)
  let ?want = "min (RX_BODY_SIZE - length body) (cl - length body)"
  let ?Q = "\<lambda>out tr'. http_frame tr' = http_frame tr \<and> length out \<le> RX_BODY_SIZE \<and> (\<exists>answers. drain cl answers idle body = Some out)"
  have stop: "\<exists>answers. drain cl answers idle body = Some body" by (rule exI [of _ "[]"]) simp
  have idle: "wp (http_drain fuel fw child cl (Suc idle) body) ?Q (\<lambda>_ tr'. http_frame tr' = http_frame tr) tr1"
    if "http_frame tr1 = http_frame tr" "idle < MAX_DRAIN_IDLE" "length body < cl" "length body < RX_BODY_SIZE" for tr1
  proof (rule wp_conseq [OF Suc.IH])
    show "drain_fuel (RX_BODY_SIZE - length body) (Suc idle) < fuel" using Suc.prems(1) drain_fuel_less(1) [OF that(2)] by (meson less_Suc_eq_le less_le_trans)
    fix out tr' assume "http_frame tr' = http_frame tr1 \<and> length out \<le> RX_BODY_SIZE \<and> (\<exists>answers. drain cl answers (Suc idle) body = Some out)"
    moreover from this obtain answers where "drain cl answers (Suc idle) body = Some out" by blast
    with that have "drain cl (Some [] # answers) idle body = Some out" by (simp add: Let_def)
    ultimately show "?Q out tr'" using that(1) by metis
  qed (use Suc.prems that in auto)
  have progress: "wp (http_drain fuel fw child cl 0 (body @ got)) ?Q (\<lambda>_ tr'. http_frame tr' = http_frame tr) tr1"
    if "http_frame tr1 = http_frame tr" "got \<noteq> []" "length got \<le> ?want" "length body < cl" "length body < RX_BODY_SIZE" for tr1 got
  proof (rule wp_conseq [OF Suc.IH])
    have "0 < length got" using that(2) by simp
    then have "RX_BODY_SIZE - length (body @ got) < RX_BODY_SIZE - length body" using that(5) unfolding length_append by linarith
    from drain_fuel_less(2) [OF this, of idle] Suc.prems(1) show "drain_fuel (RX_BODY_SIZE - length (body @ got)) 0 < fuel" by simp
    show "length (body @ got) \<le> RX_BODY_SIZE" using that(3,5) by auto
    fix out tr' assume "http_frame tr' = http_frame tr1 \<and> length out \<le> RX_BODY_SIZE \<and> (\<exists>answers. drain cl answers 0 (body @ got) = Some out)"
    moreover from this obtain answers where "drain cl answers 0 (body @ got) = Some out" by blast
    with that(2-5) have "drain cl (Some got # answers) idle body = Some out" by (auto simp: Let_def)
    ultimately show "?Q out tr'" using that(1) by metis
  qed (use that in auto)
  show ?case
    using Suc.prems(2) stop
    by (auto intro!: wp_conseq [OF wp_drain_read] idle progress split: option.split simp: not_less Suc_le_eq simp del: drain.simps)
qed simp

text \<open>An answer of the abstract client (\<open>Http.uefi_http_response\<close>), for some headers and reads.\<close>

definition abstract_answer :: "http_post_response \<Rightarrow> bool" where
  "abstract_answer resp \<longleftrightarrow> (\<exists>headers first answers. uefi_http_response headers first answers = Some resp)"

lemma uefi_answer_bound: "length (resp_body (uefi_answer token msg_type rx_body)) \<le> length rx_body"
  by (simp add: uefi_answer_def split: option.split)

lemma wp_http_response:
  assumes "drain_fuel RX_BODY_SIZE 0 < fuel"
  shows "wp (http_response fuel fw child)
     (\<lambda>resp tr'. http_frame tr' = http_frame tr \<and> length (resp_body resp) \<le> RX_BODY_SIZE \<and> abstract_answer resp)
     (\<lambda>_ tr'. http_frame tr' = http_frame tr) tr"
proof -
  have resp: "http_frame ((Response h n, st) # tr) = http_frame tr" for h n st tr by (simp add: http_frame_def)
  let ?Q = "\<lambda>resp tr'. http_frame tr' = http_frame tr \<and> length (resp_body resp) \<le> RX_BODY_SIZE \<and> abstract_answer resp"
  have body: "wp (bind (case cl of Some cl \<Rightarrow> http_drain fuel fw child cl 0 first | None \<Rightarrow> ret first) (\<lambda>rx_body. ret (uefi_answer token msg_type rx_body)))
      ?Q (\<lambda>_ tr'. http_frame tr' = http_frame tr) tr1"
    if "http_frame tr1 = http_frame tr" "length first \<le> RX_BODY_SIZE" "fold uefi_header headers (None, None, None) = (token, msg_type, cl)"
    for tr1 cl first token msg_type headers
  proof -
    have "cl = None \<Longrightarrow> uefi_http_response headers first [] = Some (uefi_answer token msg_type first)"
      and "cl = Some n \<Longrightarrow> drain n answers 0 first = Some out \<Longrightarrow>
        uefi_http_response headers first answers = Some (uefi_answer token msg_type out)" for n answers out
      using that(3) by (simp_all add: uefi_http_response_def)
    then have none: "cl = None \<Longrightarrow> abstract_answer (uefi_answer token msg_type first)"
      and some: "cl = Some n \<Longrightarrow> drain n answers 0 first = Some out \<Longrightarrow> abstract_answer (uefi_answer token msg_type out)" for n answers out
      unfolding abstract_answer_def by blast+
    have room: "RX_BODY_SIZE - length first \<le> RX_BODY_SIZE" by simp
    then have "(RX_BODY_SIZE - length first) * (MAX_DRAIN_IDLE + 1) \<le> RX_BODY_SIZE * (MAX_DRAIN_IDLE + 1)" by (rule mult_le_mono1)
    then have fuel: "drain_fuel (RX_BODY_SIZE - length first) 0 < fuel" using assms by (simp add: drain_fuel_def)
    have small: "length (resp_body (uefi_answer token msg_type out)) \<le> RX_BODY_SIZE" if "length out \<le> RX_BODY_SIZE" for out
      using that uefi_answer_bound [of token msg_type out] by linarith
    show ?thesis
    proof (cases cl)
      case None
      with that(1) none small [OF that(2)] show ?thesis by auto
    next
      case (Some n)
      show ?thesis
        unfolding Some option.case wp_bind
        by (rule wp_conseq [OF wp_http_drain [OF fuel that(2)]]) (use that(1) small some [OF Some] in auto)
    qed
  qed
  have "length (take n (written_over RX_BODY_SIZE 0 bs)) \<le> RX_BODY_SIZE" for n bs by (simp add: written_over_def)
  note body = body [OF _ this]
  show ?thesis
    unfolding http_response_def
    by (auto simp: resp simp del: wp_bind [of "case_option _ _ _"] await_response.simps split: prod.split intro!: wp_await(2) body [unfolded wp_bind])
qed

lemma wp_http_exchange:
  assumes "drain_fuel RX_BODY_SIZE 0 < fuel"
  shows "wp (http_exchange fuel fw nic url body token)
     (\<lambda>resp tr'. open_events tr' = open_events tr \<and> live_children tr' = live_children tr \<and> length (resp_body resp) \<le> RX_BODY_SIZE \<and> abstract_answer resp)
     (\<lambda>_ tr'. open_events tr' = open_events tr \<and> length (live_children tr') + created tr = length (live_children tr) + created tr') tr"
  unfolding http_exchange_def
  by (auto simp: http_frame_def intro!: wp_conseq [OF wp_http_request] wp_conseq [OF wp_http_response [OF assms]])

text \<open>The firmware closes what the code has opened, so that no \<open>drop\<close> panics.\<close>

definition closes_protocols :: "firmware \<Rightarrow> bool" where
  "closes_protocols fw \<longleftrightarrow> (\<forall>tr h p. fw_result fw tr (CloseProtocol h p) = SUCCESS)"

lemma wp_start_snp:
  assumes "closes_protocols fw"
  shows "wp (start_snp_handles fw hs) (\<lambda>_ tr'. http_frame tr' = http_frame tr) (\<lambda>_ tr'. http_frame tr' = http_frame tr) tr"
proof (induction hs arbitrary: tr)
  case (Cons h hs)
  have "wp (start_snp_handles fw hs) (\<lambda>_ tr'. http_frame tr' = http_frame tr) (\<lambda>_ tr'. http_frame tr' = http_frame tr)
      ((OpenProtocol (Controller h) SNP True, st) # tr)" for st
    using Cons.IH [of "(OpenProtocol (Controller h) SNP True, st) # tr"] by (simp add: http_frame_def)
  then show ?case using assms by (auto simp: drop_protocol_def closes_protocols_def http_frame_def)
qed simp

lemma wp_find_http_nic:
  assumes "closes_protocols fw"
  shows "wp (find_http_nic fw snp) (\<lambda>_ tr'. http_frame tr' = http_frame tr) (\<lambda>_ _. False) tr"
proof -
  have frame: "http_frame ((LocateHandles p, st) # tr) = http_frame tr" "http_frame ((ConnectController h, st) # tr) = http_frame tr" for p h st tr
    by (simp_all add: http_frame_def)
  have start: "wp (start_snp_interface fw) (\<lambda>_ tr'. http_frame tr' = http_frame tr) (\<lambda>_ tr'. http_frame tr' = http_frame tr) tr" for tr
    unfolding start_snp_interface_def
    by (auto simp: frame split: option.split intro!: wp_conseq [OF wp_start_snp [OF assms]])
  have init: "wp (init_snp fw hs snp) (\<lambda>_ tr'. http_frame tr' = http_frame tr) (\<lambda>_ tr'. http_frame tr' = http_frame tr) tr" for hs tr
    unfolding init_snp_def connect_network_controller_def by (auto simp: frame intro!: wp_conseq [OF start])
  show ?thesis
    unfolding find_http_nic_def by (auto simp: frame split: option.split intro!: wp_conseq [OF init])
qed

lemma wp_configure_network: "wp (configure_network fw nic flag) (\<lambda>_ tr'. http_frame tr' = http_frame tr) E tr"
  by (simp add: configure_network_def http_frame_def)

lemma wp_http_post:
  assumes "closes_protocols fw" and "drain_fuel RX_BODY_SIZE 0 < fuel"
  shows "wp (http_post_internal fuel fw url body token flags)
     (\<lambda>(resp, _) tr'. case resp of
        Some r \<Rightarrow> live_children tr' = live_children tr \<and> length (resp_body r) \<le> RX_BODY_SIZE \<and> abstract_answer r
      | None \<Rightarrow> length (live_children tr') + created tr = length (live_children tr) + created tr')
     (\<lambda>_ _. False) tr"
  unfolding http_post_internal_def
  by (cases flags) (auto simp: http_frame_def split: option.split
      intro!: wp_conseq [OF wp_find_http_nic [OF assms(1)]] wp_conseq [OF wp_configure_network] wp_conseq [OF wp_http_exchange [OF assms(2)]])

text \<open>C25: a POST over the firmware's HTTP protocol always comes back, if the firmware closes the protocols that the code has opened. An answer has at
  most 128 KiB and is one that the abstract client gives, and the child handle of the request is destroyed. When there is no answer,
  every child handle that was made is still there.\<close>

theorem http_post_child_handles:
  assumes "closes_protocols fw" and "drain_fuel RX_BODY_SIZE 0 < fuel"
  shows "wp (http_post_internal fuel fw url body token flags)
     (\<lambda>(resp, _) tr'. case resp of
        Some r \<Rightarrow> live_children tr' = live_children tr \<and> length (resp_body r) \<le> RX_BODY_SIZE \<and> abstract_answer r
      | None \<Rightarrow> length (live_children tr') + created tr = length (live_children tr) + created tr')
     (\<lambda>_ _. False) tr"
  using assms by (rule wp_http_post)

definition http_fw :: "efi_status \<Rightarrow> bytes \<Rightarrow> (bytes \<times> bytes) list \<Rightarrow> firmware" where
  "http_fw configured first headers = \<lparr>fw_result = (\<lambda>_ c. case c of Configure _ _ \<Rightarrow> configured | _ \<Rightarrow> SUCCESS), fw_located = (\<lambda>_ _. Some [0]),
     fw_token = (\<lambda>_ _. None), fw_data = (\<lambda>_ _. first), fw_mac = (\<lambda>_ _. None), fw_datagram = (\<lambda>_ _. None),
     fw_headers = (\<lambda>_ _. headers), fw_body_length = (\<lambda>_ _. None)\<rparr>"

theorem http_post_child_handles_witness:
  "wp (http_post_internal (Suc (drain_fuel RX_BODY_SIZE 0)) (http_fw FAILURE [] []) (ascii ''http://10.0.0.1/'') [] None (False, False))
     (\<lambda>(resp, _) tr'. case resp of
        Some r \<Rightarrow> live_children tr' = [] \<and> length (resp_body r) \<le> RX_BODY_SIZE \<and> abstract_answer r
      | None \<Rightarrow> length (live_children tr') = created tr')
     (\<lambda>_ _. False) []"
proof -
  have "closes_protocols (http_fw FAILURE [] [])" by (simp add: closes_protocols_def http_fw_def)
  from http_post_child_handles [OF this lessI] show ?thesis by (rule wp_conseq) (auto split: option.split)
qed

text \<open>One request that the driver does not accept leaves its child behind.\<close>

lemma failed_configure_leaks:
  "case http_post_internal fuel (http_fw FAILURE [] []) url body token (True, True) [] of (r, tr') \<Rightarrow>
     r = Ret (None, True, True) \<and> length (live_children tr') = 1"
  by (simp add: http_post_internal_def find_http_nic_def init_snp_def configure_network_def http_exchange_def bind_def attempt_def fw_do_def fw_new_def
      locate_handles_def http_fw_def)

text \<open>
  A read of the rest that never completes: the length in the message is still the one that was asked for, and the bytes with which the code
  marked the buffer are taken for a part of the body.
\<close>

lemma drain_wait_None:
  assumes "\<And>tr. fw_token fw tr k = None"
  shows "\<exists>tr'. drain_wait n fw h k tr = (Ret (), tr')"
  by (induction n arbitrary: tr) (auto simp: bind_def fw_look_def fw_do_def token_status_def assms)

lemma stalled_read_taken_for_data:
  assumes "\<And>tr k. fw_token fw tr k = None" "\<And>tr k. fw_body_length fw tr k = None" "\<And>tr k. fw_data fw tr k = []"
    and "\<And>tr h n. fw_result fw tr (Response h n) = SUCCESS"
  shows "fst (drain_read fw child want tr) = Ret (Some (replicate want RX_SENTINEL))"
proof -
  obtain tr' where "drain_wait (MAX_DRAIN_IDLE + 1) fw (Child child) (length tr) ((Response (Child child) want, SUCCESS) # tr) =
      ((Ret () :: (unit, unit) outcome), tr')"
    using drain_wait_None [OF assms(1)] by blast
  then show ?thesis
    by (simp add: drain_read_def bind_def fw_look_def fw_do_def assms written_over_def del: drain_wait.simps)
qed

text \<open>The token of the first read is marked as complete beforehand, so that the first look at it ends the wait for a driver that has not started.\<close>

lemma pending_response_taken_for_complete:
  assumes "\<And>tr. fw_token fw tr k = None"
  shows "fst (await_response 3000 fw h k tr) = Ret ()"
  by (simp add: numeral_eq_Suc bind_def fw_look_def fw_do_def token_status_def assms)

end
