(* ===== verification/Transport.thy ===== *)
theory Transport
  imports Tcp4 Http_Uefi
begin

text \<open>
  The choice of a transport in \<open>src/src/http_api.rs\<close> over the firmware: the HTTP protocol of the firmware first, then HTTP over TCP. The state is
  that of the three files: the flags of \<open>http.rs\<close>, the cached interface of \<open>tcp4_http.rs\<close> and the network state of \<open>http_api.rs\<close>.
  \<open>ensure\<close> is \<open>Http.ensure_network_configured\<close> with what the firmware says of its interfaces.

  Shown: a POST comes back; its result is that of the abstract transport; after a failure it may be sent a second time.
\<close>

record transport =
  tp_flags :: "bool \<times> bool"
  tp_nic :: int
  tp_net :: net_state

definition http_post_with_session ::
    "nat \<Rightarrow> firmware \<Rightarrow> (net_state \<Rightarrow> net_state) \<Rightarrow> bytes \<Rightarrow> bytes \<Rightarrow> bytes option \<Rightarrow> transport \<Rightarrow> (trace, unit, http_post_response option \<times> transport) comp" where
  "http_post_with_session fuel fw ensure url body auth_token t =
     bind (http_post_internal fuel fw url body auth_token (tp_flags t)) (\<lambda>(result, flags). case result of
       Some resp \<Rightarrow> ret (Some resp, t\<lparr>tp_flags := flags\<rparr>)
     | None \<Rightarrow>
         let n = ensure (tp_net t) in
         bind (tcp4_post fuel fw (dhcp_succeeded n) url body auth_token (tp_nic t) (net_dns n)) (\<lambda>(result, nic, dns).
         ret (result, \<lparr>tp_flags = flags, tp_nic = nic, tp_net = n\<lparr>net_dns := dns\<rparr>\<rparr>)))"

text \<open>A build without the firmware's HTTP protocol starts the first interface that opens itself, before DHCP is set up.\<close>

definition start_first_snp :: "firmware \<Rightarrow> (trace, unit, unit) comp" where
  "start_first_snp fw =
     bind (locate_handles fw SNP) (\<lambda>hs. case hs of
       None \<Rightarrow> ret ()
     | Some snp_handles \<Rightarrow>
         bind (attempt (start_snp_handles fw snp_handles)) (\<lambda>started. case started of
           Some h \<Rightarrow> bind (connect_network_controller fw h) (\<lambda>_. ret ())
         | None \<Rightarrow> ret ()))"

section \<open>The abstract transport\<close>

lemma http_post_with_session_refines:
  assumes "http_post_with_session fuel fw ensure url body token t tr = (Ret (r, t'), tr')"
  shows "\<exists>uefi answer tr1. api_http_post ensure uefi
      (\<lambda>d. tcp4_http_post (\<lambda>_ _ _. answer) (udp_of fw tr1) url body token (d\<lparr>dns_sent := []\<rparr>)) (tp_net t) = (r, tp_net t')"
proof -
  obtain uefi flags tr1 where u: "http_post_internal fuel fw url body token (tp_flags t) tr = (Ret (uefi, flags), tr1)"
    using assms by (auto simp: http_post_with_session_def Ret_iffs)
  show ?thesis
  proof (cases uefi)
    case (Some resp)
    with u assms show ?thesis
      by (intro exI [of _ "Some resp"]) (auto simp: http_post_with_session_def bind_def api_http_post_def api_transport_def)
  next
    case None
    define n where "n = ensure (tp_net t)"
    obtain nic dns where p: "tcp4_post fuel fw (dhcp_succeeded n) url body token (tp_nic t) (net_dns n) tr1 = (Ret (r, nic, dns), tr')"
        "t' = \<lparr>tp_flags = flags, tp_nic = nic, tp_net = n\<lparr>net_dns := dns\<rparr>\<rparr>"
      using u None assms by (auto simp: http_post_with_session_def Ret_iffs n_def Let_def)
    obtain answer where "tcp4_http_post (\<lambda>_ _ _. answer) (udp_of fw tr1) url body token (net_dns n\<lparr>dns_sent := []\<rparr>) = (r, dns)"
      using tcp4_post_abstract [OF p(1)] by blast
    with p(2) show ?thesis
      by (intro exI [of _ None] exI [of _ answer] exI [of _ tr1]) (simp add: api_http_post_def api_transport_def n_def)
  qed
qed

text \<open>C24: a POST comes back, with an answer or without, whichever transport it takes, if the firmware closes the protocols that the code has opened and
  its TCP driver delivers at least one byte with every receive, and no more than there is room for.\<close>

theorem http_post_with_session_returns:
  assumes "closes_protocols fw" and "fills_buffers fw" and "drain_fuel RX_BODY_SIZE 0 < fuel" and "MAX_RESPONSE_BYTES + 2 \<le> fuel"
  shows "\<exists>r t' tr'. http_post_with_session fuel fw ensure url body token t tr = (Ret (r, t'), tr')"
proof -
  have "wp (http_post_with_session fuel fw ensure url body token t) (\<lambda>_ _. True) (\<lambda>_ _. False) tr"
    unfolding http_post_with_session_def Let_def
    by (auto split: option.split intro!: wp_conseq [OF wp_http_post [OF assms(1,3)]] wp_conseq [OF safe_tcp4_post [OF assms(2,4)]])
  then show ?thesis
    by (cases "http_post_with_session fuel fw ensure url body token t tr") (auto simp: wp_def split: outcome.splits)
qed

definition sample_transport :: transport where
  "sample_transport = \<lparr>tp_flags = (True, True), tp_nic = -1, tp_net = \<lparr>tcp4_net_init = True, dhcp_succeeded = True, net_dns = start_dns\<rparr>\<rparr>"

lemma sample_closes: "closes_protocols (sample_fw answer)"
  by (simp add: closes_protocols_def sample_fw_def)

theorem http_post_with_session_returns_witness:
  "\<exists>r t' tr'. http_post_with_session (drain_fuel RX_BODY_SIZE 0 + MAX_RESPONSE_BYTES + 2) (sample_fw [0x48]) id (ascii ''http://10.0.0.1:8080/fdo'') [0x80] None
     sample_transport [] = (Ret (r, t'), tr')"
  by (rule http_post_with_session_returns [OF sample_closes sample_fills]) simp_all

section \<open>A second POST\<close>

text \<open>
  A firmware whose HTTP protocol sends the request and then fails to read the answer. The comment says that TCP is for firmware without that protocol;
  the code goes on to it after every failure, and the request goes out again.
\<close>

definition half_fw :: "bytes \<Rightarrow> firmware" where
  "half_fw answer = (sample_fw answer)\<lparr>fw_result := (\<lambda>_ c. case c of Response _ _ \<Rightarrow> FAILURE | _ \<Rightarrow> SUCCESS),
     fw_token := (\<lambda>tr _. Some (if (CreateEvent, SUCCESS) \<in> set tr then SUCCESS else FAILURE))\<rparr>"

lemma half_serves_tcp: "serves_tcp (half_fw answer) answer"
  by (auto simp: serves_tcp_def half_fw_def sample_fw_def split: fw_call.split)

lemma post_sent_twice:
  fixes url :: bytes
  defines "url \<equiv> ascii ''http://10.0.0.1:8080/fdo''"
  shows "\<exists>t' tr'. http_post_with_session 1 (half_fw (sample_headers @ [1, 2, 3])) id url [0x80] None sample_transport [] =
     (Ret (Some \<lparr>resp_body = [1, 2, 3], resp_auth_token = None, resp_message_type = Some 61\<rparr>, t'), tr') \<and>
   (\<exists>k. (Request (Child k) url (request_headers url [0x80] None) [0x80], SUCCESS) \<in> set tr') \<and>
   transmitted tr' = [post_request (ascii ''/fdo'') (url_hostname url) None [0x80]]"
proof -
  let ?fw = "half_fw (sample_headers @ [1, 2, 3])"
  have fw: "fw_result ?fw tr c = (case c of Response _ _ \<Rightarrow> FAILURE | _ \<Rightarrow> SUCCESS)" "fw_located ?fw tr p = Some [0]"
    "fw_token ?fw tr k = Some (if (CreateEvent, SUCCESS) \<in> set tr then SUCCESS else FAILURE)" for tr c p k
    by (simp_all add: half_fw_def sample_fw_def)
  have url: "ucs2_string url" by (simp add: url_def ucs2_string_def ascii_def)
  obtain tr1 k where u: "http_post_internal 1 ?fw url [0x80] None (True, True) [] = (Ret (None, True, True), tr1)"
      "(Request (Child k) url (request_headers url [0x80] None) [0x80], SUCCESS) \<in> set tr1" "transmitted tr1 = []"
    by (simp add: http_post_internal_def find_http_nic_def init_snp_def configure_network_def http_exchange_def http_request_def http_response_def
        bind_def attempt_def fw_do_def fw_new_def fw_look_def locate_handles_def token_status_def fw url numeral_eq_Suc)
  have "length (sample_headers @ [1, 2, 3]) \<le> 131072" using sample_answer(2) by simp
  from sample_request [OF half_serves_tcp sample_answer(1) this, of 0 True "[10, 0, 0, 1]" 8080 "post_request (ascii ''/fdo'') (url_hostname url) None [0x80]" tr1]
  obtain tr' where r: "tcp4_request 1 ?fw True 65536 131072 [10, 0, 0, 1] 8080 (post_request (ascii ''/fdo'') (url_hostname url) None [0x80]) (-1) tr1 =
      (Ret (Some (sample_headers @ [1, 2, 3]), 0), tr')" "transmitted tr' = [post_request (ascii ''/fdo'') (url_hostname url) None [0x80]]" "set tr1 \<subseteq> set tr'"
    using u(3) by auto
  have s: "start_dns\<lparr>dns_sent := []\<rparr> = start_dns" "dns_sent start_dns = []" by (simp_all add: start_dns_def)
  have "tcp4_post 1 ?fw True url [0x80] None (-1) start_dns tr1 =
      (Ret (Some \<lparr>resp_body = [1, 2, 3], resp_auth_token = None, resp_message_type = Some 61\<rparr>, 0, start_dns), tr')"
    using r(1) by (simp add: tcp4_post_def parse_url_fw_def s url_def sample_url bind_def sample_answer(3) udp_replay_def)
  with u(1) r(2,3) u(2) show ?thesis
    by (auto simp: http_post_with_session_def bind_def sample_transport_def)
qed

end
