(* ===== verification/Spec2Isabelle.thy ===== *)
theory Spec2Isabelle
  imports To2_Errors Entry Transport
begin

text \<open>
  This development verifies the FDO client for UEFI, a Rust program in \<open>src/src/\<close> that onboards a machine over the
  network before an operating system is installed: it proves its identity to an Owner, checks the Owner's right to the
  machine, receives a boot image and starts it.

  \<^bold>\<open>The program and the theories.\<close> A theory models a source file or a part of one; its definitions have the names of the functions they
  translate, and come in the order of the source.

  \<^item> \<open>Prelude\<close>, \<open>Cbor\<close>: no source. Bytes, the results a Rust function can have, computations over a state and their weakest
    preconditions; CBOR items and their shortest encoding, with the interfaces \<open>arg_reader\<close> and \<open>item_skipper\<close> that the seven CBOR readers
    of the program are shown to implement.
  \<^item> \<open>Cose_Cbor\<close>, \<open>Cose\<close>, \<open>Artifact\<close>: \<open>cose.rs\<close>, the readers, the COSE_Sign1 envelope with its signature structure, and who may sign
    provisioning artifacts and meta-payloads within which scope.
  \<^item> \<open>Der\<close>, \<open>X509\<close>, \<open>Delegate\<close>: \<open>delegate.rs\<close>, from DER over certificates to chains of delegates below the Owner key.
  \<^item> \<open>Voucher\<close>: \<open>voucher.rs\<close>, the Ownership Voucher, a chain of entries from the manufacturer to the Owner.
  \<^item> \<open>Fdo_Cbor\<close>, \<open>Fdo_Session\<close>, \<open>Fdo_Msg\<close>, \<open>Device_Env\<close>, \<open>To2\<close>: \<open>fdo.rs\<close>, the encoder and decoder, the session
    keys and the encryption, the messages, and the drivers \<open>perform_to1\<close> and \<open>perform_to2\<close> over an environment. \<open>Owner_Msg\<close>, \<open>To2_Security\<close>
    and \<open>To2_Errors\<close> hold what is shown of them.
  \<^item> \<open>Chunking\<close>, \<open>Bmo\<close>: \<open>chunking.rs\<close> and \<open>bmo.rs\<close>, the module that receives the boot image, a state machine with inline,
    URL and meta-URL delivery.
  \<^item> \<open>Tpm\<close>, \<open>Dctpm\<close>, \<open>Tpm_Cred\<close>: \<open>tpm.rs\<close>, \<open>dctpm.rs\<close> and \<open>tpm_policy.rs\<close>, the commands to the TPM and the credentials in it.
  \<^item> \<open>Rv_Parse\<close>, \<open>Fw_Verify\<close>, \<open>Anti_Rollback\<close>: \<open>rv_firmware/\<close>, the delivery of firmware before onboarding, with a signature of the
    platform key and a revision that only grows.
  \<^item> \<open>Di_Codec\<close>, \<open>Di\<close>: \<open>di/\<close>, device initialisation at the factory.
  \<^item> \<open>Dns\<close>, \<open>Http\<close>: \<open>dns.rs\<close>, \<open>tcp4_http.rs\<close>, \<open>http.rs\<close>, \<open>http_api.rs\<close>, what the network clients do above the firmware's protocols:
    packets, names, URLs, requests and answers.
  \<^item> \<open>Firmware\<close>, \<open>Udp4\<close>, \<open>Tcp4\<close>, \<open>Http_Uefi\<close>, \<open>Transport\<close>: the same files down to the calls of the firmware, with their child handles, events,
    tokens and polling loops. \<open>Firmware\<close> has the calls and what a trace of them still holds; \<open>Udp4\<close> is the transport of \<open>Dns\<close>,
    \<open>Tcp4\<close> and \<open>Http_Uefi\<close> the two clients, \<open>Transport\<close> the choice between them.
  \<^item> \<open>Chainload\<close>, \<open>Entry\<close>: \<open>chainload.rs\<close> and \<open>main.rs\<close>, the start of an image and the order of the parts.

  \<^bold>\<open>How the program is modelled.\<close> A result is an \<open>outcome\<close>: a value, an error, a panic (of an index, a slice or an
  allocation larger than a vector can be) or a recursion without end. \<open>None\<close> of an \<open>Option\<close> is the error \<open>()\<close>. Code
  that threads a position or a history is a computation over that state (\<open>comp\<close>): the position of a parser, the commands sent to the
  TPM, the events of a protocol run. Integers are natural numbers where the source guards them; where a sum can leave 64 bits
  it wraps as in a release build (\<open>usz\<close>), casts to narrower types are written out, and the counter of the session is a word of
  64 bits, that of the DNS queries one of 16. Encoders return the bytes they append. Structs are records, enums datatypes.

  \<^bold>\<open>What is a parameter.\<close> Cryptography (the record \<open>crypto\<close>: SHA-256 and ECDSA verification; the record \<open>aead\<close>: AES-GCM, HMAC) is not
  part of the sources, and is given by functions of which only what a theorem names is assumed. The world is given by functions of the
  history, so that no answer need be honest or repeatable: \<open>device_env\<close> for TO1 and TO2, \<open>tcg2\<close> for the TPM, \<open>di_server\<close>,
  \<open>firmware\<close> for the network, \<open>boot_services\<close> for the start of an image, and \<open>parts\<close> for the whole program. Where a theorem needs a TPM that stores what is
  written to it, that is the hypothesis \<open>nv_device\<close>, shown to hold of a concrete TPM; where it needs a driver that fills its buffers or closes
  protocols, \<open>fills_buffers\<close> and \<open>closes_protocols\<close>; where it needs a server, \<open>serves\<close> or an Owner that
  follows the protocol, again with a concrete instance.

  \<^bold>\<open>What is shown.\<close>
  \<^item> Vouchers and delegates: verification accepts exactly what a declarative description of a chain accepts; accepted entries
    are determined by the last one; every check is needed, and no input makes it panic or run forever.
  \<^item> Signatures: what is signed is determined by the bytes hashed, and messages of different kinds are separated; a signed artifact is
    accepted only from the Owner or a delegate with the right permission, within its scope.
  \<^item> Onboarding: the device gives nothing away and starts nothing before the Owner is authenticated; IVs are distinct; an image that is started
    was provisioned through a complete session with its hash and authority checked; a failed exchange ends the run; the loop over the
    service information ends; a run against a conforming Owner completes. The signature of the Owner can be detached from the
    payload that is used (\<open>replayed_signature_authenticates\<close>), which limits the authentication to what \<open>authenticated\<close> says.
  \<^item> Credentials: what initialisation stores is what the other protocols read, before and after the firmware revision is raised;
    nothing is stored before the manufacturer acknowledged it; revisions refine a counter that only grows.
  \<^item> Network: names are resolved as the zone says, the cache stays bounded and true; answers are put together independently of their pieces.
    The clients over the firmware refine those above it; a request over TCP gives back its events and child handles on every path
    and is sent once at most, a DNS query gives back its child but not its events, a POST over the firmware's HTTP protocol its child only when there is an
    answer; a POST comes back.
  \<^item> Start of an image: only behind the checks of its headers, between two watchdogs, with the interfaces that were disconnected connected again.
  \<^item> Round trips of the encoders and decoders of every message format the program both writes and reads, and totality of the parsers, or
    the inputs on which they panic or diverge.

  \<^bold>\<open>Interfaces.\<close> The CBOR readers of \<open>cose.rs\<close>, \<open>fdo.rs\<close>, \<open>tpm.rs\<close>, \<open>dctpm.rs\<close>, \<open>rv_parse.rs\<close>, \<open>cose_verify.rs\<close> and
  \<open>protocol.rs\<close> are different functions for the same format. The locales of \<open>Cbor\<close> state what such a reader and skipper promise on encoded items; each
  is interpreted on the functions of its theory, and the lemmas about encoded input rest on the interpretations. The loops that wait for the
  firmware share the contracts \<open>poller\<close> and \<open>waiter\<close> of \<open>Firmware\<close>, that they only poll, with five interpretations.

  \<^bold>\<open>Fuel.\<close> Recursive skippers take fuel, one more than the length of the input: every call moves the position forward, so that
  enough is proved and not assumed, except in the skippers that add unchecked lengths, which can go backwards and whose
  divergence is a theorem. The loop of the service information has the bound of the source, 100000 rounds; the loops over DNS labels are
  recursive functions with a termination proof from the bound of 64 pointers. The loops that receive an answer have fuel: over TCP 512 MiB and two
  rounds are enough for a driver that delivers something with every receive, over the firmware's HTTP protocol 50001 rounds for each byte of the
  buffer are enough for every driver (\<open>drain_fuel\<close>).

  \<^bold>\<open>Not modelled.\<close> Logging, delays and the texts of errors; failing allocations; the panic handler, which reboots, beyond the outcome
  \<open>Panic\<close>; \<open>tpm_is_present\<close>, the self tests and the unit tests. The code of the libraries that the sources call (\<open>uefi\<close>, among it the helper for a
  GET over the firmware's HTTP protocol, and the cryptography) is a parameter, as is what the firmware says when DHCP is set up.
\<close>

end
